(* ===== verification/Prelude.thy ===== *)
theory Prelude
  imports Complex_Main "HOL-Library.List_Lexorder" "HOL-Library.Word"
begin

section \<open>Prelude: effects, dictionaries and shared lemmas\<close>

text \<open>
  What every component of the development shares:
  \<^item> the effect of Python code, as a state-and-exception computation. A raised exception
    keeps the state reached so far, as Python does: nothing is undone unless a database
    transaction rolls it back;
  \<^item> a calculus for facts about whole computations (\<open>run_rel\<close>): a reflexive and transitive
    relation between the state before and the state after that every primitive respects is
    respected by every composition of them;
  \<^item> Python dictionaries as association lists in insertion order.
\<close>

named_theorems py_defs \<open>unfolding equations of the effect combinators\<close>
named_theorems op_defs \<open>unfolding equations of the model's operations\<close>

subsection \<open>Exceptions and computations\<close>

text \<open>
  The exceptions of the program. \<open>Programming_Error\<close> is \<open>sqlite3.ProgrammingError\<close> (a parameter of
  a type that cannot be bound); the last five are raised by the client only.
\<close>

datatype exn =
    Attribute_Error
  | Type_Error
  | Value_Error
  | Index_Error
  | Overflow_Error
  | Unicode_Encode_Error
  | Programming_Error
  | Not_Connected
  | Timeout_Error
  | Connection_Error
  | Illegal_Event
  | Decryption_Failed

type_synonym ('s, 'a) py = "'s \<Rightarrow> (exn + 'a) \<times> 's"

definition ret :: "'a \<Rightarrow> ('s, 'a) py" where
  "ret x = (\<lambda>s. (Inr x, s))"

definition raise :: "exn \<Rightarrow> ('s, 'a) py" where
  "raise e = (\<lambda>s. (Inl e, s))"

definition bnd :: "('s, 'a) py \<Rightarrow> ('a \<Rightarrow> ('s, 'b) py) \<Rightarrow> ('s, 'b) py" where
  "bnd m f = (\<lambda>s. case m s of (Inl e, s') \<Rightarrow> (Inl e, s') | (Inr x, s') \<Rightarrow> f x s')"

definition andthen :: "('s, 'a) py \<Rightarrow> ('s, 'b) py \<Rightarrow> ('s, 'b) py" where
  "andthen m k = bnd m (\<lambda>_. k)"

definition gets :: "('s \<Rightarrow> 'a) \<Rightarrow> ('s, 'a) py" where
  "gets f = (\<lambda>s. (Inr (f s), s))"

definition modify :: "('s \<Rightarrow> 's) \<Rightarrow> ('s, unit) py" where
  "modify f = (\<lambda>s. (Inr (), f s))"

definition lift :: "exn + 'a \<Rightarrow> ('s, 'a) py" where
  "lift r = (\<lambda>s. (r, s))"

text \<open>\<open>try ... except\<close>: the handler gets the exception and the state it was raised in.\<close>

definition rescue :: "('s, 'a) py \<Rightarrow> (exn \<Rightarrow> ('s, 'a) py) \<Rightarrow> ('s, 'a) py" where
  "rescue m h = (\<lambda>s. case m s of (Inl e, s') \<Rightarrow> h e s' | (Inr x, s') \<Rightarrow> (Inr x, s'))"

fun for_each :: "'a list \<Rightarrow> ('a \<Rightarrow> ('s, unit) py) \<Rightarrow> ('s, unit) py" where
  "for_each [] f = ret ()"
| "for_each (x # xs) f = andthen (f x) (for_each xs f)"

fun map_each :: "'a list \<Rightarrow> ('a \<Rightarrow> ('s, 'b) py) \<Rightarrow> ('s, 'b list) py" where
  "map_each [] f = ret []"
| "map_each (x # xs) f = bnd (f x) (\<lambda>y. bnd (map_each xs f) (\<lambda>ys. ret (y # ys)))"

text \<open>The final state of a computation, whether it returned or raised.\<close>

abbreviation after :: "('s, 'a) py \<Rightarrow> 's \<Rightarrow> 's" where
  "after m s \<equiv> snd (m s)"

abbreviation outcome :: "('s, 'a) py \<Rightarrow> 's \<Rightarrow> exn + 'a" where
  "outcome m s \<equiv> fst (m s)"

declare ret_def [py_defs] raise_def [py_defs] bnd_def [py_defs] andthen_def [py_defs] rescue_def [py_defs]
  gets_def [py_defs] modify_def [py_defs] lift_def [py_defs]

lemma ret_run [simp]: "ret x s = (Inr x, s)"
  by (simp add: ret_def)

lemma raise_run [simp]: "raise e s = (Inl e, s)"
  by (simp add: raise_def)

lemma gets_run [simp]: "gets f s = (Inr (f s), s)"
  by (simp add: gets_def)

lemma modify_run [simp]: "modify f s = (Inr (), f s)"
  by (simp add: modify_def)

lemma lift_run [simp]: "lift r s = (r, s)"
  by (simp add: lift_def)

lemma bnd_Inr: "m s = (Inr x, s') \<Longrightarrow> bnd m f s = f x s'"
  by (simp add: bnd_def)

lemma bnd_Inl: "m s = (Inl e, s') \<Longrightarrow> bnd m f s = (Inl e, s')"
  by (simp add: bnd_def)

lemma rescue_Inr: "m s = (Inr x, s') \<Longrightarrow> rescue m h s = (Inr x, s')"
  by (simp add: rescue_def)

lemma rescue_Inl: "m s = (Inl e, s') \<Longrightarrow> rescue m h s = h e s'"
  by (simp add: rescue_def)

lemma andthen_Inr: "m s = (Inr x, s') \<Longrightarrow> andthen m k s = k s'"
  by (simp add: andthen_def bnd_def)

lemma andthen_Inl: "m s = (Inl e, s') \<Longrightarrow> andthen m k s = (Inl e, s')"
  by (simp add: andthen_def bnd_def)

text \<open>The simplifier writes \<open>ret x\<close> as \<open>Pair (Inr x)\<close>, and \<open>raise\<close> and \<open>lift\<close> alike.\<close>

lemma bnd_simps [simp]:
  "bnd (Pair (Inr x)) f = f x"
  "bnd (Pair (Inl e)) f = Pair (Inl e)"
  "bnd (gets g) f s = f (g s) s"
  "bnd (modify h) k s = k () (h s)"
  by (simp_all add: py_defs fun_eq_iff)

lemma bnd_lift [simp]: "bnd (lift (Inr x)) k = k x"
  by (simp add: fun_eq_iff bnd_def)

lemma bnd_assoc: "bnd (bnd m f) g = bnd m (\<lambda>x. bnd (f x) g)"
  by (rule ext) (simp add: bnd_def split: prod.split sum.split)

lemma for_each_append: "for_each (xs @ ys) f = andthen (for_each xs f) (for_each ys f)"
  by (induction xs) (simp_all add: andthen_def bnd_assoc)

lemma andthen_simps [simp]:
  "andthen (Pair (Inr x)) k = k"
  "andthen (Pair (Inl e)) k = Pair (Inl e)"
  "andthen (modify h) k s = k (h s)"
  by (simp_all add: andthen_def)

subsection \<open>Facts about whole computations\<close>

text \<open>
  A property of a handler is proved once per primitive and then carried through the
  handler's structure. \<open>R\<close> relates the state before to the state after; an invariant \<open>I\<close>
  is the relation "\<open>I\<close> before implies \<open>I\<close> after".
\<close>

definition runs_in :: "('s \<Rightarrow> 's \<Rightarrow> bool) \<Rightarrow> ('s, 'a) py \<Rightarrow> bool" where
  "runs_in R m \<longleftrightarrow> (\<forall>s. R s (after m s))"

locale run_rel =
  fixes R :: "'s \<Rightarrow> 's \<Rightarrow> bool"
  assumes R_refl: "R s s"
    and R_trans: "R s t \<Longrightarrow> R t w \<Longrightarrow> R s w"
begin

lemma runs_pure:
  "runs_in R (ret x)" "runs_in R (raise e)" "runs_in R (gets f)" "runs_in R (lift r)"
  "runs_in R (Pair r)"
  by (auto simp: runs_in_def R_refl)

lemma runs_bnd:
  assumes "runs_in R m" and "\<And>x. runs_in R (f x)"
  shows "runs_in R (bnd m f)"
  unfolding runs_in_def
proof
  fix s
  obtain r s' where m: "m s = (r, s')" by (cases "m s")
  with assms(1) have "R s s'" by (metis runs_in_def snd_conv)
  with assms(2) m show "R s (after (bnd m f) s)"
    by (cases r) (auto simp: bnd_def runs_in_def intro: R_trans)
qed

lemma runs_andthen: "runs_in R m \<Longrightarrow> runs_in R k \<Longrightarrow> runs_in R (andthen m k)"
  by (simp add: andthen_def runs_bnd)

lemma runs_for_each: "(\<And>x. x \<in> set xs \<Longrightarrow> runs_in R (f x)) \<Longrightarrow> runs_in R (for_each xs f)"
  by (induction xs) (auto intro: runs_pure runs_andthen)

lemma runs_map_each: "(\<And>x. x \<in> set xs \<Longrightarrow> runs_in R (f x)) \<Longrightarrow> runs_in R (map_each xs f)"
  by (induction xs) (auto intro!: runs_pure runs_bnd)

lemma runs_rescue:
  assumes "runs_in R m" and "\<And>e. runs_in R (h e)"
  shows "runs_in R (rescue m h)"
  unfolding runs_in_def
proof
  fix s
  obtain r s' where m: "m s = (r, s')" by (cases "m s")
  with assms(1) have "R s s'" by (metis runs_in_def snd_conv)
  with assms(2) m show "R s (after (rescue m h) s)"
    by (cases r) (auto simp: rescue_def runs_in_def intro: R_trans)
qed

lemma runs_if: "runs_in R m \<Longrightarrow> runs_in R k \<Longrightarrow> runs_in R (if b then m else k)"
  by simp

lemma runs_option:
  "runs_in R m \<Longrightarrow> (\<And>x. runs_in R (f x)) \<Longrightarrow>
   runs_in R (case z of None \<Rightarrow> m | Some x \<Rightarrow> f x)"
  by (cases z) auto

text \<open>A check followed by a write: the write may rely on what the check saw.\<close>

lemma runs_check: "(\<And>s. R s (after (f (g s)) s)) \<Longrightarrow> runs_in R (bnd (gets g) f)"
  by (simp add: runs_in_def)

lemma runs_lift: "(\<And>y. r = Inr y \<Longrightarrow> runs_in R (f y)) \<Longrightarrow> runs_in R (bnd (lift r) f)"
  by (cases r) (auto simp: runs_in_def bnd_def R_refl)

lemmas runs_rules =
  runs_pure runs_bnd runs_andthen runs_for_each runs_map_each runs_if runs_option runs_rescue

end

text \<open>Every invariant is such a relation.\<close>

definition keeps :: "('s \<Rightarrow> bool) \<Rightarrow> 's \<Rightarrow> 's \<Rightarrow> bool" where
  "keeps I s t \<longleftrightarrow> (I s \<longrightarrow> I t)"

lemma keepsD: "runs_in (keeps I) m \<Longrightarrow> I s \<Longrightarrow> I (after m s)"
  by (simp add: runs_in_def keeps_def)

lemma keepsI: "(\<And>s. I s \<Longrightarrow> I (after m s)) \<Longrightarrow> runs_in (keeps I) m"
  by (simp add: runs_in_def keeps_def)

lemma runs_inD: "runs_in R m \<Longrightarrow> m s = (r, s') \<Longrightarrow> R s s'"
  by (metis runs_in_def snd_conv)

lemma runs_at: "runs_in R m \<Longrightarrow> R s (after m s)"
  by (simp add: runs_in_def)

lemma runs_in_modify: "runs_in R (modify f) \<longleftrightarrow> (\<forall>s. R s (f s))"
  by (simp add: runs_in_def)

subsection \<open>Dictionaries\<close>

text \<open>
  A Python \<open>dict\<close> keeps insertion order, which the program shows (the order frames are
  serialised in, the order presence is announced in). Assigning to a key that is present
  keeps its place.
\<close>

type_synonym ('k, 'v) dict = "('k \<times> 'v) list"

definition dict_get :: "('k, 'v) dict \<Rightarrow> 'k \<Rightarrow> 'v option" where
  "dict_get d k = map_of d k"

fun dict_set :: "('k, 'v) dict \<Rightarrow> 'k \<Rightarrow> 'v \<Rightarrow> ('k, 'v) dict" where
  "dict_set [] k v = [(k, v)]"
| "dict_set ((k', v') # d) k v = (if k' = k then (k, v) # d else (k', v') # dict_set d k v)"

definition dict_pop :: "('k, 'v) dict \<Rightarrow> 'k \<Rightarrow> ('k, 'v) dict" where
  "dict_pop d k = filter (\<lambda>(k', _). k' \<noteq> k) d"

definition dict_keys :: "('k, 'v) dict \<Rightarrow> 'k list" where
  "dict_keys d = map fst d"

abbreviation dict_wf :: "('k, 'v) dict \<Rightarrow> bool" where
  "dict_wf d \<equiv> distinct (map fst d)"

text \<open>A dict built from a list of pairs: a later pair replaces the value, not the place.\<close>

definition dict_of :: "('k \<times> 'v) list \<Rightarrow> ('k, 'v) dict" where
  "dict_of ps = foldl (\<lambda>d (k, v). dict_set d k v) [] ps"

lemma dict_get_simps [simp]:
  "dict_get [] k = None"
  "dict_get ((k', v) # d) k = (if k' = k then Some v else dict_get d k)"
  by (simp_all add: dict_get_def)

lemma dict_get_set [simp]: "dict_get (dict_set d k v) k' = (if k' = k then Some v else dict_get d k')"
  by (induction d k v rule: dict_set.induct) auto

lemma dict_keys_set: "map fst (dict_set d k v) = (if k \<in> set (map fst d) then map fst d else map fst d @ [k])"
  by (induction d k v rule: dict_set.induct) auto

lemma dict_set_keys: "fst ` set (dict_set d k v) = insert k (fst ` set d)"
  using arg_cong [OF dict_keys_set [of d k v], of set] by (auto split: if_splits)

lemma dict_set_same: "dict_get d k = Some v \<Longrightarrow> dict_set d k v = d"
  by (induction d) auto

lemma dict_set_twice: "dict_set (dict_set d k v) k w = dict_set d k w"
  by (induction d) auto

lemma dict_wf_set [simp]: "dict_wf d \<Longrightarrow> dict_wf (dict_set d k v)"
  by (simp add: dict_keys_set)

lemma dict_get_pop [simp]: "dict_get (dict_pop d k) k' = (if k' = k then None else dict_get d k')"
  by (induction d) (auto simp: dict_pop_def)

lemma dict_wf_pop [simp]: "dict_wf d \<Longrightarrow> dict_wf (dict_pop d k)"
  by (simp add: dict_pop_def distinct_map_filter)

lemma dict_get_None_iff: "dict_get d k = None \<longleftrightarrow> k \<notin> set (map fst d)"
  by (simp add: dict_get_def map_of_eq_None_iff)

lemma dict_get_Some_mem: "dict_get d k = Some v \<Longrightarrow> (k, v) \<in> set d"
  by (simp add: dict_get_def map_of_SomeD)

lemma dict_get_mem: "dict_wf d \<Longrightarrow> (k, v) \<in> set d \<Longrightarrow> dict_get d k = Some v"
  by (simp add: dict_get_def)

lemma dict_set_new: "k \<notin> set (map fst d) \<Longrightarrow> dict_set d k v = d @ [(k, v)]"
  by (induction d k v rule: dict_set.induct) auto

lemma dict_of_append:
  assumes "dict_wf (ps @ qs)"
  shows "foldl (\<lambda>d (k, v). dict_set d k v) ps qs = ps @ qs"
  using assms
proof (induction qs arbitrary: ps)
  case (Cons q qs)
  obtain k v where q: "q = (k, v)" by (cases q)
  from Cons.prems q have "dict_set ps k v = ps @ [(k, v)]"
    by (auto intro!: dict_set_new)
  with Cons.IH [of "ps @ [(k, v)]"] Cons.prems q show ?case by simp
qed simp

lemma dict_of_id: "dict_wf ps \<Longrightarrow> dict_of ps = ps"
  unfolding dict_of_def using dict_of_append [of "[]" ps] by simp

lemma dict_wf_foldl: "dict_wf d \<Longrightarrow> dict_wf (foldl (\<lambda>d (k, v). dict_set d k v) d ps)"
  by (induction ps arbitrary: d) (auto split: prod.split)

lemma dict_wf_of [simp]: "dict_wf (dict_of ps)"
  unfolding dict_of_def by (rule dict_wf_foldl) simp

subsection \<open>Lists\<close>

lemma takeWhile_append_stop: "\<forall>x\<in>set xs. P x \<Longrightarrow> \<not> P y \<Longrightarrow> takeWhile P (xs @ y # ys) = xs"
  by (simp add: takeWhile_append2)

lemma dropWhile_append_stop: "\<forall>x\<in>set xs. P x \<Longrightarrow> \<not> P y \<Longrightarrow> dropWhile P (xs @ y # ys) = y # ys"
  by (simp add: dropWhile_append2)

lemma find_append: "find P (xs @ ys) = (case find P xs of None \<Rightarrow> find P ys | Some x \<Rightarrow> Some x)"
  by (induction xs) auto

lemma find_unique: "x \<in> set xs \<Longrightarrow> P x \<Longrightarrow> (\<And>y. y \<in> set xs \<Longrightarrow> P y \<Longrightarrow> y = x) \<Longrightarrow> find P xs = Some x"
proof (induction xs)
  case (Cons y ys)
  show ?case
  proof (cases "P y")
    case True
    then have "y = x" by (rule Cons.prems(3) [of y, simplified])
    with True show ?thesis by simp
  next
    case False
    then have "x \<in> set ys" using Cons.prems(1,2) by auto
    then have "find P ys = Some x" using Cons.prems(2,3) by (intro Cons.IH) simp_all
    with False show ?thesis by simp
  qed
qed simp

lemma list_all2_right: "list_all2 P xs ys \<Longrightarrow> y \<in> set ys \<Longrightarrow> \<exists>x\<in>set xs. P x y"
  by (induction rule: list_all2_induct) auto

end
