(* ===== verification/PyValue.thy ===== *)
theory PyValue
  imports Prelude
begin

section \<open>Python strings and values\<close>

text \<open>
  A Python \<open>str\<close> is its list of code points, so \<open>len\<close>, slicing and comparison are those of
  the language; a literal \<open>''abc''\<close> of the source is \<open>u ''abc''\<close>. A value that came out of
  \<open>json.loads\<close> is a \<open>pyval\<close>: the protocol's decoder does not check the types of most
  fields, so the server really does meet numbers and lists where it expects names.

  A float is kept as the text of its JSON literal; arithmetic on it (its truth value, its
  comparison with an integer, its integer part) is that of the decimal number it denotes,
  without binary rounding. No field of the protocol is a float.
\<close>

type_synonym ustr = "nat list"
type_synonym byte = "8 word"

definition u :: "string \<Rightarrow> ustr" where
  "u s = map of_char s"

lemma u_eq_iff [simp]: "u a = u b \<longleftrightarrow> a = b"
  by (simp add: u_def inj_map_eq_map inj_def)

lemma u_append [simp]: "u (a @ b) = u a @ u b"
  by (simp add: u_def)

lemma u_Nil_iff [simp]: "u a = [] \<longleftrightarrow> a = []" "[] = u a \<longleftrightarrow> a = []"
  by (auto simp: u_def)

lemma length_u [simp]: "length (u a) = length a"
  by (simp add: u_def)

definition startswith :: "ustr \<Rightarrow> ustr \<Rightarrow> bool" where
  "startswith s p \<longleftrightarrow> take (length p) s = p"

lemma startswith_u [simp]: "startswith (u s) (u p) \<longleftrightarrow> take (length p) s = p"
  by (simp add: startswith_def u_def take_map inj_map_eq_map inj_def)

text \<open>The code points for which \<open>str.isspace\<close> is true.\<close>

definition is_space :: "nat \<Rightarrow> bool" where
  "is_space c \<longleftrightarrow> 9 \<le> c \<and> c \<le> 13 \<or> 28 \<le> c \<and> c \<le> 32 \<or> c = 133 \<or> c = 160 \<or> c = 5760
     \<or> 8192 \<le> c \<and> c \<le> 8202 \<or> c = 8232 \<or> c = 8233 \<or> c = 8239 \<or> c = 8287 \<or> c = 12288"

definition rstrip_by :: "(nat \<Rightarrow> bool) \<Rightarrow> ustr \<Rightarrow> ustr" where
  "rstrip_by p s = rev (dropWhile p (rev s))"

definition strip :: "ustr \<Rightarrow> ustr" where
  "strip s = rstrip_by is_space (dropWhile is_space s)"

text \<open>\<open>s.split(sep)\<close> for a separator of one character, given as the test for it\<close>

fun split_by :: "(nat \<Rightarrow> bool) \<Rightarrow> ustr \<Rightarrow> ustr list" where
  "split_by sep [] = [[]]"
| "split_by sep (ch # s) = (if sep ch then [] # split_by sep s
     else (case split_by sep s of [] \<Rightarrow> [[ch]] | w # ws \<Rightarrow> (ch # w) # ws))"

text \<open>\<open>s.split()\<close>\<close>

definition split_words :: "ustr \<Rightarrow> ustr list" where
  "split_words s = filter (\<lambda>w. w \<noteq> []) (split_by is_space s)"

fun join :: "ustr \<Rightarrow> ustr list \<Rightarrow> ustr" where
  "join sep [] = []"
| "join sep [x] = x"
| "join sep (x # y # ys) = x @ sep @ join sep (y # ys)"

subsection \<open>Decimal numbers\<close>

fun nat_str :: "nat \<Rightarrow> ustr" where
  "nat_str n = (if n < 10 then [48 + n] else nat_str (n div 10) @ [48 + n mod 10])"

declare nat_str.simps [simp del]

definition int_str :: "int \<Rightarrow> ustr" where
  "int_str i = (if i < 0 then 45 # nat_str (nat (- i)) else nat_str (nat i))"

definition is_digit :: "nat \<Rightarrow> bool" where
  "is_digit c \<longleftrightarrow> 48 \<le> c \<and> c \<le> 57"

definition digits_nat :: "ustr \<Rightarrow> nat" where
  "digits_nat ds = foldl (\<lambda>n c. 10 * n + (c - 48)) 0 ds"

lemma nat_str_digits: "\<forall>c\<in>set (nat_str n). is_digit c"
proof (induction n rule: nat_str.induct)
  case (1 n)
  then show ?case by (subst nat_str.simps) (auto simp: is_digit_def)
qed

lemma nat_str_nonempty [simp]: "nat_str n \<noteq> []"
  by (subst nat_str.simps) simp

lemma digits_nat_snoc: "digits_nat (ds @ [c]) = 10 * digits_nat ds + (c - 48)"
  by (simp add: digits_nat_def)

lemma digits_nat_str [simp]: "digits_nat (nat_str n) = n"
proof (induction n rule: nat_str.induct)
  case (1 n)
  show ?case
  proof (cases "n < 10")
    case True
    then show ?thesis by (simp add: nat_str.simps [of n] digits_nat_def)
  next
    case False
    with 1 show ?thesis
      by (simp add: nat_str.simps [of n] digits_nat_snoc)
  qed
qed

lemma nat_str_head: "0 < n \<Longrightarrow> hd (nat_str n) \<noteq> 48"
proof (induction n rule: nat_str.induct)
  case (1 n)
  then show ?case by (cases "n < 10") (simp_all add: nat_str.simps [of n])
qed

lemma nat_str_0 [simp]: "nat_str 0 = [48]"
  by (simp add: nat_str.simps)

subsection \<open>Values\<close>

datatype pyval =
    PNone
  | PBool bool
  | PInt int
  | PFloat ustr
  | PStr ustr
  | PList "pyval list"
  | PDict "(ustr \<times> pyval) list"

text \<open>
  The decimal number of a float literal, as mantissa and power of ten, and \<open>None\<close> for the
  literals \<open>NaN\<close>, \<open>Infinity\<close> and \<open>-Infinity\<close> that \<open>json.loads\<close> accepts.
\<close>

definition signed_nat :: "ustr \<Rightarrow> int" where
  "signed_nat t = (case t of [] \<Rightarrow> 0
     | c # r \<Rightarrow> if c = 45 then - int (digits_nat r) else if c = 43 then int (digits_nat r)
                else int (digits_nat t))"

definition float_parts :: "ustr \<Rightarrow> (int \<times> int) option" where
  "float_parts t =
     (if \<exists>c\<in>set t. c = 78 \<or> c = 73 then None
      else let mant = takeWhile (\<lambda>c. c \<noteq> 101 \<and> c \<noteq> 69) t;
               expo = drop (Suc (length mant)) t;
               whole = takeWhile (\<lambda>c. c \<noteq> 46) mant;
               frac = drop (Suc (length whole)) mant
           in Some (signed_nat (whole @ frac), signed_nat expo - int (length frac)))"

definition float_is_int :: "ustr \<Rightarrow> int \<Rightarrow> bool" where
  "float_is_int t i = (case float_parts t of None \<Rightarrow> False
     | Some (m, e) \<Rightarrow> if 0 \<le> e then m * 10 ^ nat e = i else m = i * 10 ^ nat (- e))"

definition py_truthy :: "pyval \<Rightarrow> bool" where
  "py_truthy x = (case x of
       PNone \<Rightarrow> False
     | PBool b \<Rightarrow> b
     | PInt i \<Rightarrow> i \<noteq> 0
     | PFloat t \<Rightarrow> \<not> float_is_int t 0
     | PStr s \<Rightarrow> s \<noteq> []
     | PList xs \<Rightarrow> xs \<noteq> []
     | PDict d \<Rightarrow> d \<noteq> [])"

lemma py_truthy_simps [simp]:
  "\<not> py_truthy PNone" "py_truthy (PBool b) = b" "py_truthy (PInt i) = (i \<noteq> 0)"
  "py_truthy (PStr s) = (s \<noteq> [])" "py_truthy (PList xs) = (xs \<noteq> [])" "py_truthy (PDict d) = (d \<noteq> [])"
  by (simp_all add: py_truthy_def)

text \<open>\<open>x or y\<close>.\<close>

definition py_or :: "pyval \<Rightarrow> pyval \<Rightarrow> pyval" where
  "py_or x y = (if py_truthy x then x else y)"

text \<open>\<open>x == n\<close> for an integer \<open>n\<close>: \<open>True == 1\<close> and \<open>1.0 == 1\<close> hold in Python.\<close>

definition eq_int :: "pyval \<Rightarrow> int \<Rightarrow> bool" where
  "eq_int x n = (case x of PInt i \<Rightarrow> i = n | PBool b \<Rightarrow> of_bool b = n | PFloat t \<Rightarrow> float_is_int t n
     | _ \<Rightarrow> False)"

text \<open>
  \<open>repr\<close> of a string: single quotes unless the text has one and no double quote;
  backslash, quote and control characters escaped. Code points above ASCII are taken as
  printable.
\<close>

definition hex_digit :: "nat \<Rightarrow> nat" where
  "hex_digit n = (if n < 10 then 48 + n else 87 + n)"

definition repr_char :: "nat \<Rightarrow> nat \<Rightarrow> ustr" where
  "repr_char q c =
     (if c = q \<or> c = 92 then [92, c]
      else if c = 10 then [92, 110] else if c = 13 then [92, 114] else if c = 9 then [92, 116]
      else if c < 32 \<or> c = 127 then [92, 120, hex_digit (c div 16), hex_digit (c mod 16)]
      else [c])"

definition repr_str :: "ustr \<Rightarrow> ustr" where
  "repr_str s =
     (let q = (if 39 \<in> set s \<and> 34 \<notin> set s then 34 else 39)
      in [q] @ concat (map (repr_char q) s) @ [q])"

fun py_repr :: "pyval \<Rightarrow> ustr" where
  "py_repr PNone = u ''None''"
| "py_repr (PBool b) = (if b then u ''True'' else u ''False'')"
| "py_repr (PInt i) = int_str i"
| "py_repr (PFloat t) = t"
| "py_repr (PStr s) = repr_str s"
| "py_repr (PList xs) = [91] @ join (u '', '') (map py_repr xs) @ [93]"
| "py_repr (PDict d) =
     [123] @ join (u '', '') (map (\<lambda>kv. repr_str (fst kv) @ u '': '' @ py_repr (snd kv)) d) @ [125]"

definition py_str :: "pyval \<Rightarrow> ustr" where
  "py_str x = (case x of PStr s \<Rightarrow> s | _ \<Rightarrow> py_repr x)"

lemma py_str_PStr [simp]: "py_str (PStr s) = s"
  by (simp add: py_str_def)

text \<open>
  \<open>int(x)\<close>: a float is truncated, a string is parsed (surrounding space, one sign, single
  underscores between digits), anything else is a \<open>TypeError\<close>. The interpreter refuses
  numerals of more than 4300 digits.
\<close>

definition max_digits :: nat where
  "max_digits = 4300"

fun digit_groups :: "ustr \<Rightarrow> bool" where
  "digit_groups [] = False"
| "digit_groups [c] = is_digit c"
| "digit_groups (c # d # r) = (is_digit c \<and> (if d = 95 then digit_groups r else digit_groups (d # r)))"

definition int_of_str :: "ustr \<Rightarrow> exn + int" where
  "int_of_str s =
     (let t = strip s;
          sign = (case t of c # _ \<Rightarrow> if c = 45 then -1 else 1 | [] \<Rightarrow> 1);
          body = (case t of c # r \<Rightarrow> if c = 45 \<or> c = 43 then r else t | [] \<Rightarrow> []);
          ds = filter is_digit body
      in if digit_groups body \<and> length ds \<le> max_digits
         then Inr (sign * int (digits_nat ds)) else Inl Value_Error)"

definition py_int :: "pyval \<Rightarrow> exn + int" where
  "py_int x = (case x of
       PInt i \<Rightarrow> Inr i
     | PBool b \<Rightarrow> Inr (of_bool b)
     | PFloat t \<Rightarrow> (case float_parts t of
           None \<Rightarrow> (if 78 \<in> set t then Inl Value_Error else Inl Overflow_Error)
         | Some (m, e) \<Rightarrow> Inr (if 0 \<le> e then m * 10 ^ nat e else sgn m * (\<bar>m\<bar> div 10 ^ nat (- e))))
     | PStr s \<Rightarrow> int_of_str s
     | _ \<Rightarrow> Inl Type_Error)"

text \<open>\<open>d.get(k)\<close> on a dictionary of values.\<close>

definition pget :: "(ustr, pyval) dict \<Rightarrow> ustr \<Rightarrow> pyval" where
  "pget d k = (case dict_get d k of None \<Rightarrow> PNone | Some v \<Rightarrow> v)"

lemma pget_simps [simp]:
  "pget [] k = PNone" "pget ((k', v) # d) k = (if k' = k then v else pget d k)"
  by (simp_all add: pget_def)

subsection \<open>Order and keys\<close>

text \<open>
  Numbers that compare equal are the same dictionary key; \<open>py_key\<close> picks the integer among
  them. \<open>sorted\<close> raises \<open>TypeError\<close> on a mixture of strings and numbers.
\<close>

definition py_key :: "pyval \<Rightarrow> pyval" where
  "py_key x = (case x of PBool b \<Rightarrow> PInt (of_bool b)
     | PFloat t \<Rightarrow> (case float_parts t of
           Some (m, e) \<Rightarrow> (if 0 \<le> e then PInt (m * 10 ^ nat e)
                           else if 10 ^ nat (- e) dvd m then PInt (m div 10 ^ nat (- e)) else x)
         | None \<Rightarrow> x)
     | _ \<Rightarrow> x)"

lemma py_key_PStr [simp]: "py_key (PStr s) = PStr s"
  by (simp add: py_key_def)

fun strs_of :: "pyval list \<Rightarrow> ustr list option" where
  "strs_of [] = Some []"
| "strs_of (PStr s # xs) = map_option ((#) s) (strs_of xs)"
| "strs_of (_ # xs) = None"

text \<open>The number a value is, booleans included; \<open>None\<close> for NaN and the infinities.\<close>

definition num_val :: "pyval \<Rightarrow> rat option" where
  "num_val x = (case x of PInt i \<Rightarrow> Some (of_int i) | PBool b \<Rightarrow> Some (of_bool b)
     | PFloat t \<Rightarrow> (case float_parts t of
           Some (m, e) \<Rightarrow> Some (if 0 \<le> e then of_int (m * 10 ^ nat e) else of_int m / 10 ^ nat (- e))
         | None \<Rightarrow> None)
     | _ \<Rightarrow> None)"

definition py_sorted :: "pyval list \<Rightarrow> exn + pyval list" where
  "py_sorted xs =
     (case strs_of xs of Some ss \<Rightarrow> Inr (map PStr (sort ss))
      | None \<Rightarrow> if list_all (\<lambda>x. num_val x \<noteq> None) xs then Inr (sort_key (the \<circ> num_val) xs)
               else if length xs \<le> 1 then Inr xs else Inl Type_Error)"

lemma strs_of_map [simp]: "strs_of (map PStr xs) = Some xs"
  by (induction xs) auto

lemma strs_of_Some: "strs_of xs = Some ss \<longleftrightarrow> xs = map PStr ss"
  by (induction xs arbitrary: ss rule: strs_of.induct) auto

lemma py_sorted_strs [simp]: "py_sorted (map PStr xs) = Inr (map PStr (sort xs))"
  by (simp add: py_sorted_def)

subsection \<open>The world outside the process\<close>

text \<open>
  \<open>im/common/ids.py\<close> and the random sources of the server. What \<open>uuid4\<close>, the clock and
  \<open>secrets.token_bytes\<close> return is not determined by the program: they are arbitrary
  functions of the number of draws made so far. \<open>scrypt\<close> is OpenSSL's, a parameter.
\<close>

record world =
  uuid_src :: "nat \<Rightarrow> ustr"
  clock_src :: "nat \<Rightarrow> int"
  token_src :: "nat \<Rightarrow> byte list"
  scrypt_fn :: "byte list \<Rightarrow> byte list \<Rightarrow> byte list"
  draws :: nat

definition draw :: "('z world_scheme \<Rightarrow> nat \<Rightarrow> 'a) \<Rightarrow> ('z world_scheme, 'a) py" where
  "draw src = (\<lambda>w. (Inr (src w (draws w)), w\<lparr>draws := Suc (draws w)\<rparr>))"

definition new_id :: "('z world_scheme, ustr) py" where
  "new_id = draw uuid_src"

definition now_ms :: "('z world_scheme, int) py" where
  "now_ms = draw clock_src"

definition token_bytes :: "('z world_scheme, byte list) py" where
  "token_bytes = draw token_src"

declare new_id_def [op_defs] now_ms_def [op_defs] token_bytes_def [op_defs] draw_def [op_defs]

text \<open>
  \<^verbatim>\<open>with self.db.write()\<close>: the statements commit together, and an exception restores the
  tables the transaction started from. What was drawn from the world stays drawn.
\<close>

definition transaction :: "('z world_scheme, 'a) py \<Rightarrow> ('z world_scheme, 'a) py" where
  "transaction m = (\<lambda>s. case m s of (Inl e, s') \<Rightarrow> (Inl e, s\<lparr>draws := draws s'\<rparr>) | (Inr x, s') \<Rightarrow> (Inr x, s'))"

declare transaction_def [py_defs]

lemma transaction_Inr: "m s = (Inr x, s') \<Longrightarrow> transaction m s = (Inr x, s')"
  by (simp add: transaction_def)

lemma outcome_transaction [simp]: "outcome (transaction m) s = outcome m s"
  by (auto simp: transaction_def split: prod.split sum.split)

text \<open>The calculus of \<open>run_rel\<close> for relations that do not see how much was drawn.\<close>

locale world_rel = run_rel R for R :: "'z world_scheme \<Rightarrow> 'z world_scheme \<Rightarrow> bool" +
  assumes R_draws: "R s (s\<lparr>draws := n\<rparr>)"
begin

lemma runs_draw: "runs_in R (draw src)" "runs_in R new_id" "runs_in R now_ms" "runs_in R token_bytes"
  by (simp_all add: runs_in_def op_defs R_draws)

lemma runs_transaction: "runs_in R m \<Longrightarrow> runs_in R (transaction m)"
  by (auto simp: runs_in_def transaction_def R_draws split: prod.split sum.split)
    (metis snd_conv)

lemmas world_rules = runs_rules runs_draw runs_transaction

end

end
