(* ===== verification/Utf8.thy ===== *)
theory Utf8
  imports PyValue
begin

section \<open>UTF-8\<close>

text \<open>
  \<open>str.encode("utf-8")\<close> and \<open>bytes.decode("utf-8")\<close>, strict as Python's are: the encoder
  refuses surrogates, the decoder refuses overlong forms, surrogates, values above
  U+10FFFF and truncated sequences.
\<close>

definition is_surrogate :: "nat \<Rightarrow> bool" where
  "is_surrogate c \<longleftrightarrow> 55296 \<le> c \<and> c \<le> 57343"

definition is_scalar :: "nat \<Rightarrow> bool" where
  "is_scalar c \<longleftrightarrow> c < 1114112 \<and> \<not> is_surrogate c"

abbreviation scalars :: "ustr \<Rightarrow> bool" where
  "scalars s \<equiv> list_all is_scalar s"

definition byte_of :: "nat \<Rightarrow> byte" where
  "byte_of n = word_of_nat n"

lemma unat_byte_of [simp]: "n < 256 \<Longrightarrow> unat (byte_of n) = n"
  by (simp add: byte_of_def unsigned_of_nat take_bit_nat_eq_self)

definition utf8_char :: "nat \<Rightarrow> byte list" where
  "utf8_char c =
     (if c < 128 then [byte_of c]
      else if c < 2048 then [byte_of (192 + c div 64), byte_of (128 + c mod 64)]
      else if c < 65536 then [byte_of (224 + c div 4096), byte_of (128 + c div 64 mod 64), byte_of (128 + c mod 64)]
      else [byte_of (240 + c div 262144), byte_of (128 + c div 4096 mod 64), byte_of (128 + c div 64 mod 64),
            byte_of (128 + c mod 64)])"

definition utf8_encode :: "ustr \<Rightarrow> exn + byte list" where
  "utf8_encode s = (if scalars s then Inr (concat (map utf8_char s)) else Inl Unicode_Encode_Error)"

definition is_cont :: "byte \<Rightarrow> bool" where
  "is_cont b \<longleftrightarrow> 128 \<le> unat b \<and> unat b < 192"

definition cont :: "byte \<Rightarrow> nat" where
  "cont b = unat b - 128"

text \<open>One code point off the front, or \<open>None\<close> where the decoder raises.\<close>

definition utf8_step :: "byte list \<Rightarrow> (nat \<times> byte list) option" where
  "utf8_step bs = (case bs of [] \<Rightarrow> None
     | a # r \<Rightarrow>
       (let x = unat a in
        if x < 128 then Some (x, r)
        else if 194 \<le> x \<and> x < 224 then
          (case r of b # r' \<Rightarrow> if is_cont b then Some ((x - 192) * 64 + cont b, r') else None | _ \<Rightarrow> None)
        else if 224 \<le> x \<and> x < 240 then
          (case r of b # c # r' \<Rightarrow>
             let v = (x - 224) * 4096 + cont b * 64 + cont c in
             if is_cont b \<and> is_cont c \<and> 2048 \<le> v \<and> \<not> is_surrogate v then Some (v, r') else None
           | _ \<Rightarrow> None)
        else if 240 \<le> x \<and> x < 245 then
          (case r of b # c # d # r' \<Rightarrow>
             let v = (x - 240) * 262144 + cont b * 4096 + cont c * 64 + cont d in
             if is_cont b \<and> is_cont c \<and> is_cont d \<and> 65536 \<le> v \<and> v < 1114112 then Some (v, r') else None
           | _ \<Rightarrow> None)
        else None))"

lemma utf8_step_shorter: "utf8_step bs = Some (c, r) \<Longrightarrow> length r < length bs"
  by (auto simp: utf8_step_def Let_def split: list.splits if_splits)

function utf8_decode :: "byte list \<Rightarrow> ustr option" where
  "utf8_decode bs =
     (if bs = [] then Some []
      else case utf8_step bs of None \<Rightarrow> None | Some (c, r) \<Rightarrow> map_option ((#) c) (utf8_decode r))"
  by pat_completeness auto
termination
  by (relation "measure length") (auto dest: utf8_step_shorter)

declare utf8_decode.simps [simp del]

lemma utf8_decode_Nil [simp]: "utf8_decode [] = Some []"
  by (simp add: utf8_decode.simps)

subsection \<open>Round trip\<close>

lemma digits_64: "(c::nat) div 4096 * 4096 + c div 64 mod 64 * 64 + c mod 64 = c"
proof -
  have "c div 64 = c div 4096 * 64 + c div 64 mod 64"
    using div_mult_mod_eq [of "c div 64" 64] by (simp add: div_mult2_eq [symmetric])
  moreover have "c = c div 64 * 64 + c mod 64" by simp
  ultimately show ?thesis by linarith
qed

lemma digits_64_4: "(c::nat) div 262144 * 262144 + c div 4096 mod 64 * 4096 + c div 64 mod 64 * 64 + c mod 64 = c"
proof -
  have "c div 4096 = c div 262144 * 64 + c div 4096 mod 64"
    using div_mult_mod_eq [of "c div 4096" 64] by (simp add: div_mult2_eq [symmetric])
  with digits_64 [of c] show ?thesis by linarith
qed

lemma utf8_step_char:
  assumes "is_scalar c"
  shows "utf8_step (utf8_char c @ r) = Some (c, r)"
proof -
  have lt: "c < 1114112" and ns: "\<not> is_surrogate c" using assms by (auto simp: is_scalar_def)
  consider "c < 128" | "128 \<le> c" "c < 2048" | "2048 \<le> c" "c < 65536" | "65536 \<le> c" by linarith
  then show ?thesis
  proof cases
    case 1
    then show ?thesis by (simp add: utf8_char_def utf8_step_def)
  next
    case 2
    then have "c div 64 < 32" "2 \<le> c div 64" by auto
    with 2 show ?thesis
      by (simp add: utf8_char_def utf8_step_def is_cont_def cont_def)
  next
    case 3
    then have "c div 4096 < 16" by auto
    with 3 ns digits_64 [of c] show ?thesis
      by (simp add: utf8_char_def utf8_step_def is_cont_def cont_def Let_def)
  next
    case 4
    with lt have "c div 262144 < 5" by auto
    with 4 lt digits_64_4 [of c] show ?thesis
      by (simp add: utf8_char_def utf8_step_def is_cont_def cont_def Let_def)
  qed
qed

lemma utf8_char_nonempty [simp]: "utf8_char c \<noteq> []"
  by (simp add: utf8_char_def)

lemma utf8_decode_char: "is_scalar c \<Longrightarrow> utf8_decode (utf8_char c @ r) = map_option ((#) c) (utf8_decode r)"
  by (simp add: utf8_decode.simps [of "utf8_char c @ r"] utf8_step_char)

lemma utf8_decode_chars: "scalars s \<Longrightarrow> utf8_decode (concat (map utf8_char s)) = Some s"
  by (induction s) (auto simp: utf8_decode_char)

lemma utf8_roundtrip: "utf8_encode s = Inr bs \<Longrightarrow> utf8_decode bs = Some s"
  by (auto simp: utf8_encode_def utf8_decode_chars split: if_splits)

lemma of_char_less: "of_char c < (256::nat)"
  by (subst of_char_mod_256 [symmetric]) (rule mod_less_divisor, simp)

lemma scalars_u [simp]: "scalars (u s)" "list_all (\<lambda>c. \<not> is_surrogate c) (u s)"
proof -
  have "is_scalar (of_char c)" for c
    unfolding is_scalar_def is_surrogate_def using of_char_less [of c] by linarith
  then show "scalars (u s)" by (simp add: u_def list_all_iff)
  then show "list_all (\<lambda>c. \<not> is_surrogate c) (u s)" by (auto simp: list_all_iff is_scalar_def)
qed

lemma utf8_encode_u: "utf8_encode (u s) = Inr (concat (map utf8_char (u s)))"
  by (simp add: utf8_encode_def)

subsection \<open>The newline byte\<close>

lemma byte_of_eq_iff: "m < 256 \<Longrightarrow> n < 256 \<Longrightarrow> byte_of m = byte_of n \<longleftrightarrow> m = n"
  by (metis unat_byte_of)

lemma newline_in_char:
  assumes "is_scalar c"
  shows "byte_of 10 \<in> set (utf8_char c) \<longleftrightarrow> c = 10"
proof -
  have "c div 4096 < 16" if "c < 65536" using that by auto
  moreover have "c div 64 < 32" if "c < 2048" using that by auto
  moreover have "c div 262144 < 5" using assms by (auto simp: is_scalar_def)
  ultimately show ?thesis by (auto simp: utf8_char_def byte_of_eq_iff)
qed

lemma newline_in_encode:
  "scalars s \<Longrightarrow> byte_of 10 \<in> set (concat (map utf8_char s)) \<longleftrightarrow> 10 \<in> set s"
  by (induction s) (auto simp: newline_in_char)

end
