(* ===== verification/Json.thy ===== *)
theory Json
  imports Utf8
begin

section \<open>JSON, as Python's \<open>json\<close> module reads and writes it\<close>

text \<open>
  \<open>json.dumps\<close> with compact separators, with and without \<open>ensure_ascii\<close>, and
  \<open>json.loads\<close> with the messages of its \<open>JSONDecodeError\<close>. Reading a number of more than
  4300 digits raises a plain \<open>ValueError\<close> instead, which is not a \<open>JSONDecodeError\<close>. The
  reader recurses on fuel; \<open>loads\<close> supplies twice the length of the text plus two, and
  \<open>loads_fuel\<close> shows that this is enough for every text. The interpreter's own
  recursion limit is not modelled.
\<close>

datatype json_error = Decode_Error ustr | Int_Limit | Out_Of_Fuel

definition msg_value :: ustr where "msg_value = u ''Expecting value''"
definition msg_name :: ustr where "msg_name = u ''Expecting property name enclosed in double quotes''"
definition msg_colon :: ustr where "msg_colon = u ''Expecting '' @ [39, 58, 39] @ u '' delimiter''"
definition msg_comma :: ustr where "msg_comma = u ''Expecting '' @ [39, 44, 39] @ u '' delimiter''"
definition msg_unterminated :: ustr where "msg_unterminated = u ''Unterminated string starting at''"
definition msg_control :: ustr where "msg_control = u ''Invalid control character at''"
definition msg_escape :: ustr where "msg_escape = u ''Invalid '' @ [92] @ u ''escape''"
definition msg_uescape :: ustr where "msg_uescape = u ''Invalid '' @ [92] @ u ''uXXXX escape''"
definition msg_extra :: ustr where "msg_extra = u ''Extra data''"
definition msg_bom :: ustr where "msg_bom = u ''Unexpected UTF-8 BOM (decode using utf-8-sig)''"

subsection \<open>Writing\<close>

definition hex4 :: "nat \<Rightarrow> ustr" where
  "hex4 n = [hex_digit (n div 4096 mod 16), hex_digit (n div 256 mod 16), hex_digit (n div 16 mod 16),
             hex_digit (n mod 16)]"

definition esc_char :: "bool \<Rightarrow> nat \<Rightarrow> ustr" where
  "esc_char ascii c =
     (if c = 34 \<or> c = 92 then [92, c]
      else if c = 8 then [92, 98] else if c = 9 then [92, 116] else if c = 10 then [92, 110]
      else if c = 12 then [92, 102] else if c = 13 then [92, 114]
      else if c < 32 then [92, 117] @ hex4 c
      else if \<not> ascii \<or> c < 127 then [c]
      else if c < 65536 then [92, 117] @ hex4 c
      else [92, 117] @ hex4 (55296 + (c - 65536) div 1024) @ [92, 117] @ hex4 (56320 + (c - 65536) mod 1024))"

definition dumps_str :: "bool \<Rightarrow> ustr \<Rightarrow> ustr" where
  "dumps_str ascii s = [34] @ concat (map (esc_char ascii) s) @ [34]"

fun dumps :: "bool \<Rightarrow> pyval \<Rightarrow> ustr" where
  "dumps a PNone = u ''null''"
| "dumps a (PBool b) = (if b then u ''true'' else u ''false'')"
| "dumps a (PInt i) = int_str i"
| "dumps a (PFloat t) = t"
| "dumps a (PStr s) = dumps_str a s"
| "dumps a (PList xs) = [91] @ join [44] (map (dumps a) xs) @ [93]"
| "dumps a (PDict d) =
     [123] @ join [44] (map (\<lambda>kv. dumps_str a (fst kv) @ [58] @ dumps a (snd kv)) d) @ [125]"

subsection \<open>Reading\<close>

definition is_json_ws :: "nat \<Rightarrow> bool" where
  "is_json_ws c \<longleftrightarrow> c = 32 \<or> c = 9 \<or> c = 10 \<or> c = 13"

definition skip_ws :: "ustr \<Rightarrow> ustr" where
  "skip_ws s = dropWhile is_json_ws s"

definition hex_val :: "nat \<Rightarrow> nat option" where
  "hex_val c = (if 48 \<le> c \<and> c \<le> 57 then Some (c - 48)
     else if 97 \<le> c \<and> c \<le> 102 then Some (c - 87) else if 65 \<le> c \<and> c \<le> 70 then Some (c - 55) else None)"

fun read_hex4 :: "ustr \<Rightarrow> (nat \<times> ustr) option" where
  "read_hex4 (a # b # c # d # r) =
     (case (hex_val a, hex_val b, hex_val c, hex_val d) of
        (Some a', Some b', Some c', Some d') \<Rightarrow> Some (a' * 4096 + b' * 256 + c' * 16 + d', r)
      | _ \<Rightarrow> None)"
| "read_hex4 _ = None"

lemma read_hex4_length: "read_hex4 s = Some (x, r) \<Longrightarrow> length s = length r + 4"
  by (induction s rule: read_hex4.induct) (auto split: option.splits)

definition simple_escape :: "nat \<Rightarrow> nat option" where
  "simple_escape e =
     (if e = 34 \<or> e = 92 \<or> e = 47 then Some e
      else if e = 98 then Some 8 else if e = 102 then Some 12 else if e = 110 then Some 10
      else if e = 114 then Some 13 else if e = 116 then Some 9 else None)"

text \<open>
  One character of a string literal: what it stands for and what follows it. A high
  surrogate escape followed by a low one is one code point.
\<close>

definition read_char :: "ustr \<Rightarrow> json_error + (nat \<times> ustr)" where
  "read_char s = (case s of [] \<Rightarrow> Inl (Decode_Error msg_unterminated)
     | c # r \<Rightarrow>
       if c = 92 then
         (case r of [] \<Rightarrow> Inl (Decode_Error msg_unterminated)
          | e # r' \<Rightarrow>
            if e = 117 then
              (case read_hex4 r' of None \<Rightarrow> Inl (Decode_Error msg_uescape)
               | Some (x, r2) \<Rightarrow>
                 if 55296 \<le> x \<and> x < 56320 \<and> take 2 r2 = [92, 117] then
                   (case read_hex4 (drop 2 r2) of None \<Rightarrow> Inl (Decode_Error msg_uescape)
                    | Some (y, r4) \<Rightarrow>
                      if 56320 \<le> y \<and> y < 57344 then Inr (65536 + (x - 55296) * 1024 + (y - 56320), r4)
                      else Inr (x, r2))
                 else Inr (x, r2))
            else (case simple_escape e of None \<Rightarrow> Inl (Decode_Error msg_escape) | Some d \<Rightarrow> Inr (d, r')))
       else if c < 32 then Inl (Decode_Error msg_control)
       else Inr (c, r))"

lemma read_char_length: "read_char s = Inr (c, r) \<Longrightarrow> length r < length s"
  by (auto simp: read_char_def split: list.splits if_splits option.splits dest!: read_hex4_length)

text \<open>A string literal, its opening quote already read.\<close>

function json_string :: "ustr \<Rightarrow> json_error + (ustr \<times> ustr)" where
  "json_string s =
     (if take 1 s = [34] then Inr ([], tl s)
      else case read_char s of Inl e \<Rightarrow> Inl e
           | Inr (c, r) \<Rightarrow> (case json_string r of Inl e \<Rightarrow> Inl e | Inr (t, r') \<Rightarrow> Inr (c # t, r')))"
  by pat_completeness auto
termination
  by (relation "measure length") (auto dest: read_char_length)

declare json_string.simps [simp del]

definition read_int :: "ustr \<Rightarrow> (ustr \<times> ustr) option" where
  "read_int s = (case s of [] \<Rightarrow> None
     | c # r \<Rightarrow> if c = 48 then Some ([48], r)
                else if is_digit c then Some (takeWhile is_digit s, dropWhile is_digit s) else None)"

definition read_frac :: "ustr \<Rightarrow> ustr \<times> ustr" where
  "read_frac s = (case s of c # d # r \<Rightarrow>
       if c = 46 \<and> is_digit d then (46 # takeWhile is_digit (d # r), dropWhile is_digit (d # r)) else ([], s)
     | _ \<Rightarrow> ([], s))"

definition read_exp :: "ustr \<Rightarrow> ustr \<times> ustr" where
  "read_exp s = (case s of [] \<Rightarrow> ([], s)
     | c # r \<Rightarrow>
       if c = 101 \<or> c = 69 then
         (let sg = takeWhile (\<lambda>x. x = 43 \<or> x = 45) (take 1 r); r' = drop (length sg) r;
              ds = takeWhile is_digit r'
          in if ds = [] then ([], s) else (c # sg @ ds, dropWhile is_digit r'))
       else ([], s))"

definition json_number :: "ustr \<Rightarrow> (json_error + (pyval \<times> ustr)) option" where
  "json_number s =
     (let neg = (take 1 s = [45]); s1 = (if neg then tl s else s)
      in case read_int s1 of None \<Rightarrow> None
         | Some (ds, r) \<Rightarrow>
           (let (fr, r2) = read_frac r; (ex, r3) = read_exp r2
            in if fr = [] \<and> ex = [] then
                 Some (if max_digits < length ds then Inl Int_Limit
                       else Inr (PInt (if neg then - int (digits_nat ds) else int (digits_nat ds)), r))
               else Some (Inr (PFloat ((if neg then [45] else []) @ ds @ fr @ ex), r3))))"

definition json_atom :: "ustr \<Rightarrow> json_error + (pyval \<times> ustr)" where
  "json_atom s =
     (if startswith s (u ''null'') then Inr (PNone, drop 4 s)
      else if startswith s (u ''true'') then Inr (PBool True, drop 4 s)
      else if startswith s (u ''false'') then Inr (PBool False, drop 5 s)
      else case json_number s of Some r \<Rightarrow> r
           | None \<Rightarrow>
             if startswith s (u ''NaN'') then Inr (PFloat (u ''NaN''), drop 3 s)
             else if startswith s (u ''Infinity'') then Inr (PFloat (u ''Infinity''), drop 8 s)
             else if startswith s (u ''-Infinity'') then Inr (PFloat (u ''-Infinity''), drop 9 s)
             else Inl (Decode_Error msg_value))"

fun json_value :: "nat \<Rightarrow> ustr \<Rightarrow> json_error + (pyval \<times> ustr)"
  and json_members :: "nat \<Rightarrow> ustr \<Rightarrow> json_error + ((ustr \<times> pyval) list \<times> ustr)"
  and json_elems :: "nat \<Rightarrow> ustr \<Rightarrow> json_error + (pyval list \<times> ustr)" where
  "json_value 0 s = Inl Out_Of_Fuel"
| "json_value (Suc n) s =
     (if take 1 s = [34] then
        (case json_string (tl s) of Inl e \<Rightarrow> Inl e | Inr (t, r) \<Rightarrow> Inr (PStr t, r))
      else if take 1 s = [123] then
        (let r = skip_ws (tl s) in
         if take 1 r = [125] then Inr (PDict [], tl r)
         else case json_members n r of Inl e \<Rightarrow> Inl e | Inr (ps, r') \<Rightarrow> Inr (PDict (dict_of ps), r'))
      else if take 1 s = [91] then
        (let r = skip_ws (tl s) in
         if take 1 r = [93] then Inr (PList [], tl r)
         else case json_elems n r of Inl e \<Rightarrow> Inl e | Inr (xs, r') \<Rightarrow> Inr (PList xs, r'))
      else json_atom s)"
| "json_members 0 s = Inl Out_Of_Fuel"
| "json_members (Suc n) s =
     (if take 1 s \<noteq> [34] then Inl (Decode_Error msg_name)
      else case json_string (tl s) of Inl e \<Rightarrow> Inl e
      | Inr (k, r) \<Rightarrow>
        (let r1 = skip_ws r in
         if take 1 r1 \<noteq> [58] then Inl (Decode_Error msg_colon)
         else case json_value n (skip_ws (tl r1)) of Inl e \<Rightarrow> Inl e
         | Inr (v, r2) \<Rightarrow>
           (let r3 = skip_ws r2 in
            if take 1 r3 = [125] then Inr ([(k, v)], tl r3)
            else if take 1 r3 = [44] then
              (case json_members n (skip_ws (tl r3)) of Inl e \<Rightarrow> Inl e
               | Inr (ps, r4) \<Rightarrow> Inr ((k, v) # ps, r4))
            else Inl (Decode_Error msg_comma))))"
| "json_elems 0 s = Inl Out_Of_Fuel"
| "json_elems (Suc n) s =
     (case json_value n s of Inl e \<Rightarrow> Inl e
      | Inr (v, r) \<Rightarrow>
        (let r1 = skip_ws r in
         if take 1 r1 = [93] then Inr ([v], tl r1)
         else if take 1 r1 = [44] then
           (case json_elems n (skip_ws (tl r1)) of Inl e \<Rightarrow> Inl e | Inr (vs, r2) \<Rightarrow> Inr (v # vs, r2))
         else Inl (Decode_Error msg_comma)))"

definition loads :: "ustr \<Rightarrow> json_error + pyval" where
  "loads s =
     (if take 1 s = [65279] then Inl (Decode_Error msg_bom)
      else let t = skip_ws s in
        case json_value (2 * length t + 2) t of Inl e \<Rightarrow> Inl e
        | Inr (v, r) \<Rightarrow> if skip_ws r = [] then Inr v else Inl (Decode_Error msg_extra))"

subsection \<open>Reading always ends\<close>

lemma skip_ws_length: "length (skip_ws s) \<le> length s"
  by (simp add: skip_ws_def length_dropWhile_le)

lemma json_string_length: "json_string s = Inr (t, r) \<Longrightarrow> length r < length s"
proof (induction s arbitrary: t rule: json_string.induct)
  case (1 s)
  show ?case
  proof (cases "take 1 s = [34]")
    case True
    with "1.prems" have "r = tl s" and "s \<noteq> []" by (auto simp: json_string.simps [of s])
    then show ?thesis by simp
  next
    case False
    with "1.prems" obtain c r' t' where c: "read_char s = Inr (c, r')" and t: "json_string r' = Inr (t', r)"
      by (auto simp: json_string.simps [of s] split: sum.splits prod.splits)
    from "1.IH" [OF False c refl t] read_char_length [OF c] show ?thesis by simp
  qed
qed

lemma json_number_length:
  "json_number s = Some (Inr (v, r)) \<Longrightarrow> length r < length s"
proof -
  have i: "length r < length s" if "read_int s = Some (ds, r)" for s ds r
    using that by (auto simp: read_int_def length_dropWhile_le less_Suc_eq_le split: list.splits if_splits)
  have f: "length (snd (read_frac s)) \<le> length s" for s
    by (auto simp: read_frac_def split: list.splits)
      (meson le_SucI length_dropWhile_le)+
  have e: "length (snd (read_exp s)) \<le> length s" for s
    by (auto simp: read_exp_def Let_def split: list.splits)
      (metis diff_le_self dual_order.trans le_SucI length_drop length_dropWhile_le)+
  show "length r < length s" if "json_number s = Some (Inr (v, r))"
  proof -
    let ?s1 = "if take 1 s = [45] then tl s else s"
    from that obtain ds r1 where ri: "read_int ?s1 = Some (ds, r1)"
      and r: "r = r1 \<or> r = snd (read_exp (snd (read_frac r1)))"
      by (auto simp: json_number_def Let_def split: option.splits prod.splits if_splits)
    have "length r \<le> length r1" using r f [of r1] e [of "snd (read_frac r1)"] by auto
    with i [OF ri] show ?thesis by (auto split: if_splits)
  qed
qed

lemma startswith_nonempty: "startswith s (u p) \<Longrightarrow> p \<noteq> [] \<Longrightarrow> s \<noteq> []"
  by (auto simp: startswith_def)

lemma json_atom_length: "json_atom s = Inr (v, r) \<Longrightarrow> length r < length s"
  by (auto simp: json_atom_def dest: startswith_nonempty json_number_length
      split: if_splits option.splits)

lemma take1_eq: "take (Suc 0) s = [c] \<longleftrightarrow> s \<noteq> [] \<and> hd s = c"
  by (cases s) auto

lemma skip_tl_less: "take (Suc 0) s = [c] \<Longrightarrow> length (skip_ws (tl s)) < length s"
  using skip_ws_length [of "tl s"] by (cases s) auto

lemma tl_skip_less: "take (Suc 0) (skip_ws r) = [c] \<Longrightarrow> length (tl (skip_ws r)) < length r"
  using skip_ws_length [of r] by (cases "skip_ws r") auto

lemma skip_tl_skip_less: "take (Suc 0) (skip_ws r) = [c] \<Longrightarrow> length (skip_ws (tl (skip_ws r))) < length r"
  using skip_tl_less skip_ws_length by (rule order.strict_trans2)

lemma json_length_all:
  "(\<forall>s v r. json_value n s = Inr (v, r) \<longrightarrow> length r < length s) \<and>
   (\<forall>s ps r. json_members n s = Inr (ps, r) \<longrightarrow> length r < length s) \<and>
   (\<forall>s vs r. json_elems n s = Inr (vs, r) \<longrightarrow> length r < length s)"
proof (induction n)
  case (Suc n)
  then have v: "json_value n s = Inr (x, r) \<Longrightarrow> length r < length s"
    and m: "json_members n s = Inr (ps, r) \<Longrightarrow> length r < length s"
    and e: "json_elems n s = Inr (xs, r) \<Longrightarrow> length r < length s" for s x r ps xs
    by blast+
  have "length r < length s" if "json_value (Suc n) s = Inr (x, r)" for s x r
    using that by (auto simp: Let_def split: if_splits sum.splits prod.splits
        dest!: json_string_length json_atom_length m e dest: skip_tl_less tl_skip_less
        intro: less_trans order.strict_trans)
  moreover have "length r < length s" if "json_members (Suc n) s = Inr (ps, r)" for s ps r
  proof -
    from that obtain k r0 x r2 where s: "take (Suc 0) s = [34]" and k: "json_string (tl s) = Inr (k, r0)"
      and c: "take (Suc 0) (skip_ws r0) = [58]" and x: "json_value n (skip_ws (tl (skip_ws r0))) = Inr (x, r2)"
      and z: "r = tl (skip_ws r2) \<and> take (Suc 0) (skip_ws r2) = [125] \<or>
         take (Suc 0) (skip_ws r2) = [44] \<and> (\<exists>ps. json_members n (skip_ws (tl (skip_ws r2))) = Inr (ps, r))"
      by (auto simp: Let_def split: if_splits sum.splits prod.splits)
    have "length r0 < length s" using json_string_length [OF k] s by (cases s) auto
    moreover have "length r2 < length r0" using v [OF x] skip_tl_skip_less [OF c] by simp
    moreover have "length r < length r2" using z
      by (auto dest!: m dest: tl_skip_less skip_tl_skip_less)
    ultimately show ?thesis by simp
  qed
  moreover have "length r < length s" if "json_elems (Suc n) s = Inr (xs, r)" for s xs r
  proof -
    from that obtain x r2 where x: "json_value n s = Inr (x, r2)"
      and z: "r = tl (skip_ws r2) \<and> take (Suc 0) (skip_ws r2) = [93] \<or>
         take (Suc 0) (skip_ws r2) = [44] \<and> (\<exists>ps. json_elems n (skip_ws (tl (skip_ws r2))) = Inr (ps, r))"
      by (auto simp: Let_def split: if_splits sum.splits prod.splits)
    have "length r < length r2" using z by (auto dest!: e dest: tl_skip_less skip_tl_skip_less)
    with v [OF x] show ?thesis by simp
  qed
  ultimately show ?case by blast
qed simp


lemmas json_value_length = json_length_all [THEN conjunct1, rule_format]

lemma read_char_fuel: "read_char s \<noteq> Inl Out_Of_Fuel"
  by (auto simp: read_char_def split: list.splits option.splits)

lemma json_string_fuel: "json_string s \<noteq> Inl Out_Of_Fuel"
proof (induction s rule: json_string.induct)
  case (1 s)
  then show ?case
    using read_char_fuel [of s] by (auto simp: json_string.simps [of s] split: sum.splits prod.splits)
qed

lemma json_atom_fuel: "json_atom s \<noteq> Inl Out_Of_Fuel"
  by (auto simp: json_atom_def json_number_def Let_def split: option.splits prod.splits)

text \<open>Twice the length of the text is enough fuel for a value, one more for a sequence.\<close>

lemma json_enough_fuel:
  "(\<forall>s. 2 * length s < n \<longrightarrow> json_value n s \<noteq> Inl Out_Of_Fuel) \<and>
   (\<forall>s. 2 * length s + 1 < n \<longrightarrow> json_members n s \<noteq> Inl Out_Of_Fuel) \<and>
   (\<forall>s. 2 * length s + 1 < n \<longrightarrow> json_elems n s \<noteq> Inl Out_Of_Fuel)"
proof (induction n)
  case (Suc n)
  then have v: "2 * length s < n \<Longrightarrow> json_value n s \<noteq> Inl Out_Of_Fuel"
    and m: "2 * length s + 1 < n \<Longrightarrow> json_members n s \<noteq> Inl Out_Of_Fuel"
    and e: "2 * length s + 1 < n \<Longrightarrow> json_elems n s \<noteq> Inl Out_Of_Fuel" for s
    by blast+
  have "json_value (Suc n) s \<noteq> Inl Out_Of_Fuel" if "2 * length s < Suc n" for s
  proof -
    have "2 * length (skip_ws (tl s)) + 1 < n" if "take (Suc 0) s = [c]" for c
      using skip_tl_less [OF that] \<open>2 * length s < Suc n\<close> by simp
    then show ?thesis using m [of "skip_ws (tl s)"] e [of "skip_ws (tl s)"]
      json_string_fuel [of "tl s"] json_atom_fuel [of s]
      by (auto simp: Let_def split: sum.splits)
  qed
  moreover have "json_members (Suc n) s \<noteq> Inl Out_Of_Fuel" if l: "2 * length s + 1 < Suc n" for s
  proof
    assume out: "json_members (Suc n) s = Inl Out_Of_Fuel"
    then obtain k r0 where s: "take (Suc 0) s = [34]" and k: "json_string (tl s) = Inr (k, r0)"
      and c: "take (Suc 0) (skip_ws r0) = [58]"
      using json_string_fuel [of "tl s"] by (auto simp: Let_def split: if_splits sum.splits prod.splits)
    let ?t = "skip_ws (tl (skip_ws r0))"
    have r0: "length r0 < length s" using json_string_length [OF k] s by (cases s) auto
    then have t: "length ?t < length s" using skip_tl_skip_less [OF c] by simp
    then have "json_value n ?t \<noteq> Inl Out_Of_Fuel" using l by (intro v) simp
    with out s k c obtain x r2 where x: "json_value n ?t = Inr (x, r2)"
      and c2: "take (Suc 0) (skip_ws r2) = [44]"
      and o2: "json_members n (skip_ws (tl (skip_ws r2))) = Inl Out_Of_Fuel"
      by (auto simp: Let_def split: if_splits sum.splits prod.splits)
    have "length (skip_ws (tl (skip_ws r2))) < length s"
      using json_value_length [OF x] t skip_tl_skip_less [OF c2] by simp
    with l have "json_members n (skip_ws (tl (skip_ws r2))) \<noteq> Inl Out_Of_Fuel" by (intro m) simp
    with o2 show False by simp
  qed
  moreover have "json_elems (Suc n) s \<noteq> Inl Out_Of_Fuel" if l: "2 * length s + 1 < Suc n" for s
  proof
    assume out: "json_elems (Suc n) s = Inl Out_Of_Fuel"
    have "json_value n s \<noteq> Inl Out_Of_Fuel" using l by (intro v) simp
    with out obtain x r2 where x: "json_value n s = Inr (x, r2)" and c2: "take (Suc 0) (skip_ws r2) = [44]"
      and o2: "json_elems n (skip_ws (tl (skip_ws r2))) = Inl Out_Of_Fuel"
      by (auto simp: Let_def split: if_splits sum.splits prod.splits)
    have "length (skip_ws (tl (skip_ws r2))) < length s"
      using json_value_length [OF x] skip_tl_skip_less [OF c2] by simp
    with l have "json_elems n (skip_ws (tl (skip_ws r2))) \<noteq> Inl Out_Of_Fuel" by (intro e) simp
    with o2 show False by simp
  qed
  ultimately show ?case by blast
qed simp

lemma loads_fuel: "loads s \<noteq> Inl Out_Of_Fuel"
proof -
  have "json_value (2 * length (skip_ws s) + 2) (skip_ws s) \<noteq> Inl Out_Of_Fuel"
    using json_enough_fuel [of "2 * length (skip_ws s) + 2"] by simp
  then show ?thesis
    by (auto simp: loads_def Let_def simp del: json_value.simps split: sum.splits)
qed

subsection \<open>What is written is read back\<close>

text \<open>
  The values the program builds: no floats, integers the interpreter can read back, text
  that can be encoded, and dictionaries whose keys are distinct.
\<close>

fun wf_json :: "pyval \<Rightarrow> bool" where
  "wf_json PNone = True"
| "wf_json (PBool b) = True"
| "wf_json (PInt i) = (length (nat_str (nat \<bar>i\<bar>)) \<le> max_digits)"
| "wf_json (PFloat t) = False"
| "wf_json (PStr s) = scalars s"
| "wf_json (PList xs) = list_all wf_json xs"
| "wf_json (PDict d) = (dict_wf d \<and> list_all (\<lambda>kv. scalars (fst kv) \<and> wf_json (snd kv)) d)"

lemma hex_val_digit [simp]: "n < 16 \<Longrightarrow> hex_val (hex_digit n) = Some n"
  by (auto simp: hex_val_def hex_digit_def)

lemma digits_16: "(n::nat) < 65536 \<Longrightarrow>
  n div 4096 mod 16 * 4096 + n div 256 mod 16 * 256 + n div 16 mod 16 * 16 + n mod 16 = n"
proof -
  assume "n < 65536"
  then have "n div 4096 mod 16 = n div 4096" by (simp add: less_mult_imp_div_less)
  moreover have "n div 256 = n div 4096 * 16 + n div 256 mod 16"
    using div_mult_mod_eq [of "n div 256" 16] by (simp add: div_mult2_eq [symmetric])
  moreover have "n div 16 = n div 256 * 16 + n div 16 mod 16"
    using div_mult_mod_eq [of "n div 16" 16] by (simp add: div_mult2_eq [symmetric])
  moreover have "n = n div 16 * 16 + n mod 16" by simp
  ultimately show ?thesis by linarith
qed

lemma read_hex4_hex4: "n < 65536 \<Longrightarrow> read_hex4 (hex4 n @ r) = Some (n, r)"
  by (simp add: hex4_def) (use digits_16 [of n] in simp)

lemma read_char_u:
  "n < 65536 \<Longrightarrow> \<not> is_surrogate n \<Longrightarrow> read_char ([92, 117] @ hex4 n @ r) = Inr (n, r)"
  by (auto simp: read_char_def read_hex4_hex4 is_surrogate_def)

lemma read_char_pair:
  assumes "65536 \<le> c" and "c < 1114112"
  shows "read_char ([92, 117] @ hex4 (55296 + (c - 65536) div 1024) @ [92, 117]
           @ hex4 (56320 + (c - 65536) mod 1024) @ r) = Inr (c, r)"
proof -
  let ?h = "55296 + (c - 65536) div 1024" and ?l = "56320 + (c - 65536) mod 1024"
  have h: "?h < 56320" using assms by (simp add: less_mult_imp_div_less)
  have l: "?l < 57344" by simp
  have "65536 + (?h - 55296) * 1024 + (?l - 56320) = c" using assms by simp
  then show ?thesis using h l
    by (simp add: read_char_def read_hex4_hex4)
qed

lemma read_char_esc:
  assumes "is_scalar c"
  shows "read_char (esc_char a c @ r) = Inr (c, r)"
proof -
  have sc: "c < 1114112" "\<not> is_surrogate c" using assms by (auto simp: is_scalar_def)
  consider "c \<in> {34, 92, 8, 9, 10, 12, 13}" | "c < 32" "c \<notin> {8, 9, 10, 12, 13}"
    | "32 \<le> c" "c \<noteq> 34" "c \<noteq> 92" "\<not> a \<or> c < 127" | "a" "127 \<le> c" "c < 65536" | "a" "65536 \<le> c"
    by force
  then show ?thesis
  proof cases
    case 1
    then show ?thesis by (auto simp: esc_char_def read_char_def simple_escape_def)
  next
    case 2
    with sc read_char_u [of c r] show ?thesis by (simp add: esc_char_def)
  next
    case 3
    then show ?thesis by (auto simp: esc_char_def read_char_def)
  next
    case 4
    with sc read_char_u [of c r] show ?thesis by (simp add: esc_char_def)
  next
    case 5
    with sc read_char_pair [of c r] show ?thesis by (simp add: esc_char_def)
  qed
qed

lemma esc_char_head: "esc_char a c \<noteq> [] \<and> hd (esc_char a c) \<noteq> 34"
  by (auto simp: esc_char_def)

lemma json_string_dumps:
  "scalars s \<Longrightarrow> json_string (concat (map (esc_char a) s) @ 34 # r) = Inr (s, r)"
proof (induction s)
  case Nil
  then show ?case by (simp add: json_string.simps)
next
  case (Cons c s)
  let ?t = "esc_char a c @ concat (map (esc_char a) s) @ 34 # r"
  have "take 1 ?t \<noteq> [34]" using esc_char_head [of a c] by (cases "esc_char a c") auto
  with Cons show ?case by (simp add: json_string.simps [of ?t] read_char_esc)
qed

text \<open>What may follow a number without becoming part of it.\<close>

definition ends_number :: "ustr \<Rightarrow> bool" where
  "ends_number r \<longleftrightarrow> (case r of [] \<Rightarrow> True | c # _ \<Rightarrow> \<not> is_digit c \<and> c \<noteq> 46 \<and> c \<noteq> 101 \<and> c \<noteq> 69)"

lemma ends_number_simps [simp]:
  "ends_number []" "ends_number (c # r) \<longleftrightarrow> \<not> is_digit c \<and> c \<noteq> 46 \<and> c \<noteq> 101 \<and> c \<noteq> 69"
  by (simp_all add: ends_number_def)

lemma read_int_nat_str: "ends_number r \<Longrightarrow> read_int (nat_str n @ r) = Some (nat_str n, r)"
proof -
  assume r: "ends_number r"
  obtain c cs where cs: "nat_str n = c # cs" by (cases "nat_str n") auto
  have dg: "\<forall>x\<in>set (c # cs). is_digit x" using nat_str_digits [of n] cs by simp
  have tw: "takeWhile is_digit ((c # cs) @ r) = c # cs" "dropWhile is_digit ((c # cs) @ r) = r"
    using dg r by (cases r; auto)+
  show ?thesis
  proof (cases "n = 0")
    case False
    then have "c \<noteq> 48" using nat_str_head [of n] cs by simp
    with cs dg tw show ?thesis by (simp add: read_int_def)
  qed (simp add: read_int_def)
qed

lemma json_number_nat_str:
  "ends_number r \<Longrightarrow> length (nat_str n) \<le> max_digits \<Longrightarrow> 
   json_number (nat_str n @ r) = Some (Inr (PInt (int n), r)) \<and>
   json_number (45 # nat_str n @ r) = Some (Inr (PInt (- int n), r))"
proof -
  assume r: "ends_number r" and len: "length (nat_str n) \<le> max_digits"
  have f: "read_frac r = ([], r)" "read_exp r = ([], r)"
    using r by (auto simp: read_frac_def read_exp_def split: list.splits)
  have "take 1 (nat_str n @ r) \<noteq> [45]"
    using nat_str_digits [of n] by (cases "nat_str n") (auto simp: is_digit_def)
  with len f read_int_nat_str [OF r, of n] show ?thesis
    by (auto simp: json_number_def)
qed

lemma digit_not_keyword:
  "is_digit c \<or> c = 45 \<Longrightarrow> \<not> startswith (c # s) (u ''null'') \<and> \<not> startswith (c # s) (u ''true'')
     \<and> \<not> startswith (c # s) (u ''false'')"
  by (auto simp: startswith_def u_def is_digit_def)

lemma int_str_chars: "c \<in> set (int_str i) \<Longrightarrow> is_digit c \<or> c = 45"
  using nat_str_digits [of "nat i"] nat_str_digits [of "nat (- i)"]
  by (auto simp: int_str_def split: if_splits)

lemma int_str_head: "\<exists>c s. int_str i = c # s \<and> (is_digit c \<or> c = 45)"
proof -
  have "int_str i \<noteq> []" by (simp add: int_str_def)
  then show ?thesis using int_str_chars [of _ i] by (cases "int_str i") auto
qed

lemma json_atom_int:
  assumes "ends_number r" and "length (nat_str (nat \<bar>i\<bar>)) \<le> max_digits"
  shows "json_atom (int_str i @ r) = Inr (PInt i, r)"
proof -
  note n = json_number_nat_str [OF assms]
  obtain c s where cs: "int_str i @ r = c # s" "is_digit c \<or> c = 45" using int_str_head [of i] by auto
  have "json_number (int_str i @ r) = Some (Inr (PInt i, r))"
    using n by (cases "i < 0") (auto simp: int_str_def)
  with cs digit_not_keyword [of c s] show ?thesis by (simp add: json_atom_def)
qed


lemma skip_ws_stop: "\<not> is_json_ws c \<Longrightarrow> skip_ws (c # r) = c # r"
  by (simp add: skip_ws_def)

lemma not_json_ws [simp]:
  "\<not> is_json_ws 34" "\<not> is_json_ws 44" "\<not> is_json_ws 58" "\<not> is_json_ws 93" "\<not> is_json_ws 125"
  by (simp_all add: is_json_ws_def)

lemma dumps_head:
  "wf_json v \<Longrightarrow> \<exists>c s. dumps a v = c # s \<and> \<not> is_json_ws c \<and> c \<noteq> 93 \<and> c \<noteq> 125 \<and> c < 127"
proof (cases v)
  case (PInt i)
  then show ?thesis using int_str_head [of i] by (auto simp: is_digit_def is_json_ws_def)
qed (auto simp: u_def dumps_str_def is_json_ws_def)

lemma skip_ws_dumps: "wf_json v \<Longrightarrow> skip_ws (dumps a v @ r) = dumps a v @ r"
  using dumps_head [of v a] by (auto simp: skip_ws_stop)

abbreviation reads_back :: "bool \<Rightarrow> pyval \<Rightarrow> bool" where
  "reads_back a v \<equiv> (\<forall>n r. 2 * length (dumps a v) < n \<longrightarrow> ends_number r \<longrightarrow>
     json_value n (dumps a v @ r) = Inr (v, r))"

lemma json_elems_dumps:
  assumes "xs \<noteq> []" and "\<forall>x\<in>set xs. reads_back a x \<and> wf_json x"
    and "2 * length (join [44] (map (dumps a) xs)) + 1 < n"
  shows "json_elems n (join [44] (map (dumps a) xs) @ 93 # r) = Inr (xs, r)"
  using assms
proof (induction xs arbitrary: n)
  case (Cons x xs)
  obtain m where n: "n = Suc m" using Cons.prems(3) by (cases n) auto
  show ?case
  proof (cases xs)
    case Nil
    with Cons.prems n show ?thesis by (simp add: skip_ws_stop is_digit_def)
  next
    case (Cons y ys)
    let ?j = "join [44] (map (dumps a) xs)"
    have j: "join [44] (map (dumps a) (x # xs)) = dumps a x @ 44 # ?j" using Cons by simp
    have "json_value m (dumps a x @ 44 # ?j @ 93 # r) = Inr (x, 44 # ?j @ 93 # r)"
      using Cons.prems n j by (simp add: is_digit_def)
    moreover have "skip_ws (?j @ 93 # r) = ?j @ 93 # r"
      using Cons Cons.prems(2) dumps_head [of y a] by (cases ys) (auto simp: skip_ws_stop)
    moreover have "json_elems m (?j @ 93 # r) = Inr (xs, r)"
      using Cons.prems n j Cons by (intro Cons.IH) auto
    ultimately show ?thesis using n j by (simp add: skip_ws_stop)
  qed
qed simp

abbreviation dumps_pair :: "bool \<Rightarrow> ustr \<times> pyval \<Rightarrow> ustr" where
  "dumps_pair a kv \<equiv> dumps_str a (fst kv) @ [58] @ dumps a (snd kv)"

lemma json_members_dumps:
  assumes "d \<noteq> []" and "\<forall>kv\<in>set d. reads_back a (snd kv) \<and> wf_json (snd kv) \<and> scalars (fst kv)"
    and "2 * length (join [44] (map (dumps_pair a) d)) + 1 < n"
  shows "json_members n (join [44] (map (dumps_pair a) d) @ 125 # r) = Inr (d, r)"
  using assms
proof (induction d arbitrary: n)
  case (Cons x xs)
  obtain m where n: "n = Suc m" using Cons.prems(3) by (cases n) auto
  obtain k v where x: "x = (k, v)" by (cases x)
  have k: "scalars k" and v: "reads_back a v" "wf_json v" using Cons.prems(2) x by auto
  have head: "take 1 (dumps_pair a x @ t) = [34]" for t by (simp add: x dumps_str_def)
  have str: "json_string (tl (dumps_pair a x @ t)) = Inr (k, 58 # dumps a v @ t)" for t
    using json_string_dumps [OF k] by (simp add: x dumps_str_def)
  show ?case
  proof (cases xs)
    case Nil
    have "json_value m (dumps a v @ 125 # r) = Inr (v, 125 # r)"
      using v Cons.prems(3) n x Nil by (simp add: is_digit_def)
    with Nil n head str v show ?thesis
      by (simp add: skip_ws_stop skip_ws_dumps x)
  next
    case (Cons y ys)
    let ?j = "join [44] (map (dumps_pair a) xs)"
    have j: "join [44] (map (dumps_pair a) (x # xs)) = dumps_pair a x @ 44 # ?j" using Cons by simp
    have val: "json_value m (dumps a v @ 44 # ?j @ 125 # r) = Inr (v, 44 # ?j @ 125 # r)"
      using v Cons.prems(3) n j x by (simp add: is_digit_def)
    have skip: "skip_ws (?j @ 125 # r) = ?j @ 125 # r"
      using Cons by (cases ys) (auto simp: skip_ws_stop dumps_str_def)
    have rest: "json_members m (?j @ 125 # r) = Inr (xs, r)"
      using Cons.prems n j Cons by (intro Cons.IH) auto
    have "json_members n ((dumps_pair a x @ 44 # ?j) @ 125 # r) = Inr ((k, v) # xs, r)"
      using n head [of "44 # ?j @ 125 # r"] str [of "44 # ?j @ 125 # r"] val skip rest v
      by (simp add: skip_ws_stop skip_ws_dumps)
    with j x show ?thesis by (simp only:)
  qed
qed simp

lemma head_facts:
  assumes "s = c # t" and "\<not> is_json_ws c"
  shows "skip_ws s = s" and "take (Suc 0) s = [d] \<longleftrightarrow> c = d"
  using assms by (auto simp: skip_ws_stop)

lemma dumps_PList_reads:
  assumes "\<forall>x\<in>set xs. reads_back a x \<and> wf_json x"
  shows "reads_back a (PList xs)"
proof (intro allI impI)
  fix n r
  assume n: "2 * length (dumps a (PList xs)) < n"
  then obtain m where m: "n = Suc m" by (cases n) auto
  let ?j = "join [44] (map (dumps a) xs)"
  show "json_value n (dumps a (PList xs) @ r) = Inr (PList xs, r)"
  proof (cases xs)
    case Nil
    then show ?thesis by (simp add: m skip_ws_stop)
  next
    case (Cons y ys)
    obtain c s where c: "?j @ 93 # r = c # s" "\<not> is_json_ws c" "c \<noteq> 93"
      using Cons assms dumps_head [of y a] by (cases ys) auto
    then have "skip_ws (?j @ 93 # r) = ?j @ 93 # r" "take (Suc 0) (?j @ 93 # r) \<noteq> [93]"
      using head_facts [OF c(1,2)] by simp_all
    moreover have "json_elems m (?j @ 93 # r) = Inr (xs, r)"
      using Cons assms n m by (intro json_elems_dumps) auto
    ultimately show ?thesis by (simp add: m)
  qed
qed

lemma dumps_PDict_reads:
  assumes "dict_wf d" and "\<forall>kv\<in>set d. reads_back a (snd kv) \<and> wf_json (snd kv) \<and> scalars (fst kv)"
  shows "reads_back a (PDict d)"
proof (intro allI impI)
  fix n r
  assume n: "2 * length (dumps a (PDict d)) < n"
  then obtain m where m: "n = Suc m" by (cases n) auto
  let ?j = "join [44] (map (dumps_pair a) d)"
  show "json_value n (dumps a (PDict d) @ r) = Inr (PDict d, r)"
  proof (cases d)
    case Nil
    then show ?thesis by (simp add: m skip_ws_stop)
  next
    case (Cons y ys)
    obtain s where s: "?j @ 125 # r = 34 # s"
      using Cons by (cases ys) (auto simp: dumps_str_def)
    then have "skip_ws (?j @ 125 # r) = ?j @ 125 # r" "take (Suc 0) (?j @ 125 # r) \<noteq> [125]"
      using head_facts [OF s] by simp_all
    moreover have "json_members m (?j @ 125 # r) = Inr (d, r)"
      using Cons assms n m by (intro json_members_dumps) auto
    ultimately show ?thesis using assms(1) by (simp add: m dict_of_id)
  qed
qed

lemma json_value_atom:
  "2 * length s < n \<Longrightarrow> take 1 (s @ r) \<notin> {[34], [123], [91]} \<Longrightarrow> json_value n (s @ r) = json_atom (s @ r)"
  by (cases n) simp_all

lemma json_value_dumps: "wf_json v \<Longrightarrow> reads_back a v"
proof (induction v)
  case PNone
  show ?case by (intro allI impI, subst json_value_atom) (simp_all add: u_def json_atom_def startswith_def)
next
  case (PBool b)
  show ?case
    by (cases b; intro allI impI, subst json_value_atom) (simp_all add: u_def json_atom_def startswith_def)
next
  case (PInt i)
  show ?case
  proof (intro allI impI)
    fix n r
    assume n: "2 * length (dumps a (PInt i)) < n" and r: "ends_number r"
    obtain c s where "int_str i @ r = c # s" "is_digit c \<or> c = 45"
      using int_str_head [of i] by auto
    then have "take 1 (int_str i @ r) \<notin> {[34], [123], [91]}" by (auto simp: is_digit_def simp del: take_append)
    with n json_atom_int [OF r, of i] PInt show "json_value n (dumps a (PInt i) @ r) = Inr (PInt i, r)"
      by (simp add: json_value_atom del: take_append)
  qed
next
  case (PStr s)
  have "json_value n (dumps a (PStr s) @ r) = Inr (PStr s, r)" if "0 < n" for n r
    using PStr that by (cases n) (simp_all add: dumps_str_def json_string_dumps)
  then show ?case by simp
next
  case (PList xs)
  then show ?case by (intro dumps_PList_reads) (auto simp: list_all_iff)
next
  case (PDict d)
  then show ?case
    by (intro dumps_PDict_reads) (auto simp: list_all_iff snds.simps)
qed simp

lemma loads_dumps:
  assumes "wf_json v"
  shows "loads (dumps a v) = Inr v"
proof -
  have "json_value (2 * length (dumps a v) + 2) (dumps a v @ []) = Inr (v, [])"
    using json_value_dumps [OF assms, of a, rule_format, of "2 * length (dumps a v) + 2" "[]"]
    by (simp del: json_value.simps)
  moreover have "take 1 (dumps a v) \<noteq> [65279]" using dumps_head [OF assms, of a] by auto
  ultimately show ?thesis using skip_ws_dumps [OF assms, of a "[]"]
    by (simp add: loads_def skip_ws_def del: json_value.simps)
qed

subsection \<open>What is written stays on one line\<close>

lemma hex4_chars: "c \<in> set (hex4 n) \<Longrightarrow> 32 \<le> c \<and> c < 127"
proof -
  have "hex_digit k < 127 \<and> 32 \<le> hex_digit k" if "k < 16" for k
    using that by (simp add: hex_digit_def)
  then show "c \<in> set (hex4 n) \<Longrightarrow> 32 \<le> c \<and> c < 127" by (auto simp: hex4_def)
qed

lemma esc_char_chars: "c \<in> set (esc_char a x) \<Longrightarrow> c = x \<and> 32 \<le> x \<or> 32 \<le> c \<and> c < 127"
  by (simp add: esc_char_def split: if_splits; elim disjE; (drule hex4_chars)?; simp)

lemma ascii_scalar: "c < 127 \<Longrightarrow> is_scalar c"
  by (simp add: is_scalar_def is_surrogate_def)

text \<open>A character that can be sent inside a line: encodable, and no control character.\<close>

definition line_char :: "nat \<Rightarrow> bool" where
  "line_char c \<longleftrightarrow> 32 \<le> c \<and> is_scalar c"

lemma line_char_ascii: "32 \<le> c \<Longrightarrow> c < 127 \<Longrightarrow> line_char c"
  by (simp add: line_char_def ascii_scalar)

lemma dumps_str_line: "scalars s \<Longrightarrow> c \<in> set (dumps_str a s) \<Longrightarrow> line_char c"
  by (auto simp: dumps_str_def list_all_iff line_char_def ascii_scalar dest!: esc_char_chars)

lemma join_mem: "c \<in> set (join sep xs) \<Longrightarrow> c \<in> set sep \<or> (\<exists>x\<in>set xs. c \<in> set x)"
  by (induction sep xs rule: join.induct) auto

lemma dumps_line: "wf_json v \<Longrightarrow> c \<in> set (dumps a v) \<Longrightarrow> line_char c"
proof (induction v)
  case (PInt i)
  then show ?case using int_str_chars [of c i] by (auto simp: is_digit_def line_char_ascii)
next
  case (PList xs)
  then show ?case using join_mem [of c "[44]" "map (dumps a) xs"]
    by (auto simp: list_all_iff line_char_ascii)
next
  case (PDict d)
  have "line_char c" if "kv \<in> set d" "c \<in> set (dumps_pair a kv)" for kv
  proof -
    obtain k v where kv: "kv = (k, v)" by (cases kv)
    with that PDict.prems(1) have "scalars k" "wf_json v" by (auto simp: list_all_iff)
    with that kv PDict.IH [of kv v] show ?thesis
      by (auto simp: line_char_ascii snds.simps dest: dumps_str_line)
  qed
  moreover have "c = 123 \<or> c = 125 \<or> c \<in> set (join [44] (map (dumps_pair a) d))"
    using PDict.prems(2) by auto
  ultimately show ?case using join_mem [of c "[44]" "map (dumps_pair a) d"]
    by (force simp: line_char_ascii)
qed (auto simp: u_def line_char_ascii dest: dumps_str_line split: if_splits)

end
