(* ===== verification/Frames.thy ===== *)
theory Frames
  imports Json
begin

section \<open>Frames: the vocabulary of the wire\<close>

text \<open>
  \<open>im/common/frames.py\<close>. The fields \<open>sender\<close>, \<open>to\<close>, \<open>body\<close>, \<open>nonce\<close>, \<open>id\<close> and \<open>v\<close> are
  Python values and not strings: \<open>from_dict\<close> copies them from the decoded object without
  looking at their type (\<open>PNone\<close> is \<open>None\<close>). Only \<open>type\<close> and \<open>ts\<close> are checked.
\<close>

definition PROTOCOL_VERSION :: int where
  "PROTOCOL_VERSION = 1"

text \<open>A \<open>ProtocolError\<close>, one constructor for each place that raises it.\<close>

datatype protocol_error =
    Not_Json ustr
  | Not_Object
  | Bad_Version pyval
  | No_Type
  | Unknown_Type pyval
  | Bad_Ts
  | Reserved_Key ustr
  | Line_Too_Long nat
  | Not_Utf8

definition perr_msg :: "protocol_error \<Rightarrow> ustr" where
  "perr_msg e = (case e of
       Not_Json m \<Rightarrow> u ''line is not valid JSON: '' @ m
     | Not_Object \<Rightarrow> u ''frame must be a JSON object''
     | Bad_Version x \<Rightarrow> u ''unsupported protocol version '' @ py_repr x
     | No_Type \<Rightarrow> u ''frame has no type''
     | Unknown_Type x \<Rightarrow> u ''unknown frame type '' @ py_repr x
     | Bad_Ts \<Rightarrow> u ''ts must be an integer''
     | Reserved_Key k \<Rightarrow> u ''data key '' @ repr_str k @ u '' collides with a reserved field''
     | Line_Too_Long n \<Rightarrow> u ''line exceeded '' @ nat_str n @ u '' bytes without a newline''
     | Not_Utf8 \<Rightarrow> u ''line is not valid UTF-8'')"

datatype message_type =
    REGISTER | LOGIN | GET_KEY | MSG | CREATE_ROOM | JOIN | LEAVE | INVITE | ADD_CONTACT
  | REMOVE_CONTACT | TYPING | RECEIPT | HISTORY | PING
  | OK | ERROR | LOGIN_OK | KEY | ACK | ROOM_STATE | CONTACTS | HISTORY_RESULT | PONG | PRESENCE

definition type_name :: "message_type \<Rightarrow> string" where
  "type_name t = (case t of
       REGISTER \<Rightarrow> ''REGISTER'' | LOGIN \<Rightarrow> ''LOGIN'' | GET_KEY \<Rightarrow> ''GET_KEY'' | MSG \<Rightarrow> ''MSG''
     | CREATE_ROOM \<Rightarrow> ''CREATE_ROOM'' | JOIN \<Rightarrow> ''JOIN'' | LEAVE \<Rightarrow> ''LEAVE'' | INVITE \<Rightarrow> ''INVITE''
     | ADD_CONTACT \<Rightarrow> ''ADD_CONTACT'' | REMOVE_CONTACT \<Rightarrow> ''REMOVE_CONTACT'' | TYPING \<Rightarrow> ''TYPING''
     | RECEIPT \<Rightarrow> ''RECEIPT'' | HISTORY \<Rightarrow> ''HISTORY'' | PING \<Rightarrow> ''PING'' | OK \<Rightarrow> ''OK'' | ERROR \<Rightarrow> ''ERROR''
     | LOGIN_OK \<Rightarrow> ''LOGIN_OK'' | KEY \<Rightarrow> ''KEY'' | ACK \<Rightarrow> ''ACK'' | ROOM_STATE \<Rightarrow> ''ROOM_STATE''
     | CONTACTS \<Rightarrow> ''CONTACTS'' | HISTORY_RESULT \<Rightarrow> ''HISTORY_RESULT'' | PONG \<Rightarrow> ''PONG''
     | PRESENCE \<Rightarrow> ''PRESENCE'')"

definition all_types :: "message_type list" where
  "all_types = [REGISTER, LOGIN, GET_KEY, MSG, CREATE_ROOM, JOIN, LEAVE, INVITE, ADD_CONTACT,
     REMOVE_CONTACT, TYPING, RECEIPT, HISTORY, PING, OK, ERROR, LOGIN_OK, KEY, ACK, ROOM_STATE,
     CONTACTS, HISTORY_RESULT, PONG, PRESENCE]"

text \<open>\<open>MessageType(raw)\<close>, \<open>None\<close> where it raises \<open>ValueError\<close>.\<close>

definition message_type_of :: "pyval \<Rightarrow> message_type option" where
  "message_type_of x = (case x of PStr s \<Rightarrow> find (\<lambda>t. u (type_name t) = s) all_types | _ \<Rightarrow> None)"

record frame =
  f_type :: message_type
  f_sender :: pyval
  f_to :: pyval
  f_body :: pyval
  f_nonce :: pyval
  f_data :: "(ustr, pyval) dict"
  f_id :: pyval
  f_ts :: int
  f_v :: pyval

text \<open>\<open>Frame(...)\<close> with the default factories for \<open>id\<close> and \<open>ts\<close>.\<close>

definition new_frame ::
  "message_type \<Rightarrow> pyval \<Rightarrow> pyval \<Rightarrow> pyval \<Rightarrow> pyval \<Rightarrow> (ustr, pyval) dict \<Rightarrow> ('z world_scheme, frame) py" where
  "new_frame ty sender to body nonce data =
     bnd new_id (\<lambda>i. bnd now_ms (\<lambda>t.
       ret \<lparr>f_type = ty, f_sender = sender, f_to = to, f_body = body, f_nonce = nonce,
            f_data = data, f_id = PStr i, f_ts = t, f_v = PInt PROTOCOL_VERSION\<rparr>))"

text \<open>A frame that carries only data.\<close>

definition data_frame :: "message_type \<Rightarrow> (ustr, pyval) dict \<Rightarrow> ('z world_scheme, frame) py" where
  "data_frame ty data = new_frame ty PNone PNone PNone PNone data"

definition error_frame :: "string \<Rightarrow> ustr \<Rightarrow> ('z world_scheme, frame) py" where
  "error_frame code message =
     data_frame ERROR [(u ''code'', PStr (u code)), (u ''message'', PStr message)]"

definition reserved :: "ustr list" where
  "reserved = map u [''v'', ''id'', ''type'', ''ts'', ''from'', ''to'', ''body'', ''n'']"

definition opt_field :: "string \<Rightarrow> pyval \<Rightarrow> (ustr, pyval) dict" where
  "opt_field name x = (if x = PNone then [] else [(u name, x)])"

fun add_data :: "(ustr, pyval) dict \<Rightarrow> (ustr, pyval) dict \<Rightarrow> protocol_error + (ustr, pyval) dict" where
  "add_data out [] = Inr out"
| "add_data out ((k, x) # d) =
     (if k \<in> set reserved then Inl (Reserved_Key k) else add_data (dict_set out k x) d)"

definition head_fields :: "frame \<Rightarrow> (ustr, pyval) dict" where
  "head_fields f =
     [(u ''v'', f_v f), (u ''id'', f_id f), (u ''type'', PStr (u (type_name (f_type f)))), (u ''ts'', PInt (f_ts f))]
     @ opt_field ''from'' (f_sender f) @ opt_field ''to'' (f_to f)
     @ opt_field ''body'' (f_body f) @ opt_field ''n'' (f_nonce f)"

definition to_dict :: "frame \<Rightarrow> protocol_error + (ustr, pyval) dict" where
  "to_dict f = add_data (head_fields f) (f_data f)"

definition from_dict :: "pyval \<Rightarrow> ('z world_scheme, protocol_error + frame) py" where
  "from_dict raw = (case raw of
     PDict d \<Rightarrow>
       (let version = (case dict_get d (u ''v'') of None \<Rightarrow> PInt PROTOCOL_VERSION | Some x \<Rightarrow> x);
            raw_type = pget d (u ''type'')
        in if \<not> eq_int version PROTOCOL_VERSION then ret (Inl (Bad_Version version))
           else if raw_type = PNone then ret (Inl No_Type)
           else case message_type_of raw_type of None \<Rightarrow> ret (Inl (Unknown_Type raw_type))
           | Some ty \<Rightarrow>
             bnd now_ms (\<lambda>now.
               case (case dict_get d (u ''ts'') of None \<Rightarrow> PInt now | Some x \<Rightarrow> x) of
                 PInt ts \<Rightarrow>
                   bnd (if py_truthy (pget d (u ''id'')) then ret (pget d (u ''id'')) else bnd new_id (\<lambda>i. ret (PStr i)))
                     (\<lambda>fid. ret (Inr
                       \<lparr>f_type = ty, f_sender = pget d (u ''from''), f_to = pget d (u ''to''),
                        f_body = pget d (u ''body''), f_nonce = pget d (u ''n''),
                        f_data = filter (\<lambda>(k, _). k \<notin> set reserved) d, f_id = fid, f_ts = ts, f_v = version\<rparr>))
               | _ \<Rightarrow> ret (Inl Bad_Ts)))
   | _ \<Rightarrow> ret (Inl Not_Object))"

declare new_frame_def [op_defs] data_frame_def [op_defs] error_frame_def [op_defs]

subsection \<open>Well-formed frames survive the trip through a dictionary\<close>

definition wf_frame :: "frame \<Rightarrow> bool" where
  "wf_frame f \<longleftrightarrow>
     f_v f = PInt PROTOCOL_VERSION \<and> wf_json (f_sender f) \<and> wf_json (f_to f) \<and> wf_json (f_body f) \<and>
     wf_json (f_nonce f) \<and> wf_json (f_id f) \<and> py_truthy (f_id f) \<and> wf_json (PInt (f_ts f)) \<and>
     wf_json (PDict (f_data f)) \<and> (\<forall>k\<in>fst ` set (f_data f). k \<notin> set reserved)"

lemma message_type_of_name [simp]: "message_type_of (PStr (u (type_name t))) = Some t"
  by (cases t) (simp_all add: message_type_of_def type_name_def all_types_def)

lemma add_data_append:
  "dict_wf (out @ d) \<Longrightarrow> \<forall>k\<in>fst ` set d. k \<notin> set reserved \<Longrightarrow> add_data out d = Inr (out @ d)"
proof (induction d arbitrary: out)
  case (Cons kv d)
  obtain k x where kv: "kv = (k, x)" by (cases kv)
  with Cons.prems have "k \<notin> set (map fst out)" by auto
  with Cons.IH [of "out @ [(k, x)]"] Cons.prems kv show ?case by (simp add: dict_set_new)
qed simp

lemma head_fields_keys: "set (map fst (head_fields f)) \<subseteq> set reserved" "dict_wf (head_fields f)"
  by (simp_all add: head_fields_def opt_field_def reserved_def)

lemma dict_wf_append:
  "dict_wf (d @ e) \<longleftrightarrow> dict_wf d \<and> dict_wf e \<and> set (map fst d) \<inter> set (map fst e) = {}"
  by simp

lemma to_dict_eq:
  assumes "wf_frame f"
  shows "to_dict f = Inr (head_fields f @ f_data f)"
proof -
  have wf: "dict_wf (f_data f)" and nr: "\<forall>k\<in>fst ` set (f_data f). k \<notin> set reserved"
    using assms by (auto simp: wf_frame_def)
  then have "set (map fst (head_fields f)) \<inter> set (map fst (f_data f)) = {}"
    using head_fields_keys(1) [of f] by (fastforce simp: subset_iff image_iff)
  with wf head_fields_keys(2) [of f] have "dict_wf (head_fields f @ f_data f)"
    unfolding dict_wf_append by blast
  with nr show ?thesis unfolding to_dict_def by (intro add_data_append)
qed

lemma dict_get_append: "dict_get (d @ e) k = (case dict_get d k of None \<Rightarrow> dict_get e k | Some x \<Rightarrow> Some x)"
  by (induction d) auto

lemma dict_get_head:
  assumes "wf_frame f" and "k \<in> set reserved"
  shows "dict_get (head_fields f @ f_data f) k = dict_get (head_fields f) k"
proof -
  have "dict_get (f_data f) k = None"
    using assms by (auto simp: wf_frame_def dict_get_None_iff)
  then show ?thesis by (simp add: dict_get_append split: option.split)
qed

lemma head_get:
  "dict_get (head_fields f) (u ''v'') = Some (f_v f)"
  "dict_get (head_fields f) (u ''ts'') = Some (PInt (f_ts f))"
  "pget (head_fields f) (u ''type'') = PStr (u (type_name (f_type f)))"
  "pget (head_fields f) (u ''id'') = f_id f"
  "pget (head_fields f) (u ''from'') = f_sender f"
  "pget (head_fields f) (u ''to'') = f_to f"
  "pget (head_fields f) (u ''body'') = f_body f"
  "pget (head_fields f) (u ''n'') = f_nonce f"
  by (simp_all add: head_fields_def opt_field_def pget_def)

lemma data_filter:
  assumes "wf_frame f"
  shows "filter (\<lambda>(k, _). k \<notin> set reserved) (head_fields f @ f_data f) = f_data f"
proof -
  have "filter (\<lambda>(k, _). k \<notin> set reserved) (head_fields f) = []"
    using head_fields_keys(1) [of f] by (fastforce simp: filter_empty_conv)
  moreover have "filter (\<lambda>(k, _). k \<notin> set reserved) (f_data f) = f_data f"
    using assms by (fastforce simp: wf_frame_def filter_id_conv)
  ultimately show ?thesis by simp
qed

lemma from_dict_to_dict:
  assumes "wf_frame f"
  shows "from_dict (PDict (head_fields f @ f_data f)) w = (Inr (Inr f), w\<lparr>draws := Suc (draws w)\<rparr>)"
proof -
  let ?d = "head_fields f @ f_data f"
  have g: "dict_get ?d (u k) = dict_get (head_fields f) (u k)" if "u k \<in> set reserved" for k
    using dict_get_head [OF assms that] .
  have r: "u k \<in> set reserved" if "k \<in> {''v'', ''id'', ''type'', ''ts'', ''from'', ''to'', ''body'', ''n''}" for k
    using that by (auto simp: reserved_def)
  have v: "dict_get ?d (u ''v'') = Some (f_v f)" and t: "dict_get ?d (u ''ts'') = Some (PInt (f_ts f))"
    using g [OF r] head_get by simp_all
  have p: "pget ?d (u k) = pget (head_fields f) (u k)" if "u k \<in> set reserved" for k
    by (simp add: pget_def g [OF that])
  have "eq_int (f_v f) PROTOCOL_VERSION" and "py_truthy (f_id f)"
    using assms by (auto simp: wf_frame_def eq_int_def)
  then show ?thesis
    unfolding from_dict_def
    by (simp add: v t p r head_get data_filter [OF assms] now_ms_def draw_def bnd_def del: filter_append)
qed

end
