(* ===== verification/Codec.thy ===== *)
theory Codec
  imports Frames
begin

section \<open>Codec: frames to bytes and back\<close>

text \<open>
  \<open>im/common/codec.py\<close>: \<open>encode\<close> and \<open>decode\<close>, and the \<open>LineBuffer\<close> that turns the chunks
  \<open>recv\<close> returns into complete lines.
\<close>

definition DELIMITER :: byte where
  "DELIMITER = byte_of 10"

definition MAX_LINE_BYTES :: nat where
  "MAX_LINE_BYTES = 1024 * 1024"

text \<open>\<open>encode\<close> fails on a reserved data key, and on text that UTF-8 cannot represent.\<close>

datatype encode_error = Enc_Protocol protocol_error | Enc_Exn exn

definition encode :: "frame \<Rightarrow> encode_error + byte list" where
  "encode f = (case to_dict f of Inl e \<Rightarrow> Inl (Enc_Protocol e)
     | Inr d \<Rightarrow> (case utf8_encode (dumps False (PDict d)) of Inl e \<Rightarrow> Inl (Enc_Exn e)
         | Inr bs \<Rightarrow> Inr (bs @ [DELIMITER])))"

text \<open>
  \<open>decode\<close> turns a \<open>JSONDecodeError\<close> into a \<open>ProtocolError\<close>; the plain \<open>ValueError\<close> of an
  over-long numeral is not one and escapes. \<open>Out_Of_Fuel\<close> does not happen (\<open>loads_fuel\<close>).
\<close>

definition decode :: "ustr \<Rightarrow> ('z world_scheme, protocol_error + frame) py" where
  "decode line = (case loads line of
       Inl (Decode_Error m) \<Rightarrow> ret (Inl (Not_Json m))
     | Inl _ \<Rightarrow> raise Value_Error
     | Inr raw \<Rightarrow> from_dict raw)"

text \<open>Decoding draws from the world and changes nothing else.\<close>

context world_rel
begin

lemma decode_runs: "runs_in R (decode line)"
  unfolding decode_def from_dict_def Let_def
  by (auto intro!: world_rules split: sum.split json_error.split pyval.split option.split)

end

record line_buffer =
  lb_buffer :: "byte list"
  lb_max :: nat

definition new_line_buffer :: "nat \<Rightarrow> line_buffer" where
  "new_line_buffer m = \<lparr>lb_buffer = [], lb_max = m\<rparr>"

definition rstrip_cr :: "ustr \<Rightarrow> ustr" where
  "rstrip_cr s = rstrip_by (\<lambda>c. c = 13) s"

text \<open>
  The loop of \<open>feed\<close>: as long as the buffer holds a delimiter, cut the line off, decode it,
  strip a trailing carriage return and keep it unless it is empty. A line that is not
  UTF-8 raises, after it has been removed from the buffer.
\<close>

function feed_loop :: "byte list \<Rightarrow> ustr list \<Rightarrow> byte list \<times> (protocol_error + ustr list)" where
  "feed_loop buf lines =
     (if DELIMITER \<notin> set buf then (buf, Inr lines)
      else let raw = takeWhile (\<lambda>b. b \<noteq> DELIMITER) buf;
               rest = drop (Suc (length raw)) buf
           in case utf8_decode raw of None \<Rightarrow> (rest, Inl Not_Utf8)
              | Some t \<Rightarrow> (let text = rstrip_cr t
                           in feed_loop rest (if text \<noteq> [] then lines @ [text] else lines)))"
  by pat_completeness auto
termination
  by (relation "measure (length \<circ> fst)") (auto intro!: diff_less length_pos_if_in_set)

declare feed_loop.simps [simp del]

definition feed :: "line_buffer \<Rightarrow> byte list \<Rightarrow> line_buffer \<times> (protocol_error + ustr list)" where
  "feed lb chunk =
     (case feed_loop (lb_buffer lb @ chunk) [] of
        (buf, Inl e) \<Rightarrow> (lb\<lparr>lb_buffer := buf\<rparr>, Inl e)
      | (buf, Inr lines) \<Rightarrow>
          if lb_max lb < length buf then (lb\<lparr>lb_buffer := []\<rparr>, Inl (Line_Too_Long (lb_max lb)))
          else (lb\<lparr>lb_buffer := buf\<rparr>, Inr lines))"

definition pending :: "line_buffer \<Rightarrow> nat" where
  "pending lb = length (lb_buffer lb)"

text \<open>A reader's whole input: chunk after chunk until one of them raises.\<close>

fun feed_all :: "line_buffer \<Rightarrow> byte list list \<Rightarrow> line_buffer \<times> (protocol_error + ustr list)" where
  "feed_all lb [] = (lb, Inr [])"
| "feed_all lb (c # cs) =
     (case feed lb c of (lb', Inl e) \<Rightarrow> (lb', Inl e)
      | (lb', Inr ls) \<Rightarrow> (case feed_all lb' cs of (lb2, Inl e) \<Rightarrow> (lb2, Inl e)
          | (lb2, Inr ls') \<Rightarrow> (lb2, Inr (ls @ ls'))))"

subsection \<open>The buffer never outgrows its limit\<close>

lemma feed_loop_no_delim: "feed_loop buf lines = (buf', Inr ls) \<Longrightarrow> DELIMITER \<notin> set buf'"
  by (induction buf lines rule: feed_loop.induct)
    (auto simp: feed_loop.simps Let_def split: if_splits option.splits)

definition lb_inv :: "line_buffer \<Rightarrow> bool" where
  "lb_inv lb \<longleftrightarrow> DELIMITER \<notin> set (lb_buffer lb) \<and> length (lb_buffer lb) \<le> lb_max lb"

lemma new_line_buffer_inv: "lb_inv (new_line_buffer m)"
  by (simp add: lb_inv_def new_line_buffer_def)

lemma feed_inv: "feed lb chunk = (lb', Inr ls) \<Longrightarrow> lb_inv lb' \<and> lb_max lb' = lb_max lb"
  by (auto simp: feed_def lb_inv_def dest: feed_loop_no_delim split: prod.splits sum.splits if_splits)

subsection \<open>Chunk boundaries do not matter\<close>

lemma feed_loop_done: "DELIMITER \<notin> set buf \<Longrightarrow> feed_loop buf lines = (buf, Inr lines)"
  by (simp add: feed_loop.simps)

lemma feed_loop_cut:
  assumes "DELIMITER \<notin> set xs"
  shows "feed_loop (xs @ DELIMITER # ys) lines =
    (case utf8_decode xs of None \<Rightarrow> (ys, Inl Not_Utf8)
     | Some t \<Rightarrow> feed_loop ys (if rstrip_cr t \<noteq> [] then lines @ [rstrip_cr t] else lines))"
proof -
  have "takeWhile (\<lambda>b. b \<noteq> DELIMITER) (xs @ DELIMITER # ys) = xs"
    using assms by (intro takeWhile_append_stop) auto
  then show ?thesis
    by (subst feed_loop.simps) (cases "utf8_decode xs"; simp add: Let_def)
qed

lemma buffer_induct [case_names whole cut]:
  assumes "\<And>buf. DELIMITER \<notin> set buf \<Longrightarrow> P buf"
    and "\<And>xs ys. DELIMITER \<notin> set xs \<Longrightarrow> P ys \<Longrightarrow> P (xs @ DELIMITER # ys)"
  shows "P buf"
proof (induction buf rule: measure_induct_rule [where f = length])
  case (less buf)
  show ?case
  proof (cases "DELIMITER \<in> set buf")
    case True
    then obtain xs ys where "buf = xs @ DELIMITER # ys" "DELIMITER \<notin> set xs"
      by (meson split_list_first)
    with less show ?thesis by (auto intro: assms(2))
  qed (simp add: assms(1))
qed

lemma feed_loop_append:
  "feed_loop buf lines = (buf', Inr ls) \<Longrightarrow> feed_loop (buf @ c) lines = feed_loop (buf' @ c) ls"
proof (induction buf arbitrary: lines rule: buffer_induct)
  case (whole buf)
  then show ?case by (simp add: feed_loop_done)
next
  case (cut xs ys)
  then show ?case by (auto simp: feed_loop_cut split: option.splits)
qed

lemma feed_Inr: "feed lb c = (lb', Inr ls) \<longleftrightarrow>
  feed_loop (lb_buffer lb @ c) [] = (lb_buffer lb', Inr ls) \<and> length (lb_buffer lb') \<le> lb_max lb \<and>
  lb' = lb\<lparr>lb_buffer := lb_buffer lb'\<rparr>"
  by (auto simp: feed_def split: prod.splits sum.splits if_splits)

lemma feed_loop_acc:
  "feed_loop buf lines = (fst (feed_loop buf []), map_sum id ((@) lines) (snd (feed_loop buf [])))"
proof (induction buf arbitrary: lines rule: buffer_induct)
  case (whole buf)
  then show ?case by (simp add: feed_loop_done)
next
  case (cut xs ys)
  show ?case
  proof (cases "utf8_decode xs")
    case (Some t)
    with cut.IH [of lines] cut.IH [of "lines @ [rstrip_cr t]"] cut.IH [of "[rstrip_cr t]"] show ?thesis
      by (cases "snd (feed_loop ys [])") (auto simp: feed_loop_cut [OF cut.hyps])
  qed (simp add: feed_loop_cut [OF cut.hyps])
qed

lemma feed_all_loop:
  "feed_all lb cs = (lb', Inr ls) \<Longrightarrow> DELIMITER \<notin> set (lb_buffer lb) \<Longrightarrow>
   feed_loop (lb_buffer lb @ concat cs) [] = (lb_buffer lb', Inr ls) \<and> lb_max lb' = lb_max lb"
proof (induction cs arbitrary: lb ls)
  case Nil
  then show ?case by (simp add: feed_loop.simps)
next
  case (Cons c cs)
  from Cons.prems(1) obtain lb1 ls1 ls2 where f: "feed lb c = (lb1, Inr ls1)"
    and g: "feed_all lb1 cs = (lb', Inr ls2)" and ls: "ls = ls1 @ ls2"
    by (auto split: prod.splits sum.splits)
  from f have l: "feed_loop (lb_buffer lb @ c) [] = (lb_buffer lb1, Inr ls1)"
    and m: "lb_max lb1 = lb_max lb" by (auto simp: feed_Inr) (metis line_buffer.select_convs(2) line_buffer.surjective line_buffer.update_convs(1))
  have "DELIMITER \<notin> set (lb_buffer lb1)" using l by (rule feed_loop_no_delim)
  with Cons.IH [OF g] have ih: "feed_loop (lb_buffer lb1 @ concat cs) [] = (lb_buffer lb', Inr ls2)"
    "lb_max lb' = lb_max lb1" by auto
  have "feed_loop ((lb_buffer lb @ c) @ concat cs) [] = feed_loop (lb_buffer lb1 @ concat cs) ls1"
    using l by (rule feed_loop_append)
  also have "\<dots> = (lb_buffer lb', Inr ls)"
    using feed_loop_acc [of "lb_buffer lb1 @ concat cs" ls1] ih(1) ls by simp
  finally show ?case using m ih(2) by simp
qed

subsection \<open>Lines that were sent are lines that arrive\<close>

definition good_line :: "ustr \<Rightarrow> bool" where
  "good_line t \<longleftrightarrow> t \<noteq> [] \<and> list_all line_char t"

definition line_bytes :: "ustr \<Rightarrow> byte list" where
  "line_bytes t = concat (map utf8_char t) @ [DELIMITER]"

lemma good_line_facts:
  assumes "good_line t"
  shows "utf8_decode (concat (map utf8_char t)) = Some t" "rstrip_cr t = t"
    "DELIMITER \<notin> set (concat (map utf8_char t))" "t \<noteq> []"
proof -
  have sc: "scalars t" and ge: "\<forall>c\<in>set t. 32 \<le> c" and ne: "t \<noteq> []"
    using assms by (auto simp: good_line_def line_char_def list_all_iff)
  show "utf8_decode (concat (map utf8_char t)) = Some t" using sc by (rule utf8_decode_chars)
  have "last t \<noteq> 13" using ge last_in_set [OF ne] by auto
  with ne show "rstrip_cr t = t"
    by (cases t rule: rev_cases) (auto simp: rstrip_cr_def rstrip_by_def)
  show "DELIMITER \<notin> set (concat (map utf8_char t))"
    unfolding DELIMITER_def using newline_in_encode [OF sc] ge by force
  show "t \<noteq> []" by (rule ne)
qed

lemma feed_loop_line:
  "good_line t \<Longrightarrow> feed_loop (line_bytes t @ rest) lines = feed_loop rest (lines @ [t])"
  using feed_loop_cut [of "concat (map utf8_char t)" rest lines] good_line_facts [of t]
  by (simp add: line_bytes_def)

lemma feed_loop_lines:
  "list_all good_line ts \<Longrightarrow> DELIMITER \<notin> set part \<Longrightarrow>
   feed_loop (concat (map line_bytes ts) @ part) lines = (part, Inr (lines @ ts))"
  by (induction ts arbitrary: lines) (auto simp: feed_loop_line feed_loop.simps [of part])

text \<open>Any cut through a sequence of lines falls inside one of them.\<close>

lemma prefix_of_lines:
  "list_all good_line ts \<Longrightarrow> p @ q = concat (map line_bytes ts) \<Longrightarrow>
   \<exists>k part. p = concat (map line_bytes (take k ts)) @ part \<and> part @ q = concat (map line_bytes (drop k ts))
     \<and> DELIMITER \<notin> set part \<and> (part = [] \<or> (\<exists>t\<in>set ts. length part < length (line_bytes t)))"
proof (induction ts arbitrary: p)
  case Nil
  then show ?case by auto
next
  case (Cons t ts)
  let ?b = "concat (map utf8_char t)"
  show ?case
  proof (cases "length p < length (line_bytes t)")
    case True
    then have "length p \<le> length ?b" by (simp add: line_bytes_def)
    have "take (length p) (p @ q) = take (length p) (concat (map line_bytes (t # ts)))"
      unfolding Cons.prems(2) ..
    then have "p = take (length p) ?b" using \<open>length p \<le> length ?b\<close> by (simp add: line_bytes_def)
    then have "DELIMITER \<notin> set p"
      using good_line_facts(3) [of t] Cons.prems(1) by (metis in_set_takeD list.pred_inject(2))
    with True Cons.prems show ?thesis by (intro exI [of _ 0] exI [of _ p]) auto
  next
    case False
    have "take (length (line_bytes t)) (p @ q) = line_bytes t" unfolding Cons.prems(2) by simp
    with False obtain p' where p: "p = line_bytes t @ p'"
      by (metis append_take_drop_id diff_is_0_eq not_less take0 take_append append_Nil2)
    with Cons.prems have "p' @ q = concat (map line_bytes ts)" "list_all good_line ts" by auto
    from Cons.IH [OF this(2,1)] obtain k part where
      "p' = concat (map line_bytes (take k ts)) @ part" "part @ q = concat (map line_bytes (drop k ts))"
      "DELIMITER \<notin> set part" "part = [] \<or> (\<exists>t\<in>set ts. length part < length (line_bytes t))" by blast
    with p show ?thesis by (intro exI [of _ "Suc k"] exI [of _ part]) auto
  qed
qed

lemma feed_all_lines:
  assumes "list_all good_line ts" and "\<forall>t\<in>set ts. length (line_bytes t) \<le> lb_max lb"
    and "lb_buffer lb @ concat cs = concat (map line_bytes ts)" and "DELIMITER \<notin> set (lb_buffer lb)"
  shows "feed_all lb cs = (lb\<lparr>lb_buffer := []\<rparr>, Inr ts)"
  using assms
proof (induction cs arbitrary: lb ts)
  case Nil
  have "ts = []" using Nil(3,4) by (cases ts) (auto simp: line_bytes_def)
  with Nil(3) show ?case by (metis append_Nil2 concat.simps(1) feed_all.simps(1) line_buffer.surjective
        line_buffer.update_convs(1) list.map(1) old.unit.exhaust)
next
  case (Cons c cs)
  from prefix_of_lines [OF Cons.prems(1), of "lb_buffer lb @ c" "concat cs"] Cons.prems(3)
  obtain k part where p: "lb_buffer lb @ c = concat (map line_bytes (take k ts)) @ part"
    and q: "part @ concat cs = concat (map line_bytes (drop k ts))" and nd: "DELIMITER \<notin> set part"
    and len: "part = [] \<or> (\<exists>t\<in>set ts. length part < length (line_bytes t))" by auto
  let ?lb = "lb\<lparr>lb_buffer := part\<rparr>"
  have gt: "list_all good_line (take k ts)" "list_all good_line (drop k ts)"
    using Cons.prems(1) by (metis append_take_drop_id list_all_append)+
  have "feed_loop (lb_buffer lb @ c) [] = (part, Inr (take k ts))"
    using feed_loop_lines [OF gt(1) nd, of "[]"] p by simp
  moreover have "length part \<le> lb_max lb" using len Cons.prems(2) by force
  ultimately have f: "feed lb c = (?lb, Inr (take k ts))" by (simp add: feed_Inr)
  have "feed_all ?lb cs = (?lb\<lparr>lb_buffer := []\<rparr>, Inr (drop k ts))"
    using Cons.prems(2) gt(2) q nd by (intro Cons.IH) (auto dest: in_set_dropD)
  with f show ?case by simp
qed

subsection \<open>Frames on the wire\<close>

definition frame_text :: "frame \<Rightarrow> ustr" where
  "frame_text f = dumps False (PDict (head_fields f @ f_data f))"

lemma type_name_scalars: "scalars (u (type_name t))"
  by simp

lemma reserved_scalars: "k \<in> set reserved \<Longrightarrow> scalars k"
  by (auto simp: reserved_def)

lemma wf_frame_json:
  assumes "wf_frame f"
  shows "wf_json (PDict (head_fields f @ f_data f))"
proof -
  have "wf_json (PInt PROTOCOL_VERSION)" by (simp add: PROTOCOL_VERSION_def nat_str.simps max_digits_def)
  with assms have "list_all (\<lambda>kv. wf_json (snd kv)) (head_fields f)"
    by (auto simp: wf_frame_def head_fields_def opt_field_def type_name_scalars)
  moreover have "list_all (\<lambda>kv. scalars (fst kv)) (head_fields f)"
    using head_fields_keys(1) [of f] reserved_scalars by (auto simp: list_all_iff)
  moreover have "dict_wf (head_fields f @ f_data f)"
    using assms head_fields_keys [of f] unfolding dict_wf_append wf_frame_def by (fastforce simp: subset_iff image_iff)
  ultimately show ?thesis using assms by (auto simp: wf_frame_def list_all_iff)
qed

lemma frame_text_good: "wf_frame f \<Longrightarrow> good_line (frame_text f)"
  using dumps_line [OF wf_frame_json, of f] dumps_head [OF wf_frame_json, of f False]
  by (auto simp: good_line_def frame_text_def list_all_iff)

lemma encode_eq: "wf_frame f \<Longrightarrow> encode f = Inr (line_bytes (frame_text f))"
  using frame_text_good [of f]
  by (auto simp: encode_def to_dict_eq utf8_encode_def line_bytes_def frame_text_def good_line_def
      line_char_def list_all_iff)

lemma loads_frame_text: "wf_frame f \<Longrightarrow> loads (frame_text f) = Inr (PDict (head_fields f @ f_data f))"
  unfolding frame_text_def by (rule loads_dumps [OF wf_frame_json])

lemma decode_frame_text: "wf_frame f \<Longrightarrow> decode (frame_text f) w = (Inr (Inr f), w\<lparr>draws := Suc (draws w)\<rparr>)"
  by (simp add: decode_def loads_frame_text from_dict_to_dict)

lemma decode_frames:
  "list_all wf_frame fs \<Longrightarrow>
   map_each (map frame_text fs) decode w = (Inr (map Inr fs), w\<lparr>draws := draws w + length fs\<rparr>)"
  by (induction fs arbitrary: w) (simp_all add: decode_frame_text bnd_def)

text \<open>A well-formed frame encodes to bytes whose only newline is the last one, and a fresh
  buffer given those bytes hands back one line that decodes to the same frame.\<close>

theorem encode_decode_roundtrip:
  assumes "wf_frame f"
  shows "\<exists>bs line. encode f = Inr bs \<and> DELIMITER \<notin> set (butlast bs) \<and> last bs = DELIMITER \<and>
    (\<forall>m. length bs \<le> m \<longrightarrow> feed (new_line_buffer m) bs = (new_line_buffer m, Inr [line])) \<and>
    outcome (decode line) w = Inr (Inr f)"
proof -
  let ?t = "frame_text f"
  have "feed_loop (line_bytes ?t) [] = ([], Inr [?t])"
    using feed_loop_lines [of "[?t]" "[]" "[]"] frame_text_good [OF assms] by simp
  then have "feed (new_line_buffer m) (line_bytes ?t) = (new_line_buffer m, Inr [?t])" for m
    by (simp add: feed_Inr new_line_buffer_def)
  moreover have "DELIMITER \<notin> set (butlast (line_bytes ?t)) \<and> last (line_bytes ?t) = DELIMITER"
    using good_line_facts(3) [OF frame_text_good [OF assms]] by (simp add: line_bytes_def butlast_append)
  moreover have "outcome (decode ?t) w = Inr (Inr f)" by (simp add: decode_frame_text [OF assms])
  ultimately show ?thesis using encode_eq [OF assms] by blast
qed

text \<open>A frame of the protocol, for the concrete instances below.\<close>

definition sample_frame :: frame where
  "sample_frame = \<lparr>f_type = MSG, f_sender = PStr (u ''alice''), f_to = PStr (u ''bob''),
     f_body = PStr [104, 105, 128274], f_nonce = PNone, f_data = [(u ''env'', PDict [])],
     f_id = PStr (u ''m1''), f_ts = 12, f_v = PInt PROTOCOL_VERSION\<rparr>"

lemma sample_frame_wf: "wf_frame sample_frame"
  by (simp add: sample_frame_def wf_frame_def is_scalar_def is_surrogate_def u_def nat_str.simps
      max_digits_def reserved_def)

theorem encode_decode_roundtrip_witness:
  "\<exists>bs line. encode sample_frame = Inr bs \<and> DELIMITER \<notin> set (butlast bs) \<and> last bs = DELIMITER \<and>
    (\<forall>m. length bs \<le> m \<longrightarrow> feed (new_line_buffer m) bs = (new_line_buffer m, Inr [line])) \<and>
    outcome (decode line) \<lparr>uuid_src = \<lambda>_. u ''i'', clock_src = int, token_src = \<lambda>_. [],
      scrypt_fn = \<lambda>p s. p, draws = 0\<rparr> = Inr (Inr sample_frame)"
  by (rule encode_decode_roundtrip [OF sample_frame_wf])

lemma feed_frames:
  assumes "list_all wf_frame fs" and "map encode fs = map Inr bss" and "\<forall>bs\<in>set bss. length bs \<le> m"
    and "concat chunks = concat bss"
  shows "feed_all (new_line_buffer m) chunks = (new_line_buffer m, Inr (map frame_text fs))"
proof -
  have "map encode fs = map (\<lambda>f. Inr (line_bytes (frame_text f))) fs"
    using assms(1) by (auto simp: list_all_iff encode_eq)
  then have "map Inr bss = map (\<lambda>f. Inr (line_bytes (frame_text f)) :: encode_error + byte list) fs"
    unfolding assms(2) .
  then have bss: "bss = map line_bytes (map frame_text fs)"
    by (auto dest!: arg_cong [where f = "map projr"] simp: comp_def)
  have "list_all good_line (map frame_text fs)"
    using assms(1) by (auto simp: list_all_iff frame_text_good)
  then have "feed_all (new_line_buffer m) chunks = ((new_line_buffer m)\<lparr>lb_buffer := []\<rparr>, Inr (map frame_text fs))"
    using assms(3,4) bss by (intro feed_all_lines) (auto simp: new_line_buffer_def)
  then show ?thesis by (simp add: new_line_buffer_def)
qed

text \<open>C20: framing. However TCP cuts the bytes of a sequence of well-formed frames into chunks,
  the receiving buffer returns exactly one line per frame, in order, every line decodes to
  its frame, and nothing is left over, provided that no line is longer than the receiver's limit.\<close>

theorem stream_roundtrip:
  assumes "list_all wf_frame fs" and "map encode fs = map Inr bss" and "\<forall>bs\<in>set bss. length bs \<le> m"
    and "concat chunks = concat bss"
  shows "\<exists>lines. feed_all (new_line_buffer m) chunks = (new_line_buffer m, Inr lines) \<and>
    outcome (map_each lines decode) w = Inr (map Inr fs)"
  using feed_frames [OF assms] by (auto simp: decode_frames [OF assms(1)])

lemma sample_frame_length: "length (line_bytes (frame_text sample_frame)) \<le> 4096"
  by (simp add: line_bytes_def frame_text_def sample_frame_def head_fields_def opt_field_def dumps_str_def
      esc_char_def u_def type_name_def PROTOCOL_VERSION_def int_str_def nat_str.simps utf8_char_def)

theorem stream_roundtrip_witness:
  "\<exists>bs lines. encode sample_frame = Inr bs \<and>
     feed_all (new_line_buffer 4096) [take 5 bs, drop 5 bs @ take 9 bs, drop 9 bs] = (new_line_buffer 4096, Inr lines) \<and>
     outcome (map_each lines decode) \<lparr>uuid_src = \<lambda>_. u ''i'', clock_src = int, token_src = \<lambda>_. [],
       scrypt_fn = \<lambda>p s. p, draws = 0\<rparr> = Inr (map Inr [sample_frame, sample_frame])"
proof -
  let ?bs = "line_bytes (frame_text sample_frame)"
  have e: "encode sample_frame = Inr ?bs" by (rule encode_eq [OF sample_frame_wf])
  have "length ?bs \<le> 4096" by (rule sample_frame_length)
  with e show ?thesis
    using stream_roundtrip [of "[sample_frame, sample_frame]" "[?bs, ?bs]" 4096
        "[take 5 ?bs, drop 5 ?bs @ take 9 ?bs, drop 9 ?bs]"]
    by (auto simp: sample_frame_wf)
qed

text \<open>Any bytes at all: two ways of cutting the same bytes into chunks that both get
  through give the same lines and leave the same remainder.\<close>

theorem feed_chunking_irrelevant:
  assumes "lb_inv lb" and "concat cs = concat ds"
    and "feed_all lb cs = (lb1, Inr ls1)" and "feed_all lb ds = (lb2, Inr ls2)"
  shows "ls1 = ls2 \<and> lb1 = lb2"
proof -
  have "DELIMITER \<notin> set (lb_buffer lb)" using assms(1) by (simp add: lb_inv_def)
  with feed_all_loop [OF assms(3)] feed_all_loop [OF assms(4)] assms(2) show ?thesis
    by (auto intro: line_buffer.equality)
qed

theorem feed_chunking_irrelevant_witness:
  "lb_inv (new_line_buffer 8) \<and>
   snd (feed_all (new_line_buffer 8) [[byte_of 97], [byte_of 98, byte_of 10, byte_of 99]]) =
   snd (feed_all (new_line_buffer 8) [[byte_of 97, byte_of 98], [byte_of 10], [byte_of 99]])"
proof -
  let ?cs = "[[byte_of 97], [byte_of 98, byte_of 10, byte_of 99]]"
  let ?ds = "[[byte_of 97, byte_of 98], [byte_of 10], [byte_of 99]]"
  note ev = feed_def feed_loop.simps DELIMITER_def byte_of_eq_iff new_line_buffer_def utf8_decode.simps
    utf8_step_def rstrip_cr_def rstrip_by_def
  have c: "feed_all (new_line_buffer 8) ?cs = (\<lparr>lb_buffer = [byte_of 99], lb_max = 8\<rparr>, Inr [[97, 98]])"
    by (simp add: ev)
  have d: "feed_all (new_line_buffer 8) ?ds = (\<lparr>lb_buffer = [byte_of 99], lb_max = 8\<rparr>, Inr [[97, 98]])"
    by (simp add: ev)
  show ?thesis
    using feed_chunking_irrelevant [OF new_line_buffer_inv _ c d] c d new_line_buffer_inv by simp
qed

text \<open>The buffer is bounded: after a chunk that did not raise it holds no complete line and
  at most the limit, and bytes that run past the limit without a newline raise and are
  thrown away.\<close>

theorem feed_bounded:
  "case feed lb chunk of
     (lb', Inr ls) \<Rightarrow> lb_inv lb' \<and> pending lb' \<le> lb_max lb
   | (lb', Inl e) \<Rightarrow> e = Line_Too_Long (lb_max lb) \<and> pending lb' = 0 \<or>
       e = Not_Utf8 \<and> DELIMITER \<in> set (lb_buffer lb @ chunk)"
proof -
  have n: "feed_loop buf lines = (b, Inl e) \<Longrightarrow> e = Not_Utf8 \<and> DELIMITER \<in> set buf" for buf lines b e
    by (induction buf arbitrary: lines rule: buffer_induct)
      (auto simp: feed_loop_done feed_loop_cut split: option.splits)
  show ?thesis
    using n [of "lb_buffer lb @ chunk" "[]"]
    by (auto simp: feed_def pending_def lb_inv_def dest: feed_loop_no_delim split: prod.splits sum.splits)
qed

lemma feed_overflow:
  assumes "DELIMITER \<notin> set (lb_buffer lb @ chunk)"
  shows "feed lb chunk = (if lb_max lb < pending lb + length chunk
    then (lb\<lparr>lb_buffer := []\<rparr>, Inl (Line_Too_Long (lb_max lb)))
    else (lb\<lparr>lb_buffer := lb_buffer lb @ chunk\<rparr>, Inr []))"
  using assms by (simp add: feed_def feed_loop_done pending_def)

end
