(* ===== verification/Store.thy ===== *)
theory Store
  imports Codec
begin

section \<open>The sqlite store\<close>

text \<open>
  \<open>im/server/store/\<close>: the tables of \<open>db.py\<close> and the operations on them. A table is the list
  of its rows in insertion order, which is rowid order: no message is ever deleted. Every
  statement runs under the database lock, so an operation is one step; a \<open>write\<close> block is
  a \<open>transaction\<close>.

  A parameter that comes from a frame may be any Python value. Binding it to a \<open>TEXT\<close>
  column turns numbers into their text, refuses lists and dictionaries, integers that do
  not fit 64 bits and strings with a lone surrogate.
\<close>

record user_row =
  u_username :: ustr
  u_salt :: "byte list"
  u_digest :: "byte list"
  u_pubkey :: "ustr option"
  u_created :: int

record message_row =
  m_id :: ustr
  m_conversation :: ustr
  m_sender :: ustr
  m_recipient :: ustr
  m_body :: "ustr option"
  m_nonce :: "ustr option"
  m_ts :: int
  m_delivered :: "int option"
  m_read :: "int option"

record database = world +
  t_users :: "user_row list"
  t_rooms :: "(ustr \<times> int) list"
  t_members :: "(ustr \<times> ustr) list"
  t_messages :: "message_row list"
  t_pending :: "(ustr \<times> ustr) list"
  t_contacts :: "((ustr \<times> ustr) \<times> int) list"

definition fits_int64 :: "int \<Rightarrow> bool" where
  "fits_int64 i \<longleftrightarrow> - (2 ^ 63) \<le> i \<and> i < 2 ^ 63"

definition bind_text :: "pyval \<Rightarrow> exn + ustr option" where
  "bind_text x = (case x of
       PNone \<Rightarrow> Inr None
     | PStr s \<Rightarrow> if list_all (\<lambda>c. \<not> is_surrogate c) s then Inr (Some s) else Inl Unicode_Encode_Error
     | PInt i \<Rightarrow> if fits_int64 i then Inr (Some (int_str i)) else Inl Overflow_Error
     | PBool b \<Rightarrow> Inr (Some (if b then u ''1'' else u ''0''))
     | PFloat t \<Rightarrow> Inr (if t = u ''NaN'' then None else Some t)
     | _ \<Rightarrow> Inl Programming_Error)"

abbreviation text_param :: "pyval \<Rightarrow> ('s, ustr option) py" where
  "text_param x \<equiv> lift (bind_text x)"

definition bind_int :: "int \<Rightarrow> exn + int" where
  "bind_int i = (if fits_int64 i then Inr i else Inl Overflow_Error)"

subsection \<open>\<open>users.py\<close>: accounts\<close>

definition find_user :: "ustr option \<Rightarrow> 'z database_scheme \<Rightarrow> user_row option" where
  "find_user name s = find (\<lambda>r. Some (u_username r) = name) (t_users s)"

text \<open>\<open>pass_hash.encode("utf-8")\<close> exists only on a string; \<open>scrypt\<close> is the parameter.\<close>

definition users_derive :: "pyval \<Rightarrow> byte list \<Rightarrow> ('z world_scheme, byte list) py" where
  "users_derive pass_hash salt = (case pass_hash of
       PStr p \<Rightarrow> bnd (lift (utf8_encode p)) (\<lambda>bs. gets (\<lambda>s. scrypt_fn s bs salt))
     | _ \<Rightarrow> raise Attribute_Error)"

definition users_register :: "ustr \<Rightarrow> pyval \<Rightarrow> pyval \<Rightarrow> ('z database_scheme, bool) py" where
  "users_register username pass_hash pubkey =
     bnd token_bytes (\<lambda>salt.
     bnd (users_derive pass_hash salt) (\<lambda>digest.
     transaction (
       bnd (text_param (PStr username)) (\<lambda>name.
       bnd (gets (find_user name)) (\<lambda>taken.
       if taken \<noteq> None then ret False
       else bnd now_ms (\<lambda>created.
            bnd (text_param pubkey) (\<lambda>pk.
            andthen (modify (\<lambda>s. s\<lparr>t_users := t_users s @
                       [\<lparr>u_username = username, u_salt = salt, u_digest = digest, u_pubkey = pk,
                         u_created = created\<rparr>]\<rparr>))
              (ret True))))))))"

definition users_verify :: "pyval \<Rightarrow> pyval \<Rightarrow> ('z database_scheme, bool) py" where
  "users_verify username pass_hash =
     bnd (text_param username) (\<lambda>name.
     bnd (gets (find_user name)) (\<lambda>row. case row of
       None \<Rightarrow> bnd token_bytes (\<lambda>salt. andthen (users_derive pass_hash salt) (ret False))
     | Some r \<Rightarrow> bnd (users_derive pass_hash (u_salt r)) (\<lambda>d. ret (u_digest r = d))))"

definition users_exists :: "ustr \<Rightarrow> ('z database_scheme, bool) py" where
  "users_exists username =
     bnd (text_param (PStr username)) (\<lambda>name. gets (\<lambda>s. find_user name s \<noteq> None))"

definition users_set_pubkey :: "ustr \<Rightarrow> ustr \<Rightarrow> ('z database_scheme, unit) py" where
  "users_set_pubkey username pubkey =
     transaction (bnd (text_param (PStr pubkey)) (\<lambda>pk. bnd (text_param (PStr username)) (\<lambda>name.
       modify (\<lambda>s. s\<lparr>t_users := map (\<lambda>r. if Some (u_username r) = name then r\<lparr>u_pubkey := pk\<rparr> else r)
                                    (t_users s)\<rparr>))))"

definition users_pubkey :: "ustr \<Rightarrow> ('z database_scheme, ustr option) py" where
  "users_pubkey username =
     bnd (text_param (PStr username)) (\<lambda>name.
       gets (\<lambda>s. case find_user name s of None \<Rightarrow> None | Some r \<Rightarrow> u_pubkey r))"

definition users_len :: "'z database_scheme \<Rightarrow> nat" where
  "users_len s = length (t_users s)"

subsection \<open>\<open>users.py\<close>: contacts\<close>

text \<open>\<open>INSERT OR IGNORE\<close>: a row that would repeat a primary key, or leave a \<open>NOT NULL\<close>
  column empty, is skipped.\<close>

definition contacts_add :: "pyval \<Rightarrow> ustr \<Rightarrow> int \<Rightarrow> ('z database_scheme, bool) py" where
  "contacts_add owner contact moment =
     (if \<not> py_truthy owner \<or> contact = [] \<or> owner = PStr contact then ret False
      else transaction (
        bnd (text_param owner) (\<lambda>o'. bnd (text_param (PStr contact)) (\<lambda>c'. bnd (lift (bind_int moment)) (\<lambda>w.
        case (o', c') of
          (Some ow, Some co) \<Rightarrow>
            bnd (gets (\<lambda>s. (ow, co) \<in> fst ` set (t_contacts s))) (\<lambda>there.
              if there then ret False
              else andthen (modify (\<lambda>s. s\<lparr>t_contacts := t_contacts s @ [((ow, co), w)]\<rparr>)) (ret True))
        | _ \<Rightarrow> ret False)))))"

definition contacts_remove :: "pyval \<Rightarrow> ustr \<Rightarrow> ('z database_scheme, bool) py" where
  "contacts_remove owner contact =
     transaction (
       bnd (text_param owner) (\<lambda>o'. bnd (text_param (PStr contact)) (\<lambda>c'.
       bnd (gets (\<lambda>s. \<exists>k\<in>fst ` set (t_contacts s). Some (fst k) = o' \<and> Some (snd k) = c')) (\<lambda>there.
       andthen (modify (\<lambda>s. s\<lparr>t_contacts :=
                  filter (\<lambda>(k, _). \<not> (Some (fst k) = o' \<and> Some (snd k) = c')) (t_contacts s)\<rparr>))
         (ret there)))))"

definition contacts_of :: "pyval \<Rightarrow> ('z database_scheme, ustr list) py" where
  "contacts_of owner =
     bnd (text_param owner) (\<lambda>o'.
       gets (\<lambda>s. sort (map (snd \<circ> fst) (filter (\<lambda>(k, _). Some (fst k) = o') (t_contacts s)))))"

subsection \<open>\<open>rooms.py\<close>\<close>

definition rooms_create :: "ustr \<Rightarrow> ('z database_scheme, bool) py" where
  "rooms_create room =
     transaction (bnd (text_param (PStr room)) (\<lambda>_.
       bnd (gets (\<lambda>s. room \<in> fst ` set (t_rooms s))) (\<lambda>existing.
       if existing then ret False
       else bnd now_ms (\<lambda>t.
            andthen (modify (\<lambda>s. s\<lparr>t_rooms := t_rooms s @ [(room, t)]\<rparr>)) (ret True)))))"

definition insert_room :: "ustr \<Rightarrow> int \<Rightarrow> 'z database_scheme \<Rightarrow> 'z database_scheme" where
  "insert_room room t s = (if room \<in> fst ` set (t_rooms s) then s else s\<lparr>t_rooms := t_rooms s @ [(room, t)]\<rparr>)"

definition insert_member :: "ustr \<Rightarrow> ustr option \<Rightarrow> 'z database_scheme \<Rightarrow> 'z database_scheme" where
  "insert_member room name s = (case name of None \<Rightarrow> s
     | Some n \<Rightarrow> if (room, n) \<in> set (t_members s) then s else s\<lparr>t_members := t_members s @ [(room, n)]\<rparr>)"

definition rooms_join :: "ustr \<Rightarrow> pyval \<Rightarrow> ('z database_scheme, unit) py" where
  "rooms_join room username =
     transaction (bnd now_ms (\<lambda>t. bnd (text_param (PStr room)) (\<lambda>_.
       andthen (modify (insert_room room t))
         (bnd (text_param username) (\<lambda>name. modify (insert_member room name))))))"

definition rooms_leave :: "ustr \<Rightarrow> pyval \<Rightarrow> ('z database_scheme, unit) py" where
  "rooms_leave room username =
     transaction (bnd (text_param (PStr room)) (\<lambda>_. bnd (text_param username) (\<lambda>name.
       modify (\<lambda>s. s\<lparr>t_members := filter (\<lambda>(r, n). \<not> (r = room \<and> Some n = name)) (t_members s)\<rparr>))))"

definition members_of :: "ustr \<Rightarrow> 'z database_scheme \<Rightarrow> ustr set" where
  "members_of room s = {n. (room, n) \<in> set (t_members s)}"

definition rooms_members :: "ustr \<Rightarrow> ('z database_scheme, ustr set) py" where
  "rooms_members room = bnd (text_param (PStr room)) (\<lambda>_. gets (members_of room))"

definition rooms_exists :: "ustr \<Rightarrow> ('z database_scheme, bool) py" where
  "rooms_exists room = bnd (text_param (PStr room)) (\<lambda>_. gets (\<lambda>s. room \<in> fst ` set (t_rooms s)))"

definition rooms_of :: "pyval \<Rightarrow> ('z database_scheme, ustr list) py" where
  "rooms_of username = bnd (text_param username) (\<lambda>name.
     gets (\<lambda>s. sort (map fst (filter (\<lambda>(_, n). Some n = name) (t_members s)))))"

definition rooms_forget :: "pyval \<Rightarrow> ('z database_scheme, unit) py" where
  "rooms_forget username = transaction (bnd (text_param username) (\<lambda>name.
     modify (\<lambda>s. s\<lparr>t_members := filter (\<lambda>(_, n). Some n \<noteq> name) (t_members s)\<rparr>)))"

text \<open>The set of members, computed.\<close>

lemma members_of_code [code]: "members_of room s = set (map snd (filter (\<lambda>(r, _). r = room) (t_members s)))"
  by (force simp: members_of_def)

subsection \<open>\<open>messages.py\<close>\<close>

definition PAIR_SEPARATOR :: nat where "PAIR_SEPARATOR = 31"
definition ENVELOPES :: ustr where "ENVELOPES = u ''*''"
definition DEFAULT_LIMIT :: int where "DEFAULT_LIMIT = 50"
definition MAX_LIMIT :: int where "MAX_LIMIT = 200"

datatype receipt_state = SENT | DELIVERED | READ

definition state_name :: "receipt_state \<Rightarrow> ustr" where
  "state_name st = (case st of SENT \<Rightarrow> u ''SENT'' | DELIVERED \<Rightarrow> u ''DELIVERED'' | READ \<Rightarrow> u ''READ'')"

text \<open>The first name may be a number (the username of a session); sorting then raises.\<close>

definition pair_key :: "ustr \<Rightarrow> ustr \<Rightarrow> ustr" where
  "pair_key a b = join [PAIR_SEPARATOR] (sort [a, b])"

definition direct_conversation :: "pyval \<Rightarrow> ustr \<Rightarrow> exn + ustr" where
  "direct_conversation a b = (case a of PStr a' \<Rightarrow> Inr (pair_key a' b) | _ \<Rightarrow> Inl Type_Error)"

definition messages_record ::
  "pyval \<Rightarrow> ustr \<Rightarrow> pyval \<Rightarrow> ustr \<Rightarrow> pyval \<Rightarrow> pyval \<Rightarrow> int \<Rightarrow> ('z database_scheme, unit) py" where
  "messages_record message_id conversation sender recipient body nonce ts =
     transaction (
       bnd (text_param message_id) (\<lambda>i. bnd (text_param (PStr conversation)) (\<lambda>c. bnd (text_param sender) (\<lambda>f.
       bnd (text_param (PStr recipient)) (\<lambda>r. bnd (text_param body) (\<lambda>b. bnd (text_param nonce) (\<lambda>n.
       bnd (lift (bind_int ts)) (\<lambda>t.
       case (i, f) of
         (Some i', Some f') \<Rightarrow>
           modify (\<lambda>s. if i' \<in> m_id ` set (t_messages s) then s
             else s\<lparr>t_messages := t_messages s @
               [\<lparr>m_id = i', m_conversation = conversation, m_sender = f', m_recipient = recipient,
                 m_body = b, m_nonce = n, m_ts = t, m_delivered = None, m_read = None\<rparr>]\<rparr>)
       | _ \<Rightarrow> ret ()))))))))"

definition messages_queue_for :: "ustr \<Rightarrow> pyval \<Rightarrow> ('z database_scheme, unit) py" where
  "messages_queue_for username message_id =
     transaction (bnd (text_param message_id) (\<lambda>i. bnd (text_param (PStr username)) (\<lambda>_.
       case i of None \<Rightarrow> ret ()
       | Some i' \<Rightarrow> modify (\<lambda>s. if (i', username) \<in> set (t_pending s) then s
                              else s\<lparr>t_pending := t_pending s @ [(i', username)]\<rparr>))))"

definition set_if_null :: "int \<Rightarrow> int option \<Rightarrow> int option" where
  "set_if_null t x = (case x of None \<Rightarrow> Some t | Some y \<Rightarrow> Some y)"

definition mark_row :: "bool \<Rightarrow> int \<Rightarrow> message_row \<Rightarrow> message_row" where
  "mark_row is_read moment r =
     (if is_read then r\<lparr>m_read := set_if_null moment (m_read r), m_delivered := set_if_null moment (m_delivered r)\<rparr>
      else r\<lparr>m_delivered := set_if_null moment (m_delivered r)\<rparr>)"

definition messages_mark :: "ustr \<Rightarrow> ustr \<Rightarrow> int \<Rightarrow> ('z database_scheme, ustr option) py" where
  "messages_mark message_id state moment =
     transaction (bnd (text_param (PStr message_id)) (\<lambda>_.
       bnd (gets (\<lambda>s. find (\<lambda>r. m_id r = message_id) (t_messages s))) (\<lambda>row. case row of
         None \<Rightarrow> ret None
       | Some r \<Rightarrow> bnd (lift (bind_int moment)) (\<lambda>t.
           andthen (modify (\<lambda>s. s\<lparr>t_messages :=
                      map (\<lambda>r. if m_id r = message_id then mark_row (state = state_name READ) t r else r)
                        (t_messages s)\<rparr>))
             (ret (Some (m_sender r)))))))"

definition row_state :: "message_row \<Rightarrow> receipt_state" where
  "row_state r = (if m_read r \<noteq> None then READ else if m_delivered r \<noteq> None then DELIVERED else SENT)"

definition messages_state_of :: "ustr \<Rightarrow> ('z database_scheme, receipt_state) py" where
  "messages_state_of message_id =
     bnd (text_param (PStr message_id)) (\<lambda>_.
       gets (\<lambda>s. case find (\<lambda>r. m_id r = message_id) (t_messages s) of None \<Rightarrow> SENT | Some r \<Rightarrow> row_state r))"

text \<open>\<open>ORDER BY m.ts, m.rowid\<close> is the stable sort by \<open>ts\<close> of the rows in table order.\<close>

definition pending_rows :: "ustr option \<Rightarrow> 'z database_scheme \<Rightarrow> message_row list" where
  "pending_rows name s = (case name of None \<Rightarrow> []
     | Some n \<Rightarrow> sort_key m_ts (filter (\<lambda>r. (m_id r, n) \<in> set (t_pending s)) (t_messages s)))"

definition messages_flush :: "pyval \<Rightarrow> ('z database_scheme, message_row list) py" where
  "messages_flush username =
     transaction (bnd (text_param username) (\<lambda>name.
       bnd (gets (pending_rows name)) (\<lambda>rows.
       andthen (modify (\<lambda>s. s\<lparr>t_pending := filter (\<lambda>p. Some (snd p) \<noteq> name) (t_pending s)\<rparr>))
         (ret rows))))"

definition messages_pending_count :: "pyval \<Rightarrow> ('z database_scheme, nat) py" where
  "messages_pending_count username = bnd (text_param username) (\<lambda>name.
     gets (\<lambda>s. length (filter (\<lambda>p. Some (snd p) = name) (t_pending s))))"

definition clamp_limit :: "int \<Rightarrow> int" where
  "clamp_limit limit = max 1 (min limit MAX_LIMIT)"

definition history_rows :: "ustr \<Rightarrow> int option \<Rightarrow> int \<Rightarrow> 'z database_scheme \<Rightarrow> message_row list" where
  "history_rows conversation before limit s =
     (let rows = filter (\<lambda>r. m_conversation r = conversation \<and>
                   (case before of None \<Rightarrow> True | Some b \<Rightarrow> m_ts r < b)) (t_messages s)
      in rev (take (nat (clamp_limit limit)) (rev (sort_key m_ts rows))))"

definition messages_history ::
  "ustr \<Rightarrow> int option \<Rightarrow> int \<Rightarrow> ('z database_scheme, message_row list) py" where
  "messages_history conversation before limit =
     bnd (text_param (PStr conversation)) (\<lambda>_.
     bnd (case before of None \<Rightarrow> ret None | Some b \<Rightarrow> bnd (lift (bind_int b)) (\<lambda>b'. ret (Some b'))) (\<lambda>b.
       gets (history_rows conversation b limit)))"

definition messages_len :: "'z database_scheme \<Rightarrow> nat" where
  "messages_len s = length (t_messages s)"

declare users_derive_def [op_defs] users_register_def [op_defs] users_verify_def [op_defs]
  users_exists_def [op_defs] users_pubkey_def [op_defs] users_set_pubkey_def [op_defs]
  contacts_add_def [op_defs] contacts_remove_def [op_defs] contacts_of_def [op_defs]
  rooms_create_def [op_defs] rooms_join_def [op_defs] rooms_leave_def [op_defs]
  rooms_members_def [op_defs] rooms_exists_def [op_defs] rooms_of_def [op_defs] rooms_forget_def [op_defs]
  messages_record_def [op_defs] messages_queue_for_def [op_defs] messages_mark_def [op_defs]
  messages_state_of_def [op_defs] messages_flush_def [op_defs] messages_history_def [op_defs]

subsection \<open>The primary keys\<close>

text \<open>
  What the schema promises of the tables, with two facts the code adds: a membership names a
  room that exists, and a message that was read was delivered.
\<close>

definition db_inv :: "'z database_scheme \<Rightarrow> bool" where
  "db_inv s \<longleftrightarrow>
     distinct (map u_username (t_users s)) \<and> distinct (map fst (t_rooms s)) \<and>
     distinct (t_members s) \<and> distinct (map m_id (t_messages s)) \<and>
     distinct (t_pending s) \<and> distinct (map fst (t_contacts s)) \<and>
     fst ` set (t_members s) \<subseteq> fst ` set (t_rooms s) \<and>
     (\<forall>r\<in>set (t_messages s). m_read r \<noteq> None \<longrightarrow> m_delivered r \<noteq> None)"

lemma db_inv_draws [simp]: "db_inv (s\<lparr>draws := n\<rparr>) = db_inv s"
  by (simp add: db_inv_def)

interpretation db: world_rel "keeps db_inv"
  by unfold_locales (auto simp: keeps_def)

lemma find_user_None: "find_user (Some n) s = None \<longleftrightarrow> n \<notin> u_username ` set (t_users s)"
  by (auto simp: find_user_def find_None_iff)

lemma find_user_Some: "find_user (Some n) s = Some r \<Longrightarrow> r \<in> set (t_users s) \<and> u_username r = n"
  by (auto simp: find_user_def find_Some_iff)

lemma bind_text_PStr: "bind_text (PStr x) = Inr y \<longleftrightarrow> y = Some x \<and> list_all (\<lambda>c. \<not> is_surrogate c) x"
  by (auto simp: bind_text_def)

lemma users_derive_inv: "runs_in (keeps db_inv) (users_derive p salt :: ('z database_scheme, byte list) py)"
  unfolding users_derive_def by (auto intro!: db.world_rules split: pyval.split)

lemma users_register_inv: "runs_in (keeps db_inv) (users_register n p k)"
  unfolding users_register_def
  by (intro db.world_rules users_derive_inv db.runs_lift db.runs_check)
     (auto simp: bind_text_PStr bnd_def now_ms_def draw_def find_user_None db_inv_def keeps_def
       split: sum.split)

lemma users_verify_inv: "runs_in (keeps db_inv) (users_verify n p)"
  unfolding users_verify_def by (intro db.world_rules users_derive_inv)

lemma users_exists_inv: "runs_in (keeps db_inv) (users_exists n)"
  unfolding users_exists_def by (intro db.world_rules)

lemma users_pubkey_inv: "runs_in (keeps db_inv) (users_pubkey n)"
  unfolding users_pubkey_def by (intro db.world_rules)

lemma users_set_pubkey_inv: "runs_in (keeps db_inv) (users_set_pubkey n k)"
  unfolding users_set_pubkey_def
  by (intro db.world_rules)
     (auto simp: runs_in_modify keeps_def db_inv_def comp_def if_distrib cong: if_cong)

lemma contacts_add_inv: "runs_in (keeps db_inv) (contacts_add w c t)"
  unfolding contacts_add_def
  by (auto intro!: db.world_rules db.runs_lift db.runs_check simp: keeps_def db_inv_def
      split: option.split prod.split)

lemma contacts_remove_inv: "runs_in (keeps db_inv) (contacts_remove w c)"
  unfolding contacts_remove_def
  by (intro db.world_rules)
     (auto simp: runs_in_modify keeps_def db_inv_def distinct_map_filter)

lemma contacts_of_inv: "runs_in (keeps db_inv) (contacts_of w)"
  unfolding contacts_of_def by (intro db.world_rules)

lemma rooms_create_inv: "runs_in (keeps db_inv) (rooms_create r)"
  unfolding rooms_create_def
  by (intro db.world_rules db.runs_check)
     (auto simp: keeps_def db_inv_def now_ms_def draw_def bnd_def)

lemma rooms_join_inv: "runs_in (keeps db_inv) (rooms_join r n)"
proof (rule keepsI)
  fix s :: "'z database_scheme"
  assume "db_inv s"
  then show "db_inv (after (rooms_join r n) s)"
    by (auto simp: rooms_join_def py_defs now_ms_def draw_def insert_room_def insert_member_def db_inv_def
        split: sum.split option.split)
qed

lemma rooms_leave_inv: "runs_in (keeps db_inv) (rooms_leave r n)"
  unfolding rooms_leave_def
  by (intro db.world_rules) (auto simp: runs_in_modify keeps_def db_inv_def)

lemma rooms_members_inv: "runs_in (keeps db_inv) (rooms_members r)"
  unfolding rooms_members_def by (intro db.world_rules)

lemma rooms_exists_inv: "runs_in (keeps db_inv) (rooms_exists r)"
  unfolding rooms_exists_def by (intro db.world_rules)

lemma rooms_of_inv: "runs_in (keeps db_inv) (rooms_of n)"
  unfolding rooms_of_def by (intro db.world_rules)

lemma rooms_forget_inv: "runs_in (keeps db_inv) (rooms_forget n)"
  unfolding rooms_forget_def
  by (intro db.world_rules) (auto simp: runs_in_modify keeps_def db_inv_def)

lemma messages_record_inv: "runs_in (keeps db_inv) (messages_record i c f r b n t)"
  unfolding messages_record_def
  by (intro db.world_rules)
     (auto simp: runs_in_def keeps_def db_inv_def split: option.split)

lemma messages_queue_for_inv: "runs_in (keeps db_inv) (messages_queue_for n i)"
  unfolding messages_queue_for_def
  by (intro db.world_rules) (auto simp: runs_in_modify keeps_def db_inv_def)

lemma mark_row_id [simp]: "m_id (mark_row b t r) = m_id r"
  by (simp add: mark_row_def)

lemma mark_row_read: "(m_read r \<noteq> None \<longrightarrow> m_delivered r \<noteq> None) \<Longrightarrow>
  m_read (mark_row b t r) \<noteq> None \<Longrightarrow> m_delivered (mark_row b t r) \<noteq> None"
  by (auto simp: mark_row_def set_if_null_def split: if_splits option.splits)

lemma mark_ids: "map m_id (map (\<lambda>r. if m_id r = i then mark_row b t r else r) rs) = map m_id rs"
  by (induction rs) auto

lemma mark_keeps_inv:
  "db_inv s \<Longrightarrow> db_inv (s\<lparr>t_messages := map (\<lambda>r. if m_id r = i then mark_row b t r else r) (t_messages s)\<rparr>)"
  unfolding db_inv_def using mark_row_read by (auto simp: mark_ids simp del: map_map)

lemma messages_mark_inv: "runs_in (keeps db_inv) (messages_mark i st t)"
  unfolding messages_mark_def
  by (intro db.world_rules) (simp add: runs_in_modify keeps_def mark_keeps_inv)

lemma messages_state_of_inv: "runs_in (keeps db_inv) (messages_state_of i)"
  unfolding messages_state_of_def by (intro db.world_rules)

lemma messages_flush_inv: "runs_in (keeps db_inv) (messages_flush n)"
  unfolding messages_flush_def
  by (intro db.world_rules) (auto simp: runs_in_modify keeps_def db_inv_def)

lemma messages_pending_count_inv: "runs_in (keeps db_inv) (messages_pending_count n)"
  unfolding messages_pending_count_def by (intro db.world_rules)

lemma messages_history_inv: "runs_in (keeps db_inv) (messages_history c b l)"
  unfolding messages_history_def by (intro db.world_rules)

lemmas store_inv =
  users_register_inv users_verify_inv users_exists_inv users_pubkey_inv users_set_pubkey_inv
  contacts_add_inv contacts_remove_inv contacts_of_inv
  rooms_create_inv rooms_join_inv rooms_leave_inv rooms_members_inv rooms_exists_inv rooms_of_inv
  rooms_forget_inv
  messages_record_inv messages_queue_for_inv messages_mark_inv messages_state_of_inv
  messages_flush_inv messages_pending_count_inv messages_history_inv

subsection \<open>Accounts\<close>

text \<open>Everything a successful registration did.\<close>

lemma users_register_True:
  assumes "users_register name (PStr p) pk s = (Inr True, s')"
  obtains bs r where
    "utf8_encode p = Inr bs" "t_users s' = t_users s @ [r]" "u_username r = name"
    "u_salt r = token_src s (draws s)"
    "u_digest r = scrypt_fn s bs (u_salt r)" "scrypt_fn s' = scrypt_fn s"
    "find_user (Some name) s = None" "bind_text (PStr name) = Inr (Some name)"
proof -
  obtain bs where bs: "utf8_encode p = Inr bs"
    using assms by (cases "utf8_encode p")
      (auto simp: users_register_def users_derive_def op_defs py_defs)
  have name: "bind_text (PStr name) = Inr (Some name)"
    using assms bs by (cases "bind_text (PStr name)")
      (auto simp: users_register_def users_derive_def op_defs py_defs bind_text_PStr)
  have new: "find_user (Some name) s = None"
    using assms bs name
    by (cases "find_user (Some name) s")
       (auto simp: users_register_def users_derive_def op_defs py_defs find_user_def)
  obtain k where k: "bind_text pk = Inr k"
    using assms bs name new
    by (cases "bind_text pk")
      (auto simp: users_register_def users_derive_def op_defs py_defs find_user_def)
  show thesis
    by (rule that [OF bs, of "\<lparr>u_username = name, u_salt = token_src s (draws s),
          u_digest = scrypt_fn s bs (token_src s (draws s)), u_pubkey = k,
          u_created = clock_src s (Suc (draws s))\<rparr>"])
       (use assms bs name new k in
         \<open>auto simp: users_register_def users_derive_def op_defs py_defs find_user_def\<close>)
qed

lemma users_verify_known:
  assumes "bind_text name = Inr n" and "find_user n s = Some r" and "utf8_encode p = Inr bs"
  shows "users_verify name (PStr p) s = (Inr (u_digest r = scrypt_fn s bs (u_salt r)), s)"
  using assms by (simp add: users_verify_def users_derive_def bnd_def)

lemma find_user_snoc:
  "t_users s' = t_users s @ [r] \<Longrightarrow>
   find_user n s' = (case find_user n s of Some x \<Rightarrow> Some x | None \<Rightarrow> if n = Some (u_username r) then Some r else None)"
  by (auto simp: find_user_def find_append split: option.split)

lemma users_verify_same:
  assumes "bind_text who = Inr w" and "find_user w s' = find_user w s" and "scrypt_fn s' = scrypt_fn s"
  shows "outcome (users_verify who x) s' = outcome (users_verify who x) s"
  using assms
  by (cases x; cases "find_user w s")
     (auto simp: users_verify_def users_derive_def op_defs py_defs split: sum.split)

text \<open>C28: Registering an account and then logging in. After \<open>users_register\<close> returned \<open>True\<close>, the
  same password hash verifies; any other one verifies exactly if scrypt maps the two to the
  same digest under the salt drawn for the account; and every other account verifies exactly
  as before.\<close>

theorem register_then_verify:
  assumes reg: "outcome (users_register name (PStr p) pk) s = Inr True"
    and s': "s' = after (users_register name (PStr p) pk) s"
  shows "outcome (users_verify (PStr name) (PStr p)) s' = Inr True \<and>
    (\<forall>q bp bq. utf8_encode p = Inr bp \<and> utf8_encode q = Inr bq \<longrightarrow>
       outcome (users_verify (PStr name) (PStr q)) s' =
         Inr (scrypt_fn s bp (token_src s (draws s)) = scrypt_fn s bq (token_src s (draws s)))) \<and>
    (\<forall>who w x. bind_text who = Inr w \<and> w \<noteq> Some name \<longrightarrow>
       outcome (users_verify who x) s' = outcome (users_verify who x) s)"
proof -
  from reg s' have "users_register name (PStr p) pk s = (Inr True, s')"
    by (simp add: prod_eq_iff)
  then obtain bs r where f: "utf8_encode p = Inr bs" "t_users s' = t_users s @ [r]"
    "u_username r = name" "u_salt r = token_src s (draws s)"
    "u_digest r = scrypt_fn s bs (u_salt r)" "scrypt_fn s' = scrypt_fn s"
    "find_user (Some name) s = None" "bind_text (PStr name) = Inr (Some name)"
    by (rule users_register_True)
  have r: "find_user (Some name) s' = Some r"
    by (simp add: find_user_snoc [OF f(2)] f)
  have other: "find_user w s' = find_user w s" if "w \<noteq> Some name" for w
    using that f(3) by (auto simp: find_user_snoc [OF f(2)] split: option.split)
  show ?thesis
    using users_verify_known [OF f(8) r] f by (auto intro!: users_verify_same other)
qed

text \<open>An empty database over a fixed world, for the concrete instances below.\<close>

definition empty_db :: database where
  "empty_db = \<lparr>uuid_src = nat_str, clock_src = int, token_src = (\<lambda>n. [byte_of n]),
     scrypt_fn = (\<lambda>p salt. p @ salt), draws = 0,
     t_users = [], t_rooms = [], t_members = [], t_messages = [], t_pending = [], t_contacts = []\<rparr>"

lemma bind_text_u [simp]: "bind_text (PStr (u s)) = Inr (Some (u s))"
  by (simp add: bind_text_PStr)

lemma register_sample:
  "users_register (u ''ann'') (PStr (u ''pw'')) PNone empty_db =
    (Inr True, empty_db\<lparr>draws := 2, t_users := [\<lparr>u_username = u ''ann'', u_salt = [byte_of 0],
       u_digest = concat (map utf8_char (u ''pw'')) @ [byte_of 0], u_pubkey = None, u_created = 1\<rparr>]\<rparr>)"
  by (simp add: users_register_def users_derive_def op_defs py_defs find_user_def empty_db_def
      utf8_encode_u bind_text_def)

theorem register_then_verify_witness:
  "outcome (users_verify (PStr (u ''ann'')) (PStr (u ''pw'')))
     (after (users_register (u ''ann'') (PStr (u ''pw'')) PNone) empty_db) = Inr True"
  using register_then_verify [of "u ''ann''" "u ''pw''" PNone empty_db, OF _ refl]
  by (simp add: register_sample)

text \<open>A name that is registered cannot be registered again: \<open>users_register\<close> answers
  \<open>False\<close> whatever password hash and key come with it, and no table changes, so the account
  keeps its password and its key.\<close>

theorem register_refuses_taken:
  assumes "find_user (Some name) s \<noteq> None" and "bind_text (PStr name) = Inr (Some name)"
    and "utf8_encode p = Inr bs"
  shows "outcome (users_register name (PStr p) pk) s = Inr False \<and>
    after (users_register name (PStr p) pk) s = s\<lparr>draws := Suc (draws s)\<rparr>"
  using assms
  by (auto simp: users_register_def users_derive_def op_defs py_defs find_user_def)

theorem register_refuses_taken_witness:
  "outcome (users_register (u ''ann'') (PStr (u ''other'')) PNone)
     (after (users_register (u ''ann'') (PStr (u ''pw'')) PNone) empty_db) = Inr False"
  using register_refuses_taken [of "u ''ann''"
      "after (users_register (u ''ann'') (PStr (u ''pw'')) PNone) empty_db" "u ''other''"]
  by (simp add: register_sample find_user_def utf8_encode_u)

subsection \<open>The queue of undelivered messages\<close>

lemma messages_flush_run:
  "bind_text x = Inr (Some n) \<Longrightarrow> messages_flush x s =
     (Inr (pending_rows (Some n) s), s\<lparr>t_pending := filter (\<lambda>p. snd p \<noteq> n) (t_pending s)\<rparr>)"
  "bind_text x = Inr None \<Longrightarrow> messages_flush x s = (Inr [], s)"
  by (simp_all add: messages_flush_def py_defs pending_rows_def)

lemma pending_rows_cleared:
  "pending_rows m (s\<lparr>t_pending := filter (\<lambda>p. snd p \<noteq> n) (t_pending s)\<rparr>) =
     (if m = Some n then [] else pending_rows m s)"
  by (auto simp: pending_rows_def filter_empty_conv split: option.split
      intro!: arg_cong [where f = "sort_key m_ts"] filter_cong)

lemma flush_other:
  "bind_text x = Inr m \<Longrightarrow> m \<noteq> Some n \<Longrightarrow>
   outcome (messages_flush x) (s\<lparr>t_pending := filter (\<lambda>p. snd p \<noteq> n) (t_pending s)\<rparr>) =
   outcome (messages_flush x) s"
  by (cases m) (simp_all add: messages_flush_run pending_rows_cleared)

text \<open>\<open>flush\<close> takes everything queued for a user exactly once: it returns the stored
  messages queued under the name, each once, oldest first (the order they were stored in when
  two share a timestamp), clears the queue of that user and of nobody else, and a second
  \<open>flush\<close> returns nothing.\<close>

theorem flush_exactly_once:
  assumes "db_inv s" and "bind_text who = Inr (Some name)"
  shows "\<exists>rows s'. messages_flush who s = (Inr rows, s') \<and>
     set rows = {r \<in> set (t_messages s). (m_id r, name) \<in> set (t_pending s)} \<and>
     distinct rows \<and> sorted (map m_ts rows) \<and>
     (\<forall>t. filter (\<lambda>r. m_ts r = t) rows =
          filter (\<lambda>r. (m_id r, name) \<in> set (t_pending s) \<and> m_ts r = t) (t_messages s)) \<and>
     outcome (messages_flush who) s' = Inr [] \<and>
     (\<forall>other o'. bind_text other = Inr o' \<and> o' \<noteq> Some name \<longrightarrow>
        outcome (messages_flush other) s' = outcome (messages_flush other) s) \<and>
     s' = s\<lparr>t_pending := t_pending s'\<rparr>"
proof -
  have "distinct (pending_rows (Some name) s)"
    using assms(1) by (simp add: db_inv_def distinct_map pending_rows_def)
  then show ?thesis
    using flush_other [of _ _ name s]
    by (simp add: messages_flush_run(1) [OF assms(2)] pending_rows_cleared)
       (auto simp: pending_rows_def sort_key_stable)
qed

text \<open>Two messages for bob that share a millisecond, the second stored second.\<close>

definition two_queued :: database where
  "two_queued = empty_db\<lparr>
     t_messages := map (\<lambda>i. \<lparr>m_id = u i, m_conversation = u ''c'', m_sender = u ''ann'', m_recipient = u ''bob'',
       m_body = None, m_nonce = None, m_ts = 7, m_delivered = None, m_read = None\<rparr>) [''m2'', ''m1''],
     t_pending := [(u ''m1'', u ''bob''), (u ''m2'', u ''bob'')]\<rparr>"

lemma two_queued_inv: "db_inv two_queued"
  by (simp add: two_queued_def db_inv_def empty_db_def)

theorem flush_exactly_once_witness:
  "\<exists>rows s'. messages_flush (PStr (u ''bob'')) two_queued = (Inr rows, s') \<and>
     map m_id rows = [u ''m2'', u ''m1''] \<and> outcome (messages_flush (PStr (u ''bob''))) s' = Inr []"
proof -
  let ?rows = "t_messages two_queued"
  obtain rows s' where f: "messages_flush (PStr (u ''bob'')) two_queued = (Inr rows, s')"
    "set rows = {r \<in> set ?rows. (m_id r, u ''bob'') \<in> set (t_pending two_queued)}"
    "\<forall>t. filter (\<lambda>r. m_ts r = t) rows =
         filter (\<lambda>r. (m_id r, u ''bob'') \<in> set (t_pending two_queued) \<and> m_ts r = t) ?rows"
    "outcome (messages_flush (PStr (u ''bob''))) s' = Inr []"
    using flush_exactly_once [OF two_queued_inv bind_text_u, of "''bob''"]
    by (elim exE conjE) (rule that; assumption)
  have all: "\<forall>r\<in>set ?rows. m_ts r = 7" by (simp add: two_queued_def)
  have "filter (\<lambda>r. m_ts r = 7) rows = rows"
    using all by (simp add: filter_id_conv f(2))
  from trans [OF this [symmetric] f(3) [rule_format]] have "map m_id rows = [u ''m2'', u ''m1'']"
    by (simp add: two_queued_def)
  with f(1,4) show ?thesis by (intro exI conjI)
qed

subsection \<open>Receipts\<close>

definition rank :: "receipt_state \<Rightarrow> nat" where
  "rank x = (case x of SENT \<Rightarrow> 0 | DELIVERED \<Rightarrow> 1 | READ \<Rightarrow> 2)"

instantiation receipt_state :: linorder
begin

definition less_eq_receipt_state :: "receipt_state \<Rightarrow> receipt_state \<Rightarrow> bool" where
  "x \<le> y \<longleftrightarrow> rank x \<le> rank y"

definition less_receipt_state :: "receipt_state \<Rightarrow> receipt_state \<Rightarrow> bool" where
  "x < y \<longleftrightarrow> rank x < rank y"

instance
  by standard (auto simp: less_eq_receipt_state_def less_receipt_state_def rank_def split: receipt_state.splits)

end

text \<open>A mark never takes a message backwards.\<close>

lemma mark_row_state: "row_state r \<le> row_state (mark_row b t r)"
  by (auto simp: row_state_def mark_row_def set_if_null_def less_eq_receipt_state_def rank_def
      split: option.split)

lemma mark_row_reaches: "row_state (mark_row b t r) = (if b then READ else max DELIVERED (row_state r))"
  by (auto simp: row_state_def mark_row_def set_if_null_def less_eq_receipt_state_def rank_def max_def
      split: option.split)

lemma set_if_null_keeps: "x = Some y \<Longrightarrow> set_if_null t x = Some y"
  by (simp add: set_if_null_def)

lemma messages_mark_run:
  assumes "bind_text (PStr i) = Inr x" and "find (\<lambda>r. m_id r = i) (t_messages s) = Some r" and "fits_int64 t"
  shows "messages_mark i st t s = (Inr (Some (m_sender r)), s\<lparr>t_messages :=
    map (\<lambda>r. if m_id r = i then mark_row (st = state_name READ) t r else r) (t_messages s)\<rparr>)"
  using assms by (simp add: messages_mark_def py_defs bind_int_def)

text \<open>\<open>mark\<close> returns the sender of the message, moves it to the state reported or leaves it
  further on, never back, keeps the time of a receipt that was already stored, and leaves
  every other message alone.\<close>

theorem mark_never_goes_back:
  assumes inv: "db_inv s" and r: "r \<in> set (t_messages s)" and bound: "bind_text (PStr (m_id r)) = Inr x"
    and st: "st \<in> {DELIVERED, READ}" and t: "fits_int64 t"
  shows "\<exists>s'. messages_mark (m_id r) (state_name st) t s = (Inr (Some (m_sender r)), s') \<and>
    outcome (messages_state_of (m_id r)) s' = Inr (max st (row_state r)) \<and>
    (\<forall>r'\<in>set (t_messages s). m_id r' \<noteq> m_id r \<longrightarrow> r' \<in> set (t_messages s')) \<and>
    (\<exists>r'\<in>set (t_messages s'). m_id r' = m_id r \<and>
       (m_delivered r \<noteq> None \<longrightarrow> m_delivered r' = m_delivered r) \<and>
       (m_read r \<noteq> None \<longrightarrow> m_read r' = m_read r)) \<and>
    length (t_messages s') = length (t_messages s)"
proof -
  let ?f = "\<lambda>q. if m_id q = m_id r then mark_row (state_name st = state_name READ) t q else q"
  have uniq: "q = r" if "q \<in> set (t_messages s)" "m_id q = m_id r" for q
    using inv r that by (auto simp: db_inv_def distinct_map dest: inj_onD)
  have "find (\<lambda>q. m_id q = m_id r) (t_messages s) = Some r"
    by (rule find_unique [OF r refl uniq])
  note run = messages_mark_run [OF bound this t, of "state_name st"]
  have "find (\<lambda>q. m_id q = m_id r) (map ?f (t_messages s)) = Some (?f r)"
    using r uniq by (intro find_unique) (auto split: if_splits)
  then have state: "outcome (messages_state_of (m_id r)) (s\<lparr>t_messages := map ?f (t_messages s)\<rparr>) =
      Inr (max st (row_state r))"
    using bound st by (auto simp: messages_state_of_def bnd_def mark_row_reaches state_name_def max_def
        less_eq_receipt_state_def rank_def split: receipt_state.splits)
  have row: "?f r \<in> set (map ?f (t_messages s))"
    using imageI [OF r, of ?f] by (simp only: set_map)
  show ?thesis
  proof (rule exI [of _ "s\<lparr>t_messages := map ?f (t_messages s)\<rparr>"], intro conjI ballI impI bexI)
    show "?f r \<in> set (t_messages (s\<lparr>t_messages := map ?f (t_messages s)\<rparr>))" using row by simp
    show "q \<in> set (t_messages (s\<lparr>t_messages := map ?f (t_messages s)\<rparr>))"
      if "q \<in> set (t_messages s)" "m_id q \<noteq> m_id r" for q
      using that image_eqI [of q ?f q "set (t_messages s)"] by simp
  qed (use run state in \<open>auto simp: mark_row_def set_if_null_def\<close>)
qed

theorem mark_never_goes_back_witness:
  "\<exists>s'. messages_mark (u ''m1'') (state_name READ) 9 two_queued = (Inr (Some (u ''ann'')), s') \<and>
     outcome (messages_state_of (u ''m1'')) s' = Inr READ"
proof -
  let ?r = "t_messages two_queued ! 1"
  have r: "m_id ?r = u ''m1''" "m_sender ?r = u ''ann''" "row_state ?r = SENT" "?r \<in> set (t_messages two_queued)"
    by (simp_all add: two_queued_def row_state_def)
  have "max READ SENT = READ" by (simp add: max_def less_eq_receipt_state_def rank_def)
  with mark_never_goes_back [OF two_queued_inv r(4), of _ READ 9] r(1-3) show ?thesis
    by (auto simp: fits_int64_def)
qed

subsection \<open>History\<close>

definition in_page :: "ustr \<Rightarrow> int option \<Rightarrow> message_row \<Rightarrow> bool" where
  "in_page c before r \<longleftrightarrow> m_conversation r = c \<and> (case before of None \<Rightarrow> True | Some b \<Rightarrow> m_ts r < b)"

lemma history_rows_eq:
  "history_rows c b l s = (let xs = sort_key m_ts (filter (in_page c b) (t_messages s))
                           in drop (length xs - nat (clamp_limit l)) xs)"
  by (simp add: history_rows_def Let_def rev_take in_page_def [abs_def])

lemma messages_history_run:
  assumes "bind_text (PStr c) = Inr x" and "before = None \<or> fits_int64 (the before)"
  shows "messages_history c before l s = (Inr (history_rows c before l s), s)"
  using assms by (cases before) (simp_all add: messages_history_def py_defs bind_int_def)

text \<open>\<open>history\<close> returns the newest messages of the conversation (older than \<open>before\<close>, when
  given), oldest first: as many as asked for, at least one and at most 200 if there are that
  many, no message of another conversation, and none that is left out is newer than one that
  is returned. It changes nothing.\<close>

theorem history_newest:
  assumes "bind_text (PStr c) = Inr x" and "before = None \<or> fits_int64 (the before)"
  shows "\<exists>rows older. messages_history c before limit s = (Inr rows, s) \<and>
    sorted (map m_ts (older @ rows)) \<and>
    set older \<union> set rows = {r \<in> set (t_messages s). in_page c before r} \<and>
    length older + length rows = length (filter (in_page c before) (t_messages s)) \<and>
    length rows = min (length (filter (in_page c before) (t_messages s))) (nat (max 1 (min limit 200))) \<and>
    length rows \<le> 200"
proof -
  let ?xs = "sort_key m_ts (filter (in_page c before) (t_messages s))"
  let ?n = "length ?xs - nat (clamp_limit limit)"
  have "set (take ?n ?xs) \<union> set (drop ?n ?xs) = set ?xs"
    by (metis append_take_drop_id set_append)
  moreover have mm: "a - (a - n) = min a n" "a - n + min a n = a" for a n :: nat
    by simp_all
  ultimately show ?thesis
    unfolding messages_history_run [OF assms] history_rows_eq Let_def
    by - (rule exI [of _ "drop ?n ?xs"], rule exI [of _ "take ?n ?xs"],
        auto simp: clamp_limit_def MAX_LIMIT_def mm simp flip: map_append)
qed

theorem history_newest_witness:
  "\<exists>rows. messages_history (u ''c'') None 1 two_queued = (Inr rows, two_queued) \<and> length rows = 1"
proof -
  have "length (filter (in_page (u ''c'') None) (t_messages two_queued)) = 2"
    by (simp add: two_queued_def in_page_def)
  with history_newest [of "u ''c''" "Some (u ''c'')" None 1 two_queued] show ?thesis by auto
qed

text \<open>Paging back by the timestamp of the oldest message held, as the client does, skips
  messages: when two messages of a conversation share a millisecond and a page ends between
  them, the next page starts before both.\<close>

theorem paging_skips_equal_timestamps:
  "\<exists>row. outcome (messages_history (u ''c'') None 1) two_queued = Inr [row] \<and> m_id row = u ''m1'' \<and>
     outcome (messages_history (u ''c'') (Some (m_ts row)) 1) two_queued = Inr []"
  by (simp add: messages_history_run fits_int64_def history_rows_eq two_queued_def in_page_def clamp_limit_def
      MAX_LIMIT_def)

subsection \<open>Conversation keys\<close>

lemma pair_key_sorted: "pair_key a b = min a b @ PAIR_SEPARATOR # max a b"
  by (auto simp: pair_key_def min_def max_def)

lemma split_at_separator:
  assumes "x \<notin> set a" and "x \<notin> set c" and "a @ x # b = c @ x # d"
  shows "a = c \<and> b = d"
proof -
  have "takeWhile (\<lambda>y. y \<noteq> x) (a @ x # b) = a" "takeWhile (\<lambda>y. y \<noteq> x) (c @ x # d) = c"
    using assms(1,2) by (auto intro!: takeWhile_append_stop)
  with assms(3) show ?thesis by auto
qed

lemma min_max_same: "min a b = min c d \<and> max a b = max c d \<longleftrightarrow> {a, b} = {c, d}" for a :: "'a::linorder"
  by (auto simp: min_def max_def doubleton_eq_iff split: if_splits)

text \<open>The key of a direct conversation is the same from both ends, and two pairs of names
  without the separator share a key only if they are the same two people.\<close>

theorem pair_key_identifies:
  "pair_key a b = pair_key b a \<and>
   (PAIR_SEPARATOR \<notin> set a \<union> set b \<union> set c \<union> set d \<longrightarrow>
      (pair_key a b = pair_key c d \<longleftrightarrow> {a, b} = {c, d}))"
proof -
  have "pair_key a b = pair_key c d \<longleftrightarrow> min a b = min c d \<and> max a b = max c d"
    if "PAIR_SEPARATOR \<notin> set a \<union> set b \<union> set c \<union> set d"
    using that split_at_separator [of PAIR_SEPARATOR "min a b" "min c d" "max a b" "max c d"]
    by (auto simp: pair_key_sorted min_def)
  then show ?thesis by (simp add: min_max_same) (simp add: pair_key_sorted ac_simps)
qed

theorem pair_key_identifies_witness:
  "pair_key (u ''ann'') (u ''bob'') \<noteq> pair_key (u ''ann'') (u ''cat'')"
proof -
  have "PAIR_SEPARATOR \<notin> set (u ''ann'') \<union> set (u ''bob'') \<union> set (u ''ann'') \<union> set (u ''cat'')"
    by (simp add: u_def PAIR_SEPARATOR_def)
  moreover have "{u ''ann'', u ''bob''} \<noteq> {u ''ann'', u ''cat''}" by (simp add: doubleton_eq_iff)
  ultimately show ?thesis using pair_key_identifies by blast
qed

text \<open>With the separator in a name, which nothing forbids, two different pairs of people
  share one conversation.\<close>

theorem pair_key_collision:
  "\<exists>a b c d. {a, b} \<noteq> {c, d} \<and> pair_key a b = pair_key c d"
  by (rule exI [of _ "[97]"], rule exI [of _ "[98, 31, 99]"], rule exI [of _ "[97, 31, 98]"], rule exI [of _ "[99]"])
     (simp add: pair_key_def PAIR_SEPARATOR_def doubleton_eq_iff)

end
