(* ===== verification/Registries.thy ===== *)
theory Registries
  imports Store
begin

section \<open>Registries: who is connected, and who is in which room\<close>

text \<open>
  \<open>im/server/registries.py\<close>. A connection is named by a number (its object identity).
  Every method runs under the registry's lock, so each is one function on the dictionary.

  The room interface is a locale, \<open>room_store\<close>: the router works with the in-memory
  \<open>RoomRegistry\<close> (in the tests) and with \<open>SqliteRooms\<close> (in the server), and "cannot tell which
  one it was handed". Both are interpretations.
\<close>

subsection \<open>\<open>SessionRegistry\<close>\<close>

text \<open>Names that compare equal as Python values are the same key.\<close>

type_synonym sessions = "(pyval, nat) dict"

definition sessions_get :: "pyval \<Rightarrow> sessions \<Rightarrow> nat option" where
  "sessions_get name d = map_option snd (find (\<lambda>(k, _). py_key k = py_key name) d)"

definition sessions_is_online :: "pyval \<Rightarrow> sessions \<Rightarrow> bool" where
  "sessions_is_online name d \<longleftrightarrow> sessions_get name d \<noteq> None"

definition sessions_login :: "pyval \<Rightarrow> nat \<Rightarrow> sessions \<Rightarrow> bool \<times> sessions" where
  "sessions_login name sid d =
     (if sessions_is_online name d then (False, d) else (True, d @ [(name, sid)]))"

definition sessions_logout :: "pyval \<Rightarrow> sessions \<Rightarrow> sessions" where
  "sessions_logout name d = filter (\<lambda>(k, _). py_key k \<noteq> py_key name) d"

definition sessions_usernames :: "sessions \<Rightarrow> exn + pyval list" where
  "sessions_usernames d = py_sorted (dict_keys d)"

definition sessions_others :: "pyval \<Rightarrow> sessions \<Rightarrow> nat list" where
  "sessions_others name d = map snd (filter (\<lambda>(k, _). py_key k \<noteq> py_key name) d)"

definition sessions_len :: "sessions \<Rightarrow> nat" where
  "sessions_len d = length d"

text \<open>The dictionary has one entry per name.\<close>

definition sessions_wf :: "sessions \<Rightarrow> bool" where
  "sessions_wf d \<longleftrightarrow> distinct (map (py_key \<circ> fst) d)"

lemma sessions_get_None: "sessions_get n d = None \<longleftrightarrow> py_key n \<notin> (py_key \<circ> fst) ` set d"
  by (force simp: sessions_get_def find_None_iff)

lemma sessions_get_Some: "sessions_get n d = Some c \<Longrightarrow> \<exists>k. (k, c) \<in> set d \<and> py_key k = py_key n"
  by (auto simp: sessions_get_def find_Some_iff) (metis nth_mem prod.collapse snd_conv)

lemma sessions_get_mem: "sessions_wf d \<Longrightarrow> (k, c) \<in> set d \<Longrightarrow> sessions_get k d = Some c"
  unfolding sessions_get_def sessions_wf_def
  by (induction d) (auto simp: image_iff)

lemma sessions_login_wf: "sessions_wf d \<Longrightarrow> sessions_wf (snd (sessions_login n c d))"
  by (auto simp: sessions_login_def sessions_wf_def sessions_is_online_def sessions_get_None)

lemma sessions_logout_wf: "sessions_wf d \<Longrightarrow> sessions_wf (sessions_logout n d)"
  by (auto simp: sessions_logout_def sessions_wf_def distinct_map_filter)

lemma sessions_get_logout:
  "sessions_get m (sessions_logout n d) = (if py_key m = py_key n then None else sessions_get m d)"
  by (induction d) (auto simp: sessions_get_def sessions_logout_def)

lemma sessions_get_login:
  "sessions_get m (snd (sessions_login n c d)) =
     (if sessions_get n d = None \<and> py_key m = py_key n then Some c else sessions_get m d)"
  by (auto simp: sessions_login_def sessions_is_online_def sessions_get_def find_append split: option.split)

subsection \<open>\<open>RoomRegistry\<close>\<close>

type_synonym room_registry = "(ustr, ustr set) dict"

definition registry_create :: "ustr \<Rightarrow> (room_registry, bool) py" where
  "registry_create room = (\<lambda>d. if dict_get d room \<noteq> None then (Inr False, d) else (Inr True, dict_set d room {}))"

definition registry_join :: "ustr \<Rightarrow> ustr \<Rightarrow> (room_registry, unit) py" where
  "registry_join room name =
     modify (\<lambda>d. dict_set d room (insert name (case dict_get d room of None \<Rightarrow> {} | Some ms \<Rightarrow> ms)))"

definition registry_leave :: "ustr \<Rightarrow> ustr \<Rightarrow> (room_registry, unit) py" where
  "registry_leave room name = modify (\<lambda>d. case dict_get d room of None \<Rightarrow> d
     | Some ms \<Rightarrow> dict_set d room (ms - {name}))"

definition registry_members :: "ustr \<Rightarrow> (room_registry, ustr set) py" where
  "registry_members room = gets (\<lambda>d. case dict_get d room of None \<Rightarrow> {} | Some ms \<Rightarrow> ms)"

definition registry_exists :: "ustr \<Rightarrow> (room_registry, bool) py" where
  "registry_exists room = gets (\<lambda>d. dict_get d room \<noteq> None)"

definition registry_rooms_of :: "ustr \<Rightarrow> (room_registry, ustr list) py" where
  "registry_rooms_of name = gets (\<lambda>d. sort (map fst (filter (\<lambda>(_, ms). name \<in> ms) d)))"

definition registry_forget :: "ustr \<Rightarrow> (room_registry, unit) py" where
  "registry_forget name = modify (map (\<lambda>(room, ms). (room, ms - {name})))"

subsection \<open>The contract both room stores keep\<close>

record 's room_ops =
  o_create :: "ustr \<Rightarrow> ('s, bool) py"
  o_join :: "ustr \<Rightarrow> ustr \<Rightarrow> ('s, unit) py"
  o_leave :: "ustr \<Rightarrow> ustr \<Rightarrow> ('s, unit) py"
  o_members :: "ustr \<Rightarrow> ('s, ustr set) py"
  o_exists :: "ustr \<Rightarrow> ('s, bool) py"
  o_rooms_of :: "ustr \<Rightarrow> ('s, ustr list) py"
  o_forget :: "ustr \<Rightarrow> ('s, unit) py"

definition memory_rooms :: "room_registry room_ops" where
  "memory_rooms = \<lparr>o_create = registry_create, o_join = registry_join, o_leave = registry_leave,
     o_members = registry_members, o_exists = registry_exists, o_rooms_of = registry_rooms_of,
     o_forget = registry_forget\<rparr>"

definition sqlite_rooms :: "'z database_scheme room_ops" where
  "sqlite_rooms = \<lparr>o_create = rooms_create, o_join = (\<lambda>r n. rooms_join r (PStr n)),
     o_leave = (\<lambda>r n. rooms_leave r (PStr n)), o_members = rooms_members, o_exists = rooms_exists,
     o_rooms_of = (\<lambda>n. rooms_of (PStr n)), o_forget = (\<lambda>n. rooms_forget (PStr n))\<rparr>"

datatype room_call =
    Create ustr | Join ustr ustr | Leave ustr ustr | Members ustr | Exists ustr | Rooms_Of ustr | Forget ustr

datatype room_answer = Nothing | Truth bool | Names "ustr set" | Sorted "ustr list"

fun do_call :: "'s room_ops \<Rightarrow> room_call \<Rightarrow> ('s, room_answer) py" where
  "do_call ops (Create r) = bnd (o_create ops r) (\<lambda>b. ret (Truth b))"
| "do_call ops (Join r n) = andthen (o_join ops r n) (ret Nothing)"
| "do_call ops (Leave r n) = andthen (o_leave ops r n) (ret Nothing)"
| "do_call ops (Members r) = bnd (o_members ops r) (\<lambda>ms. ret (Names ms))"
| "do_call ops (Exists r) = bnd (o_exists ops r) (\<lambda>b. ret (Truth b))"
| "do_call ops (Rooms_Of n) = bnd (o_rooms_of ops n) (\<lambda>rs. ret (Sorted rs))"
| "do_call ops (Forget n) = andthen (o_forget ops n) (ret Nothing)"

text \<open>The specification: the set of rooms, and who is in which.\<close>

type_synonym room_spec = "ustr set \<times> (ustr \<times> ustr) set"

fun room_spec :: "room_call \<Rightarrow> room_spec \<Rightarrow> room_answer \<times> room_spec" where
  "room_spec (Create r) (R, M) = (Truth (r \<notin> R), (insert r R, M))"
| "room_spec (Join r n) (R, M) = (Nothing, (insert r R, insert (r, n) M))"
| "room_spec (Leave r n) (R, M) = (Nothing, (R, M - {(r, n)}))"
| "room_spec (Members r) (R, M) = (Names {n. (r, n) \<in> M}, (R, M))"
| "room_spec (Exists r) (R, M) = (Truth (r \<in> R), (R, M))"
| "room_spec (Rooms_Of n) (R, M) = (Sorted (sorted_list_of_set {r. (r, n) \<in> M}), (R, M))"
| "room_spec (Forget n) (R, M) = (Nothing, (R, {(r, n') \<in> M. n' \<noteq> n}))"

fun room_specs :: "room_call list \<Rightarrow> room_spec \<Rightarrow> room_answer list" where
  "room_specs [] a = []"
| "room_specs (c # cs) a = fst (room_spec c a) # room_specs cs (snd (room_spec c a))"

fun call_names :: "room_call \<Rightarrow> ustr set" where
  "call_names (Create r) = {r}"
| "call_names (Join r n) = {r, n}"
| "call_names (Leave r n) = {r, n}"
| "call_names (Members r) = {r}"
| "call_names (Exists r) = {r}"
| "call_names (Rooms_Of n) = {n}"
| "call_names (Forget n) = {n}"

text \<open>What a room store promises, and that it then answers any sequence of calls as the
  specification does.\<close>

locale room_store =
  fixes ops :: "'s room_ops"
    and abs :: "'s \<Rightarrow> room_spec"
    and inv :: "'s \<Rightarrow> bool"
    and valid :: "ustr \<Rightarrow> bool"
  assumes step: "inv s \<Longrightarrow> \<forall>n\<in>call_names c. valid n \<Longrightarrow>
    \<exists>s'. do_call ops c s = (Inr (fst (room_spec c (abs s))), s') \<and>
         abs s' = snd (room_spec c (abs s)) \<and> inv s'"
begin

lemma calls:
  assumes "inv s" and "\<forall>c\<in>set cs. \<forall>n\<in>call_names c. valid n"
  shows "outcome (map_each cs (do_call ops)) s = Inr (room_specs cs (abs s))"
  using assms
proof (induction cs arbitrary: s)
  case (Cons c cs)
  then obtain s' where s': "do_call ops c s = (Inr (fst (room_spec c (abs s))), s')"
    "abs s' = snd (room_spec c (abs s))" "inv s'"
    using step [of s c] by auto
  then have "outcome (map_each cs (do_call ops)) s' = Inr (room_specs cs (abs s'))"
    using Cons.prems by (intro Cons.IH) auto
  then show ?case
    using s' by (auto simp: bnd_def split: prod.splits sum.splits)
qed simp

end

subsection \<open>Both stores keep it\<close>

definition registry_abs :: "room_registry \<Rightarrow> room_spec" where
  "registry_abs d = ({r. dict_get d r \<noteq> None}, {(r, n). \<exists>ms. dict_get d r = Some ms \<and> n \<in> ms})"

lemma dict_get_forget:
  "dict_get (map (\<lambda>(room, ms). (room, ms - {name})) d) r = map_option (\<lambda>ms. ms - {name}) (dict_get d r)"
  by (induction d) auto

lemma fst_forget [simp]: "fst \<circ> (\<lambda>(room, ms). (room, ms - {name})) = fst"
  by auto

lemma registry_rooms_sorted:
  assumes "dict_wf d"
  shows "sort (map fst (filter (\<lambda>(_, ms). n \<in> ms) d)) = sorted_list_of_set {r. \<exists>ms. dict_get d r = Some ms \<and> n \<in> ms}"
proof -
  have "{r. \<exists>ms. dict_get d r = Some ms \<and> n \<in> ms} = set (map fst (filter (\<lambda>(_, ms). n \<in> ms) d))"
    using assms by (force dest: dict_get_Some_mem dict_get_mem)
  then show ?thesis
    using assms by (simp add: sorted_list_of_set_sort_remdups distinct_map_filter distinct_remdups_id del: set_map set_filter)
qed

lemma sqlite_rooms_sorted:
  assumes "distinct (t_members s)"
  shows "sort (map fst (filter (\<lambda>(_, n'). n' = n) (t_members s))) = sorted_list_of_set {r. (r, n) \<in> set (t_members s)}"
proof -
  have "{r. (r, n) \<in> set (t_members s)} = set (map fst (filter (\<lambda>(_, n'). n' = n) (t_members s)))"
    by force
  moreover have "distinct (map fst (filter (\<lambda>(_, n'). n' = n) (t_members s)))"
    using assms by (auto simp: distinct_map inj_on_def)
  ultimately show ?thesis
    by (simp add: sorted_list_of_set_sort_remdups distinct_remdups_id del: set_map set_filter)
qed

interpretation memory: room_store memory_rooms registry_abs "\<lambda>d. dict_wf d" "\<lambda>_. True"
proof
  fix d :: room_registry and c
  assume wf: "dict_wf d"
  show "\<exists>d'. do_call memory_rooms c d = (Inr (fst (room_spec c (registry_abs d))), d') \<and>
      registry_abs d' = snd (room_spec c (registry_abs d)) \<and> dict_wf d'"
    using wf
    by (cases c)
       (auto simp: memory_rooms_def registry_create_def registry_join_def registry_leave_def registry_members_def
         registry_exists_def registry_rooms_of_def registry_forget_def registry_abs_def bnd_def andthen_def
         dict_get_forget registry_rooms_sorted split: option.splits if_splits)
qed

definition storable :: "ustr \<Rightarrow> bool" where
  "storable n \<longleftrightarrow> list_all (\<lambda>c. \<not> is_surrogate c) n"

definition sqlite_abs :: "'z database_scheme \<Rightarrow> room_spec" where
  "sqlite_abs s = (fst ` set (t_rooms s), set (t_members s))"

lemma storable_bind [simp]: "storable n \<Longrightarrow> bind_text (PStr n) = Inr (Some n)"
  by (simp add: storable_def bind_text_def)

lemma do_call_keeps_inv: "runs_in (keeps db_inv) (do_call sqlite_rooms c)"
  by (cases c) (auto simp: sqlite_rooms_def intro!: db.world_rules store_inv)

interpretation sqlite: room_store sqlite_rooms sqlite_abs db_inv storable
proof
  fix s :: "'z database_scheme" and c
  assume inv: "db_inv s" and valid: "\<forall>n\<in>call_names c. storable n"
  have "do_call sqlite_rooms c s = (Inr (fst (room_spec c (sqlite_abs s))), after (do_call sqlite_rooms c) s) \<and>
      sqlite_abs (after (do_call sqlite_rooms c) s) = snd (room_spec c (sqlite_abs s))"
    using inv valid
    by (cases c)
       (auto simp: sqlite_rooms_def sqlite_abs_def op_defs py_defs transaction_def members_of_def
         insert_room_def insert_member_def sqlite_rooms_sorted db_inv_def)
  then show "\<exists>s'. do_call sqlite_rooms c s = (Inr (fst (room_spec c (sqlite_abs s))), s') \<and>
      sqlite_abs s' = snd (room_spec c (sqlite_abs s)) \<and> db_inv s'"
    using keepsD [OF do_call_keeps_inv inv] by blast
qed

text \<open>C18: the router cannot tell which room store it was handed. From states with the same
  rooms and members, \<open>RoomRegistry\<close> and \<open>SqliteRooms\<close> give the same answers to every
  sequence of calls on storable names, and neither ever raises.\<close>

theorem room_stores_agree:
  assumes "db_inv s" and "dict_wf d" and "sqlite_abs s = registry_abs d"
    and "\<forall>c\<in>set cs. \<forall>n\<in>call_names c. storable n"
  shows "outcome (map_each cs (do_call sqlite_rooms)) s = Inr (room_specs cs (sqlite_abs s)) \<and>
    outcome (map_each cs (do_call memory_rooms)) d = outcome (map_each cs (do_call sqlite_rooms)) s"
  using sqlite.calls [OF assms(1,4)] memory.calls [OF assms(2)] assms(3) by simp

theorem room_stores_agree_witness:
  "outcome (map_each [Create (u ''#a''), Join (u ''#a'') (u ''ann''), Rooms_Of (u ''ann'')] (do_call memory_rooms)) [] =
   outcome (map_each [Create (u ''#a''), Join (u ''#a'') (u ''ann''), Rooms_Of (u ''ann'')] (do_call sqlite_rooms)) empty_db"
  by (rule room_stores_agree [THEN conjunct2])
     (auto simp: empty_db_def db_inv_def sqlite_abs_def registry_abs_def storable_def)

end
