(* ===== verification/Router.thy ===== *)
theory Router
  imports Registries
begin

section \<open>The message router\<close>

text \<open>
  \<open>im/server/router.py\<close>, with the outbound half of \<open>im/server/handler.py\<close> that the router
  talks to. The state of the server is the database, the session registry and the
  connection objects; a handler of the router is a computation over it. \<open>sid\<close> names the
  connection a frame came from. The registries and the store lock each of their methods;
  a handler is modelled as one step.

  \<open>has_messages\<close> and \<open>has_contacts\<close> say whether the router was given a \<open>MessageStore\<close> and
  \<open>SqliteContacts\<close>; \<open>ChatServer\<close> always gives it both.
\<close>

subsection \<open>Connections as the router sees them\<close>

definition OUTBOX_LIMIT :: nat where "OUTBOX_LIMIT = 1000"

datatype outbox_item = Item frame | STOP

record handler =
  username :: pyval
  outbox :: "outbox_item list"
  closed :: bool

record server = database +
  by_name :: sessions
  conns :: "nat \<Rightarrow> handler"
  has_messages :: bool
  has_contacts :: bool

definition new_handler :: handler where
  "new_handler = \<lparr>username = PNone, outbox = [], closed = False\<rparr>"

definition handler_close :: "handler \<Rightarrow> handler" where
  "handler_close h =
     (if closed h then h
      else h\<lparr>closed := True, outbox := (if length (outbox h) < OUTBOX_LIMIT then outbox h @ [STOP] else outbox h)\<rparr>)"

definition handler_send :: "frame \<Rightarrow> handler \<Rightarrow> handler" where
  "handler_send f h =
     (if closed h then h
      else if length (outbox h) < OUTBOX_LIMIT then h\<lparr>outbox := outbox h @ [Item f]\<rparr>
      else handler_close h)"

definition with_conn :: "nat \<Rightarrow> (handler \<Rightarrow> handler) \<Rightarrow> 'z server_scheme \<Rightarrow> 'z server_scheme" where
  "with_conn sid g s = s\<lparr>conns := (conns s)(sid := g (conns s sid))\<rparr>"

definition send :: "nat \<Rightarrow> frame \<Rightarrow> ('z server_scheme, unit) py" where
  "send sid f = modify (with_conn sid (handler_send f))"

definition send_error :: "nat \<Rightarrow> string \<Rightarrow> ustr \<Rightarrow> ('z server_scheme, unit) py" where
  "send_error sid code msg = bnd (error_frame code msg) (send sid)"

definition send_data :: "nat \<Rightarrow> message_type \<Rightarrow> (ustr, pyval) dict \<Rightarrow> ('z server_scheme, unit) py" where
  "send_data sid ty data = bnd (data_frame ty data) (send sid)"

definition session_username :: "nat \<Rightarrow> ('z server_scheme, pyval) py" where
  "session_username sid = gets (\<lambda>s. username (conns s sid))"

definition find_session :: "pyval \<Rightarrow> ('z server_scheme, nat option) py" where
  "find_session name = gets (\<lambda>s. sessions_get name (by_name s))"

definition send_if_online :: "ustr \<Rightarrow> frame \<Rightarrow> ('z server_scheme, unit) py" where
  "send_if_online name f = bnd (find_session (PStr name)) (\<lambda>m. case m of None \<Rightarrow> ret () | Some c \<Rightarrow> send c f)"

definition usernames :: "('z server_scheme, pyval list) py" where
  "usernames = bnd (gets by_name) (\<lambda>d. lift (sessions_usernames d))"

text \<open>\<open>x in members\<close> for a Python value and a set of strings.\<close>

definition py_in :: "pyval \<Rightarrow> ustr set \<Rightarrow> bool" where
  "py_in x ms = (case x of PStr n \<Rightarrow> n \<in> ms | _ \<Rightarrow> False)"

definition ROOM_PREFIX :: ustr where "ROOM_PREFIX = u ''#''"

abbreviation is_room :: "ustr \<Rightarrow> bool" where
  "is_room name \<equiv> startswith name ROOM_PREFIX"

subsection \<open>Presence\<close>

definition announce :: "pyval \<Rightarrow> string \<Rightarrow> ('z server_scheme, unit) py" where
  "announce name state =
     bnd (data_frame PRESENCE [(u ''user'', name), (u ''state'', PStr (u state))]) (\<lambda>announcement.
     bnd (gets (\<lambda>s. sessions_others name (by_name s))) (\<lambda>others.
       for_each others (\<lambda>other. send other announcement)))"

subsection \<open>Contacts\<close>

definition contact_states :: "pyval \<Rightarrow> ('z server_scheme, pyval) py" where
  "contact_states name =
     bnd (gets has_contacts) (\<lambda>some.
     if \<not> some then ret (PList [])
     else bnd usernames (\<lambda>online.
          bnd (contacts_of name) (\<lambda>names.
          ret (PList (map (\<lambda>n. PDict [(u ''user'', PStr n), (u ''online'', PBool (PStr n \<in> set online))]) names)))))"

definition send_contacts :: "nat \<Rightarrow> ('z server_scheme, unit) py" where
  "send_contacts sid =
     bnd (session_username sid) (\<lambda>name.
     bnd (contact_states (py_or name (PStr []))) (\<lambda>cs.
     bnd (new_frame CONTACTS PNone name PNone PNone [(u ''contacts'', cs)]) (send sid)))"

definition add_contact :: "nat \<Rightarrow> frame \<Rightarrow> ('z server_scheme, unit) py" where
  "add_contact sid f =
     bnd (gets has_contacts) (\<lambda>some.
     if \<not> some then send_error sid ''UNSUPPORTED'' (u ''this server keeps no contacts'')
     else bnd (session_username sid) (\<lambda>me.
     case pget (f_data f) (u ''user'') of
       PStr name \<Rightarrow>
         if name = [] then send_error sid ''NO_RECIPIENT'' (u ''ADD_CONTACT needs a user'')
         else if PStr name = me then send_error sid ''BAD_CONTACT'' (u ''you are already in your own contacts'')
         else if is_room name then send_error sid ''BAD_CONTACT'' (u ''a room is not a contact -- JOIN it instead'')
         else bnd (users_exists name) (\<lambda>known.
              if \<not> known then send_error sid ''NO_SUCH_USER'' (u ''nobody is registered as '' @ name)
              else bnd now_ms (\<lambda>t.
                   andthen (contacts_add (py_or me (PStr [])) name t) (send_contacts sid)))
     | _ \<Rightarrow> send_error sid ''NO_RECIPIENT'' (u ''ADD_CONTACT needs a user'')))"

definition remove_contact :: "nat \<Rightarrow> frame \<Rightarrow> ('z server_scheme, unit) py" where
  "remove_contact sid f =
     bnd (gets has_contacts) (\<lambda>some.
     if \<not> some then ret ()
     else bnd (session_username sid) (\<lambda>me.
     andthen
       (case pget (f_data f) (u ''user'') of
          PStr name \<Rightarrow> if name = [] then ret ()
                      else andthen (contacts_remove (py_or me (PStr [])) name) (ret ())
        | _ \<Rightarrow> ret ())
       (send_contacts sid)))"

definition note_contact :: "ustr \<Rightarrow> ustr \<Rightarrow> ('z server_scheme, unit) py" where
  "note_contact owner other =
     bnd (gets has_contacts) (\<lambda>some.
     if \<not> some \<or> other = [] \<or> is_room other then ret ()
     else bnd now_ms (\<lambda>t.
          bnd (contacts_add (PStr owner) other t) (\<lambda>new.
          if \<not> new then ret ()
          else bnd (find_session (PStr owner)) (\<lambda>theirs.
               case theirs of None \<Rightarrow> ret () | Some c \<Rightarrow> send_contacts c))))"

definition get_key :: "nat \<Rightarrow> frame \<Rightarrow> ('z server_scheme, unit) py" where
  "get_key sid f =
     (let user = pget (f_data f) (u ''user'') in
      if \<not> py_truthy user then send_error sid ''NO_RECIPIENT'' (u ''GET_KEY needs a user'')
      else bnd (users_pubkey (py_str user)) (\<lambda>pubkey. case pubkey of
          None \<Rightarrow> send_error sid ''NO_KEY'' (u ''no public key is published for '' @ py_str user)
        | Some k \<Rightarrow> send_data sid KEY [(u ''user'', PStr (py_str user)), (u ''pubkey'', PStr k)]))"

subsection \<open>Rooms\<close>

definition room_state :: "ustr \<Rightarrow> ('z server_scheme, frame) py" where
  "room_state room =
     bnd (rooms_members room) (\<lambda>ms.
       new_frame ROOM_STATE PNone (PStr room) PNone PNone
         [(u ''room'', PStr room), (u ''members'', PList (map PStr (sorted_list_of_set ms)))])"

definition broadcast_room_state :: "ustr \<Rightarrow> ('z server_scheme, unit) py" where
  "broadcast_room_state room =
     bnd (room_state room) (\<lambda>state.
     bnd (rooms_members room) (\<lambda>ms.
       for_each (sorted_list_of_set ms) (\<lambda>name. send_if_online name state)))"

definition room_name :: "nat \<Rightarrow> frame \<Rightarrow> ('z server_scheme, ustr option) py" where
  "room_name sid f =
     (let bad = (\<lambda>msg. andthen (send_error sid ''BAD_ROOM'' msg) (ret None)) in
      case pget (f_data f) (u ''room'') of
        PStr room \<Rightarrow>
          if room = [] then bad (u ''a room name is required'')
          else if \<not> is_room room then bad (u ''a room name must start with '' @ ROOM_PREFIX)
          else if length room < 2 \<or> length room > 32 \<or> list_ex is_space room
            then bad (u ''a room name is 2-32 characters and has no spaces'')
          else ret (Some room)
      | _ \<Rightarrow> bad (u ''a room name is required''))"

fun add_each :: "ustr \<Rightarrow> ustr list \<Rightarrow> ('z server_scheme, ustr list) py" where
  "add_each room [] = ret []"
| "add_each room (name # names) =
     bnd (if name = [] \<or> is_room name then ret False else users_exists name) (\<lambda>known.
     if known then andthen (rooms_join room (PStr name))
                     (bnd (add_each room names) (\<lambda>added. ret (name # added)))
     else add_each room names)"

definition add_members :: "ustr \<Rightarrow> pyval \<Rightarrow> ('z server_scheme, ustr list) py" where
  "add_members room members = (case members of
       PList xs \<Rightarrow> add_each room (map py_str (take 64 xs))
     | _ \<Rightarrow> ret [])"

definition create_room :: "nat \<Rightarrow> frame \<Rightarrow> ('z server_scheme, unit) py" where
  "create_room sid f =
     bnd (room_name sid f) (\<lambda>r. case r of None \<Rightarrow> ret ()
     | Some room \<Rightarrow>
       bnd (rooms_create room) (\<lambda>made.
       if \<not> made then send_error sid ''ROOM_EXISTS'' (room @ u '' already exists -- JOIN it instead'')
       else bnd (session_username sid) (\<lambda>me.
            andthen (rooms_join room me)
            (andthen (add_members room (pget (f_data f) (u ''members'')))
              (broadcast_room_state room)))))"

definition invite :: "nat \<Rightarrow> frame \<Rightarrow> ('z server_scheme, unit) py" where
  "invite sid f =
     bnd (room_name sid f) (\<lambda>r. case r of None \<Rightarrow> ret ()
     | Some room \<Rightarrow>
       bnd (rooms_exists room) (\<lambda>there.
       if \<not> there then send_error sid ''NO_SUCH_ROOM'' (room @ u '' does not exist'')
       else bnd (session_username sid) (\<lambda>me.
       bnd (rooms_members room) (\<lambda>ms.
       if \<not> py_in me ms then send_error sid ''NOT_A_MEMBER'' (u ''join '' @ room @ u '' before inviting anyone to it'')
       else let wanted = pget (f_data f) (u ''members'') in
       bnd (add_members room wanted) (\<lambda>added.
       bnd (rooms_members room) (\<lambda>now_in.
       let missing = (case wanted of
             PList xs \<Rightarrow> filter (\<lambda>n. n \<notin> set added \<and> n \<notin> now_in) (map py_str xs) | _ \<Rightarrow> [])
       in andthen
            (if missing = [] then ret ()
             else send_error sid ''NO_SUCH_USER''
                    (u ''not registered: '' @ join (u '', '') (sorted_list_of_set (set missing))))
            (if added = [] then ret () else broadcast_room_state room)))))))"

definition join_room :: "nat \<Rightarrow> frame \<Rightarrow> ('z server_scheme, unit) py" where
  "join_room sid f =
     bnd (room_name sid f) (\<lambda>r. case r of None \<Rightarrow> ret ()
     | Some room \<Rightarrow>
       bnd (rooms_exists room) (\<lambda>there.
       if \<not> there then send_error sid ''NO_SUCH_ROOM'' (room @ u '' does not exist -- CREATE_ROOM first'')
       else bnd (session_username sid) (\<lambda>me.
            andthen (rooms_join room me) (broadcast_room_state room))))"

definition leave_room :: "nat \<Rightarrow> frame \<Rightarrow> ('z server_scheme, unit) py" where
  "leave_room sid f =
     bnd (room_name sid f) (\<lambda>r. case r of None \<Rightarrow> ret ()
     | Some room \<Rightarrow>
       bnd (session_username sid) (\<lambda>me.
       bnd (rooms_members room) (\<lambda>ms.
       if \<not> py_in me ms then send_error sid ''NOT_A_MEMBER'' (u ''you are not in '' @ room)
       else andthen (rooms_leave room me)
            (andthen (broadcast_room_state room)
              (bnd (room_state room) (send sid))))))"

subsection \<open>Delivery\<close>

text \<open>The copy of a message the server sends on: its \<open>from\<close> is the session's name.\<close>

definition outgoing_of :: "pyval \<Rightarrow> frame \<Rightarrow> frame" where
  "outgoing_of me f =
     \<lparr>f_type = MSG, f_sender = me, f_to = f_to f, f_body = f_body f, f_nonce = f_nonce f, f_data = [],
      f_id = f_id f, f_ts = f_ts f, f_v = PInt PROTOCOL_VERSION\<rparr>"

definition record_msg :: "frame \<Rightarrow> ustr \<Rightarrow> ustr \<Rightarrow> ('z server_scheme, unit) py" where
  "record_msg out conversation recipient =
     bnd (gets has_messages) (\<lambda>some.
     if \<not> some then ret ()
     else messages_record (f_id out) conversation (py_or (f_sender out) (PStr [])) recipient
            (f_body out) (f_nonce out) (f_ts out))"

definition record_envelopes :: "frame \<Rightarrow> ustr \<Rightarrow> (ustr, pyval) dict \<Rightarrow> ('z server_scheme, unit) py" where
  "record_envelopes out room envelopes =
     bnd (gets has_messages) (\<lambda>some.
     if \<not> some then ret ()
     else messages_record (f_id out) room (py_or (f_sender out) (PStr [])) room
            (PStr (dumps True (PDict envelopes))) (PStr ENVELOPES) (f_ts out))"

text \<open>The two strings of a sealed envelope, when it is a list of length two.\<close>

definition sealed_pair :: "pyval \<Rightarrow> (ustr \<times> ustr) option" where
  "sealed_pair x = (case x of PList [body, nonce] \<Rightarrow> Some (py_str body, py_str nonce) | _ \<Rightarrow> None)"

definition addressed_to :: "frame \<Rightarrow> (ustr, pyval) dict option \<Rightarrow> ustr \<Rightarrow> frame option" where
  "addressed_to out envelopes member = (case envelopes of
       None \<Rightarrow> Some out
     | Some env \<Rightarrow> (case sealed_pair (pget env member) of None \<Rightarrow> None
         | Some (body, nonce) \<Rightarrow> Some
             \<lparr>f_type = MSG, f_sender = f_sender out, f_to = f_to out, f_body = PStr body, f_nonce = PStr nonce,
              f_data = [], f_id = f_id out, f_ts = f_ts out, f_v = PInt PROTOCOL_VERSION\<rparr>))"

definition to_user :: "nat \<Rightarrow> ustr \<Rightarrow> frame \<Rightarrow> ('z server_scheme, bool) py" where
  "to_user sid target out =
     bnd (find_session (PStr target)) (\<lambda>recipient.
     bnd (if recipient \<noteq> None then ret True
          else bnd (gets has_messages) (\<lambda>some. if some then users_exists target else ret False)) (\<lambda>reachable.
     if \<not> reachable
     then andthen (send_error sid ''USER_OFFLINE'' (target @ u '' is not online'')) (ret False)
     else bnd (session_username sid) (\<lambda>me. case py_or me (PStr []) of
       PStr sender \<Rightarrow>
         bnd (lift (direct_conversation (PStr sender) target)) (\<lambda>conversation.
         andthen (record_msg out conversation target)
         (andthen (note_contact sender target)
         (andthen (note_contact target sender)
         (andthen (case recipient of Some c \<Rightarrow> send c out | None \<Rightarrow> messages_queue_for target (f_id out))
           (ret True)))))
     | other \<Rightarrow> andthen (lift (direct_conversation other target)) (ret False))))"

definition deliver_member ::
  "pyval \<Rightarrow> frame \<Rightarrow> (ustr, pyval) dict option \<Rightarrow> ustr \<Rightarrow> ('z server_scheme, unit) py" where
  "deliver_member me out envelopes name =
     (if PStr name = me then ret ()
      else bnd (find_session (PStr name)) (\<lambda>member.
           case addressed_to out envelopes name of None \<Rightarrow> ret ()
           | Some addressed \<Rightarrow> (case member of Some c \<Rightarrow> send c addressed
               | None \<Rightarrow> bnd (gets has_messages) (\<lambda>some.
                   if some then messages_queue_for name (f_id out) else ret ()))))"

definition to_room ::
  "nat \<Rightarrow> ustr \<Rightarrow> frame \<Rightarrow> (ustr, pyval) dict option \<Rightarrow> ('z server_scheme, bool) py" where
  "to_room sid room out envelopes =
     bnd (rooms_exists room) (\<lambda>there.
     if \<not> there
     then andthen (send_error sid ''NO_SUCH_ROOM'' (room @ u '' does not exist'')) (ret False)
     else bnd (rooms_members room) (\<lambda>ms. bnd (session_username sid) (\<lambda>me.
     if \<not> py_in me ms
     then andthen (send_error sid ''NOT_A_MEMBER'' (u ''join '' @ room @ u '' before sending to it'')) (ret False)
     else andthen (case envelopes of Some env \<Rightarrow> record_envelopes out room env | None \<Rightarrow> record_msg out room room)
          (andthen (for_each (sorted_list_of_set ms) (deliver_member me out envelopes))
            (ret True)))))"

definition envelopes_of :: "frame \<Rightarrow> (ustr, pyval) dict option" where
  "envelopes_of f = (case pget (f_data f) (u ''env'') of PDict d \<Rightarrow> Some d | _ \<Rightarrow> None)"

definition message :: "nat \<Rightarrow> frame \<Rightarrow> ('z server_scheme, unit) py" where
  "message sid f =
     (if \<not> py_truthy (f_to f) then send_error sid ''NO_RECIPIENT'' (u ''MSG needs a '' @ [39] @ u ''to'' @ [39])
      else bnd (session_username sid) (\<lambda>me. case f_to f of
        PStr target \<Rightarrow>
          bnd (if is_room target then to_room sid target (outgoing_of me f) (envelopes_of f)
               else to_user sid target (outgoing_of me f)) (\<lambda>delivered.
          if delivered then send_data sid ACK [(u ''ref'', f_id f)] else ret ())
      | _ \<Rightarrow> raise Attribute_Error))"

subsection \<open>History\<close>

definition text_val :: "ustr option \<Rightarrow> pyval" where
  "text_val x = (case x of None \<Rightarrow> PNone | Some t \<Rightarrow> PStr t)"

text \<open>\<open>if row["read_at"]\<close>: a timestamp of 0 counts as none.\<close>

definition stamped :: "int option \<Rightarrow> bool" where
  "stamped x = (case x of None \<Rightarrow> False | Some t \<Rightarrow> t \<noteq> 0)"

text \<open>The body and nonce of a row as one reader may see it: \<open>None\<close> leaves the row out.\<close>

definition reader_view :: "message_row \<Rightarrow> pyval \<Rightarrow> exn + (pyval \<times> pyval) option" where
  "reader_view row reader =
     (if m_nonce row \<noteq> Some ENVELOPES then Inr (Some (text_val (m_body row), text_val (m_nonce row)))
      else case loads (case m_body row of Some b \<Rightarrow> if b = [] then u ''{}'' else b | None \<Rightarrow> u ''{}'') of
        Inl _ \<Rightarrow> Inr None
      | Inr (PDict env) \<Rightarrow>
          (case sealed_pair (case reader of PStr r \<Rightarrow> pget env r | _ \<Rightarrow> PNone) of
             None \<Rightarrow> Inr None | Some (body, nonce) \<Rightarrow> Inr (Some (PStr body, PStr nonce)))
      | Inr _ \<Rightarrow> Inl Attribute_Error)"

definition history_entry :: "message_row \<Rightarrow> pyval \<Rightarrow> exn + pyval option" where
  "history_entry row reader = (case reader_view row reader of
       Inl e \<Rightarrow> Inl e
     | Inr None \<Rightarrow> Inr None
     | Inr (Some (body, nonce)) \<Rightarrow> Inr (Some (PDict
         [(u ''id'', PStr (m_id row)), (u ''from'', PStr (m_sender row)), (u ''to'', PStr (m_recipient row)),
          (u ''body'', body), (u ''n'', nonce), (u ''ts'', PInt (m_ts row)),
          (u ''state'', PStr (state_name (if stamped (m_read row) then READ
                                     else if stamped (m_delivered row) then DELIVERED else SENT)))])))"

definition optional_int :: "pyval \<Rightarrow> exn + int option" where
  "optional_int x = (if py_truthy x then (case py_int x of Inl e \<Rightarrow> Inl e | Inr i \<Rightarrow> Inr (Some i)) else Inr None)"

definition send_history :: "nat \<Rightarrow> frame \<Rightarrow> ustr \<Rightarrow> ustr \<Rightarrow> pyval \<Rightarrow> ('z server_scheme, unit) py" where
  "send_history sid f target conversation me =
     bnd (lift (optional_int (pget (f_data f) (u ''before'')))) (\<lambda>before.
     bnd (lift (optional_int (pget (f_data f) (u ''limit'')))) (\<lambda>limit.
     bnd (messages_history conversation before (case limit of Some l \<Rightarrow> l | None \<Rightarrow> DEFAULT_LIMIT)) (\<lambda>rows.
     bnd (map_each rows (\<lambda>row. lift (history_entry row (py_or me (PStr []))))) (\<lambda>entries.
     bnd (new_frame HISTORY_RESULT PNone (PStr target) PNone PNone
            [(u ''room'', PStr target), (u ''messages'', PList (List.map_filter id entries))])
       (send sid)))))"

definition history :: "nat \<Rightarrow> frame \<Rightarrow> ('z server_scheme, unit) py" where
  "history sid f =
     bnd (gets has_messages) (\<lambda>some.
     if \<not> some then send_error sid ''UNSUPPORTED'' (u ''this server keeps no history'')
     else let target = py_or (pget (f_data f) (u ''room'')) (f_to f) in
     if \<not> py_truthy target then send_error sid ''NO_RECIPIENT'' (u ''HISTORY needs a conversation'')
     else let name = py_str target in
     bnd (session_username sid) (\<lambda>me.
     if is_room name
     then bnd (rooms_members name) (\<lambda>ms.
          if \<not> py_in me ms
          then send_error sid ''NOT_A_MEMBER'' (u ''join '' @ name @ u '' to read its history'')
          else send_history sid f name name me)
     else bnd (lift (direct_conversation (py_or me (PStr [])) name)) (\<lambda>conversation.
          send_history sid f name conversation me)))"

definition flush_row :: "nat \<Rightarrow> pyval \<Rightarrow> message_row \<Rightarrow> ('z server_scheme, unit) py" where
  "flush_row sid name row =
     bnd (lift (reader_view row name)) (\<lambda>view. case view of None \<Rightarrow> ret ()
     | Some (body, nonce) \<Rightarrow> send sid
         \<lparr>f_type = MSG, f_sender = PStr (m_sender row), f_to = PStr (m_recipient row), f_body = body,
          f_nonce = nonce, f_data = [], f_id = PStr (m_id row), f_ts = m_ts row, f_v = PInt PROTOCOL_VERSION\<rparr>)"

definition flush_pending :: "nat \<Rightarrow> pyval \<Rightarrow> ('z server_scheme, unit) py" where
  "flush_pending sid name =
     bnd (gets has_messages) (\<lambda>some.
     if \<not> some then ret ()
     else bnd (messages_flush name) (\<lambda>rows. for_each rows (flush_row sid name)))"

subsection \<open>Receipts and typing\<close>

definition receipt :: "nat \<Rightarrow> frame \<Rightarrow> ('z server_scheme, unit) py" where
  "receipt sid f =
     bnd (gets has_messages) (\<lambda>some.
     if \<not> some then ret ()
     else let ref = pget (f_data f) (u ''ref''); state = pget (f_data f) (u ''state'') in
     if \<not> py_truthy ref \<or> state \<notin> {PStr (state_name DELIVERED), PStr (state_name READ)}
     then send_error sid ''BAD_RECEIPT'' (u ''a receipt needs a ref and a state'')
     else bnd now_ms (\<lambda>t.
     bnd (messages_mark (py_str ref) (py_str state) t) (\<lambda>sender.
     bnd (session_username sid) (\<lambda>me. case sender of None \<Rightarrow> ret ()
     | Some name \<Rightarrow>
       if PStr name = me then ret ()
       else bnd (find_session (PStr name)) (\<lambda>recipient. case recipient of None \<Rightarrow> ret ()
       | Some c \<Rightarrow>
         bnd (new_frame RECEIPT me (PStr name) PNone PNone
                [(u ''ref'', PStr (py_str ref)), (u ''state'', PStr (py_str state))]) (send c))))))"

definition typing :: "nat \<Rightarrow> frame \<Rightarrow> ('z server_scheme, unit) py" where
  "typing sid f =
     (if \<not> py_truthy (f_to f) then ret ()
      else bnd (session_username sid) (\<lambda>me.
      bnd (new_frame TYPING me (f_to f) PNone PNone [(u ''on'', PBool (py_truthy (pget (f_data f) (u ''on''))))])
        (\<lambda>relayed. case f_to f of
          PStr target \<Rightarrow>
            if is_room target
            then bnd (rooms_members target) (\<lambda>ms.
                 if \<not> py_in me ms then ret ()
                 else for_each (filter (\<lambda>n. PStr n \<noteq> me) (sorted_list_of_set ms))
                        (\<lambda>name. send_if_online name relayed))
            else send_if_online target relayed
        | _ \<Rightarrow> raise Attribute_Error)))"

subsection \<open>Accounts\<close>

definition register :: "nat \<Rightarrow> frame \<Rightarrow> ('z server_scheme, unit) py" where
  "register sid f =
     (let user = pget (f_data f) (u ''user''); pass_hash = pget (f_data f) (u ''pass_hash'') in
      if \<not> py_truthy user \<or> \<not> py_truthy pass_hash
      then send_error sid ''BAD_REGISTER'' (u ''user and pass_hash are required'')
      else case user of
        PStr name \<Rightarrow>
          if is_room name then send_error sid ''BAD_USERNAME'' (u ''a username may not start with '' @ ROOM_PREFIX)
          else bnd (users_register name pass_hash (pget (f_data f) (u ''pubkey''))) (\<lambda>ok.
               if \<not> ok then send_error sid ''USER_EXISTS'' (name @ u '' is taken'')
               else send_data sid OK [(u ''user'', PStr name)])
      | _ \<Rightarrow> raise Attribute_Error)"

definition claim_name :: "pyval \<Rightarrow> nat \<Rightarrow> ('z server_scheme, bool) py" where
  "claim_name name sid =
     bnd (gets (\<lambda>s. sessions_login name sid (by_name s))) (\<lambda>(won, d).
       andthen (modify (\<lambda>s. s\<lparr>by_name := d\<rparr>)) (ret won))"

definition login_ok :: "nat \<Rightarrow> pyval \<Rightarrow> ('z server_scheme, unit) py" where
  "login_ok sid name =
     bnd usernames (\<lambda>online.
     bnd (contact_states name) (\<lambda>cs.
     bnd (rooms_of name) (\<lambda>rs.
     bnd (new_frame LOGIN_OK PNone name PNone PNone
            [(u ''user'', name), (u ''roster'', PList (filter (\<lambda>k. py_key k \<noteq> py_key name) online)),
             (u ''contacts'', cs), (u ''rooms'', PList (map PStr rs))]) (send sid))))"

definition login :: "nat \<Rightarrow> frame \<Rightarrow> ('z server_scheme, unit) py" where
  "login sid f =
     bnd (session_username sid) (\<lambda>me.
     if me \<noteq> PNone
     then send_error sid ''ALREADY_LOGGED_IN'' (u ''this connection is already '' @ py_str me)
     else let name = pget (f_data f) (u ''user''); pass_hash = pget (f_data f) (u ''pass_hash'') in
     if \<not> py_truthy name \<or> \<not> py_truthy pass_hash
     then send_error sid ''BAD_LOGIN'' (u ''user and pass_hash are required'')
     else bnd (users_verify name pass_hash) (\<lambda>good.
     if \<not> good then send_error sid ''BAD_CREDENTIALS'' (u ''unknown user or wrong password'')
     else bnd (claim_name name sid) (\<lambda>won.
     if \<not> won then send_error sid ''ALREADY_ONLINE'' (py_str name @ u '' is connected from elsewhere'')
     else andthen (modify (with_conn sid (\<lambda>h. h\<lparr>username := name\<rparr>)))
          (andthen (login_ok sid name)
          (andthen (announce name ''ONLINE'')
            (flush_pending sid name))))))"

subsection \<open>Dispatch\<close>

definition handle :: "nat \<Rightarrow> frame \<Rightarrow> ('z server_scheme, unit) py" where
  "handle sid f = (case f_type f of
       PING \<Rightarrow> send_data sid PONG []
     | REGISTER \<Rightarrow> register sid f
     | LOGIN \<Rightarrow> login sid f
     | ty \<Rightarrow> bnd (session_username sid) (\<lambda>me.
         if me = PNone then send_error sid ''NOT_LOGGED_IN'' (u ''log in before sending anything else'')
         else case ty of
           MSG \<Rightarrow> message sid f
         | CREATE_ROOM \<Rightarrow> create_room sid f
         | JOIN \<Rightarrow> join_room sid f
         | LEAVE \<Rightarrow> leave_room sid f
         | INVITE \<Rightarrow> invite sid f
         | ADD_CONTACT \<Rightarrow> add_contact sid f
         | REMOVE_CONTACT \<Rightarrow> remove_contact sid f
         | TYPING \<Rightarrow> typing sid f
         | RECEIPT \<Rightarrow> receipt sid f
         | HISTORY \<Rightarrow> history sid f
         | GET_KEY \<Rightarrow> get_key sid f
         | _ \<Rightarrow> send_error sid ''UNSUPPORTED'' (u (type_name ty) @ u '' arrives in a later phase'')))"

definition on_disconnect :: "nat \<Rightarrow> ('z server_scheme, unit) py" where
  "on_disconnect sid =
     bnd (session_username sid) (\<lambda>name.
     if name = PNone then ret ()
     else andthen (modify (\<lambda>s. s\<lparr>by_name := sessions_logout name (by_name s)\<rparr>))
          (andthen (modify (with_conn sid (\<lambda>h. h\<lparr>username := PNone\<rparr>)))
            (announce name ''OFFLINE'')))"

end
