(* ===== verification/Routing.thy ===== *)
theory Routing
  imports Router
begin

section \<open>Routing: what a handler may touch, and whom it may reach\<close>

text \<open>
  The facts about \<open>Router\<close> that hold for every frame on every branch: the store never touches
  the connections, everything a handler sends is described by a predicate on frames, the
  registry of sessions and the tables stay well formed, a client cannot speak for anybody
  else, and messages reach the addressee or the members of the room only.
\<close>

subsection \<open>What a handler may touch\<close>

text \<open>No operation of the store reaches past the tables.\<close>

definition same_net :: "'z database_scheme \<Rightarrow> 'z database_scheme \<Rightarrow> bool" where
  "same_net s t \<longleftrightarrow> database.more t = database.more s"

interpretation ext: world_rel same_net
  by unfold_locales (auto simp: same_net_def)

lemma ext_modify: "(\<And>s. database.more (g s) = database.more s) \<Longrightarrow> runs_in same_net (modify g)"
  by (simp add: runs_in_modify same_net_def)

lemma users_derive_ext: "runs_in same_net (users_derive p salt :: ('z database_scheme, byte list) py)"
  unfolding users_derive_def by (auto intro!: ext.world_rules split: pyval.split)

lemma insert_ext: "database.more (insert_room r t s) = database.more s" "database.more (insert_member r n s) = database.more s"
  by (simp_all add: insert_room_def insert_member_def split: option.split)

lemma store_ext:
  "runs_in same_net (users_register n p k)" "runs_in same_net (users_verify x p)"
  "runs_in same_net (users_exists n)" "runs_in same_net (users_pubkey n)"
  "runs_in same_net (contacts_add x c t)" "runs_in same_net (contacts_remove x c)" "runs_in same_net (contacts_of x)"
  "runs_in same_net (rooms_create r)" "runs_in same_net (rooms_join r x)" "runs_in same_net (rooms_leave r x)"
  "runs_in same_net (rooms_members r)" "runs_in same_net (rooms_exists r)" "runs_in same_net (rooms_of x)"
  "runs_in same_net (messages_record x c y r b z t)" "runs_in same_net (messages_queue_for n x)"
  "runs_in same_net (messages_mark i st t)" "runs_in same_net (messages_flush x)"
  "runs_in same_net (messages_history c bef l)"
  unfolding users_register_def users_verify_def users_exists_def users_pubkey_def contacts_add_def
    contacts_remove_def contacts_of_def rooms_create_def rooms_join_def rooms_leave_def rooms_members_def
    rooms_exists_def rooms_of_def messages_record_def messages_queue_for_def messages_mark_def
    messages_flush_def messages_history_def
  by (auto intro!: ext.world_rules ext_modify users_derive_ext simp: insert_ext
      split: option.split prod.split)

text \<open>
  The outboxes only grow, and every frame that is added satisfies \<open>P\<close> (which may look at the
  connection it is added to).
\<close>

definition emits :: "(nat \<Rightarrow> frame \<Rightarrow> bool) \<Rightarrow> 'z server_scheme \<Rightarrow> 'z server_scheme \<Rightarrow> bool" where
  "emits P s t \<longleftrightarrow> (\<forall>c. \<exists>xs. outbox (conns t c) = outbox (conns s c) @ xs \<and> (\<forall>f. Item f \<in> set xs \<longrightarrow> P c f))"

lemma emits_refl: "(\<And>c. outbox (conns t c) = outbox (conns s c)) \<Longrightarrow> emits P s t"
  by (simp add: emits_def)

lemma emits_trans: "emits P s t \<Longrightarrow> emits P t w \<Longrightarrow> emits P s w"
  unfolding emits_def by (metis (no_types, lifting) append.assoc UnE set_append)

text \<open>
  \<open>acts \<pi> v P\<close>: while the part \<open>\<pi>\<close> of the state has the value \<open>v\<close>, it keeps that value and what is
  sent satisfies \<open>P\<close>. \<open>v\<close> stands for what the handler reads of \<open>\<pi>\<close>.
\<close>

definition acts ::
  "('z server_scheme \<Rightarrow> 'v) \<Rightarrow> 'v \<Rightarrow> (nat \<Rightarrow> frame \<Rightarrow> bool) \<Rightarrow> 'z server_scheme \<Rightarrow> 'z server_scheme \<Rightarrow> bool" where
  "acts \<pi> v P s t \<longleftrightarrow> (\<pi> s = v \<longrightarrow> \<pi> t = v \<and> emits P s t)"

interpretation act: run_rel "acts \<pi> v P" for \<pi> v P
  by unfold_locales (auto simp: acts_def intro: emits_refl emits_trans)

lemma acts_gets:
  assumes "\<And>s. \<pi> s = v \<Longrightarrow> g s = x" and "runs_in (acts \<pi> v P) (f x)"
  shows "runs_in (acts \<pi> v P) (bnd (gets g) f)"
  using assms by (auto simp: runs_in_def acts_def)

text \<open>The connections: who is registered under which name, and which name each has.\<close>

definition net :: "'z server_scheme \<Rightarrow> sessions \<times> (nat \<Rightarrow> pyval) \<times> bool \<times> bool" where
  "net s = (by_name s, (\<lambda>c. username (conns s c)), has_messages s, has_contacts s)"

abbreviation net_names :: "sessions \<times> (nat \<Rightarrow> pyval) \<times> bool \<times> bool \<Rightarrow> nat \<Rightarrow> pyval" where
  "net_names v \<equiv> fst (snd v)"

lemma same_net_server:
  assumes "same_net s (t :: 'z server_scheme)"
  shows "conns t = conns s" "net t = net s"
proof -
  show "conns t = conns s" using assms by (cases s; cases t) (simp add: same_net_def)
  moreover have "by_name t = by_name s" "has_messages t = has_messages s" "has_contacts t = has_contacts s"
    using assms by (cases s; cases t; simp add: same_net_def)+
  ultimately show "net t = net s" by (simp add: net_def)
qed

lemma net_store:
  "runs_in same_net m \<Longrightarrow> runs_in (acts net v P) (m :: ('z server_scheme, 'a) py)"
proof -
  assume m: "runs_in same_net m"
  have "net (after m s) = net s" "conns (after m s) = conns s" for s
    using m same_net_server [of s "after m s"] by (simp_all add: runs_in_def)
  then show ?thesis by (simp add: runs_in_def acts_def emits_refl)
qed

lemma net_draws: "runs_in (acts net v P) new_id" "runs_in (acts net v P) now_ms"
  by (rule net_store [OF ext.runs_draw(2)]) (rule net_store [OF ext.runs_draw(3)])

lemmas net_store_rules = store_ext [THEN net_store]

lemma handler_send_outbox:
  "\<exists>xs. outbox (handler_send f h) = outbox h @ xs \<and> (\<forall>g. Item g \<in> set xs \<longrightarrow> g = f)"
  by (auto simp: handler_send_def handler_close_def)

lemma handler_send_username [simp]: "username (handler_send f h) = username h"
  by (simp add: handler_send_def handler_close_def)

lemma net_with_conn: "(\<And>h. username (g h) = username h) \<Longrightarrow> net (with_conn c g s) = net s"
  by (auto simp: net_def with_conn_def fun_eq_iff)

lemma emits_send: "P c f \<Longrightarrow> emits P s (with_conn c (handler_send f) s)"
  using handler_send_outbox [of f "conns s c"] by (auto simp: emits_def with_conn_def)

lemma net_send: "P c f \<Longrightarrow> runs_in (acts net v P) (send c f)"
  by (simp add: send_def runs_in_modify acts_def net_with_conn emits_send)

lemma net_new_frame:
  assumes "\<And>i t. runs_in (acts net v P) (k \<lparr>f_type = ty, f_sender = a, f_to = b, f_body = c, f_nonce = d,
            f_data = e, f_id = PStr i, f_ts = t, f_v = PInt PROTOCOL_VERSION\<rparr>)"
  shows "runs_in (acts net v P) (bnd (new_frame ty a b c d e) k)"
proof -
  have ret: "bnd (ret x) k = k x" for x by (simp add: fun_eq_iff bnd_def)
  show ?thesis unfolding new_frame_def bnd_assoc ret by (intro act.runs_bnd net_draws assms)
qed

lemma net_username:
  "runs_in (acts net v P) (f (net_names v c)) \<Longrightarrow> runs_in (acts net v P) (bnd (session_username c) f)"
  unfolding session_username_def by (rule acts_gets) (auto simp: net_def)

lemma net_find:
  "runs_in (acts net v P) (f (sessions_get n (fst v))) \<Longrightarrow> runs_in (acts net v P) (bnd (find_session n) f)"
  unfolding find_session_def by (rule acts_gets) (auto simp: net_def)

text \<open>Frames that speak for a person.\<close>

definition personal :: "frame \<Rightarrow> bool" where
  "personal f \<longleftrightarrow> f_type f \<in> {MSG, TYPING, RECEIPT}"

definition speaks :: "pyval \<Rightarrow> nat \<Rightarrow> frame \<Rightarrow> bool" where
  "speaks me c f \<longleftrightarrow> (personal f \<longrightarrow> f_sender f = me)"

lemma send_error_speaks: "runs_in (acts net v (speaks me)) (send_error c code msg)"
  unfolding send_error_def error_frame_def data_frame_def
  by (intro net_new_frame net_send) (simp add: speaks_def personal_def)

lemma send_data_speaks: "ty \<notin> {MSG, TYPING, RECEIPT} \<Longrightarrow> runs_in (acts net v (speaks me)) (send_data c ty d)"
  unfolding send_data_def data_frame_def
  by (intro net_new_frame net_send) (simp add: speaks_def personal_def)

lemma usernames_acts: "runs_in (acts net v P) usernames"
  unfolding usernames_def by (intro act.runs_rules)

lemma contact_states_acts: "runs_in (acts net v P) (contact_states n)"
  unfolding contact_states_def by (intro act.runs_rules usernames_acts net_store_rules)

lemma send_contacts_acts: "runs_in (acts net v (speaks me)) (send_contacts c)"
  unfolding send_contacts_def
  by (intro net_username act.runs_bnd contact_states_acts net_new_frame net_send) (simp add: speaks_def personal_def)

lemma room_state_acts:
  "(\<And>f. f_type f = ROOM_STATE \<Longrightarrow> runs_in (acts net v P) (k f)) \<Longrightarrow> runs_in (acts net v P) (bnd (room_state r) k)"
  unfolding room_state_def bnd_assoc by (intro act.runs_bnd net_store_rules net_new_frame) simp

lemma send_if_online_acts: "(\<And>c. P c f) \<Longrightarrow> runs_in (acts net v P) (send_if_online n f)"
  unfolding send_if_online_def by (auto intro!: net_find act.runs_rules net_send)

lemma broadcast_speaks: "runs_in (acts net v (speaks me)) (broadcast_room_state r)"
  unfolding broadcast_room_state_def
  by (intro room_state_acts act.runs_bnd net_store_rules act.runs_for_each send_if_online_acts)
     (simp add: speaks_def personal_def)

subsection \<open>Authenticity, handler by handler\<close>

lemma room_name_acts: "runs_in (acts net v (speaks me)) (room_name c f)"
  unfolding room_name_def Let_def
  by (auto intro!: act.runs_rules send_error_speaks split: pyval.split)

lemma add_each_acts: "runs_in (acts net v P) (add_each r names)"
  by (induction names) (auto intro!: act.runs_rules net_store_rules)

lemma add_members_acts: "runs_in (acts net v P) (add_members r x)"
  unfolding add_members_def by (cases x) (auto intro: act.runs_rules add_each_acts)

lemmas speak_rules = net_username net_find act.runs_rules send_error_speaks send_contacts_acts net_store_rules
  room_name_acts add_members_acts broadcast_speaks usernames_acts contact_states_acts net_draws

lemma create_room_speaks: "runs_in (acts net v (speaks me)) (create_room c f)"
  unfolding create_room_def by (intro speak_rules)

lemma join_room_speaks: "runs_in (acts net v (speaks me)) (join_room c f)"
  unfolding join_room_def by (intro speak_rules)

lemma leave_room_speaks: "runs_in (acts net v (speaks me)) (leave_room c f)"
  unfolding leave_room_def
  by (intro speak_rules room_state_acts net_send) (simp add: speaks_def personal_def)

lemma invite_speaks: "runs_in (acts net v (speaks me)) (invite c f)"
  unfolding invite_def Let_def by (intro speak_rules)

lemma add_contact_speaks: "runs_in (acts net v (speaks me)) (add_contact c f)"
  unfolding add_contact_def by (auto intro!: speak_rules split: pyval.split)

lemma remove_contact_speaks: "runs_in (acts net v (speaks me)) (remove_contact c f)"
  unfolding remove_contact_def by (auto intro!: speak_rules split: pyval.split)

lemma note_contact_speaks: "runs_in (acts net v (speaks me)) (note_contact a b)"
  unfolding note_contact_def by (intro speak_rules)

lemma get_key_speaks: "runs_in (acts net v (speaks me)) (get_key c f)"
  unfolding get_key_def Let_def by (intro speak_rules send_data_speaks) simp_all

lemma register_speaks: "runs_in (acts net v (speaks me)) (register c f)"
  unfolding register_def Let_def by (auto intro!: speak_rules send_data_speaks split: pyval.split)

lemma outgoing_speaks: "speaks me c (outgoing_of me f)"
  by (simp add: speaks_def outgoing_of_def)

lemma record_msg_acts: "runs_in (acts net v P) (record_msg f a b)" "runs_in (acts net v P) (record_envelopes f a d)"
  unfolding record_msg_def record_envelopes_def by (intro act.runs_rules net_store_rules)+

lemma to_user_speaks:
  "f_sender out = me \<Longrightarrow> runs_in (acts net v (speaks me)) (to_user c target out)"
  unfolding to_user_def
  by (auto intro!: speak_rules record_msg_acts note_contact_speaks net_send simp: speaks_def split: pyval.split)

lemma addressed_to_sender: "addressed_to out env n = Some g \<Longrightarrow> f_sender g = f_sender out"
  by (auto simp: addressed_to_def split: option.splits prod.splits)

lemma deliver_member_acts:
  assumes "\<And>g c. addressed_to out env n = Some g \<Longrightarrow> sessions_get (PStr n) (fst v) = Some c \<Longrightarrow> PStr n \<noteq> me \<Longrightarrow> P c g"
  shows "runs_in (acts net v P) (deliver_member me out env n)"
proof (cases "PStr n = me")
  case True
  then show ?thesis by (simp add: deliver_member_def act.runs_pure)
next
  case False
  have queue: "runs_in (acts net v P) (bnd (gets has_messages) (\<lambda>some.
      if some then messages_queue_for n (f_id out) else ret ()))"
    by (intro act.runs_rules net_store_rules)
  show ?thesis
    using False assms unfolding deliver_member_def
    by (cases "addressed_to out env n"; cases "sessions_get (PStr n) (fst v)")
       (auto intro!: net_find queue simp: act.runs_pure net_send)
qed

lemma to_room_speaks:
  "f_sender out = me \<Longrightarrow> runs_in (acts net v (speaks me)) (to_room c room out env)"
  unfolding to_room_def
  by (intro speak_rules record_msg_acts deliver_member_acts) (simp add: speaks_def addressed_to_sender)

lemma message_speaks: "net_names v c = me \<Longrightarrow> runs_in (acts net v (speaks me)) (message c f)"
  unfolding message_def
  by (auto intro!: speak_rules to_room_speaks to_user_speaks send_data_speaks simp: outgoing_of_def split: pyval.split)

lemma history_speaks: "runs_in (acts net v (speaks me)) (history c f)"
  unfolding history_def send_history_def Let_def
  by (intro speak_rules net_new_frame net_send) (simp_all add: speaks_def personal_def)

lemma receipt_speaks: "net_names v c = me \<Longrightarrow> runs_in (acts net v (speaks me)) (receipt c f)"
  unfolding receipt_def Let_def
  by (intro speak_rules net_new_frame net_send) (simp_all add: speaks_def)

lemma typing_speaks: "net_names v c = me \<Longrightarrow> runs_in (acts net v (speaks me)) (typing c f)"
  unfolding typing_def
  by (auto intro!: speak_rules net_new_frame send_if_online_acts simp: speaks_def split: pyval.split)

lemma handle_speaks:
  assumes "f_type f \<noteq> LOGIN" and "net_names v sid = me"
  shows "runs_in (acts net v (speaks me)) (handle sid f)"
  using assms unfolding handle_def
  by (cases "f_type f")
     (simp_all add: send_data_speaks register_speaks net_username message_speaks create_room_speaks
       join_room_speaks leave_room_speaks invite_speaks add_contact_speaks remove_contact_speaks typing_speaks
       receipt_speaks history_speaks get_key_speaks send_error_speaks act.runs_if)

lemma handle_none_speaks:
  assumes "f_type f \<noteq> LOGIN" and "net_names v sid = PNone"
  shows "runs_in (acts net v (speaks anyone)) (handle sid f)"
  using assms unfolding handle_def
  by (cases "f_type f") (simp_all add: send_data_speaks register_speaks net_username send_error_speaks)

text \<open>The frames a step put on a connection's outbox.\<close>

fun frames_in :: "outbox_item list \<Rightarrow> frame list" where
  "frames_in [] = []"
| "frames_in (Item f # xs) = f # frames_in xs"
| "frames_in (STOP # xs) = frames_in xs"

definition sent :: "'z server_scheme \<Rightarrow> 'z server_scheme \<Rightarrow> nat \<Rightarrow> frame list" where
  "sent s t c = frames_in (drop (length (outbox (conns s c))) (outbox (conns t c)))"

lemma set_frames_in: "f \<in> set (frames_in xs) \<longleftrightarrow> Item f \<in> set xs"
  by (induction xs rule: frames_in.induct) auto

lemma emits_sent: "emits P s t \<Longrightarrow> f \<in> set (sent s t c) \<Longrightarrow> P c f"
  unfolding emits_def sent_def set_frames_in by (metis append_eq_conv_conj)

lemma acts_sent: "runs_in (acts \<pi> (\<pi> s) P) m \<Longrightarrow> f \<in> set (sent s (after m s) c) \<Longrightarrow> P c f"
  unfolding runs_in_def acts_def using emits_sent by blast

text \<open>C3: a client cannot speak for anybody else. Whatever a frame claims in its \<open>from\<close> field,
  every MSG, TYPING and RECEIPT the server queues for anyone while handling it carries the
  name its connection is logged in under (LOGIN apart, which delivers what was stored), and a
  connection that is not logged in causes none.\<close>

theorem sender_is_authenticated:
  assumes "f_type f \<noteq> LOGIN" and "g \<in> set (sent s (after (handle sid f) s) c)"
    and "f_type g \<in> {MSG, TYPING, RECEIPT}"
  shows "f_sender g = username (conns s sid) \<and> username (conns s sid) \<noteq> PNone"
proof -
  have "speaks (username (conns s sid)) c g"
    by (rule acts_sent [OF handle_speaks assms(2)]) (use assms(1) in \<open>simp_all add: net_def\<close>)
  moreover have "speaks (PStr []) c g" if "username (conns s sid) = PNone"
    by (rule acts_sent [OF handle_none_speaks assms(2)]) (use assms(1) that in \<open>simp_all add: net_def\<close>)
  ultimately show ?thesis using assms(3) by (auto simp: speaks_def personal_def)
qed

subsection \<open>One connection per name, one name per connection\<close>

definition net_inv :: "'z server_scheme \<Rightarrow> bool" where
  "net_inv s \<longleftrightarrow> sessions_wf (by_name s) \<and>
     (\<forall>(k, c) \<in> set (by_name s). k \<noteq> PNone \<and> username (conns s c) = k) \<and>
     (\<forall>c. username (conns s c) \<noteq> PNone \<longrightarrow> (username (conns s c), c) \<in> set (by_name s))"

lemma net_inv_net: "net t = net s \<Longrightarrow> net_inv t = net_inv s"
  unfolding net_inv_def net_def by (simp add: fun_eq_iff)

interpretation inv: run_rel "keeps net_inv"
  by unfold_locales (auto simp: keeps_def)

lemma acts_net_inv: "(\<And>v. runs_in (acts net v (\<lambda>_ _. True)) m) \<Longrightarrow> runs_in (keeps net_inv) m"
  unfolding runs_in_def acts_def keeps_def using net_inv_net by blast

lemma emits_mono: "emits P s t \<Longrightarrow> (\<And>c f. P c f \<Longrightarrow> Q c f) \<Longrightarrow> emits Q s t"
  unfolding emits_def by metis

lemma acts_weaken: "runs_in (acts \<pi> v P) m \<Longrightarrow> (\<And>c f. P c f \<Longrightarrow> Q c f) \<Longrightarrow> runs_in (acts \<pi> v Q) m"
  unfolding runs_in_def acts_def using emits_mono by metis

lemma speaks_net_inv: "(\<And>v. runs_in (acts net v (speaks (w v))) m) \<Longrightarrow> runs_in (keeps net_inv) m"
  by (rule acts_net_inv) (blast intro: acts_weaken)

lemma announce_acts:
  assumes "\<And>c f. f_type f = PRESENCE \<Longrightarrow> P c f"
  shows "runs_in (acts net v P) (announce name state)"
  unfolding announce_def data_frame_def
  by (intro net_new_frame act.runs_bnd act.runs_pure act.runs_for_each net_send assms) simp

lemma login_ok_acts:
  assumes "\<And>c f. f_type f = LOGIN_OK \<Longrightarrow> P c f"
  shows "runs_in (acts net v P) (login_ok sid name)"
  unfolding login_ok_def
  by (intro act.runs_bnd usernames_acts contact_states_acts net_store_rules net_new_frame net_send assms) simp

lemma flush_row_acts:
  assumes "\<And>g. f_type g = MSG \<Longrightarrow> f_sender g = PStr (m_sender row) \<Longrightarrow> f_id g = PStr (m_id row) \<Longrightarrow> P sid g"
  shows "runs_in (acts net v P) (flush_row sid name row)"
  unfolding flush_row_def by (intro act.runs_bnd act.runs_pure act.runs_option) (auto intro!: net_send assms)

lemma flush_pending_acts:
  assumes "\<And>g. f_type g = MSG \<Longrightarrow> P sid g"
  shows "runs_in (acts net v P) (flush_pending sid name)"
  unfolding flush_pending_def by (intro act.runs_rules net_store_rules flush_row_acts assms)

text \<open>Winning a name and writing it into the connection, as one step.\<close>

lemma claim_inv:
  assumes "net_inv s" and "username (conns s sid) = PNone" and "name \<noteq> PNone"
    and "sessions_get name (by_name s) = None"
  shows "net_inv (with_conn sid (\<lambda>h. h\<lparr>username := name\<rparr>) (s\<lparr>by_name := by_name s @ [(name, sid)]\<rparr>))"
  using assms sessions_login_wf [of "by_name s" name sid]
  by (auto simp: net_inv_def with_conn_def sessions_login_def sessions_is_online_def)

lemma claim_name_run:
  "claim_name name sid s = (case sessions_get name (by_name s) of
     None \<Rightarrow> (Inr True, s\<lparr>by_name := by_name s @ [(name, sid)]\<rparr>) | Some _ \<Rightarrow> (Inr False, s))"
  by (auto simp: claim_name_def sessions_login_def sessions_is_online_def split: option.split)

lemma login_tail_inv: "runs_in (keeps net_inv) (andthen (login_ok sid name) (andthen (announce name st) (flush_pending sid name)))"
  by (intro acts_net_inv act.runs_andthen login_ok_acts announce_acts flush_pending_acts) simp_all

lemma send_error_inv: "runs_in (keeps net_inv) (send_error sid code msg)"
  by (rule speaks_net_inv) (rule send_error_speaks)

lemma claim_tail_inv:
  assumes "net_inv s" and "username (conns s sid) = PNone" and "name \<noteq> PNone"
  shows "net_inv (after (bnd (claim_name name sid) (\<lambda>won.
       if \<not> won then send_error sid code msg
       else andthen (modify (with_conn sid (\<lambda>h. h\<lparr>username := name\<rparr>)))
          (andthen (login_ok sid name) (andthen (announce name st) (flush_pending sid name))))) s)"
proof (cases "sessions_get name (by_name s)")
  case None
  have "net_inv (with_conn sid (\<lambda>h. h\<lparr>username := name\<rparr>) (s\<lparr>by_name := by_name s @ [(name, sid)]\<rparr>))"
    using assms None by (rule claim_inv)
  from keepsD [OF login_tail_inv this] show ?thesis
    by (simp add: bnd_def claim_name_run None)
next
  case (Some c)
  from keepsD [OF send_error_inv assms(1)] show ?thesis
    by (simp add: bnd_def claim_name_run Some)
qed

lemma login_inv: "runs_in (keeps net_inv) (login sid f)"
proof (rule keepsI)
  fix s :: "'z server_scheme"
  assume inv: "net_inv s"
  let ?name = "pget (f_data f) (u ''user'')" and ?pass = "pget (f_data f) (u ''pass_hash'')"
  obtain r s1 where v: "users_verify ?name ?pass s = (r, s1)" by (cases "users_verify ?name ?pass s")
  have "same_net s s1" using runs_inD [OF store_ext(2) v] .
  then have s1: "net_inv s1" "username (conns s1 sid) = username (conns s sid)"
    using inv net_inv_net [of s1 s] by (simp_all add: same_net_server)
  show "net_inv (after (login sid f) s)"
  proof (cases "username (conns s sid) = PNone \<and> py_truthy ?name \<and> py_truthy ?pass \<and> r = Inr True")
    case True
    then have "?name \<noteq> PNone" by auto
    moreover have v': "users_verify ?name ?pass s = (Inr True, s1)" using v True by simp
    ultimately show ?thesis
      using True s1 by (simp add: login_def session_username_def Let_def bnd_Inr [of "users_verify ?name ?pass", OF v'] claim_tail_inv)
  next
    case False
    then show ?thesis
      using inv s1 v keepsD [OF send_error_inv]
      by (cases r) (auto simp: login_def session_username_def Let_def bnd_def)
  qed
qed

lemma same_key_same_conn:
  assumes "net_inv s" and "(k, c) \<in> set (by_name s)" and "(k', c') \<in> set (by_name s)" and "py_key k = py_key k'"
  shows "c = c'"
proof -
  have "sessions_get k (by_name s) = sessions_get k' (by_name s)"
    using assms(4) by (simp add: sessions_get_def)
  with assms show ?thesis by (simp add: net_inv_def sessions_get_mem)
qed

lemma logout_inv:
  assumes inv: "net_inv s" and n: "username (conns s sid) = n" "n \<noteq> PNone"
  shows "net_inv (with_conn sid (\<lambda>h. h\<lparr>username := PNone\<rparr>) (s\<lparr>by_name := sessions_logout n (by_name s)\<rparr>))"
proof -
  have mine: "(n, sid) \<in> set (by_name s)" using inv n by (auto simp: net_inv_def)
  have "py_key k \<noteq> py_key n" if "(k, c) \<in> set (by_name s)" "c \<noteq> sid" for k c
    using same_key_same_conn [OF inv that(1) mine] that(2) by blast
  moreover have "py_key k = py_key n" if "(k, sid) \<in> set (by_name s)" for k
    using inv n that by (auto simp: net_inv_def)
  ultimately show ?thesis
    using inv sessions_logout_wf [of "by_name s" n]
    by (auto simp: net_inv_def with_conn_def sessions_logout_def)
qed

lemma on_disconnect_inv: "runs_in (keeps net_inv) (on_disconnect sid)"
proof (rule keepsI)
  fix s :: "'z server_scheme"
  assume inv: "net_inv s"
  have "runs_in (keeps net_inv) (announce n st)" for n st
    by (rule acts_net_inv, rule announce_acts) simp
  from keepsD [OF this logout_inv [OF inv refl]] show "net_inv (after (on_disconnect sid) s)"
    using inv by (simp add: on_disconnect_def session_username_def)
qed

lemma handle_net_inv: "runs_in (keeps net_inv) (handle sid f)"
proof (cases "f_type f = LOGIN")
  case True
  then show ?thesis by (simp add: handle_def login_inv)
next
  case False
  show ?thesis by (rule speaks_net_inv, rule handle_speaks [OF False refl])
qed

subsection \<open>Facts about the tables\<close>

text \<open>
  A relation that the operations of the store respect, those apart that file a message or change a room, is
  respected by every handler but MSG and the four that change rooms.
\<close>

locale quiet_rel = world_rel R for R :: "'z server_scheme \<Rightarrow> 'z server_scheme \<Rightarrow> bool" +
  assumes users_R: "runs_in R (users_register n p k)" "runs_in R (users_verify x p)"
      "runs_in R (users_exists n)" "runs_in R (users_pubkey n)"
    and contacts_R: "runs_in R (contacts_add x c t)" "runs_in R (contacts_remove x c)" "runs_in R (contacts_of x)"
    and rooms_R: "runs_in R (rooms_members r)" "runs_in R (rooms_exists r)" "runs_in R (rooms_of x)"
    and messages_R: "runs_in R (messages_queue_for n x)"
      "runs_in R (messages_mark i st t)" "runs_in R (messages_flush x)" "runs_in R (messages_history c bef l)"
    and conn_R: "R s (with_conn cid (handler_send f) s)" "R s (with_conn cid (\<lambda>h. h\<lparr>username := nm\<rparr>) s)"
      "R s (s\<lparr>by_name := d\<rparr>)"
begin

lemma send_R: "runs_in R (send c f)"
  by (simp add: send_def runs_in_modify conn_R)

lemma frames_R: "runs_in R (new_frame ty a b c d e)" "runs_in R (data_frame ty e)" "runs_in R (error_frame code msg)"
  unfolding error_frame_def data_frame_def new_frame_def by (intro world_rules)+

lemma sends_R:
  "runs_in R (send_error sid code msg)" "runs_in R (send_data sid ty d)"
  "runs_in R (session_username sid)" "runs_in R (find_session n)"
  "runs_in R (send_if_online m f)" "runs_in R usernames"
  unfolding send_error_def send_data_def session_username_def find_session_def send_if_online_def usernames_def
  by (intro world_rules frames_R send_R)+

lemmas basic_R = world_rules users_R contacts_R rooms_R messages_R sends_R send_R frames_R

lemma helpers_R:
  "runs_in R (announce n st)" "runs_in R (contact_states n)" "runs_in R (room_state r)"
  unfolding announce_def contact_states_def room_state_def
  by (intro basic_R)+

lemma helpers2_R:
  "runs_in R (send_contacts c)" "runs_in R (broadcast_room_state r)" "runs_in R (room_name c f)"
  "runs_in R (deliver_member me g env n)" "runs_in R (flush_row c me row)"
  unfolding send_contacts_def broadcast_room_state_def room_name_def Let_def deliver_member_def flush_row_def
  by (auto intro!: basic_R helpers_R split: pyval.split option.split)

lemma note_contact_R: "runs_in R (note_contact a b)"
  unfolding note_contact_def by (intro basic_R helpers2_R)

lemma claim_name_R: "runs_in R (claim_name n c)"
  unfolding claim_name_def by (auto intro!: basic_R simp: runs_in_modify conn_R split: prod.split)

lemma conn_modify_R: "runs_in R (modify (with_conn c (\<lambda>h. h\<lparr>username := nm\<rparr>)))" "runs_in R (modify (\<lambda>s. s\<lparr>by_name := d s\<rparr>))"
  by (simp_all add: runs_in_modify conn_R)

lemmas handler_R = basic_R helpers_R helpers2_R note_contact_R claim_name_R conn_modify_R

lemma accounts_R: "runs_in R (register sid f)" "runs_in R (login sid f)" "runs_in R (on_disconnect sid)"
  unfolding register_def login_def login_ok_def flush_pending_def on_disconnect_def Let_def
  by (auto intro!: handler_R split: pyval.split)

lemma contact_handlers_R: "runs_in R (add_contact sid f)" "runs_in R (remove_contact sid f)" "runs_in R (get_key sid f)"
  unfolding add_contact_def remove_contact_def get_key_def Let_def
  by (auto intro!: handler_R split: pyval.split)

lemma others_R: "runs_in R (history sid f)" "runs_in R (receipt sid f)" "runs_in R (typing sid f)"
  unfolding history_def send_history_def receipt_def typing_def Let_def
  by (auto intro!: handler_R split: pyval.split option.split)

end

text \<open>With MSG, every handler but the four that change rooms.\<close>

locale handler_rel = quiet_rel +
  assumes message_R: "runs_in R (message sid f)"
begin

lemma handle_R: "f_type f \<notin> {CREATE_ROOM, INVITE, JOIN, LEAVE} \<Longrightarrow> runs_in R (handle sid f)"
  unfolding handle_def
  by (cases "f_type f")
     (auto intro!: runs_rules sends_R accounts_R contact_handlers_R message_R others_R)

end

text \<open>So it is for a relation that does not care how a message is filed.\<close>

locale filing_rel = quiet_rel +
  assumes record_R: "runs_in R (messages_record x c y r b z t)"
begin

lemma records_R: "runs_in R (record_msg f a b)" "runs_in R (record_envelopes f a d)"
  unfolding record_msg_def record_envelopes_def by (intro basic_R record_R)+

lemma any_message_R: "runs_in R (message sid f)"
  unfolding message_def to_user_def to_room_def
  by (auto intro!: handler_R records_R split: pyval.split option.split)

end

sublocale filing_rel \<subseteq> handler_rel
  by unfold_locales (rule any_message_R)

text \<open>With the operations that change rooms, the same for every handler.\<close>

locale full_rel = handler_rel +
  assumes room_changes_R: "runs_in R (rooms_create r)" "runs_in R (rooms_join r x)" "runs_in R (rooms_leave r x)"
begin

lemma add_each_R: "runs_in R (add_each r names)"
  by (induction names) (auto intro!: world_rules users_R room_changes_R)

lemma add_members_R: "runs_in R (add_members r x)"
  unfolding add_members_def by (auto intro!: world_rules add_each_R split: pyval.split)

lemma room_handlers_R: "runs_in R (create_room sid f)" "runs_in R (invite sid f)" "runs_in R (join_room sid f)"
  "runs_in R (leave_room sid f)"
  unfolding create_room_def invite_def join_room_def leave_room_def Let_def
  by (intro handler_R room_changes_R add_members_R)+

lemma handle_all_R: "runs_in R (handle sid f)"
proof (cases "f_type f \<in> {CREATE_ROOM, INVITE, JOIN, LEAVE}")
  case True
  then show ?thesis by (auto simp: handle_def intro!: runs_rules room_handlers_R sends_R)
next
  case False
  then show ?thesis by (rule handle_R)
qed

end

text \<open>The primary keys.\<close>

lemma db_inv_server [simp]: "db_inv (with_conn c g s) = db_inv s" "db_inv (s\<lparr>by_name := d\<rparr>) = db_inv s"
  by (simp_all add: db_inv_def with_conn_def)

interpretation tables: filing_rel "keeps db_inv"
  by unfold_locales (auto simp: store_inv keeps_def)

interpretation tables: full_rel "keeps db_inv"
  by unfold_locales (auto simp: store_inv)

text \<open>Whatever frame arrives on whatever connection, and whether the handler returns or
  raises half-way through, the tables keep their primary keys and a name keeps at most one
  connection, the one that carries that name; a disconnect keeps both as well.\<close>

theorem server_invariant:
  assumes "net_inv s" and "db_inv s"
  shows "net_inv (after (handle sid f) s) \<and> db_inv (after (handle sid f) s) \<and>
    net_inv (after (on_disconnect sid) s) \<and> db_inv (after (on_disconnect sid) s)"
  using assms keepsD [OF handle_net_inv] keepsD [OF tables.handle_all_R] keepsD [OF on_disconnect_inv]
    keepsD [OF tables.accounts_R(3)] by blast

subsection \<open>Who receives a message\<close>

definition is_msg :: "frame \<Rightarrow> bool" where
  "is_msg f \<longleftrightarrow> f_type f = MSG"

lemma send_error_no_msg: "(\<And>c g. f_type g = ERROR \<Longrightarrow> P c g) \<Longrightarrow> runs_in (acts net v P) (send_error c code msg)"
  unfolding send_error_def error_frame_def data_frame_def by (intro net_new_frame net_send) simp

lemma send_ack_acts: "(\<And>c g. f_type g = ACK \<Longrightarrow> P c g) \<Longrightarrow> runs_in (acts net v P) (send_data c ACK d)"
  unfolding send_data_def data_frame_def by (intro net_new_frame net_send) simp

lemma send_contacts_no_msg:
  "(\<And>c g. f_type g = CONTACTS \<Longrightarrow> P c g) \<Longrightarrow> runs_in (acts net v P) (send_contacts c)"
  unfolding send_contacts_def
  by (intro net_username act.runs_bnd contact_states_acts net_new_frame net_send) simp

lemma note_contact_no_msg:
  "(\<And>c g. f_type g = CONTACTS \<Longrightarrow> P c g) \<Longrightarrow> runs_in (acts net v P) (note_contact a b)"
  unfolding note_contact_def by (intro act.runs_rules net_find net_draws net_store_rules send_contacts_no_msg)

lemma to_user_acts:
  assumes "\<And>c g. f_type g \<in> {ERROR, CONTACTS} \<Longrightarrow> P c g"
    and "\<And>c. sessions_get (PStr target) (fst v) = Some c \<Longrightarrow> P c out"
  shows "runs_in (acts net v P) (to_user sid target out)"
proof -
  have err: "runs_in (acts net v P) (send_error c code msg)" for c code msg
    by (rule send_error_no_msg) (simp add: assms(1))
  have note_c: "runs_in (acts net v P) (note_contact a b)" for a b
    by (rule note_contact_no_msg) (simp add: assms(1))
  have last: "runs_in (acts net v P) (case sessions_get (PStr target) (fst v) of
      Some c \<Rightarrow> send c out | None \<Rightarrow> messages_queue_for target (f_id out))"
    by (cases "sessions_get (PStr target) (fst v)") (auto intro: net_store_rules net_send assms(2))
  show ?thesis
    unfolding to_user_def
    by (rule net_find)
       (auto intro!: act.runs_rules net_store_rules record_msg_acts err note_c last net_send assms(2) net_username split: pyval.split)
qed

lemma message_direct_acts:
  assumes "f_to f = PStr target" and "\<not> is_room target" and "net_names v sid = me"
    and "\<And>c g. f_type g \<in> {ERROR, CONTACTS, ACK} \<Longrightarrow> P c g"
    and "\<And>c. sessions_get (PStr target) (fst v) = Some c \<Longrightarrow> P c (outgoing_of me f)"
  shows "runs_in (acts net v P) (message sid f)"
proof -
  have "runs_in (acts net v P) (to_user sid target (outgoing_of me f))"
    by (rule to_user_acts) (auto simp: assms(4,5))
  moreover have "runs_in (acts net v P) (send_data sid ACK d)" for d by (rule send_ack_acts) (simp add: assms(4))
  moreover have "runs_in (acts net v P) (send_error sid code msg)" for code msg
    by (rule send_error_no_msg) (simp add: assms(4))
  ultimately show ?thesis
    unfolding message_def using assms(1-3) by (auto intro!: act.runs_rules net_username)
qed

text \<open>C4: a direct message goes to one person. While the server handles a MSG addressed to a user,
  the only MSG it queues for anyone is that message, and only on the connection logged in under
  that user's name. Its recipient, body, nonce, id and time are those it came with; its \<open>from\<close> is the
  sender's logged-in name, and whatever else it carried in \<open>data\<close> is dropped.\<close>

theorem direct_message_is_private:
  assumes "f_type f = MSG" and "f_to f = PStr target" and "\<not> is_room target"
    and "g \<in> set (sent s (after (handle sid f) s) c)" and "f_type g = MSG"
  shows "sessions_get (PStr target) (by_name s) = Some c \<and>
    g = f\<lparr>f_sender := username (conns s sid), f_data := [], f_v := PInt PROTOCOL_VERSION\<rparr>"
proof -
  let ?P = "\<lambda>c g. f_type g = MSG \<longrightarrow>
    sessions_get (PStr target) (by_name s) = Some c \<and> g = outgoing_of (username (conns s sid)) f"
  have "runs_in (acts net (net s) ?P) (message sid f)"
    using assms(2,3) by (rule message_direct_acts) (auto simp: net_def)
  moreover have "runs_in (acts net (net s) ?P) (send_error sid code msg)" for code msg
    by (rule send_error_no_msg) simp
  ultimately have "runs_in (acts net (net s) ?P) (handle sid f)"
    using assms(1) by (auto simp: handle_def intro!: act.runs_if net_username)
  from acts_sent [OF this assms(4)] assms(1,5) show ?thesis by (cases f) (auto simp: outgoing_of_def)
qed

lemma rooms_members_run:
  "bnd (rooms_members room) k s = (case bind_text (PStr room) of Inl e \<Rightarrow> (Inl e, s) | Inr _ \<Rightarrow> k (members_of room s) s)"
  by (auto simp: rooms_members_def bnd_def split: sum.split)

lemma rooms_exists_run:
  "bnd (rooms_exists room) k s = (case bind_text (PStr room) of Inl e \<Rightarrow> (Inl e, s) | Inr _ \<Rightarrow> k (room \<in> fst ` set (t_rooms s)) s)"
  by (auto simp: rooms_exists_def bnd_def split: sum.split)

lemma finite_members [simp]: "finite (members_of room s)"
  unfolding members_of_code by simp

text \<open>The room's members other than the sender, each on their own connection.\<close>

definition to_member :: "'z server_scheme \<Rightarrow> nat \<Rightarrow> ustr \<Rightarrow> frame \<Rightarrow> (ustr, pyval) dict option \<Rightarrow> nat \<Rightarrow> frame \<Rightarrow> bool" where
  "to_member s sid room out env c g \<longleftrightarrow> (f_type g = MSG \<longrightarrow>
     py_in (username (conns s sid)) (members_of room s) \<and>
     (\<exists>n\<in>members_of room s. PStr n \<noteq> username (conns s sid) \<and>
        sessions_get (PStr n) (by_name s) = Some c \<and> addressed_to out env n = Some g))"

lemma acts_emits: "runs_in (acts \<pi> (\<pi> s) P) m \<Longrightarrow> emits P s (after m s)"
  by (simp add: runs_in_def acts_def)

lemma to_room_emits: "emits (to_member s sid room out env) s (after (to_room sid room out env) s)"
proof -
  let ?me = "username (conns s sid)" and ?P = "to_member s sid room out env"
  have err: "runs_in (acts net (net s) ?P) (andthen (send_error sid code msg) (ret b))" for code msg b
    by (intro act.runs_rules send_error_no_msg) (simp add: to_member_def)
  have go: "runs_in (acts net (net s) ?P)
      (andthen (case env of Some e \<Rightarrow> record_envelopes out room e | None \<Rightarrow> record_msg out room room)
        (andthen (for_each (sorted_list_of_set (members_of room s)) (deliver_member ?me out env)) (ret True)))"
    if "py_in ?me (members_of room s)"
    by (intro act.runs_andthen act.runs_option record_msg_acts act.runs_for_each deliver_member_acts act.runs_pure)
       (use that in \<open>auto simp: net_def to_member_def\<close>)
  have by_case: "emits ?P s (after (to_room sid room out env) s)"
    if "runs_in (acts net (net s) ?P) m" "to_room sid room out env s = m s" for m :: "('a server_scheme, bool) py"
    using acts_emits [OF that(1)] that(2) by simp
  show ?thesis
  proof (cases "bind_text (PStr room)")
    case (Inl e)
    then have "to_room sid room out env s = raise e s" by (simp add: to_room_def rooms_exists_run)
    then show ?thesis by (rule by_case [OF act.runs_pure(2)])
  next
    case (Inr x)
    note run = to_room_def rooms_exists_run rooms_members_run session_username_def
    consider "room \<notin> fst ` set (t_rooms s)" | "room \<in> fst ` set (t_rooms s)" "\<not> py_in ?me (members_of room s)"
      | "room \<in> fst ` set (t_rooms s)" "py_in ?me (members_of room s)" by blast
    then show ?thesis
    proof cases
      case 1 then show ?thesis by (intro by_case [OF err]) (simp add: run Inr)
    next
      case 2 then show ?thesis by (intro by_case [OF err]) (simp add: run Inr)
    next
      case 3 then show ?thesis by (intro by_case [OF go]) (simp_all add: run Inr)
    qed
  qed
qed

lemma sealed_pair_Some: "sealed_pair x = Some (b, n) \<longleftrightarrow> (\<exists>body nonce. x = PList [body, nonce] \<and> b = py_str body \<and> n = py_str nonce)"
  by (auto simp: sealed_pair_def split: pyval.splits list.splits)

lemma pget_PList: "pget d k = PList xs \<longleftrightarrow> dict_get d k = Some (PList xs)"
  by (simp add: pget_def split: option.split)

lemma addressed_in_full:
  assumes "f_type f = MSG" and "addressed_to (outgoing_of me f) (envelopes_of f) n = Some g"
  shows "case pget (f_data f) (u ''env'') of
      PDict env \<Rightarrow> \<exists>body nonce. dict_get env n = Some (PList [body, nonce]) \<and>
        g = f\<lparr>f_sender := me, f_body := PStr (py_str body), f_nonce := PStr (py_str nonce), f_data := [], f_v := PInt PROTOCOL_VERSION\<rparr>
    | _ \<Rightarrow> g = f\<lparr>f_sender := me, f_data := [], f_v := PInt PROTOCOL_VERSION\<rparr>"
proof (cases "envelopes_of f")
  case None
  then show ?thesis using assms by (cases f) (auto simp: addressed_to_def outgoing_of_def envelopes_of_def split: pyval.splits)
next
  case (Some env)
  then obtain body nonce where "pget env n = PList [body, nonce]"
    "g = \<lparr>f_type = MSG, f_sender = me, f_to = f_to f, f_body = PStr (py_str body), f_nonce = PStr (py_str nonce),
          f_data = [], f_id = f_id f, f_ts = f_ts f, f_v = PInt PROTOCOL_VERSION\<rparr>"
    using assms(2) by (auto simp: addressed_to_def outgoing_of_def sealed_pair_Some split: option.splits)
  moreover have "pget (f_data f) (u ''env'') = PDict env" using Some by (simp add: envelopes_of_def split: pyval.splits)
  ultimately show ?thesis using assms(1) by (cases f) (simp add: pget_PList)
qed

text \<open>C5: a room message goes to the members. While the server handles a MSG addressed to a room,
  every MSG it queues is for a member of the room other than the sender, on the connection
  logged in under that member's name, and the sender is a member too. When the message carries a map
  of sealed envelopes, its body and nonce are the two strings filed in the map under that member's
  own name; otherwise they are those it came with. The rest is as for a direct message.\<close>

theorem room_message_reaches_members_only:
  assumes "f_type f = MSG" and "f_to f = PStr room" and "is_room room"
    and "g \<in> set (sent s (after (handle sid f) s) c)" and "f_type g = MSG"
  shows "py_in (username (conns s sid)) (members_of room s) \<and>
    (\<exists>n\<in>members_of room s. PStr n \<noteq> username (conns s sid) \<and>
       sessions_get (PStr n) (by_name s) = Some c \<and>
       (case pget (f_data f) (u ''env'') of
          PDict env \<Rightarrow> \<exists>body nonce. dict_get env n = Some (PList [body, nonce]) \<and>
            g = f\<lparr>f_sender := username (conns s sid), f_body := PStr (py_str body), f_nonce := PStr (py_str nonce),
                  f_data := [], f_v := PInt PROTOCOL_VERSION\<rparr>
        | _ \<Rightarrow> g = f\<lparr>f_sender := username (conns s sid), f_data := [], f_v := PInt PROTOCOL_VERSION\<rparr>))"
proof -
  let ?me = "username (conns s sid)"
  let ?P = "to_member s sid room (outgoing_of ?me f) (envelopes_of f)"
  have quiet: "runs_in (acts net v ?P) (send_error sid code msg)" "runs_in (acts net v ?P) (send_data sid ACK d)"
    for v code msg d by (rule send_error_no_msg, simp add: to_member_def) (rule send_ack_acts, simp add: to_member_def)
  obtain r t where t: "to_room sid room (outgoing_of ?me f) (envelopes_of f) s = (r, t)" by fastforce
  then have st: "emits ?P s t" using to_room_emits [of s sid room "outgoing_of ?me f" "envelopes_of f"] by simp
  have "room \<noteq> []" using assms(3) by (auto simp: startswith_def ROOM_PREFIX_def)
  then have "emits ?P s (after (message sid f) s)"
    using assms(2,3) t st
    by (cases r) (auto simp: message_def session_username_def bnd_def
        intro: emits_trans [OF st] acts_emits [OF quiet(2)] acts_emits [OF quiet(1)])
  then have "emits ?P s (after (handle sid f) s)"
    using assms(1) acts_emits [OF quiet(1)] by (auto simp: handle_def session_username_def)
  from emits_sent [OF this assms(4)] have "to_member s sid room (outgoing_of ?me f) (envelopes_of f) c g" .
  then show ?thesis using assms(1,5) addressed_in_full [OF assms(1)] unfolding to_member_def by blast
qed

text \<open>A server with three accounts: ann and bob are connected, cat is away; all are in one room.\<close>

definition account :: "string \<Rightarrow> user_row" where
  "account n = \<lparr>u_username = u n, u_salt = [], u_digest = [], u_pubkey = None, u_created = 1\<rparr>"

definition sample_server :: server where
  "sample_server =
     \<lparr>uuid_src = nat_str, clock_src = int, token_src = (\<lambda>n. [byte_of n]), scrypt_fn = (\<lambda>p salt. []), draws = 1,
      t_users = map account [''ann'', ''bob'', ''cat''], t_rooms = [(u ''#r'', 1)],
      t_members = [(u ''#r'', u ''ann''), (u ''#r'', u ''bob''), (u ''#r'', u ''cat'')],
      t_messages = [], t_pending = [], t_contacts = [],
      by_name = [(PStr (u ''ann''), 2), (PStr (u ''bob''), 3)],
      conns = (\<lambda>c. new_handler\<lparr>username := (if c = 2 then PStr (u ''ann'') else if c = 3 then PStr (u ''bob'') else PNone)\<rparr>),
      has_messages = True, has_contacts = False\<rparr>"

definition msg_frame :: "string \<Rightarrow> frame" where
  "msg_frame to = \<lparr>f_type = MSG, f_sender = PStr (u ''mallory''), f_to = PStr (u to), f_body = PStr (u ''hi''),
     f_nonce = PNone, f_data = [], f_id = PStr (u ''m1''), f_ts = 5, f_v = PInt 1\<rparr>"

lemma sample_net_inv: "net_inv sample_server" and sample_db_inv: "db_inv sample_server"
  by (auto simp: net_inv_def db_inv_def sample_server_def sessions_wf_def new_handler_def account_def)

lemma sample_me: "username (conns sample_server 2) = PStr (u ''ann'')"
  by (simp add: sample_server_def new_handler_def)

lemma sample_direct:
  "outcome (handle 2 (msg_frame ''bob'')) sample_server = Inr ()"
  "sent sample_server (after (handle 2 (msg_frame ''bob'')) sample_server) 3 = [outgoing_of (PStr (u ''ann'')) (msg_frame ''bob'')]"
  by (simp_all add: handle_def message_def to_user_def msg_frame_def sample_server_def find_session_def sessions_get_def
      session_username_def new_handler_def record_msg_def note_contact_def send_def with_conn_def handler_send_def
      send_data_def OUTBOX_LIMIT_def op_defs py_defs sent_def outgoing_of_def startswith_def ROOM_PREFIX_def
      py_or_def direct_conversation_def bind_int_def fits_int64_def bind_text_def pair_key_def u_def
      is_surrogate_def PAIR_SEPARATOR_def)

theorem sender_is_authenticated_witness:
  "f_sender (msg_frame ''bob'') = PStr (u ''mallory'') \<and>
   (\<exists>g\<in>set (sent sample_server (after (handle 2 (msg_frame ''bob'')) sample_server) 3). f_sender g = PStr (u ''ann''))"
proof -
  let ?g = "outgoing_of (PStr (u ''ann'')) (msg_frame ''bob'')"
  have "f_type (msg_frame ''bob'') \<noteq> LOGIN" "f_type ?g \<in> {MSG, TYPING, RECEIPT}"
    by (simp_all add: msg_frame_def outgoing_of_def)
  from sender_is_authenticated [OF this(1) _ this(2), of sample_server 2 3] show ?thesis
    by (auto simp: sample_direct sample_me) (simp add: msg_frame_def)
qed

theorem direct_message_is_private_witness:
  "\<exists>g. sent sample_server (after (handle 2 (msg_frame ''bob'')) sample_server) 3 = [g] \<and>
     sessions_get (PStr (u ''bob'')) (by_name sample_server) = Some 3 \<and>
     f_sender g = PStr (u ''ann'') \<and> f_to g = PStr (u ''bob'') \<and> f_body g = PStr (u ''hi'') \<and> f_id g = PStr (u ''m1'')"
proof -
  let ?g = "outgoing_of (PStr (u ''ann'')) (msg_frame ''bob'')"
  have "f_type (msg_frame ''bob'') = MSG" "f_to (msg_frame ''bob'') = PStr (u ''bob'')" "\<not> is_room (u ''bob'')" "f_type ?g = MSG"
    by (simp_all add: msg_frame_def outgoing_of_def ROOM_PREFIX_def)
  from direct_message_is_private [OF this(1-3) _ this(4), of sample_server 2 3]
  have "sessions_get (PStr (u ''bob'')) (by_name sample_server) = Some 3"
    "?g = (msg_frame ''bob'')\<lparr>f_sender := PStr (u ''ann''), f_data := [], f_v := PInt PROTOCOL_VERSION\<rparr>"
    by (simp_all add: sample_direct sample_me)
  then show ?thesis by (simp add: sample_direct) (simp add: msg_frame_def)
qed

text \<open>A room message with an envelope for cat, then one for bob.\<close>

definition envelope_frame :: frame where
  "envelope_frame = (msg_frame ''#r'')\<lparr>f_body := PStr [], f_data := [(u ''env'', PDict
     [(u ''cat'', PList [PStr (u ''c1''), PStr (u ''n1'')]), (u ''bob'', PList [PStr (u ''c2''), PStr (u ''n2'')])])]\<rparr>"

lemma sample_room:
  "\<exists>g. sent sample_server (after (handle 2 envelope_frame) sample_server) 3 = [g] \<and> f_type g = MSG"
proof -
  have sorted: "sorted_list_of_set {u ''ann'', u ''bob'', u ''cat''} = [u ''ann'', u ''bob'', u ''cat'']"
    using sorted_list_of_set_sort_remdups [of "[u ''ann'', u ''bob'', u ''cat'']"] by (simp add: u_def)
  show ?thesis
    by (simp add: handle_def message_def to_room_def rooms_exists_run rooms_members_run session_username_def
        members_of_code py_in_def envelopes_of_def envelope_frame_def msg_frame_def sample_server_def find_session_def sessions_get_def
        new_handler_def record_envelopes_def send_def with_conn_def handler_send_def deliver_member_def addressed_to_def sealed_pair_def
        send_data_def OUTBOX_LIMIT_def op_defs py_defs sent_def outgoing_of_def ROOM_PREFIX_def
        py_or_def bind_int_def fits_int64_def sorted bind_text_def del: set_map set_filter)
       (simp add: ENVELOPES_def dumps_str_def esc_char_def u_def is_surrogate_def)
qed

theorem room_message_reaches_members_only_witness:
  "\<exists>g n. sent sample_server (after (handle 2 envelope_frame) sample_server) 3 = [g] \<and> n \<in> members_of (u ''#r'') sample_server \<and>
     sessions_get (PStr n) (by_name sample_server) = Some 3 \<and> n = u ''bob'' \<and>
     f_body g = PStr (u ''c2'') \<and> f_nonce g = PStr (u ''n2'') \<and> f_sender g = PStr (u ''ann'')"
proof -
  obtain g where g: "sent sample_server (after (handle 2 envelope_frame) sample_server) 3 = [g]" "f_type g = MSG"
    using sample_room by blast
  have f: "f_type envelope_frame = MSG" "f_to envelope_frame = PStr (u ''#r'')" "is_room (u ''#r'')"
    by (simp_all add: envelope_frame_def msg_frame_def ROOM_PREFIX_def)
  have bob: "n = u ''bob''" if "sessions_get (PStr n) (by_name sample_server) = Some 3" for n
    using that by (auto simp: sample_server_def sessions_get_def split: if_splits)
  have env: "pget (f_data envelope_frame) (u ''env'') =
      PDict [(u ''cat'', PList [PStr (u ''c1''), PStr (u ''n1'')]), (u ''bob'', PList [PStr (u ''c2''), PStr (u ''n2'')])]"
    by (simp add: envelope_frame_def)
  have "g \<in> set (sent sample_server (after (handle 2 envelope_frame) sample_server) 3)" using g(1) by simp
  from room_message_reaches_members_only [OF f this g(2)] obtain n body nonce where
    n: "n \<in> members_of (u ''#r'') sample_server" "sessions_get (PStr n) (by_name sample_server) = Some 3" and
    e: "dict_get [(u ''cat'', PList [PStr (u ''c1''), PStr (u ''n1'')]), (u ''bob'', PList [PStr (u ''c2''), PStr (u ''n2'')])] n =
      Some (PList [body, nonce])" and
    "f_body g = PStr (py_str body)" "f_nonce g = PStr (py_str nonce)" "f_sender g = PStr (u ''ann'')"
    unfolding env pyval.case sample_me by force
  moreover have "n = u ''bob''" by (rule bob [OF n(2)])
  moreover from e have "body = PStr (u ''c2'')" "nonce = PStr (u ''n2'')" unfolding \<open>n = u ''bob''\<close> by (simp_all add: u_def)
  ultimately show ?thesis using g(1) by (intro exI [of _ g] exI [of _ n]) (simp del: One_nat_def)
qed

theorem server_invariant_witness:
  "net_inv (after (handle 2 (msg_frame ''bob'')) sample_server) \<and> db_inv (after (on_disconnect 2) sample_server)"
  using server_invariant [OF sample_net_inv sample_db_inv] by blast

end
