(* ===== verification/Delivery.thy ===== *)
theory Delivery
  imports Routing
begin

section \<open>Delivery: messages that wait, and sessions\<close>

text \<open>
  Total correctness of the two handlers that carry a message to somebody who is away: MSG
  stores and queues it, LOGIN hands it over. Then who may open a session, and what a
  connection without one gets.
\<close>

subsection \<open>What keeps a handler from raising\<close>

text \<open>
  The clock fits a database integer, and every connected name is a string (a LOGIN whose
  \<open>user\<close> is a number breaks that, see \<open>number_login_breaks_logins\<close>).
\<close>

definition healthy :: "'z server_scheme \<Rightarrow> bool" where
  "healthy s \<longleftrightarrow> net_inv s \<and> (\<forall>n. fits_int64 (clock_src s n)) \<and> strs_of (dict_keys (by_name s)) \<noteq> None"

text \<open>Nothing happened but contact bookkeeping, and each open outbox took at most \<open>k\<close> frames.\<close>

definition calm :: "nat \<Rightarrow> 'z server_scheme \<Rightarrow> 'z server_scheme \<Rightarrow> bool" where
  "calm k s t \<longleftrightarrow>
     t_users t = t_users s \<and> t_messages t = t_messages s \<and> t_pending t = t_pending s \<and>
     clock_src t = clock_src s \<and> net t = net s \<and>
     (\<forall>c. \<not> closed (conns s c) \<and> length (outbox (conns s c)) + k \<le> OUTBOX_LIMIT \<longrightarrow>
        \<not> closed (conns t c) \<and> (\<exists>xs. outbox (conns t c) = outbox (conns s c) @ xs \<and> length xs \<le> k))"

lemma calm_trans:
  assumes "calm j s t" and "calm k t w"
  shows "calm (j + k) s w"
proof -
  have "\<not> closed (conns w c) \<and> (\<exists>xs. outbox (conns w c) = outbox (conns s c) @ xs \<and> length xs \<le> j + k)"
    if c: "\<not> closed (conns s c)" "length (outbox (conns s c)) + (j + k) \<le> OUTBOX_LIMIT" for c
  proof -
    obtain xs where xs: "\<not> closed (conns t c)" "outbox (conns t c) = outbox (conns s c) @ xs" "length xs \<le> j"
      using assms(1) c by (auto simp: calm_def)
    moreover from this c have "length (outbox (conns t c)) + k \<le> OUTBOX_LIMIT" by simp
    ultimately obtain ys where "\<not> closed (conns w c)" "outbox (conns w c) = outbox (conns t c) @ ys" "length ys \<le> k"
      using assms(2) by (auto simp: calm_def)
    with xs show ?thesis by auto
  qed
  with assms show ?thesis by (simp add: calm_def)
qed

lemma calm_mono: "calm j s t \<Longrightarrow> j \<le> k \<Longrightarrow> calm k s t"
  unfolding calm_def by (meson add_le_cancel_left le_trans)

lemma calm_refl: "calm 0 s s" by (simp add: calm_def)

lemma calm_draws: "calm 0 s (s\<lparr>draws := n\<rparr>)"
  by (simp add: calm_def net_def)

lemma calm_contacts: "calm 0 s (s\<lparr>draws := n, t_contacts := x\<rparr>)" "calm 0 s (s\<lparr>t_contacts := x\<rparr>)"
  by (simp_all add: calm_def net_def)

lemma calm_send: "calm 1 s (with_conn c (handler_send f) s)"
  by (auto simp: calm_def net_with_conn) (auto simp: with_conn_def handler_send_def split: if_splits)

lemma net_inv_calm: "calm k s t \<Longrightarrow> healthy s \<Longrightarrow> healthy t"
  using net_inv_net [of t s] by (auto simp: calm_def healthy_def net_def)

subsection \<open>Contact bookkeeping succeeds\<close>

lemma usernames_ok: "healthy s \<Longrightarrow> \<exists>xs. usernames s = (Inr xs, s)"
  by (auto simp: healthy_def usernames_def sessions_usernames_def py_sorted_def bnd_def)

lemma contact_states_ok:
  assumes "healthy s" and "bind_text name = Inr n"
  shows "\<exists>x. contact_states name s = (Inr x, s)"
proof -
  obtain xs where "usernames s = (Inr xs, s)" using usernames_ok [OF assms(1)] by blast
  then show ?thesis using assms(2) by (auto simp: contact_states_def contacts_of_def bnd_def)
qed

lemma send_contacts_ok:
  assumes "healthy s" and "username (conns s c) = name" and "bind_text (py_or name (PStr [])) = Inr n"
  shows "\<exists>s'. send_contacts c s = (Inr (), s') \<and> calm 1 s s'"
proof -
  obtain x where x: "contact_states (py_or name (PStr [])) s = (Inr x, s)"
    using contact_states_ok [OF assms(1,3)] by blast
  have "calm (0 + 1) s (with_conn c (handler_send f) (s\<lparr>draws := n\<rparr>))" for f n
    by (rule calm_trans [OF calm_draws calm_send])
  then show ?thesis
    using assms(2) by (simp add: send_contacts_def session_username_def x op_defs bnd_def send_def)
qed

lemma contacts_add_ok:
  assumes "storable n" and "storable m" and "fits_int64 t"
  shows "\<exists>b s'. contacts_add (PStr n) m t s = (Inr b, s') \<and> calm 0 s s'"
  using assms calm_refl calm_contacts(2)
  by (auto simp: contacts_add_def transaction_def bnd_def bind_int_def andthen_def)

lemma py_key_PStr_iff: "py_key k = PStr n \<longleftrightarrow> k = PStr n"
  by (auto simp: py_key_def split: pyval.splits option.splits if_splits prod.splits)

lemma registered_name:
  assumes "net_inv s" and "sessions_get (PStr n) (by_name s) = Some c"
  shows "username (conns s c) = PStr n"
  using assms sessions_get_Some [OF assms(2)] by (auto simp: net_inv_def py_key_PStr_iff)

lemma note_contact_ok:
  assumes h: "healthy s" and "storable owner" and "storable other"
  shows "\<exists>s'. note_contact owner other s = (Inr (), s') \<and> calm 1 s s'"
proof -
  let ?t = "clock_src s (draws s)" and ?s1 = "s\<lparr>draws := Suc (draws s)\<rparr>"
  obtain b s2 where add: "contacts_add (PStr owner) other ?t ?s1 = (Inr b, s2)" "calm 0 ?s1 s2"
    using contacts_add_ok [OF assms(2,3)] h unfolding healthy_def by blast
  have c2: "calm 0 s s2" using calm_trans [OF calm_draws add(2)] by simp
  then have h2: "healthy s2" using h by (rule net_inv_calm)
  have "\<exists>s'. send_contacts c s2 = (Inr (), s') \<and> calm 1 s s'" if "sessions_get (PStr owner) (by_name s2) = Some c" for c
  proof -
    have "username (conns s2 c) = PStr owner"
      using h2 that by (intro registered_name) (simp_all add: healthy_def)
    moreover have "\<exists>n. bind_text (py_or (PStr owner) (PStr [])) = Inr n"
      using assms(2) by (auto simp: py_or_def bind_text_PStr storable_def)
    ultimately show ?thesis using send_contacts_ok [OF h2] calm_trans [OF c2] by fastforce
  qed
  then show ?thesis
    using add(1) c2 calm_mono [OF c2, of 1] calm_mono [OF calm_refl, of 1]
    by (auto simp: note_contact_def now_ms_def draw_def bnd_def find_session_def split: option.split)
qed

subsection \<open>A message for somebody who is away\<close>

lemma storable_pair: "storable a \<Longrightarrow> storable b \<Longrightarrow> storable (pair_key a b)"
  by (auto simp: storable_def pair_key_sorted min_def max_def PAIR_SEPARATOR_def is_surrogate_def)

definition stored_row :: "ustr \<Rightarrow> ustr \<Rightarrow> ustr \<Rightarrow> ustr option \<Rightarrow> ustr option \<Rightarrow> int \<Rightarrow> message_row" where
  "stored_row i me target b n t =
     \<lparr>m_id = i, m_conversation = pair_key me target, m_sender = me, m_recipient = target, m_body = b, m_nonce = n,
      m_ts = t, m_delivered = None, m_read = None\<rparr>"

lemma messages_record_new:
  assumes "bind_text x = Inr (Some i)" and "storable c" and "storable me" and "storable r"
    and "bind_text b = Inr b'" and "bind_text n = Inr n'" and "fits_int64 t" and "i \<notin> m_id ` set (t_messages s)"
  shows "messages_record x c (PStr me) r b n t s = (Inr (), s\<lparr>t_messages := t_messages s @
    [\<lparr>m_id = i, m_conversation = c, m_sender = me, m_recipient = r, m_body = b', m_nonce = n', m_ts = t,
      m_delivered = None, m_read = None\<rparr>]\<rparr>)"
  using assms by (simp add: messages_record_def transaction_def bnd_def bind_int_def)

lemma messages_queue_for_run:
  "storable name \<Longrightarrow> bind_text x = Inr (Some i) \<Longrightarrow> messages_queue_for name x s = (Inr (),
     if (i, name) \<in> set (t_pending s) then s else s\<lparr>t_pending := t_pending s @ [(i, name)]\<rparr>)"
  by (simp add: messages_queue_for_def transaction_def bnd_def)

lemma users_exists_run: "storable n \<Longrightarrow> users_exists n s = (Inr (find_user (Some n) s \<noteq> None), s)"
  by (simp add: users_exists_def bnd_def)

lemma healthy_messages: "healthy (s\<lparr>t_messages := m\<rparr>) = healthy s"
  by (simp add: healthy_def net_inv_def)

text \<open>The part of \<open>to_user\<close> after the recipient was looked up and found absent.\<close>

lemma to_user_offline:
  assumes h: "healthy s" and hm: "has_messages s"
    and me: "username (conns s sid) = PStr me" "me \<noteq> []" "storable me" and target: "storable target"
    and off: "sessions_get (PStr target) (by_name s) = None" "find_user (Some target) s \<noteq> None"
    and out: "bind_text (f_id out) = Inr (Some i)"
    and rec: "record_msg out (pair_key me target) target s = (Inr (), s\<lparr>t_messages := rows\<rparr>)"
  shows "\<exists>t. to_user sid target out s = (Inr True, t) \<and> t_messages t = rows \<and>
    set (t_pending t) = insert (i, target) (set (t_pending s)) \<and>
    (\<not> closed (conns s sid) \<and> length (outbox (conns s sid)) + 2 \<le> OUTBOX_LIMIT \<longrightarrow>
       \<not> closed (conns t sid) \<and> length (outbox (conns t sid)) \<le> length (outbox (conns s sid)) + 2 \<and>
       take (length (outbox (conns s sid))) (outbox (conns t sid)) = outbox (conns s sid))"
proof -
  let ?s1 = "s\<lparr>t_messages := rows\<rparr>"
  have h1: "healthy ?s1" using h by (simp add: healthy_messages)
  obtain s2 where s2: "note_contact me target ?s1 = (Inr (), s2)" "calm 1 ?s1 s2"
    using note_contact_ok [OF h1 me(3) target] by blast
  obtain s3 where s3: "note_contact target me s2 = (Inr (), s3)" "calm 1 s2 s3"
    using note_contact_ok [OF net_inv_calm [OF s2(2) h1] target me(3)] by blast
  have calm: "calm 2 ?s1 s3" using calm_trans [OF s2(2) s3(2)] by (simp add: numeral_2_eq_2)
  have run: "to_user sid target out s = (Inr True, after (messages_queue_for target (f_id out)) s3)"
    using off hm me(1,2) target rec s2 s3
    by (simp add: to_user_def find_session_def bnd_def andthen_def users_exists_run session_username_def py_or_def
        direct_conversation_def messages_queue_for_run [OF target out])
  have pend: "set (t_pending s3) = set (t_pending s)" using calm by (simp add: calm_def)
  show ?thesis
    using run calm pend
    by (auto simp: messages_queue_for_run [OF target out] calm_def)
qed

lemma record_msg_new:
  assumes "has_messages s" and "f_sender out = PStr me" and "me \<noteq> []" and "storable me" and "storable target"
    and "bind_text (f_id out) = Inr (Some i)" and "bind_text (f_body out) = Inr b"
    and "bind_text (f_nonce out) = Inr n" and "fits_int64 (f_ts out)" and "i \<notin> m_id ` set (t_messages s)"
  shows "record_msg out (pair_key me target) target s =
    (Inr (), s\<lparr>t_messages := t_messages s @ [stored_row i me target b n (f_ts out)]\<rparr>)"
  using assms messages_record_new [OF assms(6) storable_pair [OF assms(4,5)] assms(4,5,7-10)]
  by (simp add: record_msg_def py_or_def stored_row_def)

text \<open>C14: a message to an account that is not connected is not lost. When a logged-in user sends a
  MSG with a fresh id to a registered user who is offline, the handler returns, the message is
  stored once with the authenticated sender, its id is queued for the recipient, and the
  sender is told with an ACK that refers to it.\<close>

theorem offline_message_waits:
  assumes h: "healthy s" and hm: "has_messages s"
    and f: "f_type f = MSG" "f_to f = PStr target" "\<not> is_room target" "target \<noteq> []"
    and me: "username (conns s sid) = PStr me" "me \<noteq> []" "storable me" and target: "storable target"
    and off: "sessions_get (PStr target) (by_name s) = None" "find_user (Some target) s \<noteq> None"
    and out: "bind_text (f_id f) = Inr (Some i)" "bind_text (f_body f) = Inr b"
      "bind_text (f_nonce f) = Inr n" "fits_int64 (f_ts f)"
    and new: "i \<notin> m_id ` set (t_messages s)"
    and open': "\<not> closed (conns s sid)" "length (outbox (conns s sid)) + 2 < OUTBOX_LIMIT"
  shows "\<exists>t. handle sid f s = (Inr (), t) \<and>
    t_messages t = t_messages s @ [stored_row i me target b n (f_ts f)] \<and>
    set (t_pending t) = insert (i, target) (set (t_pending s)) \<and>
    (\<exists>g\<in>set (sent s t sid). f_type g = ACK \<and> f_data g = [(u ''ref'', f_id f)])"
proof -
  let ?out = "outgoing_of (PStr me) f"
  obtain t where t: "to_user sid target ?out s = (Inr True, t)"
    "t_messages t = t_messages s @ [stored_row i me target b n (f_ts f)]"
    "set (t_pending t) = insert (i, target) (set (t_pending s))"
    "\<not> closed (conns t sid)" "length (outbox (conns t sid)) \<le> length (outbox (conns s sid)) + 2"
    "take (length (outbox (conns s sid))) (outbox (conns t sid)) = outbox (conns s sid)"
    using to_user_offline [OF h hm me target off, of ?out i, OF _ record_msg_new [OF hm _ me(2,3) target, of ?out i b n]]
      out new open' by (auto simp: outgoing_of_def)
  let ?ack = "\<lparr>f_type = ACK, f_sender = PNone, f_to = PNone, f_body = PNone, f_nonce = PNone,
    f_data = [(u ''ref'', f_id f)], f_id = PStr (uuid_src t (draws t)), f_ts = clock_src t (Suc (draws t)), f_v = PInt PROTOCOL_VERSION\<rparr>"
  let ?t' = "with_conn sid (handler_send ?ack) (t\<lparr>draws := Suc (Suc (draws t))\<rparr>)"
  have run: "handle sid f s = (Inr (), ?t')"
    using f me(1) t(1)
    by (simp add: handle_def session_username_def message_def bnd_def send_data_def op_defs send_def)
  have "outbox (conns ?t' sid) = outbox (conns t sid) @ [Item ?ack]"
    using t(4,5) open'(2) by (simp add: with_conn_def handler_send_def)
  moreover have "length (outbox (conns s sid)) \<le> length (outbox (conns t sid))"
    using t(6) by (metis length_take min.cobounded1)
  ultimately have "?ack \<in> set (sent s ?t' sid)"
    by (simp add: sent_def set_frames_in)
  then have "\<exists>g\<in>set (sent s ?t' sid). f_type g = ACK \<and> f_data g = [(u ''ref'', f_id f)]" by force
  with run t(2,3) show ?thesis by (auto simp: with_conn_def)
qed

lemma sample_healthy: "healthy (sample_server\<lparr>clock_src := \<lambda>_. 7\<rparr>)"
  using sample_net_inv by (simp add: healthy_def net_inv_def fits_int64_def sample_server_def dict_keys_def)

theorem offline_message_waits_witness:
  "\<exists>t. handle 2 (msg_frame ''cat'') (sample_server\<lparr>clock_src := \<lambda>_. 7\<rparr>) = (Inr (), t) \<and>
     t_messages t = [stored_row (u ''m1'') (u ''ann'') (u ''cat'') (Some (u ''hi'')) None 5] \<and>
     set (t_pending t) = {(u ''m1'', u ''cat'')}"
proof -
  let ?s = "sample_server\<lparr>clock_src := \<lambda>_. 7\<rparr>"
  have "has_messages ?s" "username (conns ?s 2) = PStr (u ''ann'')" "t_messages ?s = []"
    "sessions_get (PStr (u ''cat'')) (by_name ?s) = None" "find_user (Some (u ''cat'')) ?s \<noteq> None"
    "\<not> closed (conns ?s 2)" "length (outbox (conns ?s 2)) + 2 < OUTBOX_LIMIT" "set (t_pending ?s) = {}"
    by (simp_all add: sample_server_def new_handler_def sessions_get_def find_user_def account_def OUTBOX_LIMIT_def)
  moreover have "storable (u x)" for x by (simp add: storable_def)
  ultimately show ?thesis
    using offline_message_waits [OF sample_healthy, of "msg_frame ''cat''" "u ''cat''" 2 "u ''ann''" "u ''m1''"
        "Some (u ''hi'')" None]
    by (auto simp: msg_frame_def ROOM_PREFIX_def bind_text_def fits_int64_def)
qed

subsection \<open>What a login hands over\<close>

definition queued_frame :: "message_row \<Rightarrow> pyval \<Rightarrow> pyval \<Rightarrow> frame" where
  "queued_frame row body nonce =
     \<lparr>f_type = MSG, f_sender = PStr (m_sender row), f_to = PStr (m_recipient row), f_body = body, f_nonce = nonce,
      f_data = [], f_id = PStr (m_id row), f_ts = m_ts row, f_v = PInt PROTOCOL_VERSION\<rparr>"

text \<open>The body and nonce of a stored message as a reader is to see them: the stored ones, or, when they are a map of
  envelopes, the pair of strings under the reader's own name, if there is one. A map that is valid
  JSON but no object is not readable.\<close>

definition shown_text :: "ustr \<Rightarrow> message_row \<Rightarrow> (pyval \<times> pyval) option" where
  "shown_text reader r =
     (if m_nonce r \<noteq> Some ENVELOPES then Some (text_val (m_body r), text_val (m_nonce r))
      else case m_body r of None \<Rightarrow> None
        | Some text \<Rightarrow> (case loads text of
            Inr (PDict env) \<Rightarrow> (case dict_get env reader of
                Some (PList [b, n]) \<Rightarrow> Some (PStr (py_str b), PStr (py_str n)) | _ \<Rightarrow> None)
          | _ \<Rightarrow> None))"

definition readable :: "message_row \<Rightarrow> bool" where
  "readable r \<longleftrightarrow> (m_nonce r = Some ENVELOPES \<longrightarrow>
     (\<forall>text v. m_body r = Some text \<longrightarrow> loads text = Inr v \<longrightarrow> (\<exists>env. v = PDict env)))"

definition row_frames :: "ustr \<Rightarrow> message_row \<Rightarrow> frame list" where
  "row_frames reader r = (case shown_text reader r of None \<Rightarrow> [] | Some (body, nonce) \<Rightarrow> [queued_frame r body nonce])"

lemma loads_empty: "loads (u ''{}'') = Inr (PDict [])"
  using loads_dumps [of "PDict []"] by (simp add: u_def)

lemma loads_Nil: "\<exists>e. loads [] = Inl e"
  by (simp add: loads_def skip_ws_def numeral_2_eq_2 json_atom_def json_number_def read_int_def startswith_def u_def)

lemma sealed_pair_get: "sealed_pair (pget env n) = (case dict_get env n of
    Some (PList [b, k]) \<Rightarrow> Some (py_str b, py_str k) | _ \<Rightarrow> None)"
  by (auto simp: sealed_pair_def pget_def split: option.split pyval.split list.split)

lemma reader_view_eq: "reader_view r (PStr n) = (if readable r then Inr (shown_text n r) else Inl Attribute_Error)"
proof (cases "m_nonce r = Some ENVELOPES")
  case True
  obtain e where e: "loads [] = Inl e" using loads_Nil by blast
  let ?text = "case m_body r of Some b \<Rightarrow> if b = [] then u ''{}'' else b | None \<Rightarrow> u ''{}''"
  show ?thesis
  proof (cases "m_body r = None \<or> m_body r = Some []")
    case none: True
    then have "?text = u ''{}''" by auto
    then have "reader_view r (PStr n) = Inr None" using True by (simp add: reader_view_def loads_empty sealed_pair_def)
    moreover have "readable r" "shown_text n r = None" using none True e by (auto simp: readable_def shown_text_def)
    ultimately show ?thesis by simp
  next
    case False
    then obtain b where "m_body r = Some b" "b \<noteq> []" by auto
    then show ?thesis
      using True by (auto simp: reader_view_def readable_def shown_text_def sealed_pair_get
          split: sum.split pyval.split option.split list.split)
  qed
qed (simp add: reader_view_def readable_def shown_text_def)

lemma readable_direct: "m_nonce r \<noteq> Some ENVELOPES \<Longrightarrow> readable r \<and>
    row_frames reader r = [queued_frame r (text_val (m_body r)) (text_val (m_nonce r))]"
  by (simp add: readable_def row_frames_def shown_text_def)

definition send_all :: "frame list \<Rightarrow> handler \<Rightarrow> handler" where
  "send_all fs = fold handler_send fs"

text \<open>A connection takes what its outbox has room for; one frame more closes it.\<close>

lemma send_all_outbox:
  assumes "\<not> closed h" and "length (outbox h) \<le> OUTBOX_LIMIT"
  shows "outbox (send_all fs h) = outbox h @ map Item (take (OUTBOX_LIMIT - length (outbox h)) fs) \<and>
    (closed (send_all fs h) \<longleftrightarrow> OUTBOX_LIMIT - length (outbox h) < length fs)"
  using assms
proof (induction fs arbitrary: h)
  case (Cons f fs)
  have shut: "send_all fs h = h" if "closed h" for h
    using that unfolding send_all_def by (induction fs) (simp_all add: handler_send_def)
  have step: "send_all (f # fs) h = send_all fs (handler_send f h)" by (simp add: send_all_def)
  show ?case
  proof (cases "length (outbox h) < OUTBOX_LIMIT")
    case True
    then have "OUTBOX_LIMIT - length (outbox h) = Suc (OUTBOX_LIMIT - Suc (length (outbox h)))" by simp
    then show ?thesis using Cons.IH [of "handler_send f h"] Cons.prems True unfolding step by (simp add: handler_send_def)
  next
    case False
    then have "handler_send f h = h\<lparr>closed := True\<rparr>" using Cons.prems by (simp add: handler_send_def handler_close_def)
    then show ?thesis using False unfolding step by (simp add: shut)
  qed
qed (simp add: send_all_def)

lemma with_conn_twice: "with_conn c g (with_conn c f s) = with_conn c (\<lambda>h. g (f h)) s"
  by (simp add: with_conn_def)

lemma with_conn_id: "with_conn c (\<lambda>h. h) s = s" "with_conn c id s = s"
  by (simp_all add: with_conn_def)

lemma flush_row_run:
  "flush_row sid (PStr n) r s =
     (if readable r then (Inr (), with_conn sid (send_all (row_frames n r)) s) else (Inl Attribute_Error, s))"
  by (simp add: flush_row_def reader_view_eq row_frames_def queued_frame_def bnd_def send_def send_all_def with_conn_id
      split: option.split prod.split)

lemma flush_rows_run:
  "for_each rs (flush_row sid (PStr n)) s =
     (if list_all readable rs then Inr () else Inl Attribute_Error,
      with_conn sid (send_all (concat (map (row_frames n) (takeWhile readable rs)))) s)"
proof (induction rs arbitrary: s)
  case Nil
  then show ?case by (simp add: send_all_def with_conn_id)
next
  case (Cons r rs)
  then show ?case
    by (simp add: andthen_def bnd_def flush_row_run with_conn_twice) (simp add: send_all_def with_conn_id comp_def)
qed

lemma for_each_send: "for_each cs (\<lambda>c. send c f) s = (Inr (), fold (\<lambda>c. with_conn c (handler_send f)) cs s)"
  by (induction cs arbitrary: s) (simp_all add: send_def)

lemma fold_with_conn_other:
  "c \<notin> set cs \<Longrightarrow> conns (fold (\<lambda>c. with_conn c g) cs s) c = conns s c"
  by (induction cs arbitrary: s) (simp_all add: with_conn_def)

lemma fold_with_conn_db:
  "t_pending (fold (\<lambda>c. with_conn c g) cs s) = t_pending s" "t_messages (fold (\<lambda>c. with_conn c g) cs s) = t_messages s"
  "has_messages (fold (\<lambda>c. with_conn c g) cs s) = has_messages s" "by_name (fold (\<lambda>c. with_conn c g) cs s) = by_name s"
  by (induction cs arbitrary: s) (simp_all add: with_conn_def)

lemma announce_run:
  "\<exists>t. announce name st s = (Inr (), t) \<and> (\<forall>c. c \<notin> set (sessions_others name (by_name s)) \<longrightarrow> conns t c = conns s c) \<and>
     t_pending t = t_pending s \<and> t_messages t = t_messages s \<and> has_messages t = has_messages s \<and>
     by_name t = by_name s"
  by (simp add: announce_def op_defs bnd_def for_each_send fold_with_conn_other fold_with_conn_db)

lemma others_not_me: "net_inv s \<Longrightarrow> username (conns s sid) = name \<Longrightarrow> sid \<notin> set (sessions_others name (by_name s))"
  by (auto simp: net_inv_def sessions_others_def)

lemma login_ok_run:
  assumes "healthy s" and "storable name"
  shows "\<exists>g n. f_type g = LOGIN_OK \<and> login_ok sid (PStr name) s = (Inr (), with_conn sid (handler_send g) (s\<lparr>draws := n\<rparr>))"
proof -
  obtain xs where xs: "usernames s = (Inr xs, s)" using usernames_ok [OF assms(1)] by blast
  obtain x where x: "contact_states (PStr name) s = (Inr x, s)"
    using contact_states_ok [OF assms(1)] assms(2) by fastforce
  show ?thesis
    using assms(2) by (simp add: login_ok_def bnd_def xs x rooms_of_def op_defs send_def) (rule exI, rule conjI [OF _ exI], rule_tac [2] refl, simp)
qed

lemma users_verify_True:
  assumes "outcome (users_verify x p) s = Inr True"
  shows "users_verify x p s = (Inr True, s)"
  using assms
  by (auto simp: users_verify_def users_derive_def bnd_def andthen_def op_defs
      split: sum.splits option.splits pyval.splits)

lemma frames_in_Items [simp]: "frames_in (map Item fs) = fs"
  by (induction fs) auto

lemma strs_of_snoc: "strs_of xs \<noteq> None \<Longrightarrow> strs_of (xs @ [PStr n]) \<noteq> None"
  by (induction xs rule: strs_of.induct) auto

text \<open>A login up to the point where the queue is handed over.\<close>

lemma login_until_flush:
  assumes h: "healthy s" and hm: "has_messages s"
    and f: "f_type f = LOGIN" "pget (f_data f) (u ''user'') = PStr name" "name \<noteq> []" "storable name"
      "pget (f_data f) (u ''pass_hash'') = pass" "py_truthy pass"
    and new: "username (conns s sid) = PNone" "outbox (conns s sid) = []" "\<not> closed (conns s sid)"
    and good: "outcome (users_verify (PStr name) pass) s = Inr True"
    and off: "sessions_get (PStr name) (by_name s) = None"
  shows "\<exists>g s3. f_type g = LOGIN_OK \<and> handle sid f s = flush_pending sid (PStr name) s3 \<and>
    has_messages s3 \<and> t_messages s3 = t_messages s \<and> t_pending s3 = t_pending s \<and>
    conns s3 sid = (conns s sid)\<lparr>username := PStr name, outbox := [Item g]\<rparr> \<and>
    sessions_get (PStr name) (by_name s3) = Some sid"
proof -
  note v = users_verify_True [OF good]
  let ?s1 = "with_conn sid (\<lambda>h. h\<lparr>username := PStr name\<rparr>) (s\<lparr>by_name := by_name s @ [(PStr name, sid)]\<rparr>)"
  have inv1: "net_inv ?s1" using h new off by (intro claim_inv) (simp_all add: healthy_def)
  then have h1: "healthy ?s1"
    using h strs_of_snoc [of "dict_keys (by_name s)" name] by (simp add: healthy_def with_conn_def dict_keys_def)
  obtain g n where g: "f_type g = LOGIN_OK"
    "login_ok sid (PStr name) ?s1 = (Inr (), with_conn sid (handler_send g) (?s1\<lparr>draws := n\<rparr>))"
    using login_ok_run [OF h1 f(4)] by blast
  let ?s2 = "with_conn sid (handler_send g) (?s1\<lparr>draws := n\<rparr>)"
  have "sid \<notin> set (sessions_others (PStr name) (by_name ?s2))"
    using others_not_me [OF inv1, of sid "PStr name"] by (simp add: with_conn_def)
  then obtain s3 where s3: "announce (PStr name) ''ONLINE'' ?s2 = (Inr (), s3)" "conns s3 sid = conns ?s2 sid"
    "t_pending s3 = t_pending s" "t_messages s3 = t_messages s" "has_messages s3" "by_name s3 = by_name ?s1"
    using announce_run [of "PStr name" "''ONLINE''" ?s2] hm by (auto simp: with_conn_def)
  have "handle sid f s = flush_pending sid (PStr name) s3"
    using f new(1) off v g(2) s3(1)
    by (simp add: handle_def login_def Let_def session_username_def bnd_def claim_name_run andthen_def)
  moreover have "conns s3 sid = (conns s sid)\<lparr>username := PStr name, outbox := [Item g]\<rparr>"
    using s3(2) new by (simp add: with_conn_def handler_send_def OUTBOX_LIMIT_def)
  moreover have "sessions_get (PStr name) (by_name s3) = Some sid"
    using s3(6) off by (simp add: with_conn_def sessions_get_def find_append)
  ultimately show ?thesis using g(1) s3(3-5) by blast
qed

lemma login_run:
  assumes h: "healthy s" and hm: "has_messages s"
    and f: "f_type f = LOGIN" "pget (f_data f) (u ''user'') = PStr name" "name \<noteq> []" "storable name"
      "pget (f_data f) (u ''pass_hash'') = pass" "py_truthy pass"
    and new: "username (conns s sid) = PNone" "outbox (conns s sid) = []" "\<not> closed (conns s sid)"
    and good: "outcome (users_verify (PStr name) pass) s = Inr True"
    and off: "sessions_get (PStr name) (by_name s) = None"
  shows "\<exists>t g fs. fs = concat (map (row_frames name) (takeWhile readable (pending_rows (Some name) s))) \<and>
    handle sid f s = (if list_all readable (pending_rows (Some name) s) then Inr () else Inl Attribute_Error, t) \<and>
    f_type g = LOGIN_OK \<and> sent s t sid = g # take (OUTBOX_LIMIT - 1) fs \<and>
    (closed (conns t sid) \<longleftrightarrow> OUTBOX_LIMIT \<le> length fs) \<and>
    sessions_get (PStr name) (by_name t) = Some sid \<and>
    t_pending t = filter (\<lambda>p. snd p \<noteq> name) (t_pending s)"
proof -
  obtain g s3 where g: "f_type g = LOGIN_OK" "handle sid f s = flush_pending sid (PStr name) s3" "has_messages s3"
    "t_messages s3 = t_messages s" "t_pending s3 = t_pending s"
    "conns s3 sid = (conns s sid)\<lparr>username := PStr name, outbox := [Item g]\<rparr>"
    "sessions_get (PStr name) (by_name s3) = Some sid"
    using login_until_flush [OF h hm f new good off] by blast
  let ?rows = "pending_rows (Some name) s"
  let ?fs = "concat (map (row_frames name) (takeWhile readable ?rows))"
  let ?t = "with_conn sid (send_all ?fs) (s3\<lparr>t_pending := filter (\<lambda>p. snd p \<noteq> name) (t_pending s)\<rparr>)"
  have "pending_rows (Some name) s3 = ?rows" using g by (simp add: pending_rows_def)
  then have run: "handle sid f s = (if list_all readable ?rows then Inr () else Inl Attribute_Error, ?t)"
    using g(2,3,5) f(4) by (simp add: flush_pending_def bnd_def messages_flush_run flush_rows_run)
  let ?h = "(conns s sid)\<lparr>username := PStr name, outbox := [Item g]\<rparr>"
  have "outbox (send_all ?fs ?h) = outbox ?h @ map Item (take (OUTBOX_LIMIT - length (outbox ?h)) ?fs) \<and>
      (closed (send_all ?fs ?h) \<longleftrightarrow> OUTBOX_LIMIT - length (outbox ?h) < length ?fs)"
    using new(3) by (intro send_all_outbox) (simp_all add: OUTBOX_LIMIT_def)
  then have "sent s ?t sid = g # take (OUTBOX_LIMIT - 1) ?fs" "closed (conns ?t sid) \<longleftrightarrow> OUTBOX_LIMIT \<le> length ?fs"
    using g(6) new(2) by (auto simp: sent_def with_conn_def OUTBOX_LIMIT_def)
  moreover have "sessions_get (PStr name) (by_name ?t) = Some sid" using g(7) by (simp add: with_conn_def)
  moreover have "t_pending ?t = filter (\<lambda>p. snd p \<noteq> name) (t_pending s)" by (simp add: with_conn_def)
  ultimately show ?thesis using run g(1) by blast
qed

text \<open>C13: what a login hands over. When somebody who is not online logs in with the right password on a fresh
  connection, the connection is sent LOGIN_OK followed by the queued messages, oldest first, each with
  its stored sender, id and time and with the body and nonce this reader is to see; a room message
  without an envelope for them is passed over. The queue for them is empty afterwards, whatever
  happened. Two things cut the handing over short, and the rest of the queue is then lost: a row whose
  map of envelopes is JSON but no object, at which the handler raises, and an outbox of 1000 items,
  which takes LOGIN_OK and 999 messages and closes the connection at the next. When every row is
  readable and there are fewer than 1000 frames, everything is handed over, the handler returns and the
  connection stays open. The server's clock is taken to fit the database and the names in its
  registry to be strings (\<open>healthy\<close>).\<close>

theorem login_hands_over_queue:
  assumes h: "healthy s" and hm: "has_messages s"
    and f: "f_type f = LOGIN" "pget (f_data f) (u ''user'') = PStr name" "name \<noteq> []" "storable name"
      "pget (f_data f) (u ''pass_hash'') = pass" "py_truthy pass"
    and new: "username (conns s sid) = PNone" "outbox (conns s sid) = []" "\<not> closed (conns s sid)"
    and good: "outcome (users_verify (PStr name) pass) s = Inr True"
    and off: "sessions_get (PStr name) (by_name s) = None"
  shows "\<exists>t g fs. fs = concat (map (row_frames name) (takeWhile readable (pending_rows (Some name) s))) \<and>
    handle sid f s = (if list_all readable (pending_rows (Some name) s) then Inr () else Inl Attribute_Error, t) \<and>
    f_type g = LOGIN_OK \<and> sent s t sid = g # take (OUTBOX_LIMIT - 1) fs \<and>
    (closed (conns t sid) \<longleftrightarrow> OUTBOX_LIMIT \<le> length fs) \<and>
    sessions_get (PStr name) (by_name t) = Some sid \<and>
    t_pending t = filter (\<lambda>p. snd p \<noteq> name) (t_pending s)"
  using assms by (rule login_run)

text \<open>The same server with a message waiting for cat.\<close>

definition waiting_server :: server where
  "waiting_server = sample_server\<lparr>clock_src := \<lambda>_. 7,
     t_messages := [stored_row (u ''m1'') (u ''ann'') (u ''cat'') (Some (u ''hi'')) None 5],
     t_pending := [(u ''m1'', u ''cat'')]\<rparr>"

definition login_frame :: "pyval \<Rightarrow> frame" where
  "login_frame name = \<lparr>f_type = LOGIN, f_sender = PNone, f_to = PNone, f_body = PNone, f_nonce = PNone,
     f_data = [(u ''user'', name), (u ''pass_hash'', PStr (u ''h''))], f_id = PStr (u ''l''), f_ts = 6, f_v = PInt 1\<rparr>"

lemma waiting_facts:
  "healthy waiting_server" "has_messages waiting_server"
  "username (conns waiting_server 4) = PNone" "outbox (conns waiting_server 4) = []" "\<not> closed (conns waiting_server 4)"
  "sessions_get (PStr (u ''cat'')) (by_name waiting_server) = None"
  "t_pending waiting_server = [(u ''m1'', u ''cat'')]"
  "pending_rows (Some (u ''cat'')) waiting_server = t_messages waiting_server"
  "list_all readable (t_messages waiting_server)"
  "length (t_messages waiting_server) < OUTBOX_LIMIT"
  "outcome (users_verify (PStr (u ''cat'')) (PStr (u ''h''))) waiting_server = Inr True"
proof -
  show "healthy waiting_server"
    using sample_healthy by (simp add: waiting_server_def healthy_def net_inv_def)
  show "outcome (users_verify (PStr (u ''cat'')) (PStr (u ''h''))) waiting_server = Inr True"
    by (simp add: users_verify_def users_derive_def bnd_def find_user_def waiting_server_def sample_server_def account_def
        utf8_encode_u)
qed (simp_all add: waiting_server_def sample_server_def new_handler_def sessions_get_def pending_rows_def stored_row_def
    readable_direct OUTBOX_LIMIT_def)

lemma login_frame_simps [simp]:
  "f_type (login_frame n) = LOGIN" "pget (f_data (login_frame n)) (u ''user'') = n"
  "pget (f_data (login_frame n)) (u ''pass_hash'') = PStr (u ''h'')"
  by (simp_all add: login_frame_def)

theorem login_hands_over_queue_witness:
  "\<exists>t g. handle 4 (login_frame (PStr (u ''cat''))) waiting_server = (Inr (), t) \<and> f_type g = LOGIN_OK \<and>
     sent waiting_server t 4 = [g, outgoing_of (PStr (u ''ann'')) (msg_frame ''cat'')] \<and> \<not> closed (conns t 4) \<and> t_pending t = []"
proof -
  have "concat (map (row_frames r) (takeWhile readable (t_messages waiting_server))) = [outgoing_of (PStr (u ''ann'')) (msg_frame ''cat'')]" for r
    by (simp add: waiting_server_def stored_row_def readable_direct queued_frame_def outgoing_of_def msg_frame_def text_val_def)
  with login_hands_over_queue [of waiting_server "login_frame (PStr (u ''cat''))" "u ''cat''" "PStr (u ''h'')" 4] waiting_facts
  show ?thesis by (auto simp: storable_def OUTBOX_LIMIT_def)
qed

subsection \<open>Sessions need a password\<close>

lemma send_error_net: "net (after (send_error sid code msg) s) = net s"
  using send_error_speaks [of "net s" PNone sid code msg] unfolding runs_in_def acts_def by blast

lemma users_verify_net: "users_verify x p s = (r, t) \<Longrightarrow> net t = net s" for s :: "'z server_scheme"
  using runs_inD [OF store_ext(2)] same_net_server(2) by blast

text \<open>C6: nobody becomes anybody without the password. If handling a frame changes who is logged in
  anywhere, the frame was a LOGIN on a connection that had no name yet, its password hash
  verified for the name it asked for, and nobody was connected under that name.\<close>

theorem session_needs_password:
  assumes "net (after (handle sid f) s) \<noteq> net s"
  shows "f_type f = LOGIN \<and> username (conns s sid) = PNone \<and>
    outcome (users_verify (pget (f_data f) (u ''user'')) (pget (f_data f) (u ''pass_hash''))) s = Inr True \<and>
    sessions_get (pget (f_data f) (u ''user'')) (by_name s) = None"
proof -
  let ?name = "pget (f_data f) (u ''user'')" and ?pass = "pget (f_data f) (u ''pass_hash'')"
  have "f_type f = LOGIN"
    using assms handle_speaks [of f "net s" sid] by (auto simp: runs_in_def acts_def)
  then have ch: "net (after (login sid f) s) \<noteq> net s" using assms by (simp add: handle_def)
  obtain r t where v: "users_verify ?name ?pass s = (r, t)" by fastforce
  note vt = users_verify_net [OF v]
  then have bt: "by_name t = by_name s" by (simp add: net_def)
  have "username (conns s sid) = PNone \<and> r = Inr True"
    using ch v vt send_error_net [of sid] 
    by (cases r) (auto simp: login_def session_username_def Let_def bnd_def split: if_splits)
  moreover from this have "sessions_get ?name (by_name s) = None"
    using ch v vt bt send_error_net [of sid]
    by (auto simp: login_def session_username_def Let_def bnd_def claim_name_run split: if_splits option.splits)
  ultimately show ?thesis using \<open>f_type f = LOGIN\<close> v by simp
qed

theorem session_needs_password_witness:
  "outcome (users_verify (PStr (u ''cat'')) (PStr (u ''h''))) waiting_server = Inr True \<and>
   net (after (handle 4 (login_frame (PStr (u ''cat'')))) waiting_server) \<noteq> net waiting_server"
proof -
  obtain t where "handle 4 (login_frame (PStr (u ''cat''))) waiting_server = (Inr (), t)"
      "sessions_get (PStr (u ''cat'')) (by_name t) = Some 4"
    using login_run [of waiting_server "login_frame (PStr (u ''cat''))" "u ''cat''" "PStr (u ''h'')" 4] waiting_facts
    by (auto simp: storable_def)
  then have "net (after (handle 4 (login_frame (PStr (u ''cat'')))) waiting_server) \<noteq> net waiting_server"
    using waiting_facts(6) by (auto simp: net_def)
  with session_needs_password [OF this] show ?thesis by simp
qed

lemma send_error_run:
  "\<exists>g. send_error sid code msg s = (Inr (), with_conn sid (handler_send g) (s\<lparr>draws := Suc (Suc (draws s))\<rparr>)) \<and>
     f_type g = ERROR \<and> f_data g = [(u ''code'', PStr (u code)), (u ''message'', PStr msg)]"
  by (rule exI [of _ "\<lparr>f_type = ERROR, f_sender = PNone, f_to = PNone, f_body = PNone, f_nonce = PNone,
        f_data = [(u ''code'', PStr (u code)), (u ''message'', PStr msg)], f_id = PStr (uuid_src s (draws s)),
        f_ts = clock_src s (Suc (draws s)), f_v = PInt PROTOCOL_VERSION\<rparr>"])
     (simp add: send_error_def op_defs bnd_def send_def)

text \<open>C38: a connection that is not logged in gets nothing but an error. Every frame other than PING,
  REGISTER and LOGIN is answered with NOT_LOGGED_IN and has no other effect.\<close>

theorem not_logged_in_refused:
  assumes "username (conns s sid) = PNone" and "f_type f \<notin> {PING, REGISTER, LOGIN}"
  shows "\<exists>g. handle sid f s = (Inr (), with_conn sid (handler_send g) (s\<lparr>draws := Suc (Suc (draws s))\<rparr>)) \<and>
    f_type g = ERROR \<and> dict_get (f_data g) (u ''code'') = Some (PStr (u ''NOT_LOGGED_IN''))"
proof -
  have "handle sid f s = send_error sid ''NOT_LOGGED_IN'' (u ''log in before sending anything else'') s"
    using assms by (cases "f_type f") (simp_all add: handle_def session_username_def)
  with send_error_run [of sid "''NOT_LOGGED_IN''" "u ''log in before sending anything else''" s] show ?thesis by auto
qed

theorem not_logged_in_refused_witness:
  "\<exists>g. handle 4 (msg_frame ''bob'') sample_server =
     (Inr (), with_conn 4 (handler_send g) (sample_server\<lparr>draws := Suc (Suc (draws sample_server))\<rparr>)) \<and> f_type g = ERROR"
proof -
  have "username (conns sample_server 4) = PNone" "f_type (msg_frame ''bob'') \<notin> {PING, REGISTER, LOGIN}"
    by (simp_all add: sample_server_def new_handler_def msg_frame_def)
  from not_logged_in_refused [OF this] show ?thesis by blast
qed

end
