(* ===== verification/Membership.thy ===== *)
theory Membership
  imports Delivery
begin

section \<open>Membership: who may change a room, and who may read it\<close>

text \<open>
  How the table of memberships changes while a frame is handled, and what a HISTORY reply may
  contain.
\<close>

subsection \<open>Handlers that leave the rooms alone\<close>

definition same_rooms :: "'z database_scheme \<Rightarrow> 'z database_scheme \<Rightarrow> bool" where
  "same_rooms s t \<longleftrightarrow> t_rooms t = t_rooms s \<and> t_members t = t_members s"

interpretation rooms0: world_rel same_rooms
  by unfold_locales (auto simp: same_rooms_def)

lemma rooms_modify: "(\<And>s. same_rooms s (g s)) \<Longrightarrow> runs_in same_rooms (modify g)"
  by (simp add: runs_in_modify)

lemma users_derive_rooms: "runs_in same_rooms (users_derive p salt :: ('z database_scheme, byte list) py)"
  unfolding users_derive_def by (auto intro!: rooms0.world_rules split: pyval.split)

lemma store_rooms:
  "runs_in same_rooms (users_register n p k)" "runs_in same_rooms (users_verify x p)"
  "runs_in same_rooms (users_exists n)" "runs_in same_rooms (users_pubkey n)"
  "runs_in same_rooms (contacts_add x c t)" "runs_in same_rooms (contacts_remove x c)" "runs_in same_rooms (contacts_of x)"
  "runs_in same_rooms (rooms_members r)" "runs_in same_rooms (rooms_exists r)" "runs_in same_rooms (rooms_of x)"
  "runs_in same_rooms (messages_record x c y r b z t)" "runs_in same_rooms (messages_queue_for n x)"
  "runs_in same_rooms (messages_mark i st t)" "runs_in same_rooms (messages_flush x)"
  "runs_in same_rooms (messages_history c bef l)"
  unfolding users_register_def users_verify_def users_exists_def users_pubkey_def contacts_add_def
    contacts_remove_def contacts_of_def rooms_members_def rooms_exists_def rooms_of_def messages_record_def
    messages_queue_for_def messages_mark_def messages_flush_def messages_history_def
  by (auto intro!: rooms0.world_rules rooms_modify users_derive_rooms simp: same_rooms_def
      split: option.split prod.split)

interpretation rooms_kept: filing_rel same_rooms
  by unfold_locales (auto simp: store_rooms same_rooms_def with_conn_def)

subsection \<open>Handlers that change a room\<close>

text \<open>Sending, and looking things up, also leaves the accounts alone.\<close>

definition same_accounts :: "'z database_scheme \<Rightarrow> 'z database_scheme \<Rightarrow> bool" where
  "same_accounts s t \<longleftrightarrow> same_rooms s t \<and> t_users t = t_users s"

interpretation acc: world_rel same_accounts
  by unfold_locales (auto simp: same_accounts_def same_rooms_def)

lemma send_accounts: "runs_in same_accounts (send c f)"
  by (simp add: send_def runs_in_modify same_accounts_def same_rooms_def with_conn_def)

lemma lookups_accounts:
  "runs_in same_accounts (rooms_members r)" "runs_in same_accounts (rooms_exists r)" "runs_in same_accounts (users_exists n)"
  unfolding rooms_members_def rooms_exists_def users_exists_def by (intro acc.world_rules)+

lemma answers_accounts:
  "runs_in same_accounts (session_username sid)" "runs_in same_accounts (send_error sid code msg)"
  "runs_in same_accounts (broadcast_room_state r)"
  unfolding session_username_def send_error_def error_frame_def data_frame_def new_frame_def broadcast_room_state_def room_state_def
    send_if_online_def find_session_def
  by (intro acc.world_rules send_accounts lookups_accounts)+

text \<open>Memberships are only added, and only from \<open>A\<close>, as long as the accounts are \<open>U\<close>.\<close>

definition adds :: "user_row list \<Rightarrow> (ustr \<times> ustr) set \<Rightarrow> 'z database_scheme \<Rightarrow> 'z database_scheme \<Rightarrow> bool" where
  "adds U A s t \<longleftrightarrow> (t_users s = U \<longrightarrow> t_users t = U \<and>
     set (t_members s) \<subseteq> set (t_members t) \<and> set (t_members t) \<subseteq> set (t_members s) \<union> A)"

interpretation grow: world_rel "adds U A" for U A
  by unfold_locales (auto simp: adds_def)

lemma same_adds: "runs_in same_accounts m \<Longrightarrow> runs_in (adds U A) m"
  by (simp add: runs_in_def same_accounts_def same_rooms_def adds_def)

lemma rooms_create_adds: "runs_in (adds U A) (rooms_create r)"
  unfolding rooms_create_def
  by (intro grow.world_rules) (simp add: runs_in_modify adds_def)

lemma rooms_join_adds:
  "(\<And>n. bind_text x = Inr (Some n) \<Longrightarrow> (r, n) \<in> A) \<Longrightarrow> runs_in (adds U A) (rooms_join r x)"
  unfolding rooms_join_def
  by (intro grow.world_rules grow.runs_lift)
     (auto simp: runs_in_modify adds_def insert_room_def insert_member_def split: option.split)

lemma users_exists_True: "users_exists n s = (Inr True, t) \<Longrightarrow> t = s \<and> n \<in> u_username ` set (t_users s)"
  by (auto simp: users_exists_def bnd_def find_user_def bind_text_PStr find_Some_iff split: sum.splits if_splits dest!: nth_mem)

text \<open>The people a frame names in its \<open>members\<close>: at most 64 are looked at.\<close>

definition names_person :: "frame \<Rightarrow> ustr \<Rightarrow> bool" where
  "names_person f n \<longleftrightarrow> (\<exists>xs. pget (f_data f) (u ''members'') = PList xs \<and> n \<in> py_str ` set (take 64 xs))"

lemma add_each_adds:
  assumes "{r} \<times> (set names \<inter> u_username ` set U) \<subseteq> A"
  shows "runs_in (adds U A) (add_each r names :: ('z server_scheme, ustr list) py)"
  using assms
proof (induction names)
  case (Cons name names)
  let ?test = "if name = [] \<or> is_room name then ret False else users_exists name :: ('z server_scheme, bool) py"
  let ?add = "andthen (rooms_join r (PStr name)) (bnd (add_each r names :: ('z server_scheme, ustr list) py) (\<lambda>added. ret (name # added)))"
  have IH: "runs_in (adds U A) (add_each r names :: ('z server_scheme, ustr list) py)" by (rule Cons.IH) (use Cons.prems in auto)
  have "adds U A s (after (add_each r (name # names)) s)" for s :: "'z server_scheme"
  proof (cases "outcome ?test s = Inr True \<and> t_users s = U")
    case True
    then have ok: "\<not> (name = [] \<or> is_room name)" "outcome (users_exists name) s = Inr True" "t_users s = U" by (auto split: if_splits)
    then have e: "users_exists name s = (Inr True, s)" and n: "name \<in> u_username ` set U"
      using users_exists_True [of name s] by (cases "users_exists name s"; auto)+
    have "add_each r (name # names) s = ?add s" unfolding add_each.simps if_not_P [OF ok(1)] by (simp add: bnd_Inr [of "users_exists name" s, OF e])
    moreover have "runs_in (adds U A) ?add"
      by (intro grow.world_rules rooms_join_adds IH) (use n Cons.prems in \<open>auto simp: bind_text_PStr split: if_splits\<close>)
    ultimately show ?thesis using runs_at [of "adds U A" ?add s] by simp
  next
    case False
    have "runs_in same_accounts ?test" by (intro acc.world_rules lookups_accounts)
    then obtain x w where w: "?test s = (x, w)" "adds U A s w" using runs_inD [OF same_adds] by (cases "?test s") blast
    show ?thesis
    proof (cases "t_users s = U")
      case True
      then have "x \<noteq> Inr True" using False w(1) by auto
      then have "after (add_each r (name # names)) s = w \<or> add_each r (name # names) s = add_each r names w"
        using w(1) by (cases x) (auto simp: bnd_def)
      then show ?thesis using w(2) grow.R_trans [OF w(2) runs_at [OF IH]] by metis
    qed (simp add: adds_def)
  qed
  then show ?case by (simp add: runs_in_def)
qed (simp add: runs_in_def grow.R_refl)

lemma add_members_adds:
  assumes "\<And>n. names_person f n \<Longrightarrow> n \<in> u_username ` set U \<Longrightarrow> (r, n) \<in> A"
  shows "runs_in (adds U A) (add_members r (pget (f_data f) (u ''members'')))"
proof (cases "\<exists>xs. pget (f_data f) (u ''members'') = PList xs")
  case True
  then obtain xs where xs: "pget (f_data f) (u ''members'') = PList xs" by blast
  have "runs_in (adds U A) (add_each r (map py_str (take 64 xs)))"
    by (rule add_each_adds) (use assms xs in \<open>auto simp: names_person_def\<close>)
  then show ?thesis by (simp add: xs add_members_def)
next
  case False
  then have "add_members r (pget (f_data f) (u ''members'')) = ret []"
    by (cases "pget (f_data f) (u ''members'')") (auto simp: add_members_def)
  then show ?thesis using grow.runs_pure(1) by metis
qed

lemmas adds_rules = grow.world_rules rooms_create_adds add_members_adds
  answers_accounts [THEN same_adds] lookups_accounts [THEN same_adds]

text \<open>A room name is answered only when the field holds one, and then nothing else happened.\<close>

lemma bad_room: "\<exists>e. \<forall>msg. andthen (send_error sid code msg) (ret x) s = (Inr x, e msg)"
proof (rule choice, rule allI)
  fix msg
  obtain t where "send_error sid code msg s = (Inr (), t)" using send_error_run by blast
  then show "\<exists>t. andthen (send_error sid code msg) (ret x) s = (Inr x, t)"
    by (simp add: andthen_Inr [of "send_error sid code msg" s])
qed

lemma room_name_run:
  "(\<exists>r. room_name sid f s = (Inr (Some r), s) \<and> pget (f_data f) (u ''room'') = PStr r \<and> is_room r) \<or>
   (\<exists>t. room_name sid f s = (Inr None, t))"
proof -
  obtain e where "andthen (send_error sid ''BAD_ROOM'' msg) (ret (None :: ustr option)) s = (Inr None, e msg)" for msg
    using bad_room by metis
  then show ?thesis
    unfolding room_name_def Let_def by (cases "pget (f_data f) (u ''room'')") (simp_all add: ret_def)
qed

lemma room_name_accounts: "runs_in same_accounts (room_name sid f)"
  unfolding room_name_def Let_def by (auto intro!: acc.world_rules answers_accounts split: pyval.split)

lemma room_name_cases:
  obtains (named) r where "room_name sid f s = (Inr (Some r), s)" "pget (f_data f) (u ''room'') = PStr r" "is_room r"
  | (refused) t where "room_name sid f s = (Inr None, t)" "same_accounts s t"
  using room_name_run [of sid f s] runs_inD [OF room_name_accounts] by blast

text \<open>What each of the four may do.\<close>

lemma error_rooms: "same_rooms s (after (send_error sid code msg) s)"
  by (rule runs_at [OF rooms_kept.sends_R(1)])

lemma error_adds: "adds U A s (after (send_error sid code msg) s)"
  by (rule runs_at [OF answers_accounts(2) [THEN same_adds]])

lemma create_room_adds:
  "adds (t_users s) {(r, n). pget (f_data f) (u ''room'') = PStr r \<and> r \<notin> fst ` set (t_rooms s) \<and>
      (bind_text (username (conns s sid)) = Inr (Some n) \<or> names_person f n \<and> n \<in> u_username ` set (t_users s))}
     s (after (create_room sid f) s)"
    (is "adds ?U ?A s _")
proof (cases rule: room_name_cases [of sid f s])
  case (named r)
  show ?thesis
  proof (cases "r \<in> fst ` set (t_rooms s)")
    case True
    then have "create_room sid f s = (case bind_text (PStr r) of Inl e \<Rightarrow> (Inl e, s)
       | Inr _ \<Rightarrow> send_error sid ''ROOM_EXISTS'' (r @ u '' already exists -- JOIN it instead'') s)"
      by (simp add: create_room_def bnd_def named rooms_create_def transaction_def split: sum.split)
    then show ?thesis
      by (cases "bind_text (PStr r)") (simp_all add: error_adds grow.R_refl)
  next
    case False
    let ?me = "username (conns s sid)"
    let ?rest = "andthen (rooms_join r ?me) (andthen (add_members r (pget (f_data f) (u ''members''))) (broadcast_room_state r))"
    have rest: "runs_in (adds ?U ?A) ?rest"
      by (intro adds_rules rooms_join_adds; use False named in auto)
    obtain x w where w: "rooms_create r s = (x, w)" by (cases "rooms_create r s")
    have conns: "conns w = conns s" using runs_inD [OF store_ext(8) w] by (rule same_net_server(1))
    let ?m = "bnd (rooms_create r) (\<lambda>made.
           if \<not> made then send_error sid ''ROOM_EXISTS'' (r @ u '' already exists -- JOIN it instead'') else ?rest)"
    have "create_room sid f s = ?m s"
      using named(1) w conns by (cases x) (simp_all add: create_room_def bnd_def session_username_def)
    moreover have "runs_in (adds ?U ?A) ?m" by (intro adds_rules rest)
    ultimately show ?thesis using runs_at [of "adds ?U ?A" ?m s] by simp
  qed
next
  case (refused t)
  then show ?thesis by (simp add: create_room_def bnd_def same_accounts_def same_rooms_def adds_def)
qed

lemma join_room_adds:
  "adds (t_users s) {(r, n). pget (f_data f) (u ''room'') = PStr r \<and> r \<in> fst ` set (t_rooms s) \<and>
      bind_text (username (conns s sid)) = Inr (Some n)}
     s (after (join_room sid f) s)" (is "adds ?U ?A s _")
proof (cases rule: room_name_cases [of sid f s])
  case (named r)
  let ?me = "username (conns s sid)"
  have ok: "adds ?U ?A s (after (andthen (rooms_join r ?me) (broadcast_room_state r)) s)" if "r \<in> fst ` set (t_rooms s)"
    by (rule runs_at) (intro adds_rules rooms_join_adds; use named that in auto)
  have "join_room sid f s = (case bind_text (PStr r) of Inl e \<Rightarrow> (Inl e, s) | Inr _ \<Rightarrow>
      if r \<in> fst ` set (t_rooms s) then andthen (rooms_join r ?me) (broadcast_room_state r) s
      else send_error sid ''NO_SUCH_ROOM'' (r @ u '' does not exist -- CREATE_ROOM first'') s)"
    using named(1)
    by (simp add: join_room_def bnd_Inr [of "room_name sid f" s] rooms_exists_run session_username_def split: sum.split)
  then show ?thesis
    using ok by (cases "bind_text (PStr r)") (simp_all add: grow.R_refl error_adds)
next
  case (refused t)
  then show ?thesis by (simp add: join_room_def bnd_def same_accounts_def same_rooms_def adds_def)
qed

definition invite_rest :: "nat \<Rightarrow> frame \<Rightarrow> ustr \<Rightarrow> ('z server_scheme, unit) py" where
  "invite_rest sid f room =
     (let wanted = pget (f_data f) (u ''members'') in
       bnd (add_members room wanted) (\<lambda>added.
       bnd (rooms_members room) (\<lambda>now_in.
       let missing = (case wanted of
             PList xs \<Rightarrow> filter (\<lambda>n. n \<notin> set added \<and> n \<notin> now_in) (map py_str xs) | _ \<Rightarrow> [])
       in andthen
            (if missing = [] then ret ()
             else send_error sid ''NO_SUCH_USER''
                    (u ''not registered: '' @ join (u '', '') (sorted_list_of_set (set missing))))
            (if added = [] then ret () else broadcast_room_state room))))"

lemma invite_adds:
  "adds (t_users s) {(r, n). pget (f_data f) (u ''room'') = PStr r \<and> py_in (username (conns s sid)) (members_of r s) \<and>
      names_person f n \<and> n \<in> u_username ` set (t_users s)}
     s (after (invite sid f) s)" (is "adds ?U ?A s _")
proof (cases rule: room_name_cases [of sid f s])
  case (named r)
  let ?me = "username (conns s sid)"
  have ok: "adds ?U ?A s (after (invite_rest sid f r) s)" if "py_in ?me (members_of r s)"
    unfolding invite_rest_def Let_def by (rule runs_at, intro adds_rules) (use named that in auto)
  have "invite sid f s = (case bind_text (PStr r) of Inl e \<Rightarrow> (Inl e, s) | Inr _ \<Rightarrow>
      if r \<notin> fst ` set (t_rooms s) then send_error sid ''NO_SUCH_ROOM'' (r @ u '' does not exist'') s
      else if py_in ?me (members_of r s) then invite_rest sid f r s
      else send_error sid ''NOT_A_MEMBER'' (u ''join '' @ r @ u '' before inviting anyone to it'') s)"
    using named(1)
    by (simp add: invite_def bnd_Inr [of "room_name sid f" s] rooms_exists_run rooms_members_run session_username_def
        invite_rest_def split: sum.split)
  then show ?thesis
    using ok by (cases "bind_text (PStr r)") (simp_all add: grow.R_refl error_adds)
next
  case (refused t)
  then show ?thesis by (simp add: invite_def bnd_def same_accounts_def same_rooms_def adds_def)
qed

lemma leave_room_members:
  "t_members (after (leave_room sid f) s) = t_members s \<or>
   (\<exists>r n. pget (f_data f) (u ''room'') = PStr r \<and> username (conns s sid) = PStr n \<and> n \<in> members_of r s \<and>
     t_members (after (leave_room sid f) s) = filter (\<lambda>p. p \<noteq> (r, n)) (t_members s))"
proof (cases rule: room_name_cases [of sid f s])
  case (named r)
  let ?me = "username (conns s sid)"
  let ?tail = "andthen (broadcast_room_state r) (bnd (room_state r) (send sid))"
  have tail: "t_members (after ?tail t) = t_members t" for t :: "'a server_scheme"
  proof -
    have "same_rooms t (after ?tail t)"
      by (rule runs_at) (intro rooms0.world_rules rooms_kept.helpers2_R rooms_kept.helpers_R rooms_kept.send_R)
    then show ?thesis by (simp add: same_rooms_def)
  qed
  have err: "t_members (after (send_error sid code msg) s) = t_members s" for code msg
    using error_rooms by (simp add: same_rooms_def error_rooms [unfolded same_rooms_def])
  have run: "leave_room sid f s = (case bind_text (PStr r) of Inl e \<Rightarrow> (Inl e, s) | Inr _ \<Rightarrow>
      if py_in ?me (members_of r s) then andthen (rooms_leave r ?me) ?tail s
      else send_error sid ''NOT_A_MEMBER'' (u ''you are not in '' @ r) s)"
    using named(1)
    by (simp add: leave_room_def bnd_Inr [of "room_name sid f" s] rooms_members_run session_username_def split: sum.split)
  show ?thesis
  proof (cases "(\<exists>y. bind_text (PStr r) = Inr y) \<and> py_in ?me (members_of r s)")
    case True
    then obtain n where n: "?me = PStr n" "n \<in> members_of r s" by (auto simp: py_in_def split: pyval.splits)
    obtain y where y: "bind_text (PStr r) = Inr y" using True by blast
    have gone: "(\<lambda>(r', n'). r' = r \<longrightarrow> n' \<noteq> n) = (\<lambda>p. p \<noteq> (r, n))" by auto
    have "andthen (rooms_leave r ?me) ?tail s = (case bind_text (PStr n) of Inl e \<Rightarrow> (Inl e, s)
        | Inr _ \<Rightarrow> ?tail (s\<lparr>t_members := filter (\<lambda>p. p \<noteq> (r, n)) (t_members s)\<rparr>))"
    proof (cases "bind_text (PStr n)")
      case (Inl e)
      with y n(1) show ?thesis by (simp add: rooms_leave_def transaction_def andthen_def bnd_def)
    next
      case (Inr z)
      then have "z = Some n" by (simp add: bind_text_PStr)
      with Inr y n(1) show ?thesis by (simp add: rooms_leave_def transaction_def andthen_def bnd_def gone)
    qed
    then have "t_members (after (leave_room sid f) s) = t_members s \<or>
        t_members (after (leave_room sid f) s) = filter (\<lambda>p. p \<noteq> (r, n)) (t_members s)"
      using True run tail by (cases "bind_text (PStr n)") auto
    with named(2) n show ?thesis by auto
  next
    case False
    then show ?thesis using run err by (auto split: sum.splits)
  qed
next
  case (refused t)
  then show ?thesis by (simp add: leave_room_def bnd_def same_accounts_def same_rooms_def)
qed

text \<open>C17: a room changes only by its rules. While one frame is handled, a person is added to a room only in
  one of three ways: by CREATE_ROOM of a room that did not exist, when it is the creator or a registered
  person the frame names; by their own JOIN of a room that exists; or by an INVITE that names them,
  from somebody who is a member, when they are registered. A person is removed only by their own LEAVE.
  A frame names the first 64 entries of its \<open>members\<close>.\<close>

theorem membership_rules:
  fixes s :: "'z server_scheme" and sid :: nat and f :: frame
  defines "t \<equiv> after (handle sid f) s" and "me \<equiv> username (conns s sid)"
  shows "(\<forall>r n. (r, n) \<in> set (t_members t) - set (t_members s) \<longrightarrow>
            pget (f_data f) (u ''room'') = PStr r \<and> me \<noteq> PNone \<and>
            (f_type f = CREATE_ROOM \<and> r \<notin> fst ` set (t_rooms s) \<and>
               (bind_text me = Inr (Some n) \<or> names_person f n \<and> n \<in> u_username ` set (t_users s)) \<or>
             f_type f = JOIN \<and> r \<in> fst ` set (t_rooms s) \<and> bind_text me = Inr (Some n) \<or>
             f_type f = INVITE \<and> py_in me (members_of r s) \<and> names_person f n \<and> n \<in> u_username ` set (t_users s))) \<and>
         (\<forall>r n. (r, n) \<in> set (t_members s) - set (t_members t) \<longrightarrow>
            f_type f = LEAVE \<and> pget (f_data f) (u ''room'') = PStr r \<and> me = PStr n)"
proof (cases "f_type f \<in> {CREATE_ROOM, INVITE, JOIN, LEAVE} \<and> me \<noteq> PNone")
  case True
  then have t: "t = after (case f_type f of CREATE_ROOM \<Rightarrow> create_room sid f | INVITE \<Rightarrow> invite sid f
      | JOIN \<Rightarrow> join_room sid f | _ \<Rightarrow> leave_room sid f) s"
    by (auto simp: t_def me_def handle_def session_username_def)
  from True consider "f_type f = CREATE_ROOM" | "f_type f = INVITE" | "f_type f = JOIN" | "f_type f = LEAVE" by blast
  then show ?thesis
  proof cases
    case 1
    then show ?thesis using t True create_room_adds [of s f sid] by (auto simp: adds_def me_def)
  next
    case 2
    then show ?thesis using t True invite_adds [of s f sid] by (auto simp: adds_def me_def)
  next
    case 3
    then show ?thesis using t True join_room_adds [of s f sid] by (auto simp: adds_def me_def)
  next
    case 4
    then show ?thesis using t True leave_room_members [of sid f s] by (auto simp: me_def)
  qed
next
  case False
  have "same_rooms s t"
  proof (cases "f_type f \<in> {CREATE_ROOM, INVITE, JOIN, LEAVE}")
    case True
    with False have "t = after (send_error sid ''NOT_LOGGED_IN'' (u ''log in before sending anything else'')) s"
      by (auto simp: t_def me_def handle_def session_username_def)
    then show ?thesis by (simp add: error_rooms)
  next
    case False
    then show ?thesis unfolding t_def by (rule runs_at [OF rooms_kept.handle_R])
  qed
  then show ?thesis by (simp add: same_rooms_def)
qed

definition room_frame :: "message_type \<Rightarrow> string \<Rightarrow> frame" where
  "room_frame ty room = \<lparr>f_type = ty, f_sender = PNone, f_to = PNone, f_body = PNone, f_nonce = PNone,
     f_data = [(u ''room'', PStr (u room))], f_id = PStr (u ''x''), f_ts = 6, f_v = PInt 1\<rparr>"

text \<open>ann makes a room and names bob and somebody who is not registered.\<close>

definition create_frame :: frame where
  "create_frame = (room_frame CREATE_ROOM ''#n'')\<lparr>f_data := [(u ''room'', PStr (u ''#n'')),
     (u ''members'', PList [PStr (u ''bob''), PStr (u ''eve'')])]\<rparr>"

lemma create_frame_adds: "set (t_members (after (handle 2 create_frame) sample_server)) - set (t_members sample_server) =
    {(u ''#n'', u ''ann''), (u ''#n'', u ''bob'')}"
proof -
  let ?t = "after (create_room 2 create_frame) sample_server"
  have h: "handle 2 create_frame sample_server = create_room 2 create_frame sample_server"
    by (simp add: handle_def create_frame_def room_frame_def sample_me session_username_def)
  have r: "room_name 2 create_frame sample_server = (Inr (Some (u ''#n'')), sample_server)"
    by (simp add: room_name_def create_frame_def room_frame_def ROOM_PREFIX_def startswith_def is_space_def u_def)
  let ?m = "andthen (rooms_join (u ''#n'') (PStr (u ''ann''))) (add_members (u ''#n'') (PList [PStr (u ''bob''), PStr (u ''eve'')]))"
  let ?w = "sample_server\<lparr>draws := 2, t_rooms := [(u ''#r'', 1), (u ''#n'', 1)]\<rparr>"
  have w: "rooms_create (u ''#n'') sample_server = (Inr True, ?w)"
    by (simp add: rooms_create_def sample_server_def op_defs py_defs bind_text_def u_def is_surrogate_def)
  obtain v where v: "?m ?w = (Inr [u ''bob''], v)" and
    m: "t_members v = t_members sample_server @ [(u ''#n'', u ''ann''), (u ''#n'', u ''bob'')]"
    by (simp add: rooms_join_def add_members_def users_exists_def sample_server_def op_defs py_defs bind_text_def startswith_def
        u_def is_surrogate_def insert_room_def insert_member_def find_user_def account_def ROOM_PREFIX_def)
  have c: "conns ?w = conns sample_server" by simp
  have "create_room 2 create_frame sample_server = broadcast_room_state (u ''#n'') v"
    using r w v c
    by (simp add: create_room_def bnd_def andthen_def session_username_def sample_me create_frame_def room_frame_def split: prod.splits sum.splits)
  moreover have "same_accounts v (after (broadcast_room_state (u ''#n'')) v)" by (rule runs_at [OF answers_accounts(3)])
  ultimately show ?thesis using m h by (auto simp: same_accounts_def same_rooms_def) (simp_all add: sample_server_def)
qed

theorem membership_rules_witness:
  "(u ''#n'', u ''bob'') \<in> set (t_members (after (handle 2 create_frame) sample_server)) \<and>
   (u ''#n'', u ''eve'') \<notin> set (t_members (after (handle 2 create_frame) sample_server)) \<and>
   names_person create_frame (u ''bob'') \<and> u ''bob'' \<in> u_username ` set (t_users sample_server)"
proof -
  have "f_type create_frame = CREATE_ROOM" "bind_text (PStr (u ''ann'')) \<noteq> Inr (Some (u ''bob''))"
    by (simp_all add: create_frame_def room_frame_def bind_text_PStr)
  moreover have "(u ''#n'', u ''bob'') \<in> set (t_members (after (handle 2 create_frame) sample_server)) - set (t_members sample_server)"
    "(u ''#n'', u ''eve'') \<notin> set (t_members (after (handle 2 create_frame) sample_server)) - set (t_members sample_server)"
    unfolding create_frame_adds by simp_all
  moreover have "(u ''#n'', u ''eve'') \<notin> set (t_members sample_server)" by (simp add: sample_server_def)
  ultimately show ?thesis
    using membership_rules [where s = sample_server and sid = 2 and f = create_frame] unfolding sample_me by blast
qed

subsection \<open>Where a message is filed\<close>

text \<open>A message to a room is filed under the room, one to a person under the pair of names.\<close>

definition filed :: "message_row \<Rightarrow> bool" where
  "filed r \<longleftrightarrow> m_conversation r = (if is_room (m_recipient r) then m_recipient r else pair_key (m_sender r) (m_recipient r))"

definition all_filed :: "'z database_scheme \<Rightarrow> bool" where
  "all_filed s \<longleftrightarrow> list_all filed (t_messages s)"

interpretation fl: world_rel "keeps all_filed"
  by unfold_locales (auto simp: keeps_def all_filed_def)

lemma filed_modify: "(\<And>s. t_messages (g s) = t_messages s) \<Longrightarrow> runs_in (keeps all_filed) (modify g)"
  by (simp add: runs_in_modify keeps_def all_filed_def)

lemma users_derive_filed: "runs_in (keeps all_filed) (users_derive p salt :: ('z database_scheme, byte list) py)"
  unfolding users_derive_def by (auto intro!: fl.world_rules split: pyval.split)

lemma mark_row_filed [simp]: "filed (mark_row b t r) = filed r"
  by (simp add: filed_def mark_row_def)

lemma messages_mark_filed: "runs_in (keeps all_filed) (messages_mark i st t)"
  unfolding messages_mark_def
  by (intro fl.world_rules) (auto simp: runs_in_modify keeps_def all_filed_def list_all_iff)

lemma store_filed:
  "runs_in (keeps all_filed) (users_register n p k)" "runs_in (keeps all_filed) (users_verify x p)"
  "runs_in (keeps all_filed) (users_exists n)" "runs_in (keeps all_filed) (users_pubkey n)"
  "runs_in (keeps all_filed) (contacts_add x c t)" "runs_in (keeps all_filed) (contacts_remove x c)" "runs_in (keeps all_filed) (contacts_of x)"
  "runs_in (keeps all_filed) (rooms_create r)" "runs_in (keeps all_filed) (rooms_join r x)" "runs_in (keeps all_filed) (rooms_leave r x)"
  "runs_in (keeps all_filed) (rooms_members r)" "runs_in (keeps all_filed) (rooms_exists r)" "runs_in (keeps all_filed) (rooms_of x)"
  "runs_in (keeps all_filed) (messages_queue_for n x)" "runs_in (keeps all_filed) (messages_flush x)"
  "runs_in (keeps all_filed) (messages_history c bef l)"
  unfolding users_register_def users_verify_def users_exists_def users_pubkey_def contacts_add_def
    contacts_remove_def contacts_of_def rooms_create_def rooms_join_def rooms_leave_def rooms_members_def rooms_exists_def rooms_of_def
    messages_queue_for_def messages_flush_def messages_history_def
  by (auto intro!: fl.world_rules filed_modify users_derive_filed simp: insert_room_def insert_member_def
      split: option.split prod.split)

interpretation fl: quiet_rel "keeps all_filed"
  by unfold_locales (auto simp: store_filed messages_mark_filed keeps_def all_filed_def with_conn_def)

lemma record_filed:
  assumes "conv = (if is_room r then r else pair_key a r)" and "\<not> is_room r \<Longrightarrow> y = PStr a"
  shows "runs_in (keeps all_filed) (messages_record x conv y r b z t)"
proof -
  have "bind_text y = Inr (Some f) \<Longrightarrow> conv = (if is_room r then r else pair_key f r)" for f
    using assms by (auto simp: bind_text_PStr split: if_splits)
  then show ?thesis
    unfolding messages_record_def
    by (intro fl.world_rules fl.runs_lift) (auto simp: runs_in_def keeps_def all_filed_def filed_def split: option.split)
qed

lemma to_room_filed: "is_room room \<Longrightarrow> runs_in (keeps all_filed) (to_room sid room out env)"
  unfolding to_room_def record_msg_def record_envelopes_def by (auto intro!: fl.handler_R record_filed split: option.split)

lemma to_user_filed:
  assumes "\<not> is_room target" and "all_filed s"
  shows "all_filed (after (to_user sid target (outgoing_of (username (conns s sid)) f)) s)"
proof -
  let ?me = "username (conns s sid)" and ?out = "outgoing_of (username (conns s sid)) f"
  let ?rc = "sessions_get (PStr target) (by_name s)"
  let ?file = "case py_or ?me (PStr []) of
       PStr sender \<Rightarrow>
         bnd (lift (direct_conversation (PStr sender) target)) (\<lambda>conversation.
         andthen (record_msg ?out conversation target)
         (andthen (note_contact sender target)
         (andthen (note_contact target sender)
         (andthen (case ?rc of Some c \<Rightarrow> send c ?out | None \<Rightarrow> messages_queue_for target (f_id ?out))
           (ret True)))))
     | other \<Rightarrow> andthen (lift (direct_conversation other target)) (ret False)"
  have rest: "runs_in (keeps all_filed) ?file"
    unfolding record_msg_def direct_conversation_def
    by (auto intro!: fl.handler_R record_filed simp: assms(1) outgoing_of_def split: pyval.split option.split)
  have same: "after (users_exists target) s = s" by (simp add: users_exists_def bnd_def split: sum.split)
  let ?reach = "if ?rc \<noteq> None then ret True else bnd (gets has_messages) (\<lambda>some. if some then users_exists target else ret False)"
  have "after ?reach s = s" using same by simp
  then obtain x where x: "?reach s = (x, s)" by (metis prod.collapse)
  let ?m = "bnd ?reach (\<lambda>reachable.
     if \<not> reachable then andthen (send_error sid ''USER_OFFLINE'' (target @ u '' is not online'')) (ret False) else ?file)"
  have eq: "to_user sid target ?out s = ?m s"
    using x by (cases x) (simp_all add: to_user_def find_session_def bnd_def session_username_def)
  have "runs_in (keeps all_filed) ?m" by (intro fl.handler_R rest)
  from keepsD [OF this assms(2)] show ?thesis unfolding eq .
qed

lemma message_filed: "runs_in (keeps all_filed) (message sid f :: ('z server_scheme, unit) py)"
proof (rule keepsI)
  fix s :: "'z server_scheme"
  assume s: "all_filed s"
  let ?me = "username (conns s sid)"
  let ?ack = "\<lambda>delivered. if delivered then send_data sid ACK [(u ''ref'', f_id f)] else ret ()"
  have err: "all_filed (after (send_error sid code msg) s)" for code msg by (rule keepsD [OF fl.sends_R(1) s])
  have ack: "all_filed (after (send_data sid ACK d) w)" if "all_filed w" for d and w :: "'z server_scheme"
    by (rule keepsD [OF fl.sends_R(2) that])
  have *: "all_filed (after (bnd m ?ack) s)" if "all_filed (after m s)" for m :: "('z server_scheme, bool) py"
    using that ack by (cases "m s") (auto simp: bnd_def split: sum.split)
  show "all_filed (after (message sid f) s)"
  proof (cases "f_to f")
    case (PStr target)
    have "message sid f s = (if target = [] then send_error sid ''NO_RECIPIENT'' (u ''MSG needs a '' @ [39] @ u ''to'' @ [39]) s
        else if is_room target then bnd (to_room sid target (outgoing_of ?me f) (envelopes_of f)) ?ack s
        else bnd (to_user sid target (outgoing_of ?me f)) ?ack s)"
      using PStr by (simp add: message_def session_username_def bnd_def)
    then show ?thesis
      using err * [of "to_room sid target (outgoing_of ?me f) (envelopes_of f)"] * [of "to_user sid target (outgoing_of ?me f)"]
        keepsD [OF to_room_filed s] to_user_filed [OF _ s] by auto
  qed (use s err in \<open>auto simp: message_def session_username_def\<close>)
qed

interpretation fl: full_rel "keeps all_filed"
  by unfold_locales (auto simp: store_filed message_filed)

subsection \<open>What a reader may see\<close>

lemma history_rows_mem: "row \<in> set (history_rows c b l s) \<Longrightarrow> row \<in> set (t_messages s) \<and> m_conversation row = c"
  by (auto simp: history_rows_eq Let_def in_page_def dest: in_set_dropD)

lemma map_each_lift:
  "map_each xs (\<lambda>x. lift (g x)) s = (Inr ys, t) \<Longrightarrow> t = s \<and> list_all2 (\<lambda>x y. g x = Inr y) xs ys"
  by (induction xs arbitrary: ys) (auto simp: bnd_def split: sum.splits prod.splits)

lemma map_each_lift_state: "after (map_each xs (\<lambda>x. lift (g x))) s = s"
  by (induction xs) (auto simp: bnd_def split: sum.splits prod.splits)

text \<open>A HISTORY_RESULT made of rows of one conversation, as the reader may see them.\<close>

definition result_of :: "'z server_scheme \<Rightarrow> ustr \<Rightarrow> pyval \<Rightarrow> frame \<Rightarrow> bool" where
  "result_of s conversation reader g \<longleftrightarrow>
     (\<exists>es. dict_get (f_data g) (u ''messages'') = Some (PList es) \<and>
        (\<forall>e\<in>set es. \<exists>row\<in>set (t_messages s). m_conversation row = conversation \<and>
           history_entry row reader = Inr (Some e)))"

definition own_history :: "'z server_scheme \<Rightarrow> nat \<Rightarrow> ustr \<Rightarrow> pyval \<Rightarrow> nat \<Rightarrow> frame \<Rightarrow> bool" where
  "own_history s sid conversation reader c g \<longleftrightarrow>
     (f_type g = HISTORY_RESULT \<longrightarrow> c = sid \<and> result_of s conversation reader g)"

lemma send_history_sent:
  "emits (own_history s sid conversation (py_or me (PStr []))) s (after (send_history sid f target conversation me) s)"
    (is "emits ?own s _")
proof -
  let ?p = "py_or me (PStr [])" and ?b = "optional_int (pget (f_data f) (u ''before''))"
  let ?l = "optional_int (pget (f_data f) (u ''limit''))"
  have quiet: "emits ?own s s" by (rule emits_refl) simp
  show ?thesis
  proof (cases "\<exists>b l. ?b = Inr b \<and> ?l = Inr l")
    case False
    then show ?thesis using quiet by (auto simp: send_history_def bnd_def split: sum.splits)
  next
    case True
    then obtain b l where bl: "?b = Inr b" "?l = Inr l" by blast
    let ?lim = "case l of Some l \<Rightarrow> l | None \<Rightarrow> DEFAULT_LIMIT"
    let ?rows = "history_rows conversation b ?lim s"
    have hist: "messages_history conversation b ?lim s = (Inr ?rows, s) \<or> (\<exists>e. messages_history conversation b ?lim s = (Inl e, s))"
      by (cases b) (auto simp: messages_history_def bnd_def bind_int_def split: sum.split)
    obtain x t where m: "map_each ?rows (\<lambda>row. lift (history_entry row ?p)) s = (x, t)" by fastforce
    then have t: "t = s" using map_each_lift_state by (metis snd_conv)
    let ?tail = "\<lambda>entries. bnd (new_frame HISTORY_RESULT PNone (PStr target) PNone PNone
            [(u ''room'', PStr target), (u ''messages'', PList (List.map_filter id entries))]) (send sid)"
    have tail: "emits ?own s (after (?tail entries) s)" if "x = Inr entries" for entries
    proof -
      have all: "list_all2 (\<lambda>row e. history_entry row ?p = Inr e) ?rows entries"
        using map_each_lift [of ?rows "\<lambda>row. history_entry row ?p" s entries t] m that by simp
      have "\<exists>row\<in>set (t_messages s). m_conversation row = conversation \<and> history_entry row ?p = Inr (Some e)"
        if "e \<in> set (List.map_filter id entries)" for e
      proof -
        from that have "Some e \<in> set entries" by (auto simp: List.map_filter_def)
        then obtain row where "row \<in> set ?rows" "history_entry row ?p = Inr (Some e)"
          using list_all2_right [OF all] by blast
        then show ?thesis using history_rows_mem by blast
      qed
      then have "\<And>i tt. ?own sid \<lparr>f_type = HISTORY_RESULT, f_sender = PNone, f_to = PStr target, f_body = PNone,
          f_nonce = PNone, f_data = [(u ''room'', PStr target), (u ''messages'', PList (List.map_filter id entries))],
          f_id = PStr i, f_ts = tt, f_v = PInt PROTOCOL_VERSION\<rparr>"
        by (simp add: own_history_def result_of_def)
      then show ?thesis by (intro acts_emits [where \<pi> = net] net_new_frame net_send)
    qed
    have "send_history sid f target conversation me s =
        bnd (messages_history conversation b ?lim) (\<lambda>rows. bnd (map_each rows (\<lambda>row. lift (history_entry row ?p))) ?tail) s"
      by (simp add: send_history_def bl bnd_def)
    then show ?thesis
      using hist m t tail quiet by (cases x) (auto simp: bnd_def)
  qed
qed

text \<open>The conversation a HISTORY request asks for.\<close>

abbreviation asked_for :: "frame \<Rightarrow> ustr" where
  "asked_for f \<equiv> py_str (py_or (pget (f_data f) (u ''room'')) (f_to f))"

definition history_for :: "'z server_scheme \<Rightarrow> nat \<Rightarrow> frame \<Rightarrow> ustr \<Rightarrow> nat \<Rightarrow> frame \<Rightarrow> bool" where
  "history_for s sid f me c g \<longleftrightarrow> (f_type g = HISTORY_RESULT \<longrightarrow> c = sid \<and>
     (is_room (asked_for f) \<longrightarrow> me \<in> members_of (asked_for f) s) \<and>
     result_of s (if is_room (asked_for f) then asked_for f else pair_key me (asked_for f)) (PStr me) g)"

lemma history_emits:
  assumes "username (conns s sid) = PStr me" and "me \<noteq> []"
  shows "emits (history_for s sid f me) s (after (history sid f) s)" (is "emits ?P s _")
proof -
  let ?target = "py_or (pget (f_data f) (u ''room'')) (f_to f)" and ?name = "asked_for f"
  have me: "py_or (PStr me) (PStr []) = PStr me" using assms(2) by (simp add: py_or_def)
  have own: "emits (own_history s sid conv (PStr me)) s (after (send_history sid f ?name conv (PStr me)) s)" for conv
    using send_history_sent [of s sid conv "PStr me" f ?name] unfolding me .
  have err: "emits ?P s (after (send_error sid code msg) s)" for code msg
    by (rule acts_emits [where \<pi> = net], rule send_error_no_msg) (simp add: history_for_def)
  have stay: "emits ?P s s" by (rule emits_refl) simp
  have room: "emits ?P s (after (send_history sid f ?name ?name (PStr me)) s)" if "is_room ?name" "me \<in> members_of ?name s"
    by (rule emits_mono [OF own [of ?name]]) (use that in \<open>auto simp: own_history_def history_for_def\<close>)
  have direct: "emits ?P s (after (send_history sid f ?name (pair_key me ?name) (PStr me)) s)" if "\<not> is_room ?name"
    by (rule emits_mono [OF own [of "pair_key me ?name"]]) (use that in \<open>auto simp: own_history_def history_for_def\<close>)
  have "history sid f s = (if \<not> has_messages s then send_error sid ''UNSUPPORTED'' (u ''this server keeps no history'') s
      else if \<not> py_truthy ?target then send_error sid ''NO_RECIPIENT'' (u ''HISTORY needs a conversation'') s
      else if is_room ?name then (case bind_text (PStr ?name) of Inl e \<Rightarrow> (Inl e, s) | Inr _ \<Rightarrow>
          if me \<notin> members_of ?name s then send_error sid ''NOT_A_MEMBER'' (u ''join '' @ ?name @ u '' to read its history'') s
          else send_history sid f ?name ?name (PStr me) s)
      else send_history sid f ?name (pair_key me ?name) (PStr me) s)"
    by (simp add: history_def Let_def session_username_def rooms_members_run assms(1) py_in_def me direct_conversation_def split: sum.split)
  then show ?thesis using err stay room direct by (simp split: sum.split)
qed

text \<open>A name that is no room's and does not contain the separator of \<open>messages.py\<close>.\<close>

definition plain_name :: "ustr \<Rightarrow> bool" where
  "plain_name n \<longleftrightarrow> \<not> is_room n \<and> PAIR_SEPARATOR \<notin> set n"

lemma room_pair: "is_room (pair_key a b) \<Longrightarrow> is_room a \<or> is_room b"
  by (auto simp: pair_key_sorted min_def startswith_def ROOM_PREFIX_def PAIR_SEPARATOR_def u_def append_eq_Cons_conv split: if_splits)

lemma same_pair:
  assumes "pair_key a b = pair_key c d" and "PAIR_SEPARATOR \<notin> set a" and "PAIR_SEPARATOR \<notin> set b"
  shows "{a, b} = {c, d}"
proof -
  have "length (filter ((=) PAIR_SEPARATOR) (pair_key a b)) = 1"
    using assms(2,3) by (auto simp: pair_key_sorted min_def max_def filter_empty_conv)
  then have "PAIR_SEPARATOR \<notin> set (min c d)" unfolding assms(1) by (auto simp: pair_key_sorted filter_empty_conv)
  moreover have "PAIR_SEPARATOR \<notin> set (min a b)" using assms(2,3) by (simp add: min_def)
  ultimately show ?thesis
    using split_at_separator [of PAIR_SEPARATOR "min a b" "min c d" "max a b" "max c d"] assms(1) min_max_same [of a b c d]
    by (simp add: pair_key_sorted)
qed

text \<open>What an entry shows of a message: its id, names and time, and the text this reader is to see.\<close>

definition shows_row :: "message_row \<Rightarrow> ustr \<Rightarrow> pyval \<Rightarrow> bool" where
  "shows_row r reader e \<longleftrightarrow> (\<exists>body nonce state. shown_text reader r = Some (body, nonce) \<and> e = PDict
      [(u ''id'', PStr (m_id r)), (u ''from'', PStr (m_sender r)), (u ''to'', PStr (m_recipient r)),
       (u ''body'', body), (u ''n'', nonce), (u ''ts'', PInt (m_ts r)), (u ''state'', PStr (state_name state))])"

lemma entry_in_full: "history_entry r (PStr me) = Inr (Some e) \<Longrightarrow> shows_row r me e"
  by (auto simp: history_entry_def shows_row_def reader_view_eq split: sum.splits option.splits if_splits)

text \<open>Whose message it is that was filed under a key.\<close>

lemma filed_theirs:
  assumes "filed r" and "m_conversation r = (if is_room target then target else pair_key me target)"
    and "plain_name me" and "plain_name (m_sender r)" and "PAIR_SEPARATOR \<notin> set (m_recipient r)"
  shows "if is_room target then m_recipient r = target else {m_sender r, m_recipient r} = {me, target}"
proof -
  have "(if is_room target then target else pair_key me target) =
      (if is_room (m_recipient r) then m_recipient r else pair_key (m_sender r) (m_recipient r))"
    using assms(1,2) by (simp add: filed_def)
  then show ?thesis
    using assms(3-5) room_pair [of "m_sender r" "m_recipient r"] room_pair [of me target]
      same_pair [of "m_sender r" "m_recipient r" me target]
    by (auto simp: plain_name_def split: if_splits)
qed

text \<open>C16: history shows nobody else's conversations. Every message is filed where it belongs, and stays so while
  any frame is handled and when a connection ends. In such a database a HISTORY request of a
  logged-in user is answered on their own connection only, and every entry of the answer is a stored
  message of the conversation they asked for: one to that room, of which they are a member, or one
  between them and that person. It shows the stored body and nonce, or, of a room message with sealed
  envelopes, the two strings filed under the reader's own name. Names are taken not to begin as a
  room's does and not to contain the separator of the two names in a key: with it in a name, which
  nothing forbids, two conversations share one key (\<open>pair_key_collision\<close>).\<close>

theorem history_is_private:
  assumes "all_filed s"
  shows "all_filed (after (handle k h) s) \<and> all_filed (after (on_disconnect k) s) \<and>
    (username (conns s sid) = PStr me \<and> me \<noteq> [] \<and> plain_name me \<and> f_type f = HISTORY \<and>
     g \<in> set (sent s (after (handle sid f) s) c) \<and> f_type g = HISTORY_RESULT \<longrightarrow>
     c = sid \<and> (is_room (asked_for f) \<longrightarrow> me \<in> members_of (asked_for f) s) \<and>
     (\<exists>es. dict_get (f_data g) (u ''messages'') = Some (PList es) \<and>
       (\<forall>e\<in>set es. \<exists>r\<in>set (t_messages s). shows_row r me e \<and>
          (plain_name (m_sender r) \<and> PAIR_SEPARATOR \<notin> set (m_recipient r) \<longrightarrow>
             (if is_room (asked_for f) then m_recipient r = asked_for f
              else {m_sender r, m_recipient r} = {me, asked_for f})))))"
proof (rule conjI, rule keepsD [OF fl.handle_all_R assms], rule conjI, rule keepsD [OF fl.accounts_R(3) assms], rule impI)
  assume h: "username (conns s sid) = PStr me \<and> me \<noteq> [] \<and> plain_name me \<and> f_type f = HISTORY \<and>
     g \<in> set (sent s (after (handle sid f) s) c) \<and> f_type g = HISTORY_RESULT"
  let ?conv = "if is_room (asked_for f) then asked_for f else pair_key me (asked_for f)"
  have "handle sid f s = history sid f s" using h by (simp add: handle_def session_username_def)
  then have "history_for s sid f me c g" using h emits_sent [OF history_emits] by metis
  then have c: "c = sid" "is_room (asked_for f) \<longrightarrow> me \<in> members_of (asked_for f) s" and res: "result_of s ?conv (PStr me) g"
    using h unfolding history_for_def by blast+
  from res obtain es where es: "dict_get (f_data g) (u ''messages'') = Some (PList es)"
    "\<forall>e\<in>set es. \<exists>r\<in>set (t_messages s). m_conversation r = ?conv \<and> history_entry r (PStr me) = Inr (Some e)"
    unfolding result_of_def by blast
  have "\<exists>r\<in>set (t_messages s). shows_row r me e \<and> (plain_name (m_sender r) \<and> PAIR_SEPARATOR \<notin> set (m_recipient r) \<longrightarrow>
      (if is_room (asked_for f) then m_recipient r = asked_for f else {m_sender r, m_recipient r} = {me, asked_for f}))"
    if "e \<in> set es" for e
  proof -
    obtain r where r: "r \<in> set (t_messages s)" "m_conversation r = ?conv" "history_entry r (PStr me) = Inr (Some e)"
      using es(2) \<open>e \<in> set es\<close> by blast
    have "filed r" using assms r(1) by (simp add: all_filed_def list_all_iff)
    then show ?thesis using r entry_in_full [OF r(3)] filed_theirs [OF _ r(2)] h by blast
  qed
  then show "c = sid \<and> (is_room (asked_for f) \<longrightarrow> me \<in> members_of (asked_for f) s) \<and>
     (\<exists>es. dict_get (f_data g) (u ''messages'') = Some (PList es) \<and>
       (\<forall>e\<in>set es. \<exists>r\<in>set (t_messages s). shows_row r me e \<and>
          (plain_name (m_sender r) \<and> PAIR_SEPARATOR \<notin> set (m_recipient r) \<longrightarrow>
             (if is_room (asked_for f) then m_recipient r = asked_for f
              else {m_sender r, m_recipient r} = {me, asked_for f}))))"
    using c es(1) by blast
qed

text \<open>An envelope opens for its reader only, live and later. When a room message with sealed
  envelopes is stored, what HISTORY and the queue show a reader of that row is exactly what
  the live delivery gives that member: the pair under their own name, and nothing if there is
  none.\<close>

theorem envelopes_split_alike:
  assumes "wf_json (PDict env)" and "m_body row = Some (dumps True (PDict env))" and "m_nonce row = Some ENVELOPES"
  shows "reader_view row (PStr n) =
    Inr (map_option (\<lambda>g. (f_body g, f_nonce g)) (addressed_to out (Some env) n))"
proof -
  have "loads (dumps True (PDict env)) = Inr (PDict env)" by (rule loads_dumps [OF assms(1)])
  moreover obtain c cs where "dumps True (PDict env) = c # cs" using dumps_head [OF assms(1)] by blast
  ultimately show ?thesis
    by (simp add: reader_view_def assms(2,3) addressed_to_def split: option.split prod.split)
qed

definition sealed_env :: "(ustr, pyval) dict" where
  "sealed_env = [(u ''bob'', PList [PStr (u ''x''), PStr (u ''y'')])]"

definition sealed_row :: message_row where
  "sealed_row = \<lparr>m_id = u ''m'', m_conversation = u ''#r'', m_sender = u ''ann'', m_recipient = u ''#r'',
     m_body = Some (dumps True (PDict sealed_env)), m_nonce = Some ENVELOPES, m_ts = 0, m_delivered = None, m_read = None\<rparr>"

theorem envelopes_split_alike_witness:
  "reader_view sealed_row (PStr (u ''bob'')) = Inr (Some (PStr (u ''x''), PStr (u ''y''))) \<and>
   reader_view sealed_row (PStr (u ''eve'')) = Inr None"
proof -
  have "wf_json (PDict sealed_env)" "m_body sealed_row = Some (dumps True (PDict sealed_env))"
    "m_nonce sealed_row = Some ENVELOPES"
    by (simp_all add: sealed_env_def sealed_row_def del: dumps.simps)
  note view = envelopes_split_alike [OF this, where out = "msg_frame ''#r''"]
  show ?thesis unfolding view by (simp add: addressed_to_def sealed_env_def sealed_pair_def)
qed

definition history_frame :: "string \<Rightarrow> frame" where
  "history_frame to = \<lparr>f_type = HISTORY, f_sender = PNone, f_to = PStr (u to), f_body = PNone, f_nonce = PNone,
     f_data = [], f_id = PStr (u ''h''), f_ts = 6, f_v = PInt 1\<rparr>"

lemma waiting_history:
  "\<exists>g es. sent waiting_server (after (handle 2 (history_frame ''cat'')) waiting_server) 2 = [g] \<and> f_type g = HISTORY_RESULT \<and>
     dict_get (f_data g) (u ''messages'') = Some (PList es) \<and> length es = 1"
proof -
  have key: "bind_text (PStr (pair_key (u ''ann'') (u ''cat''))) = Inr (Some (pair_key (u ''ann'') (u ''cat'')))"
    by (rule storable_bind, rule storable_pair) (simp_all add: storable_def)
  have rows: "history_rows (pair_key (u ''ann'') (u ''cat'')) None DEFAULT_LIMIT waiting_server = t_messages waiting_server"
    by (simp add: history_rows_eq waiting_server_def stored_row_def in_page_def clamp_limit_def DEFAULT_LIMIT_def MAX_LIMIT_def)
  have me: "username (conns waiting_server 2) = PStr (u ''ann'')" "has_messages waiting_server"
    by (simp_all add: waiting_server_def sample_server_def new_handler_def)
  show ?thesis
    by (simp add: handle_def history_frame_def history_def Let_def me session_username_def py_or_def
        ROOM_PREFIX_def direct_conversation_def send_history_def optional_int_def messages_history_run [OF key] rows bnd_def)
       (simp add: waiting_server_def sample_server_def stored_row_def history_entry_def reader_view_def bnd_def op_defs
         sent_def send_def with_conn_def handler_send_def new_handler_def OUTBOX_LIMIT_def)
qed

theorem history_is_private_witness:
  "\<exists>g es. sent waiting_server (after (handle 2 (history_frame ''cat'')) waiting_server) 2 = [g] \<and>
     dict_get (f_data g) (u ''messages'') = Some (PList es) \<and> length es = 1 \<and>
     (\<forall>e\<in>set es. \<exists>r\<in>set (t_messages waiting_server). shows_row r (u ''ann'') e \<and>
        {m_sender r, m_recipient r} = {u ''ann'', u ''cat''})"
proof -
  obtain g es where g: "sent waiting_server (after (handle 2 (history_frame ''cat'')) waiting_server) 2 = [g]" "f_type g = HISTORY_RESULT"
    "dict_get (f_data g) (u ''messages'') = Some (PList es)" "length es = 1"
    using waiting_history by blast
  have f: "all_filed waiting_server"
    by (simp add: all_filed_def filed_def waiting_server_def stored_row_def ROOM_PREFIX_def startswith_def u_def)
  have h: "username (conns waiting_server 2) = PStr (u ''ann'')" "u ''ann'' \<noteq> []" "plain_name (u ''ann'')"
    "f_type (history_frame ''cat'') = HISTORY" "asked_for (history_frame ''cat'') = u ''cat''" "\<not> is_room (u ''cat'')"
    by (simp_all add: waiting_server_def sample_server_def new_handler_def history_frame_def plain_name_def ROOM_PREFIX_def
        PAIR_SEPARATOR_def py_or_def startswith_def u_def)
  have r: "plain_name (m_sender r) \<and> PAIR_SEPARATOR \<notin> set (m_recipient r)" if "r \<in> set (t_messages waiting_server)" for r
    using that by (simp add: waiting_server_def stored_row_def plain_name_def ROOM_PREFIX_def PAIR_SEPARATOR_def startswith_def u_def)
  have "g \<in> set (sent waiting_server (after (handle 2 (history_frame ''cat'')) waiting_server) 2)" using g(1) by simp
  with history_is_private [OF f, where sid = 2 and c = 2 and g = g and f = "history_frame ''cat''" and me = "u ''ann''"] h g(2,3) r
  have "\<forall>e\<in>set es. \<exists>r\<in>set (t_messages waiting_server). shows_row r (u ''ann'') e \<and> {m_sender r, m_recipient r} = {u ''ann'', u ''cat''}"
    by (simp only: h(5,6) if_False option.inject pyval.inject) blast
  then show ?thesis using g by blast
qed

end
