(* ===== verification/Shortfalls.thy ===== *)
theory Shortfalls
  imports Membership
begin

section \<open>Shortfalls: where the server does less than its documentation says\<close>

text \<open>
  Each theorem states, for every state that meets its hypotheses, what the code does where a
  comment or the protocol document promises otherwise.
\<close>

subsection \<open>Receipts\<close>

definition same_messages :: "'z database_scheme \<Rightarrow> 'z database_scheme \<Rightarrow> bool" where
  "same_messages s t \<longleftrightarrow> t_messages t = t_messages s"

interpretation msgs: world_rel same_messages
  by unfold_locales (auto simp: same_messages_def)

lemma send_messages: "runs_in same_messages (send c f)"
  by (simp add: send_def runs_in_modify same_messages_def with_conn_def)

definition receipt_frame :: "ustr \<Rightarrow> frame" where
  "receipt_frame ref = \<lparr>f_type = RECEIPT, f_sender = PNone, f_to = PNone, f_body = PNone, f_nonce = PNone,
     f_data = [(u ''ref'', PStr ref), (u ''state'', PStr (state_name READ))], f_id = PStr (u ''r''), f_ts = 6, f_v = PInt 1\<rparr>"

lemma mark_read_state:
  assumes "db_inv s" and "r \<in> set (t_messages s)" and "bind_text (PStr (m_id r)) = Inr x"
    and "t_messages t = map (\<lambda>q. if m_id q = m_id r then mark_row True k q else q) (t_messages s)"
  shows "outcome (messages_state_of (m_id r)) t = Inr READ"
proof -
  have uniq: "q = r" if "q \<in> set (t_messages s)" "m_id q = m_id r" for q
    using assms(1,2) that by (auto simp: db_inv_def distinct_map dest: inj_onD)
  have "find (\<lambda>q. m_id q = m_id r) (t_messages t) = Some (mark_row True k r)"
    unfolding assms(4)
    by (rule find_unique) (use assms(2) uniq in \<open>auto split: if_splits\<close>)
  then show ?thesis using assms(3) by (simp add: messages_state_of_def bnd_def mark_row_reaches)
qed

text \<open>Anybody may report on any message. \<open>_receipt\<close> says that only the recipient of a message may
  report on it; the code never compares: whoever is logged in, a RECEIPT naming a stored
  message marks it as read.\<close>

theorem receipt_from_anyone:
  assumes inv: "db_inv s" and hm: "has_messages s" and me: "username (conns s sid) \<noteq> PNone"
    and r: "r \<in> set (t_messages s)" "m_id r \<noteq> []" "storable (m_id r)" and clock: "\<forall>n. fits_int64 (clock_src s n)"
  shows "outcome (messages_state_of (m_id r)) (after (handle sid (receipt_frame (m_id r))) s) = Inr READ"
proof -
  let ?f = "receipt_frame (m_id r)" and ?t = "clock_src s (draws s)" and ?s1 = "s\<lparr>draws := Suc (draws s)\<rparr>"
  have uniq: "q = r" if "q \<in> set (t_messages s)" "m_id q = m_id r" for q
    using inv r(1) that by (auto simp: db_inv_def distinct_map dest: inj_onD)
  have "find (\<lambda>q. m_id q = m_id r) (t_messages s) = Some r"
    by (rule find_unique [OF r(1) refl uniq])
  then have "find (\<lambda>q. m_id q = m_id r) (t_messages ?s1) = Some r" by simp
  note mark = messages_mark_run [OF storable_bind [OF r(3)] this, of ?t "state_name READ"]
  let ?tail = "\<lambda>sender. bnd (session_username sid) (\<lambda>me. case sender of None \<Rightarrow> ret ()
     | Some name \<Rightarrow> if PStr name = me then ret ()
       else bnd (find_session (PStr name)) (\<lambda>recipient. case recipient of None \<Rightarrow> ret ()
       | Some c \<Rightarrow> bnd (new_frame RECEIPT me (PStr name) PNone PNone
                [(u ''ref'', PStr (m_id r)), (u ''state'', PStr (state_name READ))]) (send c)))"
  have tail: "same_messages t (after (?tail sender) t)" for sender and t :: "'a server_scheme"
    unfolding session_username_def find_session_def new_frame_def
    by (rule runs_at) (intro msgs.world_rules send_messages)
  have "state_name DELIVERED \<noteq> state_name READ" by (simp add: state_name_def)
  then have "handle sid ?f s = ?tail (Some (m_sender r)) (?s1\<lparr>t_messages :=
      map (\<lambda>q. if m_id q = m_id r then mark_row True ?t q else q) (t_messages s)\<rparr>)"
    using hm me r(2) clock mark
    by (simp add: handle_def receipt_frame_def session_username_def receipt_def Let_def now_ms_def draw_def bnd_def
        cong: if_cong)
  then have "t_messages (after (handle sid ?f) s) =
      map (\<lambda>q. if m_id q = m_id r then mark_row True ?t q else q) (t_messages s)"
    using tail [of _ "Some (m_sender r)"] by (simp add: same_messages_def)
  then show ?thesis by (rule mark_read_state [OF inv r(1) storable_bind [OF r(3)]])
qed

theorem receipt_from_anyone_witness:
  "m_recipient (t_messages waiting_server ! 0) = u ''cat'' \<and>
   outcome (messages_state_of (u ''m1'')) (after (handle 3 (receipt_frame (u ''m1''))) waiting_server) = Inr READ \<and>
   username (conns waiting_server 3) = PStr (u ''bob'')"
proof -
  let ?r = "t_messages waiting_server ! 0"
  have r: "?r \<in> set (t_messages waiting_server)" "m_id ?r = u ''m1''" "m_recipient ?r = u ''cat''"
    "username (conns waiting_server 3) = PStr (u ''bob'')" "storable (m_id ?r)"
    by (simp_all add: waiting_server_def stored_row_def sample_server_def new_handler_def storable_def)
  have "db_inv waiting_server"
    using sample_db_inv by (simp add: waiting_server_def db_inv_def stored_row_def sample_server_def)
  moreover have "\<forall>n. fits_int64 (clock_src waiting_server n)" by (simp add: waiting_server_def fits_int64_def)
  ultimately show ?thesis
    using receipt_from_anyone [of waiting_server 3 ?r] waiting_facts(2) r by simp
qed

subsection \<open>Repeated ids\<close>

lemma record_msg_old:
  assumes "has_messages s" and "f_sender out = PStr me" and "me \<noteq> []" and "storable me" and "storable target"
    and "bind_text (f_id out) = Inr (Some i)" and "bind_text (f_body out) = Inr b"
    and "bind_text (f_nonce out) = Inr n" and "fits_int64 (f_ts out)" and "i \<in> m_id ` set (t_messages s)"
  shows "record_msg out (pair_key me target) target s = (Inr (), s\<lparr>t_messages := t_messages s\<rparr>)"
  using assms storable_pair [OF assms(4,5)]
  by (simp add: record_msg_def py_or_def messages_record_def transaction_def bnd_def bind_int_def)

text \<open>A repeated id is not only ignored. \<open>record\<close> skips a message whose id is already stored, as its
  comment says, but the id is queued for the new recipient all the same: the stored message,
  which somebody else may have written to somebody else, will be delivered to whomever the
  second sender named.\<close>

theorem repeated_id_queues_stored_message:
  assumes h: "healthy s" and hm: "has_messages s"
    and f: "f_type f = MSG" "f_to f = PStr target" "\<not> is_room target" "target \<noteq> []"
    and me: "username (conns s sid) = PStr me" "me \<noteq> []" "storable me" and target: "storable target"
    and off: "sessions_get (PStr target) (by_name s) = None" "find_user (Some target) s \<noteq> None"
    and out: "bind_text (f_id f) = Inr (Some i)" "bind_text (f_body f) = Inr b"
      "bind_text (f_nonce f) = Inr n" "fits_int64 (f_ts f)"
    and old: "row \<in> set (t_messages s)" "m_id row = i"
  shows "\<exists>t. handle sid f s = (Inr (), t) \<and> t_messages t = t_messages s \<and>
    row \<in> set (pending_rows (Some target) t)"
proof -
  let ?out = "outgoing_of (PStr me) f"
  have "i \<in> m_id ` set (t_messages s)" using old by blast
  then obtain t where t: "to_user sid target ?out s = (Inr True, t)" "t_messages t = t_messages s"
    "set (t_pending t) = insert (i, target) (set (t_pending s))"
    using to_user_offline [OF h hm me target off, of ?out i, OF _ record_msg_old [OF hm _ me(2,3) target, of ?out i b n]]
      out by (auto simp: outgoing_of_def)
  have "\<exists>g k. handle sid f s = (Inr (), with_conn sid (handler_send g) (t\<lparr>draws := k\<rparr>))"
    using f me(1) t(1)
    by (auto simp: handle_def session_username_def message_def bnd_def send_data_def op_defs send_def)
  then obtain g k where run: "handle sid f s = (Inr (), with_conn sid (handler_send g) (t\<lparr>draws := k\<rparr>))" by blast
  show ?thesis
    by (rule exI [of _ "with_conn sid (handler_send g) (t\<lparr>draws := k\<rparr>)"])
       (use run t old in \<open>auto simp: with_conn_def pending_rows_def\<close>)
qed

text \<open>Bob names the id of ann's message to cat in a message to dan.\<close>

definition four_server :: server where
  "four_server = waiting_server\<lparr>t_users := map account [''ann'', ''bob'', ''cat'', ''dan'']\<rparr>"

theorem repeated_id_queues_stored_message_witness:
  "\<exists>t. handle 3 (msg_frame ''dan'') four_server = (Inr (), t) \<and>
     (\<exists>row\<in>set (pending_rows (Some (u ''dan'')) t). m_sender row = u ''ann'' \<and> m_recipient row = u ''cat'')"
proof -
  have h: "healthy four_server" using waiting_facts(1) by (simp add: four_server_def healthy_def net_inv_def)
  let ?row = "stored_row (u ''m1'') (u ''ann'') (u ''cat'') (Some (u ''hi'')) None 5"
  have "has_messages four_server" "username (conns four_server 3) = PStr (u ''bob'')"
    "sessions_get (PStr (u ''dan'')) (by_name four_server) = None" "find_user (Some (u ''dan'')) four_server \<noteq> None"
    "?row \<in> set (t_messages four_server)" "m_id ?row = u ''m1''" "m_sender ?row = u ''ann''" "m_recipient ?row = u ''cat''"
    by (simp_all add: four_server_def waiting_server_def sample_server_def new_handler_def sessions_get_def find_user_def
        account_def stored_row_def)
  then show ?thesis
    using repeated_id_queues_stored_message [OF h, of "msg_frame ''dan''" "u ''dan''" 3 "u ''bob''" "u ''m1''"
        "Some (u ''hi'')" None ?row]
    by (auto simp: msg_frame_def ROOM_PREFIX_def bind_text_def fits_int64_def storable_def)
qed

subsection \<open>A row that cannot be read\<close>

lemma flush_rows_raise:
  "reader_view row reader = Inl e \<Longrightarrow> for_each (row # rows) (flush_row sid reader) s = (Inl e, s)"
  by (simp add: flush_row_def andthen_def bnd_def)

text \<open>A poisoned row loses the queue. The nonce \<open>*\<close> marks a row as a map of envelopes, but a client
  may write it into a direct message: \<open>_history_entry\<close> then reads a body that is not an
  object and raises. If such a row is the oldest one waiting, a LOGIN with the right password
  sends LOGIN_OK and no message at all, raises, and everything that waited is gone from the
  queue.\<close>

theorem poisoned_row_loses_queue:
  assumes h: "healthy s" and hm: "has_messages s"
    and f: "f_type f = LOGIN" "pget (f_data f) (u ''user'') = PStr name" "name \<noteq> []" "storable name"
      "pget (f_data f) (u ''pass_hash'') = pass" "py_truthy pass"
    and new: "username (conns s sid) = PNone" "outbox (conns s sid) = []" "\<not> closed (conns s sid)"
    and good: "outcome (users_verify (PStr name) pass) s = Inr True"
    and off: "sessions_get (PStr name) (by_name s) = None"
    and rows: "pending_rows (Some name) s = row # rows"
    and bad: "m_nonce row = Some ENVELOPES" "m_body row = Some (dumps False x)" "wf_json x" "\<forall>d. x \<noteq> PDict d"
  shows "\<exists>t g. handle sid f s = (Inl Attribute_Error, t) \<and> sent s t sid = [g] \<and> f_type g = LOGIN_OK \<and>
    pending_rows (Some name) t = []"
proof -
  have view: "reader_view row (PStr name) = Inl Attribute_Error"
  proof -
    have "loads (dumps False x) = Inr x" by (rule loads_dumps [OF bad(3)])
    moreover obtain c cs where "dumps False x = c # cs" using dumps_head [OF bad(3)] by blast
    ultimately show ?thesis using bad by (cases x) (simp_all add: reader_view_def)
  qed
  obtain g s3 where g: "f_type g = LOGIN_OK" "handle sid f s = flush_pending sid (PStr name) s3" "has_messages s3"
    "t_messages s3 = t_messages s" "t_pending s3 = t_pending s"
    "conns s3 sid = (conns s sid)\<lparr>username := PStr name, outbox := [Item g]\<rparr>"
    using login_until_flush [OF h hm f new good off] by blast
  have "pending_rows (Some name) s3 = row # rows" using g rows by (simp add: pending_rows_def)
  then have run: "handle sid f s = (Inl Attribute_Error, s3\<lparr>t_pending := filter (\<lambda>p. snd p \<noteq> name) (t_pending s3)\<rparr>)"
    using g(2,3) f(4) view
    by (simp add: flush_pending_def bnd_def messages_flush_run flush_rows_raise del: for_each.simps)
  show ?thesis
    by (rule exI, rule exI [of _ g], rule conjI [OF run])
       (use g(1,6) new in \<open>simp add: sent_def pending_rows_cleared\<close>)
qed

text \<open>The message waiting for cat is a list that calls itself a map of envelopes.\<close>

definition poisoned_server :: server where
  "poisoned_server = waiting_server\<lparr>t_messages :=
     [stored_row (u ''m1'') (u ''ann'') (u ''cat'') (Some (dumps False (PList []))) (Some ENVELOPES) 5]\<rparr>"

theorem poisoned_row_loses_queue_witness:
  "outcome (handle 4 (login_frame (PStr (u ''cat'')))) poisoned_server = Inl Attribute_Error"
proof -
  let ?row = "stored_row (u ''m1'') (u ''ann'') (u ''cat'') (Some (dumps False (PList []))) (Some ENVELOPES) 5"
  have "healthy poisoned_server" "has_messages poisoned_server" "username (conns poisoned_server 4) = PNone"
    "outbox (conns poisoned_server 4) = []" "\<not> closed (conns poisoned_server 4)"
    "sessions_get (PStr (u ''cat'')) (by_name poisoned_server) = None"
    using waiting_facts by (simp_all add: poisoned_server_def healthy_messages)
  moreover have "pending_rows (Some (u ''cat'')) poisoned_server = [?row]"
    by (simp add: poisoned_server_def pending_rows_def waiting_server_def stored_row_def)
  moreover have "outcome (users_verify (PStr (u ''cat'')) (PStr (u ''h''))) poisoned_server = Inr True"
    using waiting_facts(11) users_verify_same [OF bind_text_u, of "''cat''" poisoned_server waiting_server]
    by (simp add: poisoned_server_def find_user_def)
  ultimately show ?thesis
    using poisoned_row_loses_queue [of poisoned_server "login_frame (PStr (u ''cat''))" "u ''cat''" "PStr (u ''h'')" 4 ?row "[]" "PList []"]
    by (auto simp: storable_def stored_row_def)
qed

subsection \<open>A name that is a number\<close>

lemma verify_number:
  "fits_int64 i \<Longrightarrow> storable (int_str i) \<Longrightarrow> users_verify (PInt i) p s = users_verify (PStr (int_str i)) p s"
  by (simp add: users_verify_def bind_text_def storable_def)

lemma sorted_mixed: "py_sorted [PInt i, PStr n] = Inl Type_Error"
  by (simp add: py_sorted_def num_val_def)

text \<open>A number logs in as the text it prints as, past the registry. The \<open>user\<close> field is not checked
  to be a string: sqlite compares it as text, so a LOGIN with the number checks the password
  of the account named by its digits, while the registry holds the number as a different key
  from the string. With the number connected alone, everybody else's LOGIN with the right
  password raises a \<open>TypeError\<close> when the names are sorted, and their connection ends.\<close>

theorem number_login_breaks_logins:
  assumes "fits_int64 i" and "storable (int_str i)"
    and by_name: "by_name s = [(PInt i, c)]"
    and f: "f_type f = LOGIN" "pget (f_data f) (u ''user'') = PStr name" "name \<noteq> []"
      "pget (f_data f) (u ''pass_hash'') = pass" "py_truthy pass"
    and new: "username (conns s sid) = PNone" and good: "outcome (users_verify (PStr name) pass) s = Inr True"
  shows "users_verify (PInt i) pass s = users_verify (PStr (int_str i)) pass s \<and>
    sessions_get (PStr (int_str i)) (by_name s) = None \<and>
    outcome (handle sid f) s = Inl Type_Error"
proof -
  have free: "sessions_get (PStr n) (by_name s) = None" for n
    by (simp add: by_name sessions_get_def py_key_def)
  have "outcome (handle sid f) s = Inl Type_Error"
    using f new users_verify_True [OF good] free
    by (simp add: handle_def login_def Let_def session_username_def bnd_def claim_name_run andthen_def login_ok_def
        usernames_def with_conn_def by_name sessions_usernames_def dict_keys_def sorted_mixed)
  with free verify_number [OF assms(1,2)] show ?thesis by simp
qed

theorem number_login_breaks_logins_witness:
  "outcome (handle 4 (login_frame (PStr (u ''cat'')))) (waiting_server\<lparr>by_name := [(PInt 5, 9)]\<rparr>) = Inl Type_Error"
proof -
  let ?s = "waiting_server\<lparr>by_name := [(PInt 5, 9)]\<rparr>"
  have "username (conns ?s 4) = PNone" "by_name ?s = [(PInt 5, 9)]" using waiting_facts by simp_all
  moreover have "outcome (users_verify (PStr (u ''cat'')) (PStr (u ''h''))) ?s = Inr True"
    using waiting_facts(11) users_verify_same [OF bind_text_u, of "''cat''" ?s waiting_server]
    by (simp add: find_user_def)
  moreover have "storable (int_str 5)" by (simp add: storable_def int_str_def nat_str.simps is_surrogate_def)
  ultimately show ?thesis
    using number_login_breaks_logins [of 5 ?s 9 "login_frame (PStr (u ''cat''))" "u ''cat''" "PStr (u ''h'')" 4]
    by (simp add: fits_int64_def)
qed

end
