(* ===== verification/Connections.thy ===== *)
theory Connections
  imports Shortfalls
begin

section \<open>Connections: the loops of a client handler and the server around them\<close>

text \<open>
  \<open>im/server/handler.py\<close> and \<open>im/server/server.py\<close>. The reader of a connection is modelled chunk
  by chunk: \<open>read_chunk\<close> is one turn of \<open>_read_loop\<close>, from the return of \<open>recv\<close> to the next
  call. The writer is modelled item by item: \<open>write_one\<close> is one turn of \<open>_write_loop\<close>. The
  threads of the process are the steps of \<open>server_step\<close>, in any order: what happens between
  two blocking calls of one thread is one step.
\<close>

subsection \<open>The server object\<close>

record chat_server = server +
  running :: bool
  handlers :: "nat set"
  next_conn :: nat
  buffers :: "nat \<Rightarrow> line_buffer"
  wire :: "nat \<Rightarrow> byte list"
  reading :: "nat set"
  writing :: "nat set"

text \<open>
  \<open>handlers\<close> is \<open>_handlers\<close>; \<open>reading\<close> and \<open>writing\<close> are the connections whose reader and writer
  threads have not ended; \<open>wire\<close> is what was written to a connection's socket. A number that
  \<open>next_conn\<close> has not reached is no connection yet.
\<close>

text \<open>\<open>ChatServer.__init__\<close> followed by \<open>bind\<close>, on a database.\<close>

definition start_server :: "'a database_scheme \<Rightarrow> chat_server" where
  "start_server d =
     \<lparr>uuid_src = uuid_src d, clock_src = clock_src d, token_src = token_src d, scrypt_fn = scrypt_fn d, draws = draws d,
      t_users = t_users d, t_rooms = t_rooms d, t_members = t_members d, t_messages = t_messages d,
      t_pending = t_pending d, t_contacts = t_contacts d,
      by_name = [], conns = (\<lambda>_. new_handler), has_messages = True, has_contacts = True,
      running = True, handlers = {}, next_conn = 0, buffers = (\<lambda>_. new_line_buffer MAX_LINE_BYTES),
      wire = (\<lambda>_. []), reading = {}, writing = {}\<rparr>"

text \<open>One turn of \<open>serve_forever\<close>: a new connection object, with its two threads.\<close>

definition accept :: "chat_server \<Rightarrow> chat_server" where
  "accept s = (let n = next_conn s in
     s\<lparr>conns := (conns s)(n := new_handler), handlers := insert n (handlers s), next_conn := Suc n,
       buffers := (buffers s)(n := new_line_buffer MAX_LINE_BYTES), wire := (wire s)(n := []),
       reading := insert n (reading s), writing := insert n (writing s)\<rparr>)"

definition close_conn :: "nat \<Rightarrow> 'z server_scheme \<Rightarrow> 'z server_scheme" where
  "close_conn sid s = with_conn sid handler_close s"

definition shutdown :: "chat_server \<Rightarrow> chat_server" where
  "shutdown s = s\<lparr>running := False, handlers := {},
     conns := (\<lambda>c. if c \<in> handlers s then handler_close (conns s c) else conns s c)\<rparr>"

subsection \<open>The reader\<close>

definition read_line :: "nat \<Rightarrow> ustr \<Rightarrow> ('z server_scheme, unit) py" where
  "read_line sid line = bnd (decode line) (\<lambda>r. case r of
       Inl e \<Rightarrow> send_error sid ''BAD_FRAME'' (perr_msg e)
     | Inr f \<Rightarrow> handle sid f)"

text \<open>
  What follows \<open>feed\<close>. \<open>True\<close> goes round the loop again, \<open>False\<close> is a \<open>return\<close>. An empty chunk is
  the peer hanging up.
\<close>

definition react :: "nat \<Rightarrow> protocol_error + ustr list \<Rightarrow> ('z server_scheme, bool) py" where
  "react sid res = (case res of
       Inl e \<Rightarrow> andthen (send_error sid ''LINE_TOO_LONG'' (perr_msg e)) (ret False)
     | Inr lines \<Rightarrow> andthen (for_each lines (read_line sid)) (ret True))"

definition read_chunk :: "nat \<Rightarrow> byte list \<Rightarrow> (chat_server, bool) py" where
  "read_chunk sid chunk =
     (if chunk = [] then ret False
      else bnd (gets (\<lambda>s. feed (buffers s sid) chunk)) (\<lambda>(lb, res).
           andthen (modify (\<lambda>s. s\<lparr>buffers := (buffers s)(sid := lb)\<rparr>)) (react sid res)))"

text \<open>What a \<open>recv\<close> returns: bytes, or an error (reset, or closed by \<open>close\<close>).\<close>

datatype recv = Chunk "byte list" | Os_Error

fun read_loop :: "nat \<Rightarrow> recv list \<Rightarrow> (chat_server, unit) py" where
  "read_loop sid [] = ret ()"
| "read_loop sid (r # rs) = bnd (gets (\<lambda>s. closed (conns s sid))) (\<lambda>stop.
     if stop then ret ()
     else case r of Os_Error \<Rightarrow> ret ()
     | Chunk bs \<Rightarrow> bnd (read_chunk sid bs) (\<lambda>go. if go then read_loop sid rs else ret ()))"

text \<open>
  The \<open>finally\<close> of \<open>serve\<close> and of \<open>_run_handler\<close>: whatever ended the loop, the router is told,
  then the connection is closed, unless telling the router raised, and the server forgets the
  handler in both cases.
\<close>

definition finish :: "nat \<Rightarrow> chat_server \<Rightarrow> chat_server" where
  "finish sid s =
     (let (r, t) = on_disconnect sid s;
          t' = (case r of Inl _ \<Rightarrow> t | Inr _ \<Rightarrow> close_conn sid t)
      in t'\<lparr>handlers := handlers t' - {sid}, reading := reading t' - {sid}\<rparr>)"

definition serve :: "nat \<Rightarrow> recv list \<Rightarrow> chat_server \<Rightarrow> chat_server" where
  "serve sid rs s = finish sid (after (read_loop sid rs) s)"

subsection \<open>The writer\<close>

text \<open>
  \<open>ok\<close> says whether \<open>sendall\<close> succeeds. The result tells whether the thread goes on. A frame that
  cannot be encoded is skipped.
\<close>

definition write_one :: "nat \<Rightarrow> bool \<Rightarrow> chat_server \<Rightarrow> bool \<times> chat_server" where
  "write_one sid ok s = (case outbox (conns s sid) of
       [] \<Rightarrow> (True, s)
     | item # rest \<Rightarrow>
       (let s1 = with_conn sid (\<lambda>h. h\<lparr>outbox := rest\<rparr>) s in
        case item of STOP \<Rightarrow> (False, s1)
        | Item f \<Rightarrow> (case encode f of
            Inl _ \<Rightarrow> (True, s1)
          | Inr bs \<Rightarrow> if ok then (True, s1\<lparr>wire := (wire s1)(sid := wire s1 sid @ bs)\<rparr>)
                      else (False, with_conn sid (\<lambda>h. h\<lparr>closed := True\<rparr>) s1))))"

text \<open>The writer run to the end of what is queued, with a socket that takes everything.\<close>

fun write_all :: "nat \<Rightarrow> nat \<Rightarrow> chat_server \<Rightarrow> chat_server" where
  "write_all sid 0 s = s"
| "write_all sid (Suc n) s = (case write_one sid True s of (True, t) \<Rightarrow> write_all sid n t | (False, t) \<Rightarrow> t)"

subsection \<open>The process\<close>

text \<open>
  A reader tests \<open>_closed\<close> before it blocks in \<open>recv\<close>, so a chunk may still arrive on a
  connection that was closed meanwhile: \<open>Read\<close> asks only that the reader has not ended.
  \<open>Read_Stop\<close> is the end of the loop by its condition, by an error of \<open>recv\<close> or by an empty chunk.
\<close>

inductive server_step :: "chat_server \<Rightarrow> chat_server \<Rightarrow> bool" where
  Accept: "running s \<Longrightarrow> server_step s (accept s)"
| Read: "sid \<in> reading s \<Longrightarrow> read_chunk sid chunk s = (Inr True, t) \<Longrightarrow> server_step s t"
| Read_End: "sid \<in> reading s \<Longrightarrow> read_chunk sid chunk s = (r, t) \<Longrightarrow> r \<noteq> Inr True \<Longrightarrow>
    server_step s (finish sid t)"
| Read_Stop: "sid \<in> reading s \<Longrightarrow> server_step s (finish sid s)"
| Write: "sid \<in> writing s \<Longrightarrow> outbox (conns s sid) \<noteq> [] \<Longrightarrow> write_one sid ok s = (True, t) \<Longrightarrow> server_step s t"
| Write_End: "sid \<in> writing s \<Longrightarrow> outbox (conns s sid) \<noteq> [] \<Longrightarrow> write_one sid ok s = (False, t) \<Longrightarrow>
    server_step s (t\<lparr>writing := writing t - {sid}\<rparr>)"
| Shutdown: "server_step s (shutdown s)"

inductive reachable :: "'a database_scheme \<Rightarrow> chat_server \<Rightarrow> bool" for d where
  Start: "reachable d (start_server d)"
| Step: "reachable d s \<Longrightarrow> server_step s t \<Longrightarrow> reachable d t"

inductive_cases server_stepE: "server_step s t"

subsection \<open>Handlers and the rest of the server object\<close>

definition same_rest :: "'z server_scheme \<Rightarrow> 'z server_scheme \<Rightarrow> bool" where
  "same_rest s t \<longleftrightarrow> server.more t = server.more s"

lemma more_rest: "database.more t = database.more s \<Longrightarrow> server.more t = server.more s" for s t :: "'z server_scheme"
  by (cases s; cases t) simp

lemma same_net_rest: "runs_in same_net m \<Longrightarrow> runs_in same_rest (m :: ('z server_scheme, 'a) py)"
  unfolding runs_in_def same_net_def same_rest_def by (blast intro: more_rest)

lemmas store_rest = store_ext [THEN same_net_rest]

lemma same_rest_conn:
  "same_rest s (with_conn c g s)" "same_rest s (s\<lparr>by_name := d\<rparr>)" "same_rest s (s\<lparr>draws := n\<rparr>)"
  by (simp_all add: same_rest_def with_conn_def)

lemma same_rest_refl: "same_rest s s"
  by (simp add: same_rest_def)

lemma same_rest_trans: "same_rest s t \<Longrightarrow> same_rest t w \<Longrightarrow> same_rest s w"
  by (simp add: same_rest_def)

interpretation rest: filing_rel same_rest
  by unfold_locales (fact store_rest same_rest_conn same_rest_refl | erule (1) same_rest_trans)+

interpretation rest: full_rel same_rest
  by unfold_locales (fact store_rest)+

lemma same_rest_fields:
  "same_rest s t \<Longrightarrow> running t = running s \<and> handlers t = handlers s \<and> next_conn t = next_conn s \<and> buffers t = buffers s \<and>
     wire t = wire s \<and> reading t = reading s \<and> writing t = writing s" for s t :: chat_server
  by (cases s; cases t) (simp add: same_rest_def)

text \<open>The outboxes never outgrow their limit.\<close>

definition box_inv :: "'z server_scheme \<Rightarrow> bool" where
  "box_inv s \<longleftrightarrow> (\<forall>c. length (outbox (conns s c)) \<le> OUTBOX_LIMIT)"

lemma box_same_net: "runs_in same_net m \<Longrightarrow> runs_in (keeps box_inv) (m :: ('z server_scheme, 'a) py)"
  unfolding runs_in_def keeps_def box_inv_def using same_net_server(1) by metis

lemma handler_send_length: "length (outbox h) \<le> OUTBOX_LIMIT \<Longrightarrow> length (outbox (handler_send f h)) \<le> OUTBOX_LIMIT"
  by (simp add: handler_send_def handler_close_def)

lemmas store_boxes = store_ext [THEN box_same_net]

lemma box_inv_conn:
  "box_inv s \<Longrightarrow> box_inv (with_conn c (handler_send f) s)"
  "box_inv s \<Longrightarrow> box_inv (with_conn c (\<lambda>h. h\<lparr>username := nm\<rparr>) s)"
  "box_inv s \<Longrightarrow> box_inv (s\<lparr>by_name := d\<rparr>)"
  "box_inv s \<Longrightarrow> box_inv (with_conn c handler_close s)"
  "box_inv (s\<lparr>draws := n\<rparr>) = box_inv s"
  by (auto simp: box_inv_def with_conn_def handler_send_length handler_close_def)

interpretation boxes: filing_rel "keeps box_inv"
  by unfold_locales (auto simp: store_boxes box_inv_conn keeps_def)

interpretation boxes: full_rel "keeps box_inv"
  by unfold_locales (auto simp: store_boxes)


text \<open>A closed connection stays closed.\<close>

definition stays_closed :: "'z server_scheme \<Rightarrow> 'z server_scheme \<Rightarrow> bool" where
  "stays_closed s t \<longleftrightarrow> (\<forall>c. closed (conns s c) \<longrightarrow> closed (conns t c))"

lemma closed_same_net: "runs_in same_net m \<Longrightarrow> runs_in stays_closed (m :: ('z server_scheme, 'a) py)"
  unfolding runs_in_def stays_closed_def using same_net_server(1) by metis

lemmas store_closed = store_ext [THEN closed_same_net]

interpretation shut: filing_rel stays_closed
  by unfold_locales (auto simp: store_closed stays_closed_def with_conn_def handler_send_def)

interpretation shut: full_rel stays_closed
  by unfold_locales (auto simp: store_closed)

text \<open>A handler changes the name of its own connection only.\<close>

definition own_name :: "nat \<Rightarrow> 'z server_scheme \<Rightarrow> 'z server_scheme \<Rightarrow> bool" where
  "own_name sid s t \<longleftrightarrow> (\<forall>c. c \<noteq> sid \<longrightarrow> username (conns t c) = username (conns s c))"

interpretation own: run_rel "own_name sid" for sid
  by unfold_locales (auto simp: own_name_def)

lemma net_username_at: "net t = net s \<Longrightarrow> username (conns t c) = username (conns s c)"
  by (simp add: net_def fun_eq_iff)

lemma own_net: "(\<And>v. runs_in (acts net v (\<lambda>_ _. True)) m) \<Longrightarrow> runs_in (own_name sid) m"
  unfolding runs_in_def acts_def own_name_def using net_username_at by blast

lemma own_speaks: "(\<And>v. runs_in (acts net v (speaks (w v))) m) \<Longrightarrow> runs_in (own_name sid) m"
  by (rule own_net) (blast intro: acts_weaken)

lemma own_modify: "runs_in (own_name sid) (modify (with_conn sid g))" "runs_in (own_name sid) (modify (\<lambda>s. s\<lparr>by_name := d s\<rparr>))"
  by (simp_all add: runs_in_modify own_name_def with_conn_def)

lemma claim_name_own: "runs_in (own_name sid) (claim_name n c)"
  by (auto simp: runs_in_def claim_name_run own_name_def split: option.split)

lemma error_own: "runs_in (own_name sid) (send_error c code msg)"
  by (rule own_speaks) (rule send_error_speaks)

lemma announce_own: "runs_in (own_name sid) (announce n st)"
  by (rule own_net, rule announce_acts) simp

lemma login_own: "runs_in (own_name sid) (login sid f)"
  unfolding login_def Let_def session_username_def
  by (intro own.runs_rules error_own claim_name_own own_modify announce_own
      own_net [OF login_ok_acts] own_net [OF flush_pending_acts] own_net [OF net_store_rules(2)]) simp_all

lemma handle_own: "runs_in (own_name sid) (handle sid f)"
proof (cases "f_type f = LOGIN")
  case True
  then show ?thesis by (simp add: handle_def login_own)
next
  case False
  show ?thesis by (rule own_speaks, rule handle_speaks [OF False refl])
qed

lemma on_disconnect_own: "runs_in (own_name sid) (on_disconnect sid)"
  unfolding on_disconnect_def session_username_def by (intro own.runs_rules own_modify announce_own)

text \<open>A disconnect always gets to the end, and leaves the connection without a name.\<close>

lemma for_each_send_returns: "\<exists>t. for_each cs (\<lambda>c. send c f) s = (Inr (), t)"
  by (induction cs arbitrary: s) (simp_all add: send_def)

lemma announce_returns: "\<exists>t. announce n st s = (Inr (), t) \<and> net t = net s"
proof -
  obtain t where t: "announce n st s = (Inr (), t)"
    using for_each_send_returns by (fastforce simp: announce_def data_frame_def new_frame_def op_defs bnd_def)
  have "acts net (net s) (\<lambda>_ _. True) s t" using runs_inD [OF announce_acts t] by simp
  then show ?thesis using t by (auto simp: acts_def)
qed

lemma on_disconnect_returns: "\<exists>t. on_disconnect sid s = (Inr (), t) \<and> username (conns t sid) = PNone"
proof (cases "username (conns s sid) = PNone")
  case True
  then show ?thesis by (simp add: on_disconnect_def session_username_def)
next
  case False
  let ?s = "with_conn sid (\<lambda>h. h\<lparr>username := PNone\<rparr>) (s\<lparr>by_name := sessions_logout (username (conns s sid)) (by_name s)\<rparr>)"
  obtain t where "announce (username (conns s sid)) ''OFFLINE'' ?s = (Inr (), t)" "net t = net ?s"
    using announce_returns [of "username (conns s sid)" "''OFFLINE''" ?s] by blast
  moreover have "username (conns ?s sid) = PNone" by (simp add: with_conn_def)
  ultimately have "on_disconnect sid s = (Inr (), t)" "username (conns t sid) = PNone"
    using False by (simp_all add: on_disconnect_def session_username_def net_def fun_eq_iff)
  then show ?thesis by blast
qed


subsection \<open>What a reader does\<close>

text \<open>
  A relation that \<open>handle\<close>, a decoded line and an error frame respect is respected by all that
  follows a \<open>feed\<close>.
\<close>

locale reader_rel = run_rel R for R :: "'z server_scheme \<Rightarrow> 'z server_scheme \<Rightarrow> bool" +
  fixes sid :: nat
  assumes decode_R: "runs_in R (decode line)"
    and dispatch_R: "runs_in R (handle sid f)"
    and refuse_R: "runs_in R (send_error sid code msg)"
begin

lemma read_line_R: "runs_in R (read_line sid line)"
  unfolding read_line_def by (rule runs_bnd [OF decode_R]) (simp add: dispatch_R refuse_R split: sum.split)

lemma react_R: "runs_in R (react sid res)"
  unfolding react_def by (cases res) (auto intro!: runs_rules read_line_R refuse_R)

end

sublocale full_rel \<subseteq> reads: reader_rel R sid
  by unfold_locales (rule decode_runs handle_all_R sends_R)+

lemma decode_acts: "runs_in (acts net v P) (decode line :: ('z server_scheme, protocol_error + frame) py)"
  by (rule net_store [OF ext.decode_runs])

interpretation reads_inv: reader_rel "keeps net_inv" sid for sid
  by unfold_locales (rule handle_net_inv send_error_inv | rule acts_net_inv, rule decode_acts)+

interpretation reads_own: reader_rel "own_name sid" sid for sid
  by unfold_locales (rule handle_own error_own | rule own_net, rule decode_acts)+


subsection \<open>The invariant of the process\<close>

definition framed :: "byte list \<Rightarrow> bool" where
  "framed w \<longleftrightarrow> (\<exists>fs bss. map encode fs = map Inr bss \<and> w = concat bss)"

definition server_ok :: "chat_server \<Rightarrow> bool" where
  "server_ok s \<longleftrightarrow>
     net_inv s \<and> db_inv s \<and> box_inv s \<and>
     (\<forall>c. username (conns s c) \<noteq> PNone \<longrightarrow> c \<in> reading s) \<and>
     (\<forall>c<next_conn s. c \<notin> handlers s \<longrightarrow> closed (conns s c)) \<and>
     handlers s \<subseteq> reading s \<and> reading s \<subseteq> {..<next_conn s} \<and>
     (\<not> running s \<longrightarrow> handlers s = {}) \<and>
     (\<forall>c. framed (wire s c))"

definition buffer_ok :: "line_buffer \<Rightarrow> bool" where
  "buffer_ok lb \<longleftrightarrow> lb_inv lb \<and> lb_max lb = MAX_LINE_BYTES"

definition buffers_ok :: "chat_server \<Rightarrow> bool" where
  "buffers_ok s \<longleftrightarrow> (\<forall>c\<in>reading s. buffer_ok (buffers s c))"

lemma server_okI:
  assumes "server_ok s" and "net_inv t" and "db_inv t" and "box_inv t" and "own_name sid s t" and "stays_closed s t"
    and "same_rest s t" and "sid \<in> reading s"
  shows "server_ok t"
proof -
  have n: "c \<in> reading s" if "username (conns t c) \<noteq> PNone" for c
    using assms(1,5,8) that by (cases "c = sid") (auto simp: server_ok_def own_name_def)
  have "c < next_conn s \<Longrightarrow> c \<notin> handlers s \<Longrightarrow> closed (conns t c)" for c
    using assms(1,6) by (auto simp: server_ok_def stays_closed_def)
  then show ?thesis
    using assms(1-4) n by (simp add: server_ok_def same_rest_fields [OF assms(7)])
qed

lemma react_ok:
  assumes "server_ok s" and "sid \<in> reading s" and "react sid res s = (r, t)"
  shows "server_ok t" "reading t = reading s" "buffers t = buffers s"
proof -
  have i: "net_inv s" "db_inv s" "box_inv s" using assms(1) by (auto simp: server_ok_def)
  have r: "same_rest s t" by (rule runs_inD [OF rest.reads.react_R assms(3)])
  show "server_ok t"
    by (rule server_okI [OF assms(1) _ _ _ _ _ r assms(2)])
       (use i in \<open>simp_all add: keeps_def runs_inD [OF reads_own.react_R assms(3)] runs_inD [OF shut.reads.react_R assms(3)]
          runs_inD [OF reads_inv.react_R assms(3), unfolded keeps_def] runs_inD [OF tables.reads.react_R assms(3), unfolded keeps_def]
          runs_inD [OF boxes.reads.react_R assms(3), unfolded keeps_def]\<close>)
  show "reading t = reading s" "buffers t = buffers s" using same_rest_fields [OF r] by simp_all
qed


lemma server_fields [simp]:
  "net_inv (s\<lparr>buffers := b\<rparr>) = net_inv s" "net_inv (s\<lparr>handlers := h\<rparr>) = net_inv s" "net_inv (s\<lparr>reading := rd\<rparr>) = net_inv s"
  "net_inv (s\<lparr>writing := wr\<rparr>) = net_inv s" "net_inv (s\<lparr>wire := w\<rparr>) = net_inv s" "net_inv (s\<lparr>next_conn := n\<rparr>) = net_inv s"
  "net_inv (s\<lparr>running := b'\<rparr>) = net_inv s"
  "db_inv (s\<lparr>buffers := b\<rparr>) = db_inv s" "db_inv (s\<lparr>handlers := h\<rparr>) = db_inv s" "db_inv (s\<lparr>reading := rd\<rparr>) = db_inv s"
  "db_inv (s\<lparr>writing := wr\<rparr>) = db_inv s" "db_inv (s\<lparr>wire := w\<rparr>) = db_inv s" "db_inv (s\<lparr>next_conn := n\<rparr>) = db_inv s"
  "db_inv (s\<lparr>running := b'\<rparr>) = db_inv s" "db_inv (s\<lparr>conns := cs\<rparr>) = db_inv s"
  "box_inv (s\<lparr>buffers := b\<rparr>) = box_inv s" "box_inv (s\<lparr>handlers := h\<rparr>) = box_inv s" "box_inv (s\<lparr>reading := rd\<rparr>) = box_inv s"
  "box_inv (s\<lparr>writing := wr\<rparr>) = box_inv s" "box_inv (s\<lparr>wire := w\<rparr>) = box_inv s" "box_inv (s\<lparr>next_conn := n\<rparr>) = box_inv s"
  "box_inv (s\<lparr>running := b'\<rparr>) = box_inv s"
  by (simp_all add: net_inv_def db_inv_def box_inv_def)

lemma read_chunk_ok:
  assumes "server_ok s" and "sid \<in> reading s" and "read_chunk sid chunk s = (r, t)"
  shows "server_ok t" "reading t = reading s"
    "buffers_ok s \<Longrightarrow> r = Inr True \<Longrightarrow> buffers_ok t" "c \<noteq> sid \<Longrightarrow> buffers t c = buffers s c"
proof -
  obtain lb res where fd: "feed (buffers s sid) chunk = (lb, res)" by (cases "feed (buffers s sid) chunk")
  let ?s = "s\<lparr>buffers := (buffers s)(sid := lb)\<rparr>"
  have "server_ok ?s" "sid \<in> reading ?s" using assms(1,2) by (simp_all add: server_ok_def)
  note * = react_ok [OF this]
  have run: "react sid res ?s = (r, t)" if "chunk \<noteq> []" using assms(3) that fd by (simp add: read_chunk_def)
  show "server_ok t" "reading t = reading s" "c \<noteq> sid \<Longrightarrow> buffers t c = buffers s c"
  proof -
    show "server_ok t" using assms * (1) [OF run] by (cases "chunk = []") (auto simp: read_chunk_def)
    show "reading t = reading s" using assms * (2) [OF run] by (cases "chunk = []") (auto simp: read_chunk_def)
    show "c \<noteq> sid \<Longrightarrow> buffers t c = buffers s c" using assms * (3) [OF run] by (cases "chunk = []") (auto simp: read_chunk_def)
  qed
  assume b: "buffers_ok s" and r: "r = Inr True"
  then have ne: "chunk \<noteq> []" using assms(3) by (auto simp: read_chunk_def)
  have "\<exists>ls. res = Inr ls" using run [OF ne] r by (cases res) (auto simp: react_def andthen_def bnd_def split: prod.splits sum.splits)
  then have "buffer_ok lb" using feed_inv fd b assms(2) by (auto simp: buffers_ok_def buffer_ok_def)
  then show "buffers_ok t" using b * [OF run [OF ne]] by (simp add: buffers_ok_def)
qed

lemma finish_eq:
  obtains t where "on_disconnect sid s = (Inr (), t)" "username (conns t sid) = PNone"
    "finish sid s = (close_conn sid t)\<lparr>handlers := handlers t - {sid}, reading := reading t - {sid}\<rparr>"
  using on_disconnect_returns [of sid s] by (auto simp: finish_def close_conn_def with_conn_def Let_def)

lemma net_inv_close [simp]: "net_inv (close_conn c s) = net_inv s"
  by (rule net_inv_net) (simp add: close_conn_def net_with_conn handler_close_def)

lemma close_conn_simps [simp]:
  "username (conns (close_conn sid s) c) = username (conns s c)"
  "closed (conns (close_conn sid s) c) \<longleftrightarrow> c = sid \<or> closed (conns s c)"
  "db_inv (close_conn sid s) = db_inv s" "box_inv s \<Longrightarrow> box_inv (close_conn sid s)"
  by (auto simp: close_conn_def box_inv_conn) (auto simp: with_conn_def handler_close_def split: if_splits)

lemma finish_ok:
  assumes "server_ok s" and "sid \<in> reading s"
  shows "server_ok (finish sid s)" "reading (finish sid s) = reading s - {sid}" "buffers (finish sid s) = buffers s"
    "username (conns (finish sid s) sid) = PNone" "closed (conns (finish sid s) sid)"
proof -
  obtain t where t: "on_disconnect sid s = (Inr (), t)" "username (conns t sid) = PNone"
    "finish sid s = (close_conn sid t)\<lparr>handlers := handlers t - {sid}, reading := reading t - {sid}\<rparr>"
    by (rule finish_eq)
  have r: "same_rest s t" by (rule runs_inD [OF rest.accounts_R(3) t(1)])
  have i: "net_inv s" "db_inv s" "box_inv s" using assms(1) by (auto simp: server_ok_def)
  have "server_ok t"
    by (rule server_okI [OF assms(1) _ _ _ _ _ r assms(2)])
       (use i in \<open>simp_all add: keeps_def runs_inD [OF on_disconnect_own t(1)] runs_inD [OF shut.accounts_R(3) t(1)]
          runs_inD [OF on_disconnect_inv t(1), unfolded keeps_def] runs_inD [OF tables.accounts_R(3) t(1), unfolded keeps_def]
          runs_inD [OF boxes.accounts_R(3) t(1), unfolded keeps_def]\<close>)
  note f = same_rest_fields [OF r]
  show "username (conns (finish sid s) sid) = PNone" "closed (conns (finish sid s) sid)"
    "reading (finish sid s) = reading s - {sid}" "buffers (finish sid s) = buffers s"
    using f t(2) by (simp_all add: t(3)) (simp_all add: close_conn_def with_conn_def)
  have "handlers (close_conn sid t) = handlers t" "reading (close_conn sid t) = reading t"
    "next_conn (close_conn sid t) = next_conn t" "running (close_conn sid t) = running t" "wire (close_conn sid t) = wire t"
    by (simp_all add: close_conn_def with_conn_def)
  then show "server_ok (finish sid s)"
    using \<open>server_ok t\<close> t(2) by (auto simp: t(3) server_ok_def)
qed


lemma accept_ok: "server_ok s \<Longrightarrow> running s \<Longrightarrow> server_ok (accept s)"
proof -
  assume ok: "server_ok s" and run: "running s"
  let ?n = "next_conn s"
  have "username (conns s ?n) = PNone" using ok by (auto simp: server_ok_def)
  then have "net_inv ((accept s)) = net_inv s"
    by (intro net_inv_net) (auto simp: net_def accept_def Let_def new_handler_def fun_eq_iff)
  moreover have "box_inv (accept s)" "db_inv (accept s)"
    using ok by (auto simp: server_ok_def box_inv_def accept_def Let_def new_handler_def db_inv_def)
  moreover have "framed []" by (auto simp: framed_def intro: exI [of _ "[]"])
  ultimately show "server_ok (accept s)"
    using ok run by (auto simp: server_ok_def accept_def Let_def new_handler_def less_Suc_eq)
qed

lemma accept_buffers: "buffers_ok s \<Longrightarrow> buffers_ok (accept s)"
  by (simp add: buffers_ok_def accept_def Let_def buffer_ok_def new_line_buffer_inv) (simp add: new_line_buffer_def)

lemma shutdown_ok: "server_ok s \<Longrightarrow> server_ok (shutdown s)"
proof -
  assume ok: "server_ok s"
  have "net_inv (shutdown s) = net_inv s"
    by (intro net_inv_net) (auto simp: net_def shutdown_def handler_close_def fun_eq_iff)
  moreover have "box_inv (shutdown s)" "db_inv (shutdown s)"
    using ok by (auto simp: server_ok_def box_inv_def shutdown_def handler_close_def db_inv_def)
  ultimately show "server_ok (shutdown s)"
    using ok by (auto simp: server_ok_def shutdown_def handler_close_def)
qed

lemma framed_append:
  assumes "framed w" and "encode f = Inr bs"
  shows "framed (w @ bs)"
proof -
  obtain fs bss where "map encode fs = map Inr bss" "w = concat bss" using assms(1) by (auto simp: framed_def)
  then have "map encode (fs @ [f]) = map Inr (bss @ [bs])" "w @ bs = concat (bss @ [bs])" using assms(2) by simp_all
  then show ?thesis unfolding framed_def by blast
qed

text \<open>One turn of the writer takes the first item; it may write it, and it may set \<open>_closed\<close>.\<close>

definition took :: "nat \<Rightarrow> outbox_item list \<Rightarrow> bool \<Rightarrow> byte list \<Rightarrow> chat_server \<Rightarrow> chat_server" where
  "took sid rest cl bs s = s\<lparr>conns := (conns s)(sid := (conns s sid)\<lparr>outbox := rest, closed := closed (conns s sid) \<or> cl\<rparr>),
     wire := (wire s)(sid := wire s sid @ bs)\<rparr>"

lemma write_one_Cons:
  assumes "outbox (conns s sid) = item # rest"
  shows "write_one sid ok s = (case item of STOP \<Rightarrow> (False, took sid rest False [] s)
     | Item f \<Rightarrow> (case encode f of Inl _ \<Rightarrow> (True, took sid rest False [] s)
       | Inr bs \<Rightarrow> if ok then (True, took sid rest False bs s) else (False, took sid rest True [] s)))"
  using assms by (simp add: write_one_def took_def with_conn_def Let_def split: outbox_item.split sum.split)

lemma took_ok:
  assumes "server_ok s" and "outbox (conns s sid) = item # rest" and "framed (wire s sid @ bs)"
  shows "server_ok (took sid rest cl bs s)"
proof -
  have "length (item # rest) \<le> OUTBOX_LIMIT" using assms(1,2) by (auto simp: server_ok_def box_inv_def dest!: spec [of _ sid])
  then have "box_inv (took sid rest cl bs s)" using assms(1) by (simp add: server_ok_def box_inv_def took_def)
  moreover have "net_inv (took sid rest cl bs s) = net_inv s"
    by (rule net_inv_net) (simp add: net_def took_def fun_eq_iff)
  moreover have "username (conns (took sid rest cl bs s) c) = username (conns s c)"
    "closed (conns s c) \<Longrightarrow> closed (conns (took sid rest cl bs s) c)" for c by (auto simp: took_def)
  moreover have "db_inv (took sid rest cl bs s) = db_inv s" by (simp add: took_def db_inv_def)
  moreover have "handlers (took sid rest cl bs s) = handlers s" "reading (took sid rest cl bs s) = reading s"
    "next_conn (took sid rest cl bs s) = next_conn s" "running (took sid rest cl bs s) = running s"
    "wire (took sid rest cl bs s) = (wire s)(sid := wire s sid @ bs)" by (simp_all add: took_def)
  ultimately show ?thesis using assms(1,3) by (simp add: server_ok_def)
qed

lemma write_one_ok:
  assumes "server_ok s" and "write_one sid ok s = (go, t)"
  shows "server_ok t \<and> reading t = reading s \<and> buffers t = buffers s"
proof (cases "outbox (conns s sid)")
  case Nil
  then show ?thesis using assms by (simp add: write_one_def)
next
  case (Cons item rest)
  have f: "framed (wire s sid)" using assms(1) by (simp add: server_ok_def)
  have "\<exists>cl bs. t = took sid rest cl bs s \<and> framed (wire s sid @ bs)"
    using assms(2) f framed_append [OF f] unfolding write_one_Cons [OF Cons]
    by (auto split: outbox_item.splits sum.splits if_splits) (metis append_Nil2)+
  then show ?thesis using took_ok [OF assms(1) Cons] by (auto simp: took_def)
qed

lemma writing_ok: "server_ok (s\<lparr>writing := w\<rparr>) = server_ok s"
  by (simp add: server_ok_def)

lemma step_ok:
  assumes "server_step s t" and "server_ok s" and "buffers_ok s"
  shows "server_ok t \<and> buffers_ok t"
  using assms
proof (cases rule: server_step.cases)
  case Accept
  then show ?thesis using assms accept_ok accept_buffers by simp
next
  case (Read sid chunk)
  then show ?thesis using read_chunk_ok [OF assms(2)] assms(3) by blast
next
  case (Read_End sid chunk r t')
  note * = read_chunk_ok [OF assms(2) Read_End(2,3)]
  have "sid \<in> reading t'" using Read_End(2) *(2) by simp
  from finish_ok [OF *(1) this] show ?thesis
    using assms(3) *(2,4) Read_End by (auto simp: buffers_ok_def)
next
  case (Read_Stop sid)
  from finish_ok [OF assms(2) Read_Stop(2)] show ?thesis using assms(3) Read_Stop by (auto simp: buffers_ok_def)
next
  case (Write sid ok)
  from write_one_ok [OF assms(2) Write(3)] show ?thesis using assms(3) by (simp add: buffers_ok_def)
next
  case (Write_End sid ok t')
  from write_one_ok [OF assms(2) Write_End(4)] show ?thesis
    using assms(3) Write_End(1) by (simp add: buffers_ok_def writing_ok)
next
  case Shutdown
  then show ?thesis using assms shutdown_ok by (simp add: buffers_ok_def shutdown_def)
qed


lemma start_ok: "db_inv d \<Longrightarrow> server_ok (start_server d) \<and> buffers_ok (start_server d)"
  by (auto simp: server_ok_def buffers_ok_def start_server_def net_inv_def sessions_wf_def box_inv_def new_handler_def
      db_inv_def framed_def intro: exI [of _ "[]"])

lemma reachable_ok: "reachable d s \<Longrightarrow> db_inv d \<Longrightarrow> server_ok s \<and> buffers_ok s"
  by (induction rule: reachable.induct) (auto dest: start_ok step_ok)


text \<open>C7: in every state the server process can reach from a database whose tables are well
  formed, whatever the clients send and however the threads interleave: the tables keep their
  primary keys; every name that is online has exactly one connection, that connection carries
  the name and its reader is still running; no outbox holds more than 1000 frames; and the input
  buffer of every reader holds less than a line, of at most one mebibyte.\<close>

theorem process_invariant:
  assumes "db_inv d" and "reachable d s"
  shows "db_inv s \<and> sessions_wf (by_name s) \<and>
    (\<forall>(n, c)\<in>set (by_name s). username (conns s c) = n \<and> c \<in> reading s) \<and>
    (\<forall>c. length (outbox (conns s c)) \<le> OUTBOX_LIMIT) \<and>
    (\<forall>c\<in>reading s. DELIMITER \<notin> set (lb_buffer (buffers s c)) \<and> pending (buffers s c) \<le> MAX_LINE_BYTES)"
proof -
  have ok: "server_ok s" "buffers_ok s" using reachable_ok assms by blast+
  then show ?thesis
    by (fastforce simp: server_ok_def net_inv_def box_inv_def buffers_ok_def buffer_ok_def lb_inv_def pending_def)
qed

text \<open>A connection whose reader has ended, and every connection of a server that was shut
  down, is closed: nothing more is ever queued for it.\<close>

theorem ended_connections_are_closed:
  assumes "db_inv d" and "reachable d s" and "c < next_conn s" and "c \<notin> reading s \<or> \<not> running s"
  shows "closed (conns s c) \<and> handler_send f (conns s c) = conns s c"
proof -
  have "server_ok s" using reachable_ok assms by blast
  then have "closed (conns s c)" using assms(3,4) by (auto simp: server_ok_def)
  then show ?thesis by (simp add: handler_send_def)
qed

lemma read_loop_ok:
  assumes "server_ok s" and "sid \<in> reading s"
  shows "server_ok (after (read_loop sid rs) s) \<and> reading (after (read_loop sid rs) s) = reading s"
  using assms
proof (induction rs arbitrary: s)
  case (Cons r rs)
  show ?case
  proof (cases "closed (conns s sid) \<or> r = Os_Error")
    case True
    then show ?thesis using Cons.prems by auto
  next
    case False
    then obtain bs where r: "r = Chunk bs" "\<not> closed (conns s sid)" by (cases r) auto
    obtain x t where rc: "read_chunk sid bs s = (x, t)" by (cases "read_chunk sid bs s")
    note * = read_chunk_ok(1,2) [OF Cons.prems rc]
    then have "sid \<in> reading t" using Cons.prems by simp
    from Cons.IH [OF *(1) this] show ?thesis
      using r rc * by (cases x) (simp_all add: bnd_def)
  qed
qed simp

text \<open>C24: whatever a client sends and however its connection ends (it hangs up, sends a line
  that is too long, resets the connection, or makes a handler raise), at the end of \<open>serve\<close> the
  connection is closed, no name leads to it any more, and the server has forgotten it.\<close>

theorem serve_cleans_up:
  assumes "db_inv d" and "reachable d s" and "sid \<in> reading s"
  shows "let t = serve sid rs s in closed (conns t sid) \<and> username (conns t sid) = PNone \<and>
    sid \<notin> handlers t \<and> sid \<notin> reading t \<and> (\<forall>n. sessions_get n (by_name t) \<noteq> Some sid)"
proof -
  let ?s = "after (read_loop sid rs) s"
  have "server_ok s" using reachable_ok assms by blast
  from read_loop_ok [OF this assms(3)] have "server_ok ?s" "sid \<in> reading ?s" using assms(3) by simp_all
  note f = finish_ok [OF this]
  then have t: "server_ok (serve sid rs s)" "sid \<notin> reading (serve sid rs s)" by (simp_all add: serve_def)
  have "sessions_get n (by_name (serve sid rs s)) \<noteq> Some sid" for n
  proof
    assume "sessions_get n (by_name (serve sid rs s)) = Some sid"
    then obtain k where "(k, sid) \<in> set (by_name (serve sid rs s))" using sessions_get_Some by blast
    then have "username (conns (serve sid rs s) sid) \<noteq> PNone"
      using t(1) by (auto simp: server_ok_def net_inv_def)
    then show False using f(4) by (simp add: serve_def)
  qed
  moreover have "sid \<notin> handlers (serve sid rs s)" using t by (auto simp: server_ok_def)
  ultimately show ?thesis using f(4,5) t(2) by (simp add: serve_def Let_def)
qed

lemma write_all_wire:
  assumes "outbox (conns s sid) = map Item fs @ rest" and "list_all wf_frame fs"
  shows "wire (write_all sid (length fs) s) sid = wire s sid @ concat (map (line_bytes \<circ> frame_text) fs) \<and>
    outbox (conns (write_all sid (length fs) s) sid) = rest"
  using assms
proof (induction fs arbitrary: s)
  case (Cons f fs)
  have o: "outbox (conns s sid) = Item f # (map Item fs @ rest)" using Cons.prems by simp
  let ?t = "took sid (map Item fs @ rest) False (line_bytes (frame_text f)) s"
  have "write_one sid True s = (True, ?t)"
    using Cons.prems by (simp add: write_one_Cons [OF o] encode_eq)
  moreover have "outbox (conns ?t sid) = map Item fs @ rest" "wire ?t sid = wire s sid @ line_bytes (frame_text f)"
    by (simp_all add: took_def)
  ultimately show ?case using Cons.IH [of ?t] Cons.prems by simp
qed simp

text \<open>C15: what the router queues for a client is what the client decodes: the writer writes the
  queued frames in their order, and a reader that gets the bytes in chunks cut anywhere decodes
  exactly those frames, provided none of them is longer than its limit.\<close>

theorem queue_to_peer:
  assumes "outbox (conns s sid) = map Item fs @ rest" and "list_all wf_frame fs" and "wire s sid = []"
    and "\<forall>f\<in>set fs. \<exists>bs. encode f = Inr bs \<and> length bs \<le> m"
    and "concat chunks = wire (write_all sid (length fs) s) sid"
  shows "\<exists>lines. feed_all (new_line_buffer m) chunks = (new_line_buffer m, Inr lines) \<and>
    outcome (map_each lines decode) w = Inr (map Inr fs)"
proof -
  have good: "list_all good_line (map frame_text fs)"
    using assms(2) frame_text_good by (auto simp: list_all_iff)
  have len: "\<forall>t\<in>set (map frame_text fs). length (line_bytes t) \<le> m"
    using assms(2,4) encode_eq by (fastforce simp: list_all_iff)
  have "concat chunks = concat (map line_bytes (map frame_text fs))"
    using write_all_wire [OF assms(1,2)] assms(3,5) by simp
  then have "feed_all (new_line_buffer m) chunks = (new_line_buffer m, Inr (map frame_text fs))"
    using feed_all_lines [OF good, of "new_line_buffer m" chunks] len by (simp add: new_line_buffer_def)
  moreover have "outcome (map_each (map frame_text fs) decode) w = Inr (map Inr fs)"
    by (simp add: decode_frames [OF assms(2)])
  ultimately show ?thesis by blast
qed


lemma read_line_garbage:
  assumes "loads line = Inl (Decode_Error msg)"
  shows "\<exists>g. read_line sid line s = (Inr (), with_conn sid (handler_send g) (s\<lparr>draws := Suc (Suc (draws s))\<rparr>)) \<and>
    f_type g = ERROR \<and> pget (f_data g) (u ''code'') = PStr (u ''BAD_FRAME'')"
proof -
  have "read_line sid line s = send_error sid ''BAD_FRAME'' (perr_msg (Not_Json msg)) s"
    by (simp add: read_line_def decode_def assms bnd_def)
  moreover obtain g where "send_error sid ''BAD_FRAME'' (perr_msg (Not_Json msg)) s =
      (Inr (), with_conn sid (handler_send g) (s\<lparr>draws := Suc (Suc (draws s))\<rparr>))"
    "f_type g = ERROR" "f_data g = [(u ''code'', PStr (u ''BAD_FRAME'')), (u ''message'', PStr (perr_msg (Not_Json msg)))]"
    using send_error_run by blast
  ultimately show ?thesis by (intro exI [of _ g]) (simp add: pget_def)
qed

lemma read_garbage:
  assumes "list_all (\<lambda>l. \<exists>msg. loads l = Inl (Decode_Error msg)) lines"
    and "\<not> closed (conns s sid)" and "length (outbox (conns s sid)) + length lines \<le> OUTBOX_LIMIT"
  shows "\<exists>gs t. for_each lines (read_line sid) s = (Inr (), t) \<and> \<not> closed (conns t sid) \<and>
    outbox (conns t sid) = outbox (conns s sid) @ map Item gs \<and> length gs = length lines \<and>
    (\<forall>g\<in>set gs. f_type g = ERROR \<and> pget (f_data g) (u ''code'') = PStr (u ''BAD_FRAME'')) \<and>
    (\<forall>c. c \<noteq> sid \<longrightarrow> conns t c = conns s c) \<and> net t = net s"
  using assms
proof (induction lines arbitrary: s)
  case (Cons l ls)
  then obtain msg where l: "loads l = Inl (Decode_Error msg)" by auto
  from read_line_garbage [OF l, of sid s] obtain g where
    g: "read_line sid l s = (Inr (), with_conn sid (handler_send g) (s\<lparr>draws := Suc (Suc (draws s))\<rparr>))"
      "f_type g = ERROR" "pget (f_data g) (u ''code'') = PStr (u ''BAD_FRAME'')" by blast
  let ?t = "with_conn sid (handler_send g) (s\<lparr>draws := Suc (Suc (draws s))\<rparr>)"
  have t: "\<not> closed (conns ?t sid)" "outbox (conns ?t sid) = outbox (conns s sid) @ [Item g]"
    "\<forall>c. c \<noteq> sid \<longrightarrow> conns ?t c = conns s c" "net ?t = net s"
    using Cons.prems by (auto simp: with_conn_def handler_send_def net_def fun_eq_iff)
  then obtain gs t where rest: "for_each ls (read_line sid) ?t = (Inr (), t)" "\<not> closed (conns t sid)"
    "outbox (conns t sid) = outbox (conns ?t sid) @ map Item gs" "length gs = length ls"
    "\<forall>g\<in>set gs. f_type g = ERROR \<and> pget (f_data g) (u ''code'') = PStr (u ''BAD_FRAME'')"
    "\<forall>c. c \<noteq> sid \<longrightarrow> conns t c = conns ?t c" "net t = net ?t"
    using Cons.IH [of ?t] Cons.prems by auto
  have "for_each (l # ls) (read_line sid) s = (Inr (), t)" using g(1) rest(1) by (simp add: andthen_Inr)
  then show ?case using rest t g(2,3) by (intro exI [of _ "g # gs"] exI [of _ t]) auto
qed (auto intro: exI [of _ "[]"])

text \<open>Malformed input is answered, not punished. When every line a chunk completes is not
  JSON, each gets one BAD_FRAME error on its own connection, in order; the connection stays open,
  the reader goes on, and no other connection and no session notices.\<close>

theorem garbage_keeps_connection:
  assumes "feed (buffers s sid) chunk = (lb, Inr lines)" and "chunk \<noteq> []"
    and "list_all (\<lambda>l. \<exists>msg. loads l = Inl (Decode_Error msg)) lines"
    and "\<not> closed (conns s sid)" and "length (outbox (conns s sid)) + length lines \<le> OUTBOX_LIMIT"
  shows "\<exists>gs t. read_chunk sid chunk s = (Inr True, t) \<and> \<not> closed (conns t sid) \<and>
    outbox (conns t sid) = outbox (conns s sid) @ map Item gs \<and> length gs = length lines \<and>
    (\<forall>g\<in>set gs. f_type g = ERROR \<and> pget (f_data g) (u ''code'') = PStr (u ''BAD_FRAME'')) \<and>
    (\<forall>c. c \<noteq> sid \<longrightarrow> conns t c = conns s c) \<and> net t = net s"
proof -
  let ?s = "s\<lparr>buffers := (buffers s)(sid := lb)\<rparr>"
  have "net ?s = net s" by (simp add: net_def)
  moreover have "read_chunk sid chunk s = andthen (for_each lines (read_line sid)) (ret True) ?s"
    using assms(1,2) by (simp add: read_chunk_def react_def)
  moreover obtain gs t where "for_each lines (read_line sid) ?s = (Inr (), t)" "\<not> closed (conns t sid)"
    "outbox (conns t sid) = outbox (conns ?s sid) @ map Item gs" "length gs = length lines"
    "\<forall>g\<in>set gs. f_type g = ERROR \<and> pget (f_data g) (u ''code'') = PStr (u ''BAD_FRAME'')"
    "\<forall>c. c \<noteq> sid \<longrightarrow> conns t c = conns ?s c" "net t = net ?s"
    using read_garbage [of lines ?s sid, OF assms(3)] assms(4,5) by auto
  ultimately show ?thesis by (intro exI [of _ gs] exI [of _ t]) (simp add: andthen_def bnd_def)
qed

subsection \<open>Concrete instances\<close>

definition fresh_server :: chat_server where
  "fresh_server = accept (start_server empty_db)"

lemma fresh_reachable: "reachable empty_db fresh_server"
  unfolding fresh_server_def by (rule reachable.Step [OF reachable.Start server_step.Accept]) (simp add: start_server_def)

lemma empty_db_inv: "db_inv empty_db"
  by (simp add: db_inv_def empty_db_def)

lemma fresh_fields: "reading fresh_server = {0}" "next_conn fresh_server = 1" "conns fresh_server 0 = new_handler"
  "buffers fresh_server 0 = new_line_buffer MAX_LINE_BYTES" "wire fresh_server 0 = []"
  by (simp_all add: fresh_server_def accept_def start_server_def)

theorem process_invariant_witness: "db_inv fresh_server \<and> 0 \<in> reading fresh_server"
  using process_invariant [OF empty_db_inv fresh_reachable] by (simp add: fresh_fields)

theorem ended_connections_are_closed_witness:
  "closed (conns (shutdown fresh_server) 0) \<and> handler_send sample_frame (conns (shutdown fresh_server) 0) = conns (shutdown fresh_server) 0"
proof (rule ended_connections_are_closed [OF empty_db_inv])
  show "reachable empty_db (shutdown fresh_server)" by (rule reachable.Step [OF fresh_reachable server_step.Shutdown])
  show "0 < next_conn (shutdown fresh_server)" by (simp add: shutdown_def fresh_fields)
  show "0 \<notin> reading (shutdown fresh_server) \<or> \<not> running (shutdown fresh_server)" by (simp add: shutdown_def)
qed

theorem serve_cleans_up_witness:
  "let t = serve 0 [Chunk [byte_of 97, byte_of 10], Os_Error] fresh_server in closed (conns t 0) \<and> username (conns t 0) = PNone \<and>
    0 \<notin> handlers t \<and> 0 \<notin> reading t \<and> (\<forall>n. sessions_get n (by_name t) \<noteq> Some 0)"
  by (rule serve_cleans_up [OF empty_db_inv fresh_reachable]) (simp add: fresh_fields)

definition queued_server :: chat_server where
  "queued_server = with_conn 0 (handler_send sample_frame) fresh_server"

lemma queued_outbox: "outbox (conns queued_server 0) = map Item [sample_frame] @ []" "wire queued_server 0 = []"
  by (simp_all add: queued_server_def with_conn_def fresh_fields handler_send_def new_handler_def OUTBOX_LIMIT_def)

theorem queue_to_peer_witness:
  "\<exists>lines. feed_all (new_line_buffer 4096) [take 7 (wire (write_all 0 1 queued_server) 0), drop 7 (wire (write_all 0 1 queued_server) 0)]
      = (new_line_buffer 4096, Inr lines) \<and>
    outcome (map_each lines decode) empty_db = Inr (map Inr [sample_frame])"
proof (rule queue_to_peer [OF queued_outbox(1) _ queued_outbox(2)])
  show "\<forall>f\<in>set [sample_frame]. \<exists>bs. encode f = Inr bs \<and> length bs \<le> 4096"
    using encode_eq [OF sample_frame_wf] sample_frame_length by auto
qed (simp_all add: sample_frame_wf)


lemma prose_not_json: "\<exists>msg. loads (u ''hi'') = Inl (Decode_Error msg)"
  by (simp add: loads_def u_def skip_ws_def Let_def json_atom_def read_int_def json_number_def startswith_def is_json_ws_def is_digit_def)

lemma prose_fed: "feed (new_line_buffer MAX_LINE_BYTES) (line_bytes (u ''hi'')) = (new_line_buffer MAX_LINE_BYTES, Inr [u ''hi''])"
proof -
  have "good_line (u ''hi'')" by (simp add: good_line_def u_def line_char_def is_scalar_def is_surrogate_def)
  from feed_loop_line [OF this, of "[]" "[]"] show ?thesis by (simp add: feed_Inr new_line_buffer_def feed_loop.simps)
qed

theorem garbage_keeps_connection_witness:
  "\<exists>gs t. read_chunk 0 (line_bytes (u ''hi'')) fresh_server = (Inr True, t) \<and> \<not> closed (conns t 0) \<and>
    outbox (conns t 0) = map Item gs \<and> length gs = 1"
  using garbage_keeps_connection [of fresh_server 0 "line_bytes (u ''hi'')" "new_line_buffer MAX_LINE_BYTES" "[u ''hi'']"]
    prose_fed prose_not_json
  by (fastforce simp: fresh_fields new_handler_def OUTBOX_LIMIT_def line_bytes_def)

end
