(* ===== verification/ConnState.thy ===== *)
theory ConnState
  imports Codec
begin

section \<open>Connection state and retry schedule of the client\<close>

text \<open>
  \<open>im/client/net/state.py\<close> and \<open>im/client/net/backoff.py\<close>: the state machine a view renders, with
  the table of legal transitions as the source has it, and the schedule of reconnection attempts.
\<close>

subsection \<open>The state machine\<close>

datatype conn_state = DISCONNECTED | CONNECTING | AUTHENTICATING | ONLINE | RETRYING | CLOSED

datatype conn_event =
    Ev_CONNECT | Ev_SOCKET_READY | Ev_SOCKET_FAILED | Ev_LOGIN_OK | Ev_LOGIN_REFUSED
  | Ev_CONNECTION_LOST | Ev_BACKOFF_EXPIRED | Ev_CLOSE

text \<open>\<open>IllegalTransition\<close>, with the state it was raised in and the event.\<close>

datatype illegal_transition = Illegal_Transition conn_state conn_event

definition transitions :: "((conn_state \<times> conn_event) \<times> conn_state) list" where
  "transitions =
     [((DISCONNECTED, Ev_CONNECT), CONNECTING),
      ((CONNECTING, Ev_SOCKET_READY), AUTHENTICATING),
      ((CONNECTING, Ev_SOCKET_FAILED), RETRYING),
      ((AUTHENTICATING, Ev_LOGIN_OK), ONLINE),
      ((AUTHENTICATING, Ev_LOGIN_REFUSED), DISCONNECTED),
      ((AUTHENTICATING, Ev_CONNECTION_LOST), RETRYING),
      ((ONLINE, Ev_CONNECTION_LOST), RETRYING),
      ((RETRYING, Ev_BACKOFF_EXPIRED), CONNECTING),
      ((RETRYING, Ev_SOCKET_FAILED), RETRYING)]"

text \<open>\<open>mc_seen\<close> is what the observer was called with, oldest first, when there is one.\<close>

record machine =
  mc_state :: conn_state
  mc_watched :: bool
  mc_seen :: "conn_state list"

definition new_machine :: "bool \<Rightarrow> machine" where
  "new_machine watched = \<lparr>mc_state = DISCONNECTED, mc_watched = watched, mc_seen = []\<rparr>"

definition mc_can_send :: "machine \<Rightarrow> bool" where
  "mc_can_send m \<longleftrightarrow> mc_state m = ONLINE"

definition mc_is_closed :: "machine \<Rightarrow> bool" where
  "mc_is_closed m \<longleftrightarrow> mc_state m = CLOSED"

definition mc_allows :: "conn_event \<Rightarrow> machine \<Rightarrow> bool" where
  "mc_allows ev m \<longleftrightarrow>
     (if mc_state m = CLOSED then False
      else if ev = Ev_CLOSE then True
      else map_of transitions (mc_state m, ev) \<noteq> None)"

definition move :: "conn_state \<Rightarrow> machine \<Rightarrow> machine" where
  "move new m =
     (if new = mc_state m then m
      else m\<lparr>mc_state := new, mc_seen := (if mc_watched m then mc_seen m @ [new] else mc_seen m)\<rparr>)"

definition mc_transition :: "conn_event \<Rightarrow> machine \<Rightarrow> illegal_transition + conn_state \<times> machine" where
  "mc_transition ev m =
     (if mc_state m = CLOSED then Inl (Illegal_Transition (mc_state m) ev)
      else if ev = Ev_CLOSE then Inr (CLOSED, move CLOSED m)
      else case map_of transitions (mc_state m, ev) of
             None \<Rightarrow> Inl (Illegal_Transition (mc_state m) ev)
           | Some new \<Rightarrow> Inr (new, move new m))"

text \<open>A history of the machine: the events applied to it, none of them illegal.\<close>

fun mc_run :: "conn_event list \<Rightarrow> machine \<Rightarrow> machine option" where
  "mc_run [] m = Some m"
| "mc_run (ev # evs) m = (case mc_transition ev m of Inl _ \<Rightarrow> None | Inr (_, m') \<Rightarrow> mc_run evs m')"

lemma mc_allows_iff: "mc_allows ev m \<longleftrightarrow> (\<exists>r. mc_transition ev m = Inr r)"
  by (auto simp: mc_allows_def mc_transition_def split: option.split)

lemma mc_state_move [simp]: "mc_state (move new m) = new"
  by (simp add: move_def)

lemma mc_run_append: "mc_run (xs @ ys) m = (case mc_run xs m of None \<Rightarrow> None | Some m' \<Rightarrow> mc_run ys m')"
  by (induction xs arbitrary: m) (auto split: sum.split prod.split)

lemma mc_transition_state:
  "mc_transition ev m = Inr (st, m') \<Longrightarrow> mc_state m' = st \<and> m' = move st m \<and>
     (ev = Ev_CLOSE \<and> st = CLOSED \<or> ((mc_state m, ev), st) \<in> set transitions) \<and> mc_state m \<noteq> CLOSED"
  by (auto simp: mc_transition_def dest: map_of_SomeD split: if_splits option.splits)

text \<open>How a machine can have come to be online.\<close>

lemma into_online: "mc_transition ev m = Inr (ONLINE, m') \<Longrightarrow> ev = Ev_LOGIN_OK \<and> mc_state m = AUTHENTICATING"
  by (drule mc_transition_state) (auto simp: transitions_def)

lemma into_authenticating: "mc_transition ev m = Inr (AUTHENTICATING, m') \<Longrightarrow> ev = Ev_SOCKET_READY \<and> mc_state m = CONNECTING"
  by (drule mc_transition_state) (auto simp: transitions_def)

lemma mc_run_last:
  assumes "mc_run evs m = Some m'" and "mc_state m' \<noteq> mc_state m"
  shows "\<exists>pre ev m1. evs = pre @ [ev] \<and> mc_run pre m = Some m1 \<and> mc_transition ev m1 = Inr (mc_state m', m')"
proof (cases evs rule: rev_cases)
  case Nil
  with assms show ?thesis by simp
next
  case (snoc pre ev)
  with assms obtain m1 where m1: "mc_run pre m = Some m1" "mc_run [ev] m1 = Some m'"
    by (auto simp: mc_run_append split: option.splits)
  then obtain st where "mc_transition ev m1 = Inr (st, m')" by (auto split: sum.splits prod.splits)
  with mc_transition_state [OF this] snoc m1(1) show ?thesis by auto
qed

text \<open>C27: the composer is never enabled without a login. Whatever happened to a connection
  object since it was made, if it is ONLINE then the last two things that happened to it are that
  its socket became ready and that the server accepted its login; and once it is CLOSED every
  event is refused.\<close>

theorem online_needs_login:
  assumes "mc_run evs (new_machine w) = Some m"
  shows "(mc_can_send m \<longrightarrow> (\<exists>pre. evs = pre @ [Ev_SOCKET_READY, Ev_LOGIN_OK])) \<and>
    (mc_is_closed m \<longrightarrow> (\<forall>ev. mc_transition ev m = Inl (Illegal_Transition CLOSED ev) \<and> \<not> mc_allows ev m))"
proof (intro conjI impI allI)
  assume "mc_can_send m"
  then have on: "mc_state m = ONLINE" by (simp add: mc_can_send_def)
  then obtain p1 e1 m1 where 1: "evs = p1 @ [e1]" "mc_run p1 (new_machine w) = Some m1" "mc_transition e1 m1 = Inr (ONLINE, m)"
    using mc_run_last [OF assms] by (auto simp: new_machine_def)
  then have a: "e1 = Ev_LOGIN_OK" "mc_state m1 = AUTHENTICATING" using into_online by blast+
  then obtain p2 e2 m2 where "p1 = p2 @ [e2]" "mc_transition e2 m2 = Inr (AUTHENTICATING, m1)"
    using mc_run_last [OF 1(2)] by (auto simp: new_machine_def)
  then show "\<exists>pre. evs = pre @ [Ev_SOCKET_READY, Ev_LOGIN_OK]"
    using into_authenticating 1(1) a(1) by auto
next
  fix ev assume "mc_is_closed m"
  then show "mc_transition ev m = Inl (Illegal_Transition CLOSED ev)" "\<not> mc_allows ev m"
    by (simp_all add: mc_is_closed_def mc_transition_def mc_allows_def)
qed

theorem online_needs_login_witness:
  "\<exists>m. mc_run [Ev_CONNECT, Ev_SOCKET_FAILED, Ev_BACKOFF_EXPIRED, Ev_SOCKET_READY, Ev_LOGIN_OK] (new_machine True) = Some m \<and>
     mc_can_send m \<and> (\<exists>pre. [Ev_CONNECT, Ev_SOCKET_FAILED, Ev_BACKOFF_EXPIRED, Ev_SOCKET_READY, Ev_LOGIN_OK] =
       pre @ [Ev_SOCKET_READY, Ev_LOGIN_OK])"
proof -
  let ?m = "\<lparr>mc_state = ONLINE, mc_watched = True, mc_seen = [CONNECTING, RETRYING, CONNECTING, AUTHENTICATING, ONLINE]\<rparr>"
  have r: "mc_run [Ev_CONNECT, Ev_SOCKET_FAILED, Ev_BACKOFF_EXPIRED, Ev_SOCKET_READY, Ev_LOGIN_OK] (new_machine True) = Some ?m"
    by (simp add: mc_transition_def transitions_def new_machine_def move_def)
  with online_needs_login [OF r] show ?thesis by (simp add: mc_can_send_def)
qed

text \<open>The observer hears of every change of state, and of nothing else.\<close>

lemma observer_is_current:
  "mc_run evs m = Some m' \<Longrightarrow> mc_watched m \<Longrightarrow> last (x # mc_seen m) = mc_state m \<Longrightarrow>
   last (x # mc_seen m') = mc_state m'"
proof (induction evs arbitrary: m)
  case (Cons ev evs)
  then obtain st m1 where t: "mc_transition ev m = Inr (st, m1)" "mc_run evs m1 = Some m'"
    by (auto split: sum.splits prod.splits)
  then have m1: "m1 = move st m" using mc_transition_state by blast
  have "mc_watched m1" "last (x # mc_seen m1) = mc_state m1" using Cons.prems m1 by (auto simp: move_def)
  with Cons.IH [OF t(2)] show ?case by blast
qed simp

subsection \<open>The retry schedule\<close>

text \<open>
  The floats of the schedule are rationals here. The powers of two and the cap are exact, and
  rounding is monotone, so the bounds below hold of the floats as well. What is kept of floats is
  that \<open>**\<close> raises \<open>OverflowError\<close> when the result does not fit.
\<close>

definition float_limit :: rat where
  "float_limit = 2 ^ 1024 - 2 ^ 970"

definition py_pow :: "rat \<Rightarrow> nat \<Rightarrow> exn + rat" where
  "py_pow x n = (if float_limit \<le> \<bar>x ^ n\<bar> then Inl Overflow_Error else Inr (x ^ n))"

record backoff =
  bo_first :: rat
  bo_factor :: rat
  bo_maximum :: rat
  bo_jitter :: rat
  bo_attempts :: nat

definition new_backoff :: backoff where
  "new_backoff = \<lparr>bo_first = 1, bo_factor = 2, bo_maximum = 30, bo_jitter = 1 / 4, bo_attempts = 0\<rparr>"

definition bo_reset :: "backoff \<Rightarrow> backoff" where
  "bo_reset b = b\<lparr>bo_attempts := 0\<rparr>"

definition nominal :: "backoff \<Rightarrow> exn + rat" where
  "nominal b = (case py_pow (bo_factor b) (bo_attempts b) of
       Inl e \<Rightarrow> Inl e | Inr p \<Rightarrow> Inr (min (bo_first b * p) (bo_maximum b)))"

text \<open>\<open>r\<close> is what \<open>random.random()\<close> returns.\<close>

definition next_delay :: "rat \<Rightarrow> backoff \<Rightarrow> exn + rat \<times> backoff" where
  "next_delay r b = (case nominal b of
       Inl e \<Rightarrow> Inl e
     | Inr delay \<Rightarrow>
       (let b' = b\<lparr>bo_attempts := Suc (bo_attempts b)\<rparr> in
        if bo_jitter b \<le> 0 then Inr (delay, b')
        else Inr (delay * (1 - r * bo_jitter b), b')))"

fun delays :: "rat list \<Rightarrow> backoff \<Rightarrow> exn + rat list" where
  "delays [] b = Inr []"
| "delays (r # rs) b = (case next_delay r b of Inl e \<Rightarrow> Inl e
     | Inr (d, b') \<Rightarrow> (case delays rs b' of Inl e \<Rightarrow> Inl e | Inr ds \<Rightarrow> Inr (d # ds)))"

lemma pow2_fits: "py_pow 2 n = (if n < 1024 then Inr (2 ^ n) else Inl Overflow_Error)"
proof -
  have lim: "(2::rat) ^ 1023 < float_limit" "float_limit \<le> (2::rat) ^ 1024" by (simp_all add: float_limit_def)
  show ?thesis
  proof (cases "n < 1024")
    case True
    then have "(2::rat) ^ n \<le> 2 ^ 1023" by (intro power_increasing) simp_all
    with lim(1) True show ?thesis by (simp add: py_pow_def)
  next
    case False
    then have "(2::rat) ^ 1024 \<le> 2 ^ n" by (intro power_increasing) simp_all
    with lim(2) False show ?thesis by (simp add: py_pow_def)
  qed
qed

text \<open>C40: the retry schedule. With the default parameters the nominal delay is 1, 2, 4, 8, 16 and
  then 30 seconds; the delay waited lies between three quarters of it and the whole of it, so
  it is never more than 30 seconds and never less than three quarters of a second, and the
  attempt is counted. This holds for the first 1024 attempts: from then on \<open>2.0 ** attempts\<close> does
  not fit a float and computing the delay raises \<open>OverflowError\<close>.\<close>

theorem retry_schedule:
  assumes "0 \<le> r" and "r < 1"
  shows "let b = new_backoff\<lparr>bo_attempts := n\<rparr> in
    if n < 1024
    then \<exists>d. next_delay r b = Inr (d, b\<lparr>bo_attempts := Suc n\<rparr>) \<and> nominal b = Inr (min (2 ^ n) 30) \<and>
      3 / 4 * min (2 ^ n) 30 \<le> d \<and> d \<le> min (2 ^ n) 30 \<and> 3 / 4 \<le> d \<and> d \<le> 30
    else nominal b = Inl Overflow_Error \<and> next_delay r b = Inl Overflow_Error"
proof -
  define q where "q = min ((2::rat) ^ n) 30"
  have q: "1 \<le> q" "q \<le> 30" by (simp_all add: q_def)
  have j: "3 / 4 \<le> 1 - r / 4" "1 - r / 4 \<le> 1" using assms by simp_all
  have lo: "3 / 4 * q \<le> q * (1 - r / 4)"
    using mult_left_mono [OF j(1), of q] q by (simp add: mult.commute)
  have hi: "q * (1 - r / 4) \<le> q" using mult_left_mono [OF j(2), of q] q by simp
  have bounds: "3 / 4 \<le> q * (1 - r / 4)" "q * (1 - r / 4) \<le> 30" using lo hi q by linarith+
  show ?thesis
  proof (cases "n < 1024")
    case True
    then have nom: "nominal (new_backoff\<lparr>bo_attempts := n\<rparr>) = Inr q"
      by (simp add: nominal_def new_backoff_def pow2_fits q_def)
    then have "next_delay r (new_backoff\<lparr>bo_attempts := n\<rparr>) = Inr (q * (1 - r / 4), new_backoff\<lparr>bo_attempts := Suc n\<rparr>)"
      by (simp add: next_delay_def new_backoff_def)
    then show ?thesis using True lo hi bounds nom by (simp add: Let_def flip: q_def)
  next
    case False
    then show ?thesis by (simp add: Let_def next_delay_def nominal_def new_backoff_def pow2_fits)
  qed
qed

theorem retry_schedule_witness:
  "\<exists>d. next_delay (1 / 2) new_backoff = Inr (d, new_backoff\<lparr>bo_attempts := Suc 0\<rparr>) \<and> 3 / 4 \<le> d \<and> d \<le> 30"
proof -
  have "new_backoff\<lparr>bo_attempts := 0\<rparr> = new_backoff" by (simp add: new_backoff_def)
  with retry_schedule [of "1 / 2" 0] show ?thesis by (auto simp: Let_def)
qed

end
