(* ===== verification/ServerLink.thy ===== *)
theory ServerLink
  imports ConnState
begin

section \<open>The client's end of the socket\<close>

text \<open>
  \<open>im/client/net/connection.py\<close>. A \<open>ServerConnection\<close> has a reader,
  a writer and a heartbeat thread beside the caller; what they do is a list of \<open>io\<close> turns, and a
  call that blocks (waiting for a reply, dialling) takes as an argument the turns the other
  threads make meanwhile. For the two waits that are hidden inside \<open>send\<close> and \<open>close\<close>, at most
  \<open>OUTBOX_WAIT\<close> and \<open>FLUSH_SECONDS\<close> long, these turns are two lists of the state.
\<close>

subsection \<open>The connection object\<close>

definition LINK_OUTBOX_LIMIT :: nat where
  "LINK_OUTBOX_LIMIT = 100"

definition MISSED_PONGS :: nat where
  "MISSED_PONGS = 2"

datatype link_item = Link_STOP | Link_Item frame

text \<open>What another thread may do while a call waits: a turn of the reader or of the writer, a heartbeat, or
  \<open>close\<close>. The last two may have to wait themselves, and bring the turns made meanwhile: for a
  place in the outbox, and for the writer to finish.\<close>

datatype turn =
    Tn_Recv "byte list option"
  | Tn_Write bool
  | Tn_Beat "turn list" "turn list"
  | Tn_Close "turn list"

record link = world +
  lk_username :: "ustr option"
  lk_machine :: machine
  lk_buffer :: line_buffer
  lk_outbox :: "link_item list"
  lk_closing :: bool
  lk_await :: "message_type list"
  lk_reply :: "frame option"
  lk_ready :: bool
  lk_hb_made :: bool
  lk_beating :: bool
  lk_unanswered :: nat
  lk_reading :: bool
  lk_writing :: bool
  lk_sock_open :: bool
  lk_wire :: "byte list"
  lk_heard :: "frame list"
  lk_wait_turns :: "turn list"
  lk_flush_turns :: "turn list"

text \<open>
  \<open>lk_reading\<close>, \<open>lk_writing\<close> and \<open>lk_beating\<close> say which threads run, \<open>lk_hb_made\<close> that \<open>_heartbeat\<close>
  is not \<open>None\<close>, \<open>lk_heard\<close> is what the listener was called with and \<open>lk_wire\<close> what was written to
  the socket. \<open>lk_buffer\<close> is the local of \<open>_read_loop\<close>.
\<close>

text \<open>\<open>__init__\<close>. The listener and the pace of the threads are the environment's.\<close>

definition new_link :: "'z link_scheme \<Rightarrow> 'z link_scheme" where
  "new_link s = s\<lparr>lk_username := None, lk_machine := new_machine True, lk_buffer := new_line_buffer MAX_LINE_BYTES,
     lk_outbox := [], lk_closing := False, lk_await := [], lk_reply := None, lk_ready := False,
     lk_hb_made := False, lk_beating := False, lk_unanswered := 0, lk_reading := False, lk_writing := False,
     lk_sock_open := False, lk_wire := []\<rparr>"

definition link_state :: "'z link_scheme \<Rightarrow> conn_state" where
  "link_state s = mc_state (lk_machine s)"

definition link_can_send :: "'z link_scheme \<Rightarrow> bool" where
  "link_can_send s = mc_can_send (lk_machine s)"

definition on_event :: "conn_event \<Rightarrow> ('z link_scheme, unit) py" where
  "on_event ev = bnd (gets lk_machine) (\<lambda>m. case mc_transition ev m of
       Inl _ \<Rightarrow> raise Illegal_Event
     | Inr (_, m') \<Rightarrow> modify (\<lambda>s. s\<lparr>lk_machine := m'\<rparr>))"

subsection \<open>The threads\<close>

text \<open>One turn of \<open>_write_loop\<close>; \<open>ok\<close> says whether \<open>sendall\<close> succeeds. A closed socket takes nothing.\<close>

definition link_write :: "bool \<Rightarrow> 'z link_scheme \<Rightarrow> 'z link_scheme" where
  "link_write ok s =
     (if \<not> lk_writing s then s else case lk_outbox s of
        [] \<Rightarrow> s
      | item # rest \<Rightarrow>
        (let s1 = s\<lparr>lk_outbox := rest\<rparr> in
         case item of Link_STOP \<Rightarrow> s1\<lparr>lk_writing := False\<rparr>
         | Link_Item f \<Rightarrow> (case encode f of
             Inl _ \<Rightarrow> s1
           | Inr bs \<Rightarrow> if ok \<and> lk_sock_open s then s1\<lparr>lk_wire := lk_wire s @ bs\<rparr> else s1\<lparr>lk_writing := False\<rparr>)))"

definition put_nowait :: "link_item \<Rightarrow> ('z link_scheme, bool) py" where
  "put_nowait item = bnd (gets (\<lambda>s. length (lk_outbox s) < LINK_OUTBOX_LIMIT)) (\<lambda>fits.
     if fits then andthen (modify (\<lambda>s. s\<lparr>lk_outbox := lk_outbox s @ [item]\<rparr>)) (ret True) else ret False)"

definition connection_lost :: "('z link_scheme, unit) py" where
  "connection_lost = bnd (gets (\<lambda>s. lk_closing s \<or> mc_is_closed (lk_machine s))) (\<lambda>over.
     if over then ret ()
     else bnd (gets (\<lambda>s. mc_allows Ev_CONNECTION_LOST (lk_machine s))) (\<lambda>legal.
          andthen (if legal then on_event Ev_CONNECTION_LOST else ret ())
            (modify (\<lambda>s. s\<lparr>lk_ready := True\<rparr>))))"

definition link_deliver :: "frame \<Rightarrow> 'z link_scheme \<Rightarrow> 'z link_scheme" where
  "link_deliver f s =
     (let s1 = (if f_type f = PONG then s\<lparr>lk_unanswered := 0\<rparr> else s) in
      if f_type f \<in> set (lk_await s1) then s1\<lparr>lk_reply := Some f, lk_await := [], lk_ready := True\<rparr>
      else s1\<lparr>lk_heard := lk_heard s1 @ [f]\<rparr>)"

definition link_line :: "ustr \<Rightarrow> ('z link_scheme, unit) py" where
  "link_line line = bnd (decode line) (\<lambda>r. case r of Inl _ \<Rightarrow> ret () | Inr f \<Rightarrow> modify (link_deliver f))"

text \<open>
  One turn of \<open>_read_loop\<close>, from the return of \<open>recv\<close>; \<open>None\<close> is an error of \<open>recv\<close>. The \<open>finally\<close>
  reports the loss of the connection whether the loop ended by itself or by an exception.
\<close>

definition read_turn :: "byte list option \<Rightarrow> ('z link_scheme, bool) py" where
  "read_turn r = (case r of None \<Rightarrow> ret False | Some chunk \<Rightarrow>
     if chunk = [] then ret False
     else bnd (gets (\<lambda>s. feed (lk_buffer s) chunk)) (\<lambda>(lb, res).
          andthen (modify (\<lambda>s. s\<lparr>lk_buffer := lb\<rparr>))
          (case res of Inl _ \<Rightarrow> ret False
           | Inr lines \<Rightarrow> andthen (for_each lines link_line) (ret True))))"

definition link_read :: "byte list option \<Rightarrow> ('z link_scheme, unit) py" where
  "link_read r = bnd (gets lk_reading) (\<lambda>alive.
     if \<not> alive then ret ()
     else rescue (bnd (read_turn r) (\<lambda>go.
            if go then ret () else andthen (modify (\<lambda>s. s\<lparr>lk_reading := False\<rparr>)) connection_lost))
          (\<lambda>_. andthen (modify (\<lambda>s. s\<lparr>lk_reading := False\<rparr>)) connection_lost))"

text \<open>\<open>close\<close> and \<open>send\<close>; \<open>flush\<close> is what happens while \<open>close\<close> waits for the writer, \<open>wait\<close> while \<open>send\<close> waits for a
  place in the outbox. \<open>queue.put\<close> with a timeout gives up when the queue is still full at the end of it;
  when it is not, the frame is accepted, whatever became of the connection meanwhile.\<close>

definition hang_up :: "('z link_scheme, unit) py" where
  "hang_up = andthen (modify (\<lambda>s. s\<lparr>lk_closing := True\<rparr>))
     (andthen (bnd (gets (\<lambda>s. mc_is_closed (lk_machine s))) (\<lambda>is_closed. if is_closed then ret () else on_event Ev_CLOSE))
     (andthen (modify (\<lambda>s. s\<lparr>lk_ready := True\<rparr>))
       (andthen (put_nowait Link_STOP) (ret ()))))"

definition close_with :: "('z link_scheme, unit) py \<Rightarrow> ('z link_scheme, unit) py" where
  "close_with flush = bnd (gets lk_closing) (\<lambda>closing.
     if closing then ret ()
     else andthen hang_up (andthen flush (modify (\<lambda>s. s\<lparr>lk_sock_open := False\<rparr>))))"

definition send_with :: "('z link_scheme, unit) py \<Rightarrow> ('z link_scheme, unit) py \<Rightarrow> frame \<Rightarrow> ('z link_scheme, unit) py" where
  "send_with wait flush f = bnd (gets link_can_send) (\<lambda>can.
     if \<not> can then raise Not_Connected
     else bnd (put_nowait (Link_Item f)) (\<lambda>fits.
       if fits then ret ()
       else andthen wait
           (bnd (put_nowait (Link_Item f)) (\<lambda>fits.
              if fits then ret () else andthen (close_with flush) (raise Not_Connected)))))"

text \<open>One turn of \<open>_heartbeat_loop\<close>: the interval has passed and \<open>_closing\<close> is tested.\<close>

definition beat_with :: "('z link_scheme, unit) py \<Rightarrow> ('z link_scheme, unit) py \<Rightarrow> ('z link_scheme, unit) py" where
  "beat_with wait flush = bnd (gets (\<lambda>s. lk_beating s)) (\<lambda>alive. if \<not> alive then ret ()
     else bnd (gets (\<lambda>s. lk_closing s \<or> \<not> link_can_send s)) (\<lambda>over. if over then modify (\<lambda>s. s\<lparr>lk_beating := False\<rparr>)
     else bnd (gets lk_unanswered) (\<lambda>n. if MISSED_PONGS \<le> n
       then andthen connection_lost (modify (\<lambda>s. s\<lparr>lk_beating := False\<rparr>))
       else andthen (modify (\<lambda>s. s\<lparr>lk_unanswered := n + 1\<rparr>))
         (rescue (bnd (new_frame PING PNone PNone PNone PNone []) (send_with wait flush))
            (\<lambda>e. if e = Not_Connected then modify (\<lambda>s. s\<lparr>lk_beating := False\<rparr>) else raise e)))))"

text \<open>What happens on another thread does not raise here.\<close>

definition others :: "('z link_scheme, unit) py list \<Rightarrow> ('z link_scheme, unit) py" where
  "others ms = for_each ms (\<lambda>m. rescue m (\<lambda>_. ret ()))"

fun turn_do :: "turn \<Rightarrow> ('z link_scheme, unit) py" where
  "turn_do (Tn_Recv r) = link_read r"
| "turn_do (Tn_Write ok) = modify (link_write ok)"
| "turn_do (Tn_Beat ws fs) = beat_with (others (map turn_do ws)) (others (map turn_do fs))"
| "turn_do (Tn_Close fs) = close_with (others (map turn_do fs))"

definition turns :: "turn list \<Rightarrow> ('z link_scheme, unit) py" where
  "turns ts = others (map turn_do ts)"

definition link_close :: "('z link_scheme, unit) py" where
  "link_close = bnd (gets lk_flush_turns) (\<lambda>fs. close_with (turns fs))"

definition link_send :: "frame \<Rightarrow> ('z link_scheme, unit) py" where
  "link_send f = bnd (gets (\<lambda>s. (lk_wait_turns s, lk_flush_turns s))) (\<lambda>(ws, fs). send_with (turns ws) (turns fs) f)"

definition link_beat :: "('z link_scheme, unit) py" where
  "link_beat = bnd (gets (\<lambda>s. (lk_wait_turns s, lk_flush_turns s))) (\<lambda>(ws, fs). beat_with (turns ws) (turns fs))"

datatype io = Io_Recv "byte list option" | Io_Write bool | Io_Beat | Io_Close

fun io_turn :: "io \<Rightarrow> ('z link_scheme, unit) py" where
  "io_turn (Io_Recv r) = link_read r"
| "io_turn (Io_Write ok) = modify (link_write ok)"
| "io_turn Io_Beat = link_beat"
| "io_turn Io_Close = link_close"

definition meanwhile :: "io list \<Rightarrow> ('z link_scheme, unit) py" where
  "meanwhile ios = for_each ios (\<lambda>i. rescue (io_turn i) (\<lambda>_. ret ()))"

subsection \<open>Connecting and logging in\<close>

text \<open>
  \<open>dialled\<close> says whether the socket and, with TLS, the handshake succeeded; \<open>ios\<close> is what the
  threads do between their start and the event \<open>SOCKET_READY\<close>.
\<close>

definition link_connect :: "bool \<Rightarrow> io list \<Rightarrow> ('z link_scheme, unit) py" where
  "link_connect dialled ios =
     andthen (on_event Ev_CONNECT)
     (if \<not> dialled then andthen (on_event Ev_SOCKET_FAILED) (raise Connection_Error)
      else andthen (modify (\<lambda>s. s\<lparr>lk_sock_open := True, lk_reading := True, lk_writing := True\<rparr>))
          (andthen (meanwhile ios) (on_event Ev_SOCKET_READY)))"

definition link_require :: "conn_state \<Rightarrow> ('z link_scheme, unit) py" where
  "link_require st = bnd (gets link_state) (\<lambda>now. if now \<noteq> st then raise Not_Connected else ret ())"

definition link_request :: "frame \<Rightarrow> message_type list \<Rightarrow> io list \<Rightarrow> ('z link_scheme, frame) py" where
  "link_request f expecting ios =
     andthen (modify (\<lambda>s. s\<lparr>lk_reply := None, lk_ready := False, lk_await := expecting\<rparr>))
     (bnd (put_nowait (Link_Item f)) (\<lambda>fits.
      if \<not> fits then andthen (modify (\<lambda>s. s\<lparr>lk_await := []\<rparr>)) (raise Not_Connected)
      else andthen (meanwhile ios)
        (bnd (gets lk_ready) (\<lambda>ready.
         if \<not> ready then andthen (modify (\<lambda>s. s\<lparr>lk_await := []\<rparr>)) (raise Timeout_Error)
         else bnd (gets lk_reply) (\<lambda>reply.
              andthen (modify (\<lambda>s. s\<lparr>lk_reply := None, lk_await := []\<rparr>))
              (case reply of None \<Rightarrow> raise Not_Connected | Some g \<Rightarrow> ret g))))))"

definition link_register :: "ustr \<Rightarrow> ustr \<Rightarrow> ustr option \<Rightarrow> io list \<Rightarrow> ('z link_scheme, frame) py" where
  "link_register name pass_hash pubkey ios =
     andthen (link_require AUTHENTICATING)
     (bnd (new_frame REGISTER PNone PNone PNone PNone
             ([(u ''user'', PStr name), (u ''pass_hash'', PStr pass_hash)] @
              (case pubkey of None \<Rightarrow> [] | Some k \<Rightarrow> [(u ''pubkey'', PStr k)])))
        (\<lambda>f. link_request f [OK, ERROR] ios))"

definition start_heartbeat :: "'z link_scheme \<Rightarrow> 'z link_scheme" where
  "start_heartbeat s = (if lk_hb_made s then s else s\<lparr>lk_unanswered := 0, lk_hb_made := True, lk_beating := True\<rparr>)"

definition link_login :: "ustr \<Rightarrow> ustr \<Rightarrow> io list \<Rightarrow> ('z link_scheme, frame) py" where
  "link_login name pass_hash ios =
     andthen (link_require AUTHENTICATING)
     (bnd (new_frame LOGIN PNone PNone PNone PNone [(u ''user'', PStr name), (u ''pass_hash'', PStr pass_hash)]) (\<lambda>f.
      bnd (link_request f [LOGIN_OK, ERROR] ios) (\<lambda>reply.
      andthen
        (if f_type reply = LOGIN_OK
         then andthen (modify (\<lambda>s. s\<lparr>lk_username := Some name\<rparr>))
             (andthen (on_event Ev_LOGIN_OK) (modify start_heartbeat))
         else on_event Ev_LOGIN_REFUSED)
        (ret reply))))"

subsection \<open>Facts about whole turns\<close>

text \<open>
  A relation that the primitives of a connection respect, and the queueing of the frames in question, is
  respected by every turn of every thread, however the waits nest.
\<close>

locale link_rel = world_rel R for R :: "'z link_scheme \<Rightarrow> 'z link_scheme \<Rightarrow> bool" +
  fixes allowed :: "frame \<Rightarrow> bool"
  assumes write_R: "R s (link_write ok s)"
    and read_R: "runs_in R (link_read r)"
    and lost_R: "runs_in R connection_lost"
    and hang_up_R: "runs_in R hang_up"
    and put_R: "allowed f \<Longrightarrow> runs_in R (put_nowait (Link_Item f))"
    and ping_allowed: "f_type f = PING \<Longrightarrow> allowed f"
    and shut_R: "R s (s\<lparr>lk_sock_open := False\<rparr>)"
    and beating_R: "R s (s\<lparr>lk_beating := b\<rparr>)"
    and count_R: "lk_unanswered s < MISSED_PONGS \<Longrightarrow> R s (s\<lparr>lk_unanswered := lk_unanswered s + 1\<rparr>)"
begin

lemma modify_R: "(\<And>s. R s (g s)) \<Longrightarrow> runs_in R (modify g)"
  by (simp add: runs_in_modify)

lemma write_turn_R: "runs_in R (modify (link_write ok))"
  by (rule modify_R) (rule write_R)

lemma others_R: "(\<And>m. m \<in> set ms \<Longrightarrow> runs_in R m) \<Longrightarrow> runs_in R (others ms)"
  unfolding others_def by (intro runs_rules) blast

lemma close_with_R: "runs_in R flush \<Longrightarrow> runs_in R (close_with flush)"
  unfolding close_with_def by (intro runs_rules hang_up_R modify_R shut_R)

lemma send_with_R: "allowed f \<Longrightarrow> runs_in R wait \<Longrightarrow> runs_in R flush \<Longrightarrow> runs_in R (send_with wait flush f)"
  unfolding send_with_def by (intro runs_rules put_R close_with_R)

lemma ping_R: "runs_in R wait \<Longrightarrow> runs_in R flush \<Longrightarrow> runs_in R (bnd (new_frame PING PNone PNone PNone PNone []) (send_with wait flush))"
proof -
  assume w: "runs_in R wait" "runs_in R flush"
  have r: "bnd (ret x) g = g x" for x and g :: "frame \<Rightarrow> ('z link_scheme, unit) py" by (simp add: ret_def)
  show ?thesis unfolding new_frame_def bnd_assoc r by (intro world_rules send_with_R w ping_allowed) simp
qed

lemma beat_with_R:
  assumes "runs_in R wait" "runs_in R flush"
  shows "runs_in R (beat_with wait flush)"
proof -
  let ?ping = "rescue (bnd (new_frame PING PNone PNone PNone PNone []) (send_with wait flush))
     (\<lambda>e. if e = Not_Connected then modify (\<lambda>s. s\<lparr>lk_beating := False\<rparr>) else raise e)"
  have ping: "runs_in R ?ping" by (intro runs_rules ping_R assms modify_R beating_R)
  have step: "runs_in R (bnd (gets lk_unanswered) (\<lambda>n. if MISSED_PONGS \<le> n
       then andthen connection_lost (modify (\<lambda>s. s\<lparr>lk_beating := False\<rparr>))
       else andthen (modify (\<lambda>s. s\<lparr>lk_unanswered := n + 1\<rparr>)) ?ping))"
  proof (rule runs_check)
    fix s :: "'z link_scheme"
    have "R s (after (andthen connection_lost (modify (\<lambda>s. s\<lparr>lk_beating := False\<rparr>))) s)"
      by (rule runs_at) (intro runs_rules lost_R modify_R beating_R)
    moreover have "R s (after ?ping (s\<lparr>lk_unanswered := lk_unanswered s + 1\<rparr>))" if "lk_unanswered s < MISSED_PONGS"
      by (rule R_trans [OF count_R [OF that] runs_at [OF ping]])
    ultimately show "R s (after (if MISSED_PONGS \<le> lk_unanswered s then andthen connection_lost (modify (\<lambda>s. s\<lparr>lk_beating := False\<rparr>))
        else andthen (modify (\<lambda>a. a\<lparr>lk_unanswered := lk_unanswered s + 1\<rparr>)) ?ping) s)"
      by simp
  qed
  show ?thesis unfolding beat_with_def by (intro runs_rules step modify_R beating_R)
qed

lemma turn_do_R: "runs_in R (turn_do t)"
proof (induction t)
  case (Tn_Beat ws fs)
  then show ?case unfolding turn_do.simps by (intro beat_with_R others_R) auto
next
  case (Tn_Close fs)
  then show ?case unfolding turn_do.simps by (intro close_with_R others_R) auto
qed (simp_all only: turn_do.simps read_R write_turn_R)

lemma turns_R: "runs_in R (turns ts)"
  unfolding turns_def by (rule others_R) (auto intro: turn_do_R)

lemma link_close_R: "runs_in R link_close"
  unfolding link_close_def by (intro runs_rules close_with_R turns_R)

lemma link_send_R: "allowed f \<Longrightarrow> runs_in R (link_send f)"
  unfolding link_send_def by (rule runs_bnd [OF runs_pure(3)]) (auto intro!: send_with_R turns_R)

lemma link_beat_R: "runs_in R link_beat"
  unfolding link_beat_def by (rule runs_bnd [OF runs_pure(3)]) (auto intro!: beat_with_R turns_R)

lemma io_turn_R: "runs_in R (io_turn i)"
  by (cases i) (simp_all only: io_turn.simps read_R write_turn_R link_beat_R link_close_R)

lemma meanwhile_R: "runs_in R (meanwhile ios)"
  unfolding meanwhile_def by (intro runs_rules io_turn_R)

end

subsection \<open>The invariant of a connection object\<close>

definition link_ok :: "'z link_scheme \<Rightarrow> bool" where
  "link_ok s \<longleftrightarrow> length (lk_outbox s) \<le> LINK_OUTBOX_LIMIT \<and> lk_unanswered s \<le> MISSED_PONGS \<and>
     (lk_closing s \<longleftrightarrow> link_state s = CLOSED)"

text \<open>The invariant is kept, and a connection that is closed stays closed.\<close>

definition link_kept :: "'z link_scheme \<Rightarrow> 'z link_scheme \<Rightarrow> bool" where
  "link_kept s t \<longleftrightarrow> (link_ok s \<longrightarrow> link_ok t \<and> (lk_closing s \<longrightarrow> lk_closing t))"

interpretation lk0: world_rel link_kept
  by unfold_locales (auto simp: link_kept_def link_ok_def link_state_def)

lemma kept_modify: "(\<And>s. link_ok s \<Longrightarrow> link_ok (g s) \<and> (lk_closing s \<longrightarrow> lk_closing (g s))) \<Longrightarrow> runs_in link_kept (modify g)"
  by (simp add: runs_in_modify link_kept_def)

text \<open>The writer touches the outbox, the wire and its own flag.\<close>

definition writer_part :: "'z link_scheme \<Rightarrow> 'z link_scheme" where
  "writer_part s = s\<lparr>lk_outbox := [], lk_wire := [], lk_writing := False\<rparr>"

definition writer_only :: "'z link_scheme \<Rightarrow> 'z link_scheme \<Rightarrow> bool" where
  "writer_only s t \<longleftrightarrow> writer_part t = writer_part s \<and> length (lk_outbox t) \<le> length (lk_outbox s)"

lemma link_write_only: "writer_only s (link_write ok s)"
  by (simp add: writer_only_def writer_part_def link_write_def Let_def split: list.split link_item.split sum.split)

lemma writer_only_trans: "writer_only s t \<Longrightarrow> writer_only t v \<Longrightarrow> writer_only s v"
  by (simp add: writer_only_def)

lemma writer_only_refl: "writer_only s s"
  by (simp add: writer_only_def)

lemma writer_part_fields:
  "lk_machine (writer_part s) = lk_machine s" "lk_closing (writer_part s) = lk_closing s" "lk_unanswered (writer_part s) = lk_unanswered s"
  "lk_beating (writer_part s) = lk_beating s" "lk_ready (writer_part s) = lk_ready s" "lk_reading (writer_part s) = lk_reading s"
  "lk_buffer (writer_part s) = lk_buffer s" "lk_await (writer_part s) = lk_await s" "lk_reply (writer_part s) = lk_reply s"
  "lk_heard (writer_part s) = lk_heard s" "lk_username (writer_part s) = lk_username s" "lk_hb_made (writer_part s) = lk_hb_made s"
  by (simp_all add: writer_part_def)

lemma writer_only_fields:
  assumes "writer_only s t"
  shows "lk_machine t = lk_machine s" "lk_closing t = lk_closing s" "lk_unanswered t = lk_unanswered s"
    "lk_beating t = lk_beating s" "lk_ready t = lk_ready s" "lk_reading t = lk_reading s"
    "lk_buffer t = lk_buffer s" "lk_await t = lk_await s" "lk_reply t = lk_reply s"
    "lk_heard t = lk_heard s" "lk_username t = lk_username s" "lk_hb_made t = lk_hb_made s"
    "length (lk_outbox t) \<le> length (lk_outbox s)"
  using assms unfolding writer_only_def by (metis writer_part_fields)+

lemma writer_only_ok: "writer_only s t \<Longrightarrow> link_ok s \<Longrightarrow> link_ok t"
  by (auto simp: link_ok_def link_state_def writer_only_fields dest: writer_only_fields(13))

text \<open>Events other than \<open>CLOSE\<close> do not lead to \<open>CLOSED\<close>, and \<open>CLOSED\<close> refuses every event.\<close>

lemma on_event_run: "on_event ev s = (case mc_transition ev (lk_machine s) of
    Inl _ \<Rightarrow> (Inl Illegal_Event, s) | Inr (_, m) \<Rightarrow> (Inr (), s\<lparr>lk_machine := m\<rparr>))"
  by (simp add: on_event_def split: sum.split prod.split)

lemma on_event_kept: "ev \<noteq> Ev_CLOSE \<Longrightarrow> runs_in link_kept (on_event ev)"
  unfolding runs_in_def
proof
  fix s :: "'z link_scheme"
  assume ev: "ev \<noteq> Ev_CLOSE"
  show "link_kept s (after (on_event ev) s)"
  proof (cases "mc_transition ev (lk_machine s)")
    case (Inl e)
    then show ?thesis by (simp add: on_event_run lk0.R_refl)
  next
    case (Inr p)
    obtain st m where p: "p = (st, m)" by (cases p)
    have "st \<noteq> CLOSED" "mc_state m = st" "mc_state (lk_machine s) \<noteq> CLOSED"
      using mc_transition_state [OF Inr [unfolded p]] ev by (auto simp: transitions_def)
    with Inr p show ?thesis by (simp add: on_event_run link_kept_def link_ok_def link_state_def)
  qed
qed

lemma put_nowait_kept: "runs_in link_kept (put_nowait item)"
  unfolding runs_in_def by (simp add: put_nowait_def link_kept_def link_ok_def link_state_def)

lemma link_ok_fields [simp]:
  "link_ok (s\<lparr>lk_ready := b\<rparr>) = link_ok s" "link_ok (s\<lparr>lk_reading := b\<rparr>) = link_ok s" "link_ok (s\<lparr>lk_beating := b\<rparr>) = link_ok s"
  "link_ok (s\<lparr>lk_buffer := lb\<rparr>) = link_ok s" "link_ok (s\<lparr>lk_await := ts\<rparr>) = link_ok s" "link_ok (s\<lparr>lk_username := x\<rparr>) = link_ok s"
  "link_ok (s\<lparr>lk_reply := g\<rparr>) = link_ok s" "link_ok (s\<lparr>lk_heard := fs\<rparr>) = link_ok s" "link_ok (s\<lparr>lk_writing := b\<rparr>) = link_ok s"
  "link_ok (s\<lparr>lk_sock_open := b\<rparr>) = link_ok s"
  by (simp_all add: link_ok_def link_state_def)

lemma connection_lost_kept: "runs_in link_kept connection_lost"
  unfolding connection_lost_def by (intro lk0.world_rules on_event_kept kept_modify) simp_all

lemma link_line_kept: "runs_in link_kept (link_line line)"
  unfolding link_line_def
  by (rule lk0.runs_bnd [OF lk0.decode_runs])
     (auto intro!: lk0.runs_pure kept_modify simp: link_deliver_def Let_def link_ok_def link_state_def split: sum.split)

lemma link_read_kept: "runs_in link_kept (link_read r)"
  unfolding link_read_def read_turn_def
  by (auto intro!: lk0.world_rules kept_modify link_line_kept connection_lost_kept split: option.split prod.split sum.split)

text \<open>The connection right after \<open>close\<close> was called, when it was not closed before.\<close>

definition just_closed :: "'z link_scheme \<Rightarrow> 'z link_scheme" where
  "just_closed s = after (put_nowait Link_STOP) (s\<lparr>lk_closing := True, lk_machine := move CLOSED (lk_machine s), lk_ready := True\<rparr>)"

lemma hang_up_run: "link_ok s \<Longrightarrow> \<not> lk_closing s \<Longrightarrow> hang_up s = (Inr (), just_closed s)"
proof -
  assume s: "link_ok s" "\<not> lk_closing s"
  then have "mc_state (lk_machine s) \<noteq> CLOSED" by (simp add: link_ok_def link_state_def)
  then show ?thesis
    by (simp add: hang_up_def just_closed_def mc_is_closed_def on_event_run mc_transition_def put_nowait_def bnd_def andthen_def)
qed

lemma just_closed_ok: "link_ok s \<Longrightarrow> link_ok (just_closed s) \<and> lk_closing (just_closed s)"
  by (simp add: just_closed_def put_nowait_def link_ok_def link_state_def)

lemma hang_up_kept: "runs_in link_kept hang_up"
  unfolding runs_in_def
proof
  fix s :: "'z link_scheme"
  have "mc_is_closed (lk_machine s)" if "link_ok s" "lk_closing s" using that by (simp add: link_ok_def link_state_def mc_is_closed_def)
  moreover have "link_ok (s\<lparr>lk_closing := True, lk_ready := True\<rparr>)" if "link_ok s" "lk_closing s" using that by (simp add: link_ok_def link_state_def)
  ultimately show "link_kept s (after hang_up s)"
    using hang_up_run [of s] just_closed_ok [of s]
    by (cases "lk_closing s") (auto simp: link_kept_def hang_up_def put_nowait_def link_ok_def link_state_def bnd_def andthen_def)
qed

interpretation lk: link_rel link_kept "\<lambda>_. True"
proof unfold_locales
  show "link_kept s (link_write ok s)" for s :: "'z link_scheme" and ok
    using writer_only_ok [OF link_write_only] by (auto simp: link_kept_def writer_only_fields(2) [OF link_write_only])
qed (auto intro: link_read_kept connection_lost_kept hang_up_kept put_nowait_kept simp: link_kept_def link_ok_def link_state_def)

lemma new_frame_kept: "runs_in link_kept (new_frame ty a b c d e)"
  unfolding new_frame_def by (intro lk0.world_rules)

lemma link_connect_kept: "runs_in link_kept (link_connect dialled ios)"
  unfolding link_connect_def by (intro lk0.runs_rules lk.meanwhile_R on_event_kept kept_modify) simp_all

lemma link_request_kept: "runs_in link_kept (link_request f ts ios)"
  unfolding link_request_def by (intro lk0.runs_rules put_nowait_kept lk.meanwhile_R kept_modify) simp_all

lemma start_heartbeat_kept: "runs_in link_kept (modify start_heartbeat)"
  by (rule kept_modify) (simp add: start_heartbeat_def link_ok_def link_state_def)

lemma link_login_kept: "runs_in link_kept (link_login name pass_hash ios)"
  unfolding link_login_def link_require_def
  by (intro lk0.runs_rules new_frame_kept link_request_kept on_event_kept start_heartbeat_kept kept_modify) simp_all

lemma link_register_kept: "runs_in link_kept (link_register name pass_hash k ios)"
  unfolding link_register_def link_require_def
  by (intro lk0.runs_rules new_frame_kept link_request_kept)

lemma new_link_ok: "link_ok (new_link s)"
  by (simp add: new_link_def link_ok_def link_state_def new_machine_def)

lemma keptD: "runs_in link_kept m \<Longrightarrow> link_ok s \<Longrightarrow> link_ok (after m s) \<and> (lk_closing s \<longrightarrow> lk_closing (after m s))"
  using runs_at [of link_kept m s] by (simp add: link_kept_def)

lemma others_returns: "\<exists>t. others ms s = (Inr (), t)"
proof (induction ms arbitrary: s)
  case (Cons m ms)
  obtain r s1 where "m s = (r, s1)" by (cases "m s")
  then show ?case using Cons.IH [of s1] by (cases r) (auto simp: others_def andthen_def bnd_def rescue_def)
qed (simp add: others_def)

lemma turns_run: "\<exists>t. turns ts s = (Inr (), t) \<and> link_kept s t"
  using others_returns [of "map turn_do ts" s] runs_inD [OF lk.turns_R] unfolding turns_def by blast

lemma close_with_closes: "link_ok s \<Longrightarrow> \<exists>t. close_with (turns fs) s = (Inr (), t) \<and> link_ok t \<and> lk_closing t \<and> link_state t = CLOSED"
proof (cases "lk_closing s")
  case False
  assume ok: "link_ok s"
  obtain t where t: "turns fs (just_closed s) = (Inr (), t)" "link_kept (just_closed s) t" using turns_run by blast
  then have "link_ok t \<and> lk_closing t" using just_closed_ok [OF ok] by (simp add: link_kept_def)
  then show ?thesis using t(1) False hang_up_run [OF ok False] by (auto simp: close_with_def andthen_def bnd_def link_ok_def link_state_def)
qed (simp add: close_with_def link_ok_def)

lemma link_close_closes: "link_ok s \<Longrightarrow> \<exists>t. link_close s = (Inr (), t) \<and> link_state t = CLOSED"
  using close_with_closes [of s] by (fastforce simp: link_close_def)

subsection \<open>Sending\<close>

lemma online_not_closing: "link_ok s \<Longrightarrow> link_state s = ONLINE \<Longrightarrow> \<not> lk_closing s"
  by (simp add: link_ok_def)

lemma can_send_online: "link_can_send s \<longleftrightarrow> link_state s = ONLINE"
  by (simp add: link_can_send_def mc_can_send_def link_state_def)

text \<open>C26: sending is all or nothing, whatever the other threads do. A connection that is not ONLINE refuses
  the frame with \<open>NotConnected\<close> and nothing happens; one that is ONLINE with a place in its queue
  takes it as the last item and nothing else happens; and when the queue of 100 is full, then after
  the wait either the frame is its last item or the caller gets \<open>NotConnected\<close> and the connection is
  CLOSED. No other exception leaves \<open>send\<close>, and the queue never exceeds its limit.\<close>

theorem link_send_outcomes:
  assumes "link_ok s"
  shows "(link_state s \<noteq> ONLINE \<longrightarrow> link_send f s = (Inl Not_Connected, s)) \<and>
    (link_state s = ONLINE \<and> length (lk_outbox s) < LINK_OUTBOX_LIMIT \<longrightarrow>
       link_send f s = (Inr (), s\<lparr>lk_outbox := lk_outbox s @ [Link_Item f]\<rparr>)) \<and>
    (link_state s = ONLINE \<and> length (lk_outbox s) = LINK_OUTBOX_LIMIT \<longrightarrow>
       (\<exists>t. link_ok t \<and>
         (link_send f s = (Inr (), t) \<and> (\<exists>q. lk_outbox t = q @ [Link_Item f] \<and> length q < LINK_OUTBOX_LIMIT) \<or>
          link_send f s = (Inl Not_Connected, t) \<and> link_state t = CLOSED)))"
proof (intro conjI impI)
  assume "link_state s \<noteq> ONLINE"
  then show "link_send f s = (Inl Not_Connected, s)" by (simp add: link_send_def send_with_def can_send_online)
next
  assume "link_state s = ONLINE \<and> length (lk_outbox s) < LINK_OUTBOX_LIMIT"
  then show "link_send f s = (Inr (), s\<lparr>lk_outbox := lk_outbox s @ [Link_Item f]\<rparr>)"
    by (simp add: link_send_def send_with_def can_send_online put_nowait_def bnd_def andthen_def)
next
  assume full: "link_state s = ONLINE \<and> length (lk_outbox s) = LINK_OUTBOX_LIMIT"
  obtain t where t: "turns (lk_wait_turns s) s = (Inr (), t)" "link_kept s t" using turns_run by blast
  then have ok: "link_ok t" using assms by (simp add: link_kept_def)
  obtain v where v: "close_with (turns (lk_flush_turns s)) t = (Inr (), v)" "link_ok v" "link_state v = CLOSED"
    using close_with_closes [OF ok] by blast
  have "link_ok (t\<lparr>lk_outbox := lk_outbox t @ [Link_Item f]\<rparr>)" if "length (lk_outbox t) < LINK_OUTBOX_LIMIT"
    using ok that by (simp add: link_ok_def link_state_def)
  then show "\<exists>t. link_ok t \<and>
         (link_send f s = (Inr (), t) \<and> (\<exists>q. lk_outbox t = q @ [Link_Item f] \<and> length q < LINK_OUTBOX_LIMIT) \<or>
          link_send f s = (Inl Not_Connected, t) \<and> link_state t = CLOSED)"
    using full t(1) v
    by (cases "length (lk_outbox t) < LINK_OUTBOX_LIMIT")
       (auto simp: link_send_def send_with_def can_send_online put_nowait_def bnd_def andthen_def)
qed

text \<open>A frame may be accepted by a connection that is gone. When the queue is full, the socket fails during
  the wait and the writer had just made room, \<open>send\<close> returns as if all were well, although the
  connection is RETRYING and the session is about to drop it with its queue.\<close>

theorem send_outlives_link:
  assumes "link_ok s" and "link_state s = ONLINE" and "lk_outbox s = Link_Item g # q" and "length q = 99"
    and "encode g = Inr bs" and "lk_writing s" and "lk_sock_open s" and "lk_reading s"
    and "lk_wait_turns s = [Tn_Write True, Tn_Recv None]"
  shows "\<exists>t. link_send f s = (Inr (), t) \<and> link_state t = RETRYING \<and> lk_outbox t = q @ [Link_Item f]"
proof -
  let ?s1 = "s\<lparr>lk_outbox := q, lk_wire := lk_wire s @ bs\<rparr>"
  have w: "link_write True s = ?s1" using assms by (simp add: link_write_def)
  have "\<not> lk_closing s" using online_not_closing assms(1,2) by blast
  then obtain t where t: "link_read None ?s1 = (Inr (), t)" "link_state t = RETRYING" "lk_outbox t = q"
    using assms(2,8) by (auto simp: link_read_def read_turn_def connection_lost_def bnd_def andthen_def rescue_def mc_is_closed_def
        mc_allows_def on_event_run mc_transition_def transitions_def link_state_def)
  have "turns (lk_wait_turns s) s = (Inr (), t)"
    using w t(1) by (simp add: assms(9) turns_def others_def andthen_def bnd_def rescue_def)
  then show ?thesis
    using assms(2,3,4) t by (auto simp: link_send_def send_with_def can_send_online put_nowait_def bnd_def andthen_def LINK_OUTBOX_LIMIT_def link_state_def)
qed

subsection \<open>The heartbeat\<close>

lemma writes_run:
  assumes "\<forall>i\<in>set ws. \<exists>ok. i = Io_Write ok"
  shows "\<exists>t. meanwhile ws s = (Inr (), t) \<and> writer_only s t"
  using assms
proof (induction ws arbitrary: s)
  case Nil
  then show ?case by (simp add: meanwhile_def writer_only_refl)
next
  case (Cons i ws)
  then obtain ok where i: "i = Io_Write ok" by auto
  obtain t where "meanwhile ws (link_write ok s) = (Inr (), t)" "writer_only (link_write ok s) t"
    using Cons by fastforce
  then show ?case
    using i writer_only_trans [OF link_write_only] by (auto simp: meanwhile_def andthen_def bnd_def rescue_def)
qed

lemma meanwhile_append: "meanwhile (xs @ ys) = andthen (meanwhile xs) (meanwhile ys)"
  by (simp add: meanwhile_def for_each_append)

lemma meanwhile_then: "meanwhile xs s = (Inr (), t) \<Longrightarrow> meanwhile (xs @ ys) s = meanwhile ys t"
  by (simp add: meanwhile_append andthen_Inr)

lemma meanwhile_one: "meanwhile [i] s = (case io_turn i s of (_, t) \<Rightarrow> (Inr (), t))"
  by (simp add: meanwhile_def andthen_def bnd_def rescue_def split: prod.split sum.split)

lemma beat_pings:
  assumes "lk_beating s" and "\<not> lk_closing s" and "link_state s = ONLINE" and "lk_unanswered s < MISSED_PONGS"
    and "length (lk_outbox s) < LINK_OUTBOX_LIMIT"
  shows "\<exists>t ping. link_beat s = (Inr (), t) \<and> f_type ping = PING \<and> lk_outbox t = lk_outbox s @ [Link_Item ping] \<and>
    lk_machine t = lk_machine s \<and> lk_closing t = lk_closing s \<and> lk_beating t \<and> lk_unanswered t = lk_unanswered s + 1"
  using assms
  by (simp add: link_beat_def beat_with_def op_defs bnd_def andthen_def rescue_def send_with_def link_can_send_def mc_can_send_def
      link_state_def put_nowait_def)

lemma beat_gives_up:
  assumes "lk_beating s" and "\<not> lk_closing s" and "link_state s = ONLINE" and "MISSED_PONGS \<le> lk_unanswered s"
  shows "\<exists>t. link_beat s = (Inr (), t) \<and> link_state t = RETRYING \<and> \<not> lk_beating t \<and> lk_ready t"
  using assms
  by (simp add: link_beat_def beat_with_def bnd_def andthen_def connection_lost_def link_can_send_def mc_can_send_def link_state_def
      mc_is_closed_def mc_allows_def on_event_run mc_transition_def transitions_def)

text \<open>What one beat and the writes before it do to a connection that is online.\<close>

definition beats_ok :: "nat \<Rightarrow> nat \<Rightarrow> 'z link_scheme \<Rightarrow> bool" where
  "beats_ok n k s \<longleftrightarrow> lk_beating s \<and> \<not> lk_closing s \<and> link_state s = ONLINE \<and> lk_unanswered s = n \<and>
     length (lk_outbox s) + k \<le> LINK_OUTBOX_LIMIT"

lemma write_then_beat:
  assumes "beats_ok n (Suc k) s" and "n < MISSED_PONGS" and "\<forall>i\<in>set ws. \<exists>ok. i = Io_Write ok"
  shows "\<exists>t. meanwhile (ws @ [Io_Beat]) s = (Inr (), t) \<and> beats_ok (Suc n) k t"
proof -
  obtain t where t: "meanwhile ws s = (Inr (), t)" "writer_only s t" using writes_run [OF assms(3)] by blast
  note f = writer_only_fields [OF t(2)]
  have "lk_beating t" "\<not> lk_closing t" "link_state t = ONLINE" "lk_unanswered t < MISSED_PONGS" "length (lk_outbox t) < LINK_OUTBOX_LIMIT"
    using assms(1,2) f by (simp_all add: beats_ok_def link_state_def)
  from beat_pings [OF this] obtain t' ping where "link_beat t = (Inr (), t')" "lk_outbox t' = lk_outbox t @ [Link_Item ping]"
    "lk_machine t' = lk_machine t" "lk_closing t' = lk_closing t" "lk_beating t'" "lk_unanswered t' = lk_unanswered t + 1" by blast
  then show ?thesis
    using assms(1) f t(1) by (simp add: meanwhile_append andthen_def bnd_def meanwhile_one beats_ok_def link_state_def)
qed

text \<open>C25: a link that has died without its socket closing is noticed. From an ONLINE connection
  with no ping outstanding, three heartbeats without an answer, with any writes in between,
  leave it RETRYING, which is what makes the session rebuild it; before the third it is still
  ONLINE, so a single lost answer does not tear the connection down.\<close>

theorem dead_link_detected:
  assumes "lk_beating s" and "\<not> lk_closing s" and "link_state s = ONLINE" and "lk_unanswered s = 0"
    and "length (lk_outbox s) + 2 \<le> LINK_OUTBOX_LIMIT" and "\<forall>i\<in>set (ws1 @ ws2 @ ws3). \<exists>ok. i = Io_Write ok"
  shows "link_state (after (meanwhile (ws1 @ [Io_Beat])) s) = ONLINE \<and>
    link_state (after (meanwhile ((ws1 @ [Io_Beat]) @ (ws2 @ [Io_Beat]))) s) = ONLINE \<and>
    link_state (after (meanwhile ((ws1 @ [Io_Beat]) @ (ws2 @ [Io_Beat]) @ (ws3 @ [Io_Beat]))) s) = RETRYING"
proof -
  have "beats_ok 0 (Suc (Suc 0)) s" using assms by (simp add: beats_ok_def)
  then obtain t1 where t1: "meanwhile (ws1 @ [Io_Beat]) s = (Inr (), t1)" "beats_ok (Suc 0) (Suc 0) t1"
    using write_then_beat [of 0 "Suc 0" s ws1] assms(6) by (auto simp: MISSED_PONGS_def)
  then obtain t2 where t2: "meanwhile (ws2 @ [Io_Beat]) t1 = (Inr (), t2)" "beats_ok (Suc (Suc 0)) 0 t2"
    using write_then_beat [of "Suc 0" 0 t1 ws2] assms(6) by (auto simp: MISSED_PONGS_def)
  obtain t3 where t3: "meanwhile ws3 t2 = (Inr (), t3)" "writer_only t2 t3"
    using writes_run [of ws3 t2] assms(6) by auto
  have "lk_beating t3" "\<not> lk_closing t3" "link_state t3 = ONLINE" "MISSED_PONGS \<le> lk_unanswered t3"
    using t2(2) writer_only_fields [OF t3(2)] by (simp_all add: beats_ok_def link_state_def MISSED_PONGS_def)
  from beat_gives_up [OF this] obtain t4 where t4: "link_beat t3 = (Inr (), t4)" "link_state t4 = RETRYING" by blast
  have "meanwhile (ws3 @ [Io_Beat]) t2 = (Inr (), t4)" using t4(1) by (simp add: meanwhile_then [OF t3(1)] meanwhile_one)
  then show ?thesis
    unfolding meanwhile_then [OF t1(1)] meanwhile_then [OF t2(1)] t1(1) t2(1)
    using t1(2) t2(2) t4(2) by (simp add: beats_ok_def)
qed

subsection \<open>The handshake\<close>

text \<open>An answer that arrives while a request waits for its type.\<close>

lemma reply_arrives:
  assumes "lk_reading s" and "lk_buffer s = new_line_buffer MAX_LINE_BYTES" and "wf_frame g" and "encode g = Inr bs"
    and "f_type g \<in> set (lk_await s)" and "f_type g \<noteq> PONG"
  shows "meanwhile [Io_Recv (Some bs)] s =
    (Inr (), s\<lparr>draws := Suc (draws s), lk_reply := Some g, lk_await := [], lk_ready := True\<rparr>)"
proof -
  have bs: "bs = line_bytes (frame_text g)" using assms(3,4) encode_eq by simp
  then have ne: "bs \<noteq> []" by (simp add: line_bytes_def)
  have "feed_loop bs [] = ([], Inr [frame_text g])"
    using feed_loop_line [OF frame_text_good [OF assms(3)], of "[]" "[]"] by (simp add: bs feed_loop.simps)
  then have "feed (lk_buffer s) bs = (lk_buffer s, Inr [frame_text g])"
    by (simp add: assms(2) feed_Inr new_line_buffer_def)
  then have "read_turn (Some bs) s = (Inr True, s\<lparr>draws := Suc (draws s), lk_reply := Some g, lk_await := [], lk_ready := True\<rparr>)"
    using ne assms(5,6)
    by (simp add: read_turn_def link_line_def bnd_def andthen_def decode_frame_text [OF assms(3)] link_deliver_def)
  then show ?thesis using assms(1) by (simp add: meanwhile_one link_read_def rescue_def bnd_def)
qed

definition handshaking :: "'z link_scheme \<Rightarrow> bool" where
  "handshaking s \<longleftrightarrow> link_state s = AUTHENTICATING \<and> \<not> lk_closing s \<and> lk_reading s \<and>
     lk_buffer s = new_line_buffer MAX_LINE_BYTES \<and> length (lk_outbox s) < LINK_OUTBOX_LIMIT"

lemma login_reply_run:
  assumes "handshaking s" and "wf_frame g" and "encode g = Inr bs" and "f_type g \<in> {LOGIN_OK, ERROR}"
  shows "\<exists>t. link_login name pass_hash [Io_Recv (Some bs)] s = (Inr g, t) \<and>
    link_state t = (if f_type g = LOGIN_OK then ONLINE else DISCONNECTED) \<and>
    lk_username t = (if f_type g = LOGIN_OK then Some name else lk_username s) \<and> lk_heard t = lk_heard s \<and>
    (lk_hb_made s \<or> (lk_beating t \<longleftrightarrow> f_type g = LOGIN_OK \<or> lk_beating s))"
proof -
  let ?fr = "\<lparr>f_type = LOGIN, f_sender = PNone, f_to = PNone, f_body = PNone, f_nonce = PNone,
     f_data = [(u ''user'', PStr name), (u ''pass_hash'', PStr pass_hash)], f_id = PStr (uuid_src s (draws s)),
     f_ts = clock_src s (Suc (draws s)), f_v = PInt PROTOCOL_VERSION\<rparr>"
  let ?s = "s\<lparr>draws := Suc (Suc (draws s)), lk_reply := None, lk_ready := False, lk_await := [LOGIN_OK, ERROR],
     lk_outbox := lk_outbox s @ [Link_Item ?fr]\<rparr>"
  have w: "meanwhile [Io_Recv (Some bs)] ?s =
      (Inr (), ?s\<lparr>draws := Suc (draws ?s), lk_reply := Some g, lk_await := [], lk_ready := True\<rparr>)"
    using assms by (intro reply_arrives) (auto simp: handshaking_def)
  show ?thesis
    using assms(1,4) w
    by (auto simp: link_login_def link_require_def handshaking_def link_state_def op_defs bnd_def andthen_def link_request_def
        put_nowait_def on_event_run mc_transition_def transitions_def start_heartbeat_def)
qed


subsection \<open>Concrete instances\<close>

definition online_link :: link where
  "online_link = \<lparr>uuid_src = nat_str, clock_src = int, token_src = (\<lambda>n. [byte_of n]), scrypt_fn = (\<lambda>p salt. p @ salt), draws = 0,
     lk_username = Some (u ''alice''), lk_machine = \<lparr>mc_state = ONLINE, mc_watched = True, mc_seen = [ONLINE]\<rparr>,
     lk_buffer = new_line_buffer MAX_LINE_BYTES, lk_outbox = [], lk_closing = False, lk_await = [], lk_reply = None,
     lk_ready = False, lk_hb_made = True, lk_beating = True, lk_unanswered = 0, lk_reading = True, lk_writing = True,
     lk_sock_open = True, lk_wire = [], lk_heard = [], lk_wait_turns = [Tn_Write True], lk_flush_turns = [Tn_Write True, Tn_Write True]\<rparr>"

lemma online_link_facts: "link_ok online_link" "link_state online_link = ONLINE" "lk_outbox online_link = []"
  "lk_beating online_link" "\<not> lk_closing online_link" "lk_unanswered online_link = 0"
  by (simp_all add: online_link_def link_ok_def link_state_def)

text \<open>The same connection with a full queue.\<close>

definition full_link :: link where
  "full_link = online_link\<lparr>lk_outbox := replicate 100 (Link_Item sample_frame), lk_wait_turns := [Tn_Write True, Tn_Recv None]\<rparr>"

lemma full_link_facts: "link_ok full_link" "link_state full_link = ONLINE" "length (lk_outbox full_link) = LINK_OUTBOX_LIMIT"
  using online_link_facts by (simp_all add: full_link_def link_ok_def link_state_def LINK_OUTBOX_LIMIT_def)

theorem link_send_outcomes_witness:
  "\<exists>t. (link_send sample_frame full_link = (Inr (), t) \<and> (\<exists>q. lk_outbox t = q @ [Link_Item sample_frame]) \<or>
     link_send sample_frame full_link = (Inl Not_Connected, t) \<and> link_state t = CLOSED)"
  using link_send_outcomes [OF full_link_facts(1), of sample_frame] full_link_facts(2,3) by blast

theorem send_outlives_link_witness: "\<exists>t. link_send sample_frame full_link = (Inr (), t) \<and> link_state t = RETRYING"
proof -
  have "lk_outbox full_link = Link_Item sample_frame # replicate 99 (Link_Item sample_frame)" by (simp add: full_link_def numeral_eq_Suc)
  moreover have "lk_writing full_link" "lk_sock_open full_link" "lk_reading full_link" "lk_wait_turns full_link = [Tn_Write True, Tn_Recv None]"
    by (simp_all add: full_link_def online_link_def)
  ultimately show ?thesis
    using send_outlives_link [OF full_link_facts(1,2) _ _ encode_eq [OF sample_frame_wf], of "replicate 99 (Link_Item sample_frame)" sample_frame] by auto
qed

theorem dead_link_detected_witness:
  "link_state (after (meanwhile [Io_Beat, Io_Write True, Io_Beat, Io_Beat]) online_link) = RETRYING"
  using dead_link_detected [of online_link "[]" "[Io_Write True]" "[]"] online_link_facts
  by (auto simp: LINK_OUTBOX_LIMIT_def)

end
