(* ===== verification/Reconnect.thy ===== *)
theory Reconnect
  imports ServerLink
begin

section \<open>A session that rebuilds its connection\<close>

text \<open>
  \<open>im/client/net/session.py\<close>: the owner of the credentials, the supervisor thread that waits out
  the backoff and replaces a dead connection, and the sending methods the controller calls.
\<close>

subsection \<open>State and operations\<close>

text \<open>
  The fields of \<open>link\<close> are those of the connection object in hand: the one \<open>_connection\<close> refers to
  when \<open>se_has\<close> is true, and otherwise the one being built or the last one that was dropped.
\<close>

record session = link +
  se_user :: ustr
  se_pass :: ustr
  se_pubkey :: "ustr option"
  se_has :: bool
  se_stopped :: bool
  se_supervised :: bool
  se_reconnects :: nat
  se_backoff :: backoff

definition session_start :: "bool \<Rightarrow> bool \<Rightarrow> io list \<Rightarrow> io list \<Rightarrow> io list \<Rightarrow> ('z session_scheme, frame) py" where
  "session_start reg dialled ios1 ios2 ios3 =
     andthen (modify new_link)
     (andthen (link_connect dialled ios1)
     (bnd (gets (\<lambda>s. (se_user s, se_pass s, se_pubkey s))) (\<lambda>(name, pass_hash, pubkey).
     (bnd (if reg then bnd (link_register name pass_hash pubkey ios2) (\<lambda>g. ret (Some g)) else ret None) (\<lambda>rg.
      case (case rg of None \<Rightarrow> None
            | Some g \<Rightarrow> if f_type g = ERROR \<and> pget (f_data g) (u ''code'') \<noteq> PStr (u ''USER_EXISTS'') then Some g else None) of
        Some g \<Rightarrow> andthen link_close (ret g)
      | None \<Rightarrow>
        bnd (link_login name pass_hash ios3) (\<lambda>reply.
        if f_type reply = ERROR then andthen link_close (ret reply)
        else andthen (modify (\<lambda>s. s\<lparr>se_has := True, se_backoff := bo_reset (se_backoff s), se_supervised := True\<rparr>))
            (ret reply)))))))"

definition session_close :: "('z session_scheme, unit) py" where
  "session_close = bnd (gets se_has) (\<lambda>has.
     andthen (modify (\<lambda>s. s\<lparr>se_stopped := True, se_has := False\<rparr>)) (if has then link_close else ret ()))"

definition session_can_send :: "'z session_scheme \<Rightarrow> bool" where
  "session_can_send s \<longleftrightarrow> se_has s \<and> link_can_send s"

definition session_state :: "'z session_scheme \<Rightarrow> conn_state" where
  "session_state s = (if se_has s then link_state s else DISCONNECTED)"

text \<open>The tuple of the \<open>except\<close> in \<open>_reconnect\<close>: \<open>OSError\<close> covers the first two. \<open>NotConnected\<close> is none of them.\<close>

definition is_os_error :: "exn \<Rightarrow> bool" where
  "is_os_error e \<longleftrightarrow> e \<in> {Connection_Error, Timeout_Error}"

definition attempt :: "bool \<Rightarrow> io list \<Rightarrow> io list \<Rightarrow> ('z session_scheme, unit) py" where
  "attempt dialled ios1 ios2 =
     bnd (gets (\<lambda>s. (se_user s, se_pass s))) (\<lambda>(name, pass_hash).
      bnd (rescue (andthen (link_connect dialled ios1) (bnd (link_login name pass_hash ios2) (\<lambda>g. ret (Some g))))
             (\<lambda>e. if is_os_error e then andthen link_close (ret None) else raise e)) (\<lambda>r.
      case r of None \<Rightarrow> ret ()
      | Some reply \<Rightarrow>
        if f_type reply = ERROR then link_close
        else modify (\<lambda>s. s\<lparr>se_has := True, se_reconnects := Suc (se_reconnects s), se_backoff := bo_reset (se_backoff s)\<rparr>)))"

definition reconnect :: "bool \<Rightarrow> io list \<Rightarrow> io list \<Rightarrow> ('z session_scheme, unit) py" where
  "reconnect dialled ios1 ios2 =
     bnd (gets se_has) (\<lambda>has.
     andthen (modify (\<lambda>s. s\<lparr>se_has := False\<rparr>))
     (andthen (if has then link_close else ret ())
     (andthen (modify new_link) (attempt dialled ios1 ios2))))"

text \<open>
  One turn of \<open>_watch\<close>. \<open>r\<close> is the random number of the delay, \<open>stopped\<close> says that the session was
  stopped during the delay. \<open>True\<close> goes round again, \<open>False\<close> is the end of the thread, and so is an
  exception.
\<close>

definition watch_turn :: "rat \<Rightarrow> bool \<Rightarrow> bool \<Rightarrow> io list \<Rightarrow> io list \<Rightarrow> ('z session_scheme, bool) py" where
  "watch_turn r stopped dialled ios1 ios2 =
     bnd (gets (\<lambda>s. (se_stopped s, se_has s, link_can_send s, link_state s))) (\<lambda>(over, has, can, st).
     if over then ret False
     else if has \<and> (can \<or> st \<in> {CONNECTING, AUTHENTICATING}) then ret True
     else bnd (gets (\<lambda>s. next_delay r (se_backoff s))) (\<lambda>d.
          case d of Inl e \<Rightarrow> raise e
          | Inr (_, b) \<Rightarrow>
            andthen (modify (\<lambda>s. s\<lparr>se_backoff := b\<rparr>))
            (if stopped then ret False else andthen (reconnect dialled ios1 ios2) (ret True))))"

text \<open>\<open>_live\<close>, and the sending methods: each is \<open>_live().method()\<close>, which builds a frame and sends it.\<close>

definition live_frame :: "message_type \<Rightarrow> pyval \<Rightarrow> pyval \<Rightarrow> pyval \<Rightarrow> (ustr, pyval) dict \<Rightarrow> ('z session_scheme, frame) py" where
  "live_frame ty to body nonce data = bnd (gets session_can_send) (\<lambda>can.
     if \<not> can then raise Not_Connected
     else bnd (new_frame ty PNone to body nonce data) (\<lambda>f. andthen (link_send f) (ret f)))"

subsection \<open>The connection in hand stays well formed\<close>

lemma session_fields_ok [simp]:
  "link_ok (s\<lparr>se_has := b\<rparr>) = link_ok s" "link_ok (s\<lparr>se_backoff := bo\<rparr>) = link_ok s" "link_ok (s\<lparr>se_stopped := b\<rparr>) = link_ok s"
  "link_ok (s\<lparr>se_reconnects := n\<rparr>) = link_ok s" "link_ok (s\<lparr>se_supervised := b\<rparr>) = link_ok s"
  by (simp_all add: link_ok_def link_state_def)

lemma new_link_kept: "runs_in link_kept m \<Longrightarrow> runs_in (keeps link_ok) (andthen (modify new_link) m)"
  using keptD [of m] by (auto simp: runs_in_def keeps_def new_link_ok)

lemma live_frame_kept: "runs_in link_kept (live_frame ty to body nonce d)"
  unfolding live_frame_def by (intro lk0.runs_rules new_frame_kept lk.link_send_R) simp

subsection \<open>A connection never touches its owner\<close>

definition same_owner :: "'z link_scheme \<Rightarrow> 'z link_scheme \<Rightarrow> bool" where
  "same_owner s t \<longleftrightarrow> link.more t = link.more s"

interpretation so: world_rel same_owner
  by unfold_locales (auto simp: same_owner_def)

lemma owner_modify: "(\<And>s. link.more (g s) = link.more s) \<Longrightarrow> runs_in same_owner (modify g)"
  by (simp add: runs_in_modify same_owner_def)

lemma link_write_owner [simp]: "link.more (link_write ok s) = link.more s"
  by (simp add: link_write_def Let_def split: list.split link_item.split sum.split)

lemma on_event_owner: "runs_in same_owner (on_event ev)"
  unfolding on_event_def
  by (intro so.runs_rules) (auto intro!: so.runs_pure owner_modify split: sum.split prod.split)

lemma put_nowait_owner: "runs_in same_owner (put_nowait item)"
  unfolding put_nowait_def by (intro so.runs_rules owner_modify) simp

lemma connection_lost_owner: "runs_in same_owner connection_lost"
  unfolding connection_lost_def by (intro so.runs_rules owner_modify on_event_owner) simp

lemma link_line_owner: "runs_in same_owner (link_line line)"
  unfolding link_line_def
  by (rule so.runs_bnd [OF so.decode_runs]) (auto intro!: so.runs_pure owner_modify simp: link_deliver_def Let_def split: sum.split)

lemma link_read_owner: "runs_in same_owner (link_read r)"
  unfolding link_read_def read_turn_def
  by (intro so.runs_rules owner_modify connection_lost_owner)
     (auto intro!: so.runs_rules owner_modify link_line_owner split: option.split prod.split sum.split)

lemma hang_up_owner: "runs_in same_owner hang_up"
  unfolding hang_up_def by (intro so.runs_rules owner_modify on_event_owner put_nowait_owner) simp_all

interpretation sl: link_rel same_owner "\<lambda>_. True"
  by unfold_locales (auto intro: link_read_owner connection_lost_owner hang_up_owner put_nowait_owner simp: same_owner_def)

lemmas link_close_owner = sl.link_close_R
lemmas link_send_owner = sl.link_send_R [OF TrueI]
lemmas meanwhile_owner = sl.meanwhile_R

lemma link_connect_owner: "runs_in same_owner (link_connect dialled ios)"
  unfolding link_connect_def by (intro so.runs_rules meanwhile_owner on_event_owner owner_modify) simp

lemma link_login_owner: "runs_in same_owner (link_login name pass_hash ios)"
  unfolding link_login_def link_require_def link_request_def new_frame_def
  by (intro so.world_rules on_event_owner put_nowait_owner meanwhile_owner owner_modify) (simp_all add: start_heartbeat_def)

lemma session_fields:
  assumes "same_owner s t"
  shows "se_user t = se_user s" "se_pass t = se_pass s" "se_has t = se_has s" "se_stopped t = se_stopped s"
    "se_reconnects t = se_reconnects s" "se_backoff t = se_backoff s"
  using assms by (cases s; cases t; simp add: same_owner_def)+

subsection \<open>The supervisor\<close>

text \<open>A connection that was just dialled.\<close>

definition dialled_link :: "'z link_scheme \<Rightarrow> 'z link_scheme" where
  "dialled_link s = (new_link s)\<lparr>lk_machine := \<lparr>mc_state = AUTHENTICATING, mc_watched = True, mc_seen = [CONNECTING, AUTHENTICATING]\<rparr>,
     lk_sock_open := True, lk_reading := True, lk_writing := True\<rparr>"

lemma link_connect_run: "link_connect True [] (new_link s) = (Inr (), dialled_link s)"
  by (simp add: link_connect_def andthen_def bnd_def on_event_run mc_transition_def transitions_def new_link_def
      new_machine_def move_def meanwhile_def dialled_link_def)

lemma link_connect_fails: "\<exists>t. link_connect False ios (new_link s) = (Inl Connection_Error, t) \<and> link_ok t"
proof -
  let ?t = "after (link_connect False ios) (new_link s)"
  have "outcome (link_connect False ios) (new_link s) = Inl Connection_Error"
    by (simp add: link_connect_def andthen_def bnd_def on_event_run mc_transition_def transitions_def new_link_def
        new_machine_def move_def)
  moreover have "link_ok ?t" using keptD [OF link_connect_kept new_link_ok] by blast
  ultimately show ?thesis by (metis prod.collapse)
qed

lemma dialled_handshaking: "handshaking (dialled_link s)" and dialled_ok: "link_ok (dialled_link s)"
  by (simp_all add: handshaking_def dialled_link_def new_link_def link_state_def LINK_OUTBOX_LIMIT_def link_ok_def)


lemma reconnect_run:
  assumes "link_ok s"
  shows "\<exists>s'. same_owner (s\<lparr>se_has := False\<rparr>) s' \<and> reconnect dialled ios1 ios2 s = attempt dialled ios1 ios2 (new_link s')"
proof (cases "se_has s")
  case True
  have ok: "link_ok (s\<lparr>se_has := False\<rparr>)" using assms by simp
  then obtain t where t: "link_close (s\<lparr>se_has := False\<rparr>) = (Inr (), t)" using link_close_closes by blast
  have "same_owner (s\<lparr>se_has := False\<rparr>) t" by (rule runs_inD [OF link_close_owner t])
  then show ?thesis using True t by (auto simp: reconnect_def andthen_def bnd_def)
next
  case False
  then show ?thesis
    by (intro exI [of _ "s\<lparr>se_has := False\<rparr>"]) (simp add: reconnect_def andthen_def bnd_def so.R_refl)
qed

text \<open>The outcomes of one attempt, from a fresh connection object.\<close>

lemma new_link_owner: "same_owner s (new_link s)" and dialled_owner: "same_owner s (dialled_link s)"
  by (simp_all add: same_owner_def new_link_def dialled_link_def)

lemma close_after:
  assumes "link_ok s"
  shows "\<exists>t. link_close s = (Inr (), t) \<and> same_owner s t"
proof -
  obtain t where t: "link_close s = (Inr (), t)" using link_close_closes [OF assms] by blast
  then show ?thesis using runs_inD [OF link_close_owner t] by blast
qed

lemma attempt_not_dialled: "\<exists>t. attempt False ios1 ios2 (new_link s) = (Inr (), t) \<and> same_owner s t"
proof -
  obtain t where t: "link_connect False ios1 (new_link s) = (Inl Connection_Error, t)" "link_ok t"
    using link_connect_fails by blast
  obtain t' where t': "link_close t = (Inr (), t')" "same_owner t t'" using close_after [OF t(2)] by blast
  have "same_owner s t'"
    using so.R_trans [OF new_link_owner so.R_trans [OF runs_inD [OF link_connect_owner t(1)] t'(2)]] .
  then show ?thesis using t t' by (simp add: attempt_def bnd_def andthen_def rescue_def is_os_error_def)
qed

text \<open>What \<open>_reconnect\<close> makes of the outcome of the login.\<close>

definition settle :: "exn + frame \<Rightarrow> ('z session_scheme, unit) py" where
  "settle r = (case r of
      Inl e \<Rightarrow> if is_os_error e then link_close else raise e
    | Inr g \<Rightarrow> if f_type g = ERROR then link_close
      else modify (\<lambda>s. s\<lparr>se_has := True, se_reconnects := Suc (se_reconnects s), se_backoff := bo_reset (se_backoff s)\<rparr>))"

lemma attempt_connected:
  assumes "link_connect True ios1 (new_link s) = (Inr (), c)" and "link_login (se_user s) (se_pass s) ios2 c = (r, t)"
  shows "attempt True ios1 ios2 (new_link s) = settle r t" "same_owner s t" "link_ok t"
proof -
  have u: "se_user (new_link s) = se_user s" "se_pass (new_link s) = se_pass s" by (simp_all add: new_link_def)
  have "link_ok c" using keptD [OF link_connect_kept new_link_ok] assms(1) by (metis snd_conv)
  then show ok: "link_ok t" using keptD [OF link_login_kept] assms(2) by (metis snd_conv)
  then obtain t' where "link_close t = (Inr (), t')" using link_close_closes by blast
  then show "attempt True ios1 ios2 (new_link s) = settle r t"
    using assms by (simp add: attempt_def u bnd_def andthen_def rescue_def settle_def split: sum.split)
  show "same_owner s t"
    using so.R_trans [OF new_link_owner so.R_trans [OF runs_inD [OF link_connect_owner assms(1)] runs_inD [OF link_login_owner assms(2)]]] .
qed

lemmas attempt_dialled = attempt_connected [OF link_connect_run]

lemma login_hang_up: "\<exists>t. link_login name pass_hash [Io_Recv None] (dialled_link s) = (Inl Not_Connected, t) \<and> link_state t = RETRYING"
  by (simp add: link_login_def link_require_def link_request_def op_defs bnd_def andthen_def put_nowait_def meanwhile_one
      link_read_def read_turn_def rescue_def connection_lost_def dialled_link_def new_link_def link_state_def
      LINK_OUTBOX_LIMIT_def mc_is_closed_def mc_allows_def on_event_run mc_transition_def transitions_def)

lemma login_silence: "\<exists>t. link_login name pass_hash [] (dialled_link s) = (Inl Timeout_Error, t)"
  by (simp add: link_login_def link_require_def link_request_def op_defs bnd_def andthen_def put_nowait_def meanwhile_def
      dialled_link_def new_link_def link_state_def LINK_OUTBOX_LIMIT_def)


text \<open>A session whose supervisor owes a reconnection, and the delay it will wait.\<close>

definition owes_reconnect :: "'z session_scheme \<Rightarrow> bool" where
  "owes_reconnect s \<longleftrightarrow> link_ok s \<and> \<not> se_stopped s \<and>
     \<not> (se_has s \<and> (link_can_send s \<or> link_state s \<in> {CONNECTING, AUTHENTICATING}))"

lemma watch_run:
  assumes "owes_reconnect s" and "next_delay r (se_backoff s) = Inr (d, b)"
  shows "\<exists>s'. watch_turn r False dialled ios1 ios2 s = andthen (attempt dialled ios1 ios2) (ret True) (new_link s') \<and>
    se_user s' = se_user s \<and> se_pass s' = se_pass s \<and> \<not> se_has s' \<and> \<not> se_stopped s' \<and> se_backoff s' = b \<and>
    se_reconnects s' = se_reconnects s"
proof -
  let ?s = "s\<lparr>se_backoff := b\<rparr>"
  have "link_ok ?s" using assms(1) by (simp add: owes_reconnect_def)
  then obtain s' where s': "same_owner (?s\<lparr>se_has := False\<rparr>) s'"
    "reconnect dialled ios1 ios2 ?s = attempt dialled ios1 ios2 (new_link s')" using reconnect_run by blast
  have "watch_turn r False dialled ios1 ios2 s = andthen (reconnect dialled ios1 ios2) (ret True) ?s"
    using assms by (auto simp: watch_turn_def owes_reconnect_def)
  then show ?thesis
    using s' session_fields [OF s'(1)] assms(1)
    by (intro exI [of _ s']) (simp add: andthen_def bnd_def owes_reconnect_def)
qed

definition given_up :: "backoff \<Rightarrow> 'z session_scheme \<Rightarrow> bool" where
  "given_up b t \<longleftrightarrow> \<not> se_has t \<and> \<not> se_stopped t \<and> se_backoff t = b \<and> session_state t = DISCONNECTED"

lemma given_up_owner: "same_owner s t \<Longrightarrow> \<not> se_has s \<Longrightarrow> \<not> se_stopped s \<Longrightarrow> given_up (se_backoff s) t"
  by (simp add: given_up_def session_state_def session_fields)

subsection \<open>Every handshake\<close>

text \<open>While the connection is dialled it waits with nothing queued, unless it was closed.\<close>

definition dialling :: "'z link_scheme \<Rightarrow> bool" where
  "dialling s \<longleftrightarrow> link_ok s \<and>
     (link_state s = CONNECTING \<and> \<not> lk_closing s \<and> lk_outbox s = [] \<and> \<not> lk_beating s \<or> link_state s = CLOSED)"

interpretation dg: world_rel "keeps dialling"
  by unfold_locales (auto simp: keeps_def dialling_def link_ok_def link_state_def)

lemma dialling_modify: "(\<And>s. dialling (g s) = dialling s) \<Longrightarrow> runs_in (keeps dialling) (modify g)"
  by (simp add: runs_in_modify keeps_def)

lemma dialling_fields [simp]:
  "dialling (s\<lparr>lk_ready := b\<rparr>) = dialling s" "dialling (s\<lparr>lk_reading := b\<rparr>) = dialling s" "dialling (s\<lparr>lk_buffer := lb\<rparr>) = dialling s"
  by (simp_all add: dialling_def link_state_def)

lemma dialling_lost: "runs_in (keeps dialling) connection_lost"
  by (auto simp: runs_in_def keeps_def connection_lost_def dialling_def mc_is_closed_def mc_allows_def transitions_def link_state_def
      bnd_def andthen_def)

lemma dialling_line: "runs_in (keeps dialling) (link_line line)"
  unfolding link_line_def
  by (rule dg.runs_bnd [OF dg.decode_runs])
     (auto intro!: dg.runs_pure simp: runs_in_modify keeps_def dialling_def link_deliver_def Let_def link_ok_def link_state_def split: sum.split)

lemma dialling_read: "runs_in (keeps dialling) (link_read r)"
  unfolding link_read_def read_turn_def
  by (auto intro!: dg.world_rules dialling_modify dialling_line dialling_lost split: option.split prod.split sum.split)

lemma dialling_turn: "runs_in (keeps dialling) (io_turn i :: ('z link_scheme, unit) py)"
proof (cases i)
  case (Io_Write ok)
  have "dialling (link_write ok s)" if "dialling s" for s :: "'z link_scheme"
    using that writer_only_ok [OF link_write_only] writer_only_fields [OF link_write_only [of s ok]]
    by (auto simp: dialling_def link_state_def)
  then show ?thesis using Io_Write by (simp add: runs_in_modify keeps_def)
next
  case Io_Beat
  have "dialling (after link_beat s)" if "dialling s" for s :: "'z link_scheme"
  proof (cases "link_state s = CLOSED")
    case True
    then have "link_ok s" "lk_closing s" using that by (simp_all add: dialling_def link_ok_def)
    then have "link_ok (after link_beat s) \<and> lk_closing (after link_beat s)" using keptD [OF lk.link_beat_R] by blast
    then have "link_state (after link_beat s) = CLOSED" unfolding link_ok_def by blast
    then show ?thesis using keptD [OF lk.link_beat_R, of s] that by (simp add: dialling_def)
  qed (use that in \<open>simp add: dialling_def link_beat_def beat_with_def\<close>)
  then show ?thesis using Io_Beat by (simp add: runs_in_def keeps_def)
next
  case Io_Close
  have "dialling (after link_close s)" if "dialling s" for s :: "'z link_scheme"
    using keptD [OF lk.link_close_R, of s] link_close_closes [of s] that by (auto simp: dialling_def)
  then show ?thesis using Io_Close by (simp add: runs_in_def keeps_def)
qed (simp add: dialling_read)

lemma dialling_meanwhile: "runs_in (keeps dialling) (meanwhile ios)"
  unfolding meanwhile_def by (intro dg.runs_rules dialling_turn)

lemma meanwhile_returns: "\<exists>t. meanwhile ios s = (Inr (), t)"
proof (induction ios arbitrary: s)
  case (Cons i ios)
  obtain r s1 where "io_turn i s = (r, s1)" by (cases "io_turn i s")
  then show ?case using Cons.IH [of s1] by (cases r) (auto simp: meanwhile_def andthen_def bnd_def rescue_def)
qed (simp add: meanwhile_def)

lemma connect_outcomes:
  "\<exists>c. link_connect True ios (new_link s) = (Inr (), c) \<and> link_state c = AUTHENTICATING \<and> lk_outbox c = [] \<or>
       link_connect True ios (new_link s) = (Inl Illegal_Event, c) \<and> link_state c = CLOSED"
proof -
  let ?s = "(new_link s)\<lparr>lk_machine := \<lparr>mc_state = CONNECTING, mc_watched = True, mc_seen = [CONNECTING]\<rparr>,
     lk_sock_open := True, lk_reading := True, lk_writing := True\<rparr>"
  have d: "dialling ?s" by (simp add: dialling_def new_link_def link_ok_def link_state_def)
  obtain t where t: "meanwhile ios ?s = (Inr (), t)" using meanwhile_returns by blast
  have "dialling t" using keepsD [OF dialling_meanwhile d] t by (metis snd_conv)
  moreover have "link_connect True ios (new_link s) = on_event Ev_SOCKET_READY t"
    using t by (simp add: link_connect_def andthen_def bnd_def on_event_run mc_transition_def transitions_def new_link_def new_machine_def move_def)
  ultimately show ?thesis by (auto simp: on_event_run mc_transition_def transitions_def dialling_def link_state_def)
qed

text \<open>While the login waits for its answer.\<close>

definition logging_in :: "'z link_scheme \<Rightarrow> bool" where
  "logging_in s \<longleftrightarrow> set (lk_await s) \<subseteq> {LOGIN_OK, ERROR} \<and> (\<forall>g. lk_reply s = Some g \<longrightarrow> f_type g \<in> {LOGIN_OK, ERROR}) \<and>
     (link_state s = AUTHENTICATING \<and> (lk_ready s \<longrightarrow> lk_reply s \<noteq> None) \<or> link_state s \<in> {RETRYING, CLOSED})"

lemma logging_in_draws [simp]: "logging_in (s\<lparr>draws := n\<rparr>) = logging_in s"
  by (simp add: logging_in_def link_state_def)

interpretation lg: world_rel "keeps logging_in"
  by unfold_locales (auto simp: keeps_def)

lemma logging_in_fields [simp]:
  "logging_in (s\<lparr>lk_reading := b\<rparr>) = logging_in s" "logging_in (s\<lparr>lk_buffer := lb\<rparr>) = logging_in s" "logging_in (s\<lparr>lk_outbox := q\<rparr>) = logging_in s"
  "logging_in (s\<lparr>lk_sock_open := b\<rparr>) = logging_in s" "logging_in (s\<lparr>lk_beating := b\<rparr>) = logging_in s"
  "logging_in (s\<lparr>lk_unanswered := n\<rparr>) = logging_in s" "logging_in (s\<lparr>lk_heard := hs\<rparr>) = logging_in s"
  by (simp_all add: logging_in_def link_state_def)

lemma logging_in_modify: "(\<And>s. logging_in (g s) = logging_in s) \<Longrightarrow> runs_in (keeps logging_in) (modify g)"
  by (simp add: runs_in_modify keeps_def)

lemma logging_in_lost: "runs_in (keeps logging_in) connection_lost"
  by (auto simp: runs_in_def keeps_def connection_lost_def logging_in_def mc_is_closed_def mc_allows_def transitions_def link_state_def
      bnd_def andthen_def on_event_run mc_transition_def)

lemma logging_in_deliver: "logging_in s \<Longrightarrow> logging_in (link_deliver f s)"
  by (auto simp: link_deliver_def Let_def logging_in_def link_state_def)

lemma logging_in_line: "runs_in (keeps logging_in) (link_line line)"
  unfolding link_line_def
  by (rule lg.runs_bnd [OF lg.decode_runs])
     (auto intro!: lg.runs_pure logging_in_deliver simp: runs_in_modify keeps_def split: sum.split)

lemma logging_in_read: "runs_in (keeps logging_in) (link_read r)"
  unfolding link_read_def read_turn_def
  by (auto intro!: lg.world_rules logging_in_modify logging_in_line logging_in_lost split: option.split prod.split sum.split)

lemma logging_in_hang_up: "runs_in (keeps logging_in) hang_up"
  by (auto simp: runs_in_def keeps_def hang_up_def put_nowait_def logging_in_def mc_is_closed_def link_state_def
      bnd_def andthen_def on_event_run mc_transition_def)

interpretation ll: link_rel "keeps logging_in" "\<lambda>_. True"
proof unfold_locales
  show "keeps logging_in s (link_write ok s)" for s :: "'z link_scheme" and ok
    using writer_only_fields [OF link_write_only [of s ok]] by (simp add: keeps_def logging_in_def link_state_def)
qed (auto intro!: logging_in_read logging_in_lost logging_in_hang_up logging_in_modify lg.runs_rules simp only: put_nowait_def logging_in_fields keeps_def)

lemma login_outcomes:
  assumes "link_state c = AUTHENTICATING" and "lk_outbox c = []"
  shows "\<exists>r t. link_login name pass_hash ios c = (r, t) \<and>
    (r = Inl Timeout_Error \<or>
     (\<exists>g. r = Inr g \<and> (f_type g = ERROR \<or> f_type g = LOGIN_OK \<and> link_state t = ONLINE \<and> lk_username t = Some name)) \<or>
     r \<in> {Inl Not_Connected, Inl Illegal_Event} \<and> link_state t \<in> {RETRYING, CLOSED})"
proof -
  let ?fr = "\<lparr>f_type = LOGIN, f_sender = PNone, f_to = PNone, f_body = PNone, f_nonce = PNone,
     f_data = [(u ''user'', PStr name), (u ''pass_hash'', PStr pass_hash)], f_id = PStr (uuid_src c (draws c)),
     f_ts = clock_src c (Suc (draws c)), f_v = PInt PROTOCOL_VERSION\<rparr>"
  let ?c = "c\<lparr>draws := Suc (Suc (draws c)), lk_reply := None, lk_ready := False, lk_await := [LOGIN_OK, ERROR],
     lk_outbox := [Link_Item ?fr]\<rparr>"
  obtain v where v: "meanwhile ios ?c = (Inr (), v)" using meanwhile_returns by blast
  have "logging_in ?c" using assms by (simp add: logging_in_def link_state_def)
  then have l: "logging_in v" using keepsD [OF ll.meanwhile_R] v by (metis snd_conv)
  have eq: "link_login name pass_hash ios c =
     bnd (\<lambda>s. (if \<not> lk_ready s then andthen (modify (\<lambda>s. s\<lparr>lk_await := []\<rparr>)) (raise Timeout_Error)
         else bnd (gets lk_reply) (\<lambda>reply.
              andthen (modify (\<lambda>s. s\<lparr>lk_reply := None, lk_await := []\<rparr>))
              (case reply of None \<Rightarrow> raise Not_Connected | Some g \<Rightarrow> ret g))) s) (\<lambda>reply.
      andthen
        (if f_type reply = LOGIN_OK
         then andthen (modify (\<lambda>s. s\<lparr>lk_username := Some name\<rparr>))
             (andthen (on_event Ev_LOGIN_OK) (modify start_heartbeat))
         else on_event Ev_LOGIN_REFUSED)
        (ret reply)) v"
    using assms v by (simp add: link_login_def link_require_def link_state_def op_defs bnd_def andthen_def link_request_def
        put_nowait_def LINK_OUTBOX_LIMIT_def)
  consider "\<not> lk_ready v" | "lk_ready v" "lk_reply v = None" "link_state v \<in> {RETRYING, CLOSED}"
    | g where "lk_ready v" "lk_reply v = Some g" "f_type g \<in> {LOGIN_OK, ERROR}" "link_state v \<in> {AUTHENTICATING, RETRYING, CLOSED}"
    using l by (cases "lk_reply v") (auto simp: logging_in_def)
  then show ?thesis
    by cases (auto simp: eq bnd_def andthen_def on_event_run mc_transition_def transitions_def link_state_def start_heartbeat_def)
qed

text \<open>A calm stretch: the socket stays up and nobody closes the connection. \<open>io_chunks\<close> are the chunks the
  reader got.\<close>

fun calm_io :: "io \<Rightarrow> bool" where
  "calm_io (Io_Recv r) \<longleftrightarrow> r \<noteq> None \<and> r \<noteq> Some []"
| "calm_io (Io_Write ok) \<longleftrightarrow> True"
| "calm_io Io_Beat \<longleftrightarrow> True"
| "calm_io Io_Close \<longleftrightarrow> False"

fun io_chunks :: "io list \<Rightarrow> byte list list" where
  "io_chunks (Io_Recv (Some c) # ios) = c # io_chunks ios"
| "io_chunks (i # ios) = io_chunks ios"
| "io_chunks [] = []"

definition ear :: "'z link_scheme \<Rightarrow> message_type list \<times> frame option \<times> bool" where
  "ear s = (lk_await s, lk_reply s, lk_ready s)"

definition hear :: "frame \<Rightarrow> message_type list \<times> frame option \<times> bool \<Rightarrow> message_type list \<times> frame option \<times> bool" where
  "hear g e = (if f_type g \<in> set (fst e) then ([], Some g, True) else e)"

text \<open>What a calm stretch does not touch while there is no heartbeat yet.\<close>

definition frame_part :: "'z link_scheme \<Rightarrow> machine \<times> bool \<times> bool \<times> bool" where
  "frame_part s = (lk_machine s, lk_closing s, lk_beating s, lk_reading s)"

lemma ear_deliver: "ear (link_deliver g s) = hear g (ear s)" "frame_part (link_deliver g s) = frame_part s"
    "lk_buffer (link_deliver g s) = lk_buffer s"
  by (simp_all add: ear_def hear_def frame_part_def link_deliver_def Let_def)

lemma lines_heard:
  assumes "list_all wf_frame gs"
  shows "\<exists>t. for_each (map frame_text gs) link_line s = (Inr (), t) \<and> ear t = fold hear gs (ear s) \<and>
    frame_part t = frame_part s \<and> lk_buffer t = lk_buffer s"
  using assms
proof (induction gs arbitrary: s)
  case (Cons g gs)
  let ?s = "link_deliver g (s\<lparr>draws := Suc (draws s)\<rparr>)"
  have "link_line (frame_text g) s = (Inr (), ?s)"
    using Cons.prems by (simp add: link_line_def bnd_def decode_frame_text)
  moreover have "ear ?s = hear g (ear s)" "frame_part ?s = frame_part s" "lk_buffer ?s = lk_buffer s"
    using ear_deliver [of g "s\<lparr>draws := Suc (draws s)\<rparr>"] by (simp_all add: ear_def frame_part_def)
  ultimately show ?case using Cons.IH [of ?s] Cons.prems by (auto simp: andthen_def bnd_def)
qed simp

lemma calm_turns:
  assumes "list_all calm_io ios" and "lk_reading s" and "\<not> lk_beating s"
    and "feed_all (lk_buffer s) (io_chunks ios) = (lb, Inr (map frame_text gs))" and "list_all wf_frame gs"
  shows "\<exists>t. meanwhile ios s = (Inr (), t) \<and> ear t = fold hear gs (ear s) \<and> frame_part t = frame_part s"
  using assms
proof (induction ios arbitrary: s gs)
  case (Cons i ios)
  have step: "meanwhile (i # ios) s = meanwhile ios t" if "io_turn i s = (Inr (), t)" for t
    using that by (simp add: meanwhile_def andthen_def bnd_def rescue_def)
  show ?case
  proof (cases i)
    case (Io_Recv r)
    then obtain ch where c: "r = Some ch" "ch \<noteq> []" using Cons.prems(1) by auto
    obtain lb1 ls1 ls2 where f: "feed (lk_buffer s) ch = (lb1, Inr ls1)" "feed_all lb1 (io_chunks ios) = (lb, Inr ls2)"
      "map frame_text gs = ls1 @ ls2"
      using Cons.prems(4) by (auto simp: Io_Recv c(1) split: prod.splits sum.splits)
    then obtain gs1 gs2 where g: "gs = gs1 @ gs2" "map frame_text gs1 = ls1" "map frame_text gs2 = ls2" by (auto simp: map_eq_append_conv)
    obtain t where t: "for_each ls1 link_line (s\<lparr>lk_buffer := lb1\<rparr>) = (Inr (), t)" "ear t = fold hear gs1 (ear s)"
      "frame_part t = frame_part s" "lk_buffer t = lb1"
      using lines_heard [of gs1 "s\<lparr>lk_buffer := lb1\<rparr>"] Cons.prems(5) g by (auto simp: ear_def frame_part_def)
    have "io_turn i s = (Inr (), t)"
      using Cons.prems(2) c f(1) t(1) by (simp add: Io_Recv link_read_def read_turn_def bnd_def andthen_def rescue_def)
    moreover have "lk_reading t" "\<not> lk_beating t" using t(3) Cons.prems(2,3) by (simp_all add: frame_part_def)
    ultimately show ?thesis
      using Cons.IH [of t gs2] Cons.prems(1,5) f(2) g t step by auto
  next
    case (Io_Write ok)
    note w = writer_only_fields [OF link_write_only [of s ok]]
    have "ear (link_write ok s) = ear s" "frame_part (link_write ok s) = frame_part s" "lk_buffer (link_write ok s) = lk_buffer s"
      "lk_reading (link_write ok s)" "\<not> lk_beating (link_write ok s)"
      using w Cons.prems by (simp_all add: ear_def frame_part_def)
    then show ?thesis using Cons.IH [of "link_write ok s" gs] Cons.prems step [of "link_write ok s"] Io_Write by simp
  next
    case Io_Beat
    then have "io_turn i s = (Inr (), s)" using Cons.prems(3) by (simp add: link_beat_def beat_with_def)
    then show ?thesis using Cons.IH [of s gs] Cons.prems step Io_Beat by simp
  next
    case Io_Close
    then show ?thesis using Cons.prems by simp
  qed
qed (simp add: meanwhile_def)

lemma hear_first:
  "fold hear gs (ts, None, False) = (case find (\<lambda>g. f_type g \<in> set ts) gs of None \<Rightarrow> (ts, None, False) | Some g \<Rightarrow> ([], Some g, True))"
proof -
  have "fold hear gs ([], r) = ([], r)" for r :: "frame option \<times> bool" and gs by (induction gs) (simp_all add: hear_def)
  then show ?thesis by (induction gs) (simp_all add: hear_def)
qed

text \<open>Nothing was received before the login was asked for: the connection is just dialled.\<close>

lemma calm_connect:
  assumes "list_all calm_io ios" and "io_chunks ios = []"
  shows "link_connect True ios (new_link (s :: 'z link_scheme)) = (Inr (), dialled_link s)"
proof -
  have "meanwhile ios v = (Inr (), v)" if "lk_outbox v = []" "\<not> lk_beating v" for v :: "'z link_scheme"
    using assms
  proof (induction ios)
    case (Cons i ios)
    then have "io_turn i v = (Inr (), v)"
      using that by (cases i) (auto simp: link_write_def link_beat_def beat_with_def)
    moreover have "list_all calm_io ios" "io_chunks ios = []" using Cons.prems by (cases i; auto)+
    ultimately show ?case using Cons.IH by (simp add: meanwhile_def andthen_def bnd_def rescue_def)
  qed (simp add: meanwhile_def)
  then show ?thesis
    by (simp add: link_connect_def andthen_def bnd_def on_event_run mc_transition_def transitions_def new_link_def
      new_machine_def move_def dialled_link_def)
qed

lemma calm_login:
  assumes "list_all calm_io ios" and "concat (io_chunks ios) = concat bss" and "list_all wf_frame gs"
    and "map encode gs = map Inr bss" and "\<forall>bs\<in>set bss. length bs \<le> MAX_LINE_BYTES"
  shows "\<exists>t. case find (\<lambda>g. f_type g \<in> {LOGIN_OK, ERROR}) gs of
      None \<Rightarrow> link_login name pass_hash ios (dialled_link s) = (Inl Timeout_Error, t)
    | Some g \<Rightarrow> link_login name pass_hash ios (dialled_link s) = (Inr g, t) \<and>
        (f_type g = LOGIN_OK \<longrightarrow> link_state t = ONLINE \<and> lk_username t = Some name)"
proof -
  let ?c = "dialled_link s"
  let ?fr = "\<lparr>f_type = LOGIN, f_sender = PNone, f_to = PNone, f_body = PNone, f_nonce = PNone,
     f_data = [(u ''user'', PStr name), (u ''pass_hash'', PStr pass_hash)], f_id = PStr (uuid_src ?c (draws ?c)),
     f_ts = clock_src ?c (Suc (draws ?c)), f_v = PInt PROTOCOL_VERSION\<rparr>"
  let ?c' = "?c\<lparr>draws := Suc (Suc (draws ?c)), lk_reply := None, lk_ready := False, lk_await := [LOGIN_OK, ERROR],
     lk_outbox := [Link_Item ?fr]\<rparr>"
  have c: "link_state ?c = AUTHENTICATING" "lk_outbox ?c = []" "lk_reading ?c'" "\<not> lk_beating ?c'"
    "lk_buffer ?c' = new_line_buffer MAX_LINE_BYTES"
    by (simp_all add: dialled_link_def new_link_def link_state_def)
  have "feed_all (lk_buffer ?c') (io_chunks ios) = (new_line_buffer MAX_LINE_BYTES, Inr (map frame_text gs))"
    unfolding c(5) by (rule feed_frames [OF assms(3,4,5,2)])
  then obtain t where t: "meanwhile ios ?c' = (Inr (), t)" "ear t = fold hear gs (ear ?c')" "frame_part t = frame_part ?c'"
    using calm_turns [OF assms(1) c(3,4) _ assms(3)] by blast
  have e: "ear t = (case find (\<lambda>g. f_type g \<in> {LOGIN_OK, ERROR}) gs of None \<Rightarrow> ([LOGIN_OK, ERROR], None, False) | Some g \<Rightarrow> ([], Some g, True))"
    unfolding t(2) using hear_first [of gs "[LOGIN_OK, ERROR]"] by (simp add: ear_def)
  have m: "lk_machine t = lk_machine ?c" using t(3) by (simp add: frame_part_def)
  have "f_type g \<in> {LOGIN_OK, ERROR}" if "find (\<lambda>g. f_type g \<in> {LOGIN_OK, ERROR}) gs = Some g" for g
    using that by (auto simp: find_Some_iff)
  then show ?thesis
    using t(1) e m c(1,2)
    by (auto simp: ear_def link_login_def link_require_def link_state_def op_defs bnd_def andthen_def link_request_def
        put_nowait_def LINK_OUTBOX_LIMIT_def on_event_run mc_transition_def transitions_def start_heartbeat_def split: option.splits)
qed

subsection \<open>The supervisor keeps trying\<close>

definition back_online :: "backoff \<Rightarrow> 'z session_scheme \<Rightarrow> 'z session_scheme \<Rightarrow> bool" where
  "back_online b s t \<longleftrightarrow> session_can_send t \<and> lk_username t = Some (se_user s) \<and> se_backoff t = bo_reset b \<and>
     se_reconnects t = Suc (se_reconnects s)"

lemma settle_gives_up:
  assumes "r = Inl Timeout_Error \<or> r = Inl Connection_Error \<or> (\<exists>g. r = Inr g \<and> f_type g = ERROR)" and "link_ok t"
    and "same_owner s t" and "\<not> se_has s" and "\<not> se_stopped s"
  shows "\<exists>v. settle r t = (Inr (), v) \<and> given_up (se_backoff s) v"
proof -
  obtain v where v: "link_close t = (Inr (), v)" "same_owner t v" using close_after [OF assms(2)] by blast
  have "given_up (se_backoff s) v" using given_up_owner [OF so.R_trans [OF assms(3) v(2)]] assms(4,5) .
  then show ?thesis using assms(1) v(1) by (auto simp: settle_def is_os_error_def)
qed

lemma settle_comes_back:
  assumes "f_type g = LOGIN_OK" and "link_state t = ONLINE" and "lk_username t = Some (se_user s)" and "same_owner s t"
  shows "\<exists>v. settle (Inr g) t = (Inr (), v) \<and> back_online (se_backoff s) s v"
  using assms session_fields [OF assms(4)]
  by (auto simp: settle_def back_online_def session_can_send_def link_can_send_def mc_can_send_def link_state_def)

text \<open>How an attempt ends, whatever the threads of the new connection do.\<close>

definition attempt_ends :: "backoff \<Rightarrow> bool \<Rightarrow> 'z session_scheme \<Rightarrow> (exn + 'a) \<Rightarrow> 'a \<Rightarrow> 'z session_scheme \<Rightarrow> bool" where
  "attempt_ends b dialled s res x t \<longleftrightarrow>
     res = Inr x \<and> (given_up b t \<or> dialled \<and> back_online b s t) \<or>
     dialled \<and> (res = Inl Not_Connected \<or> res = Inl Illegal_Event) \<and> link_state t \<in> {RETRYING, CLOSED} \<and> \<not> se_has t \<and> \<not> se_stopped t"

lemma attempt_outcomes:
  assumes "\<not> se_has s" and "\<not> se_stopped s"
  shows "\<exists>res t. attempt dialled ios1 ios2 (new_link s) = (res, t) \<and> attempt_ends (se_backoff s) dialled s res () t"
proof (cases dialled)
  case False
  then show ?thesis using attempt_not_dialled [of ios1 ios2 s] given_up_owner [of s] assms by (auto simp: attempt_ends_def)
next
  case True
  obtain rc c where c: "link_connect True ios1 (new_link s) = (rc, c)" by (cases "link_connect True ios1 (new_link s)")
  then consider "rc = Inr ()" "link_state c = AUTHENTICATING" "lk_outbox c = []" | "rc = Inl Illegal_Event" "link_state c = CLOSED"
    using connect_outcomes [of ios1 s] by auto
  then show ?thesis
  proof cases
    case 1
    obtain r t where r: "link_login (se_user s) (se_pass s) ios2 c = (r, t)"
      "r = Inl Timeout_Error \<or>
       (\<exists>g. r = Inr g \<and> (f_type g = ERROR \<or> f_type g = LOGIN_OK \<and> link_state t = ONLINE \<and> lk_username t = Some (se_user s))) \<or>
       r \<in> {Inl Not_Connected, Inl Illegal_Event} \<and> link_state t \<in> {RETRYING, CLOSED}"
      using login_outcomes [OF 1(2,3)] by blast
    note a = attempt_connected [OF c [unfolded 1(1)] r(1)]
    from r(2) consider "r = Inl Timeout_Error \<or> r = Inl Connection_Error \<or> (\<exists>g. r = Inr g \<and> f_type g = ERROR)"
      | g where "r = Inr g" "f_type g = LOGIN_OK" "link_state t = ONLINE" "lk_username t = Some (se_user s)"
      | "r = Inl Not_Connected \<or> r = Inl Illegal_Event" "link_state t \<in> {RETRYING, CLOSED}"
      by blast
    then show ?thesis
    proof cases
      case 1
      then show ?thesis using a(1) settle_gives_up [OF 1 a(3,2) assms] True by (auto simp: attempt_ends_def)
    next
      case 2
      then show ?thesis using a(1) settle_comes_back [OF 2(2-4) a(2)] True by (auto simp: attempt_ends_def)
    next
      case 3
      then obtain e where "r = Inl e" "\<not> is_os_error e" by (auto simp: is_os_error_def)
      then have "settle r t = (Inl e, t)" by (simp add: settle_def)
      then show ?thesis using 3 \<open>r = Inl e\<close> a(1) session_fields(3,4) [OF a(2)] assms True by (auto simp: attempt_ends_def)
    qed
  next
    case 2
    have "same_owner s c" using so.R_trans [OF new_link_owner runs_inD [OF link_connect_owner c]] .
    then show ?thesis
      using c 2 True assms session_fields(3,4) [of s c]
      by (auto simp: attempt_def bnd_def andthen_def rescue_def is_os_error_def attempt_ends_def new_link_def)
  qed
qed


text \<open>The supervisor does not survive a server that hangs up between accepting the connection
  and answering the login. \<open>login\<close> then raises \<open>NotConnected\<close>, which \<open>_reconnect\<close> does not catch (it
  is no \<open>OSError\<close>), so the supervisor thread ends with the session neither stopped nor connected,
  and nothing is left to try again.\<close>

theorem supervisor_dies_in_handshake:
  assumes "owes_reconnect s" and "next_delay r (se_backoff s) = Inr (d, b)"
  shows "\<exists>t. watch_turn r False True [] [Io_Recv None] s = (Inl Not_Connected, t) \<and> \<not> se_has t \<and> \<not> se_stopped t"
proof -
  obtain s1 where s1: "watch_turn r False True [] [Io_Recv None] s = andthen (attempt True [] [Io_Recv None]) (ret True) (new_link s1)"
    "\<not> se_has s1" "\<not> se_stopped s1" using watch_run [OF assms] by blast
  obtain t where t: "link_login (se_user s1) (se_pass s1) [Io_Recv None] (dialled_link s1) = (Inl Not_Connected, t)"
    using login_hang_up by blast
  note a = attempt_dialled [OF t]
  show ?thesis using s1 a(1) session_fields [OF a(2)] by (simp add: andthen_def bnd_def settle_def is_os_error_def)
qed

subsection \<open>Concrete instances\<close>

definition idle_session :: session where
  "idle_session = \<lparr>uuid_src = nat_str, clock_src = int, token_src = (\<lambda>n. [byte_of n]), scrypt_fn = (\<lambda>p salt. p @ salt), draws = 0,
     lk_username = None, lk_machine = new_machine True, lk_buffer = new_line_buffer MAX_LINE_BYTES, lk_outbox = [],
     lk_closing = False, lk_await = [], lk_reply = None, lk_ready = False, lk_hb_made = False, lk_beating = False,
     lk_unanswered = 0, lk_reading = False, lk_writing = False, lk_sock_open = False, lk_wire = [], lk_heard = [],
     lk_wait_turns = [Tn_Write True], lk_flush_turns = [Tn_Write True, Tn_Write True, Tn_Write True], se_user = u ''alice'', se_pass = u ''pw'', se_pubkey = None, se_has = False,
     se_stopped = False, se_supervised = True, se_reconnects = 0, se_backoff = new_backoff\<rparr>"

lemma idle_owes: "owes_reconnect idle_session"
  by (simp add: owes_reconnect_def idle_session_def link_ok_def link_state_def new_machine_def)

lemma idle_delay: "next_delay 0 (se_backoff idle_session) = Inr (1, new_backoff\<lparr>bo_attempts := 1\<rparr>)"
  by (simp add: idle_session_def next_delay_def nominal_def new_backoff_def pow2_fits)

definition login_ok_frame :: frame where
  "login_ok_frame = sample_frame\<lparr>f_type := LOGIN_OK\<rparr>"

lemma login_ok_frame_wf: "wf_frame login_ok_frame"
  using sample_frame_wf by (simp add: login_ok_frame_def wf_frame_def)


theorem supervisor_dies_in_handshake_witness:
  "\<exists>t. watch_turn 0 False True [] [Io_Recv None] idle_session = (Inl Not_Connected, t) \<and> \<not> se_has t \<and> \<not> se_stopped t"
  by (rule supervisor_dies_in_handshake [OF idle_owes idle_delay])

end
