(* ===== verification/Envelope.thy ===== *)
theory Envelope
  imports Codec
begin

section \<open>Identity keys and sealed message bodies\<close>

text \<open>
  \<open>im/crypto/identity.py\<close> and \<open>im/crypto/envelope.py\<close>. X25519, HKDF and AES-GCM belong to the
  \<open>cryptography\<close> package: they are the fields of a parameter, and what the program relies on is
  \<open>crypto_ok\<close>. Base64 is the standard library's, with the decoder's habit of skipping what is not in
  the alphabet.
\<close>

subsection \<open>Base64\<close>

definition b64_char :: "nat \<Rightarrow> nat" where
  "b64_char n =
     (if n < 26 then 65 + n else if n < 52 then 97 + (n - 26) else if n < 62 then 48 + (n - 52)
      else if n = 62 then 43 else 47)"

definition b64_val :: "nat \<Rightarrow> nat option" where
  "b64_val c =
     (if 65 \<le> c \<and> c \<le> 90 then Some (c - 65) else if 97 \<le> c \<and> c \<le> 122 then Some (c - 97 + 26)
      else if 48 \<le> c \<and> c \<le> 57 then Some (c - 48 + 52) else if c = 43 then Some 62 else if c = 47 then Some 63
      else None)"

fun b64 :: "byte list \<Rightarrow> ustr" where
  "b64 [] = []"
| "b64 [a] = [b64_char (unat a div 4), b64_char (unat a mod 4 * 16), 61, 61]"
| "b64 [a, b] = [b64_char (unat a div 4), b64_char (unat a mod 4 * 16 + unat b div 16), b64_char (unat b mod 16 * 4), 61]"
| "b64 (a # b # c # rest) =
     b64_char (unat a div 4) # b64_char (unat a mod 4 * 16 + unat b div 16)
     # b64_char (unat b mod 16 * 4 + unat c div 64) # b64_char (unat c mod 64) # b64 rest"

text \<open>
  The loop of \<open>binascii.a2b_base64\<close>: \<open>q\<close> is the place in the current group of four, \<open>left\<close> the bits
  carried over, \<open>pads\<close> the padding seen. A group that ends early is a \<open>binascii.Error\<close>.
\<close>

fun a2b :: "nat \<Rightarrow> nat \<Rightarrow> nat \<Rightarrow> byte list \<Rightarrow> ustr \<Rightarrow> exn + byte list" where
  "a2b q left pads acc [] = (if q = 0 then Inr acc else Inl Value_Error)"
| "a2b q left pads acc (c # s) =
     (if c = 61
      then (if 2 \<le> q then (if 4 \<le> q + Suc pads then Inr acc else a2b q left (Suc pads) acc s) else a2b q left pads acc s)
      else case b64_val c of
        None \<Rightarrow> a2b q left pads acc s
      | Some v \<Rightarrow>
        (if q = 0 then a2b 1 v 0 acc s
         else if q = 1 then a2b 2 (v mod 16) 0 (acc @ [byte_of (left * 4 + v div 16)]) s
         else if q = 2 then a2b 3 (v mod 4) 0 (acc @ [byte_of (left * 16 + v div 4)]) s
         else a2b 0 0 0 (acc @ [byte_of (left * 64 + v)]) s))"

definition unb64 :: "ustr \<Rightarrow> exn + byte list" where
  "unb64 s = (if list_all (\<lambda>c. c < 128) s then a2b 0 0 0 [] s else Inl Unicode_Encode_Error)"

lemma b64_val_char: "n < 64 \<Longrightarrow> b64_val (b64_char n) = Some n" "n < 64 \<Longrightarrow> b64_char n \<noteq> 61" "b64_char n < 128"
  by (auto simp: b64_val_def b64_char_def)

lemma unat_byte: "unat (a :: byte) < 256"
  using unsigned_less [of a, where ?'a = nat] by simp

lemma byte_bounds: "unat (a :: byte) div 4 < 64" "unat a mod 4 * 16 + k div 16 < 64" "unat a mod 16 * 4 + k div 64 < 64"
    "unat a mod 4 * 16 < 64" "unat a mod 16 * 4 < 64"
  if "k < 256"
proof -
  have a: "unat a < 256" by (rule unat_byte)
  have "k div 16 < 16" "k div 64 < 4" using that by auto
  moreover have "unat a mod 4 < 4" "unat a mod 16 < 16" by simp_all
  ultimately show "unat a div 4 < 64" "unat a mod 4 * 16 + k div 16 < 64" "unat a mod 16 * 4 + k div 64 < 64"
    "unat a mod 4 * 16 < 64" "unat a mod 16 * 4 < 64" using a by linarith+
qed

lemma byte_of_unat [simp]: "byte_of (unat a) = a"
  by (simp add: byte_of_def)

lemma regroup1: "(x div 4) * 4 + (x mod 4 * 16 + y div 16) div 16 = (x::nat)" if "y < 256"
proof -
  have "y div 16 < 16" using that by auto
  then have "(x mod 4 * 16 + y div 16) div 16 = x mod 4" by simp
  then show ?thesis by simp
qed

lemma regroup2: "((x mod 4 * 16 + y div 16) mod 16) * 16 + (y mod 16 * 4 + z div 64) div 4 = (y::nat)" if "y < 256" "z < 256"
proof -
  have "y div 16 < 16" "z div 64 < 4" using that by auto
  then have "(x mod 4 * 16 + y div 16) mod 16 = y div 16" "(y mod 16 * 4 + z div 64) div 4 = y mod 16" by simp_all
  then show ?thesis by simp
qed

lemma regroup3: "((y mod 16 * 4 + z div 64) mod 4) * 64 + z mod 64 = (z::nat)" if "z < 256"
proof -
  have "z div 64 < 4" using that by auto
  then have "(y mod 16 * 4 + z div 64) mod 4 = z div 64" by simp
  then show ?thesis by simp
qed

lemma a2b_b64: "a2b 0 0 pads acc (b64 bs) = Inr (acc @ bs)"
proof (induction bs arbitrary: pads acc rule: b64.induct)
  case (2 a)
  note r = regroup1 [of 0 "unat a"]
  show ?case using b64_val_char byte_bounds [of 0 a] r by simp
next
  case (3 a b)
  note r = regroup1 [OF unat_byte [of b], of "unat a"] regroup2 [OF unat_byte [of b], of 0 "unat a"]
  show ?case using b64_val_char byte_bounds [of "unat b" a] byte_bounds [of 0 b] r unat_byte [of b] by simp
next
  case (4 a b c rest)
  note r = regroup1 [OF unat_byte [of b], of "unat a"] regroup2 [OF unat_byte [of b] unat_byte [of c], of "unat a"] regroup3 [OF unat_byte [of c], of "unat b"]
  show ?case
    using b64_val_char byte_bounds [of "unat b" a] byte_bounds [of "unat c" b] r unat_byte [of b] unat_byte [of c] 4 by simp
qed simp

lemma b64_ascii: "list_all (\<lambda>c. c < 128) (b64 bs)"
  by (induction bs rule: b64.induct) (simp_all add: b64_val_char)

lemma unb64_b64 [simp]: "unb64 (b64 bs) = Inr bs"
  by (simp add: unb64_def b64_ascii a2b_b64)


subsection \<open>The primitives\<close>

text \<open>
  \<open>x_public\<close> is the raw public half of a private key, \<open>x_exchange\<close> the raw shared secret, which the
  package refuses to return when it is all zeros; \<open>gcm_decrypt\<close> is \<open>None\<close> for every reason AES-GCM
  has to refuse a ciphertext.
\<close>

record crypto =
  x_public :: "byte list \<Rightarrow> byte list"
  x_exchange :: "byte list \<Rightarrow> byte list \<Rightarrow> exn + byte list"
  hkdf :: "byte list \<Rightarrow> byte list \<Rightarrow> byte list"
  gcm_encrypt :: "byte list \<Rightarrow> byte list \<Rightarrow> byte list \<Rightarrow> byte list \<Rightarrow> byte list"
  gcm_decrypt :: "byte list \<Rightarrow> byte list \<Rightarrow> byte list \<Rightarrow> byte list \<Rightarrow> byte list option"

text \<open>
  What the documentation of the primitives promises: a public key has 32 bytes, the two sides of
  an exchange get the same secret, and what was encrypted decrypts under the same key, nonce and
  associated data.
\<close>

definition crypto_ok :: "crypto \<Rightarrow> bool" where
  "crypto_ok c \<longleftrightarrow>
     (\<forall>a. length (x_public c a) = 32) \<and>
     (\<forall>a b. x_exchange c a (x_public c b) = x_exchange c b (x_public c a)) \<and>
     (\<forall>k n p ad. gcm_decrypt c k n (gcm_encrypt c k n p ad) ad = Some p)"

subsection \<open>Identity\<close>

definition public_b64 :: "crypto \<Rightarrow> byte list \<Rightarrow> ustr" where
  "public_b64 c private = b64 (x_public c private)"

definition exchange :: "crypto \<Rightarrow> byte list \<Rightarrow> ustr \<Rightarrow> exn + byte list" where
  "exchange c private peer = (case unb64 peer of Inl e \<Rightarrow> Inl e
     | Inr raw \<Rightarrow> if length raw \<noteq> 32 then Inl Value_Error else x_exchange c private raw)"

text \<open>
  The key file. The state is what the files hold, by path; \<open>fresh\<close> is the key that
  \<open>X25519PrivateKey.generate\<close> returns. A file of any other length than 32 is refused.
\<close>

definition save_key :: "ustr \<Rightarrow> byte list \<Rightarrow> ((ustr, byte list) dict, unit) py" where
  "save_key path private = modify (\<lambda>fs. dict_set fs path private)"

definition load_or_create :: "byte list \<Rightarrow> ustr \<Rightarrow> ((ustr, byte list) dict, byte list) py" where
  "load_or_create fresh path = bnd (gets (\<lambda>fs. dict_get fs path)) (\<lambda>found. case found of
       Some raw \<Rightarrow> if length raw = 32 then ret raw else raise Value_Error
     | None \<Rightarrow> andthen (save_key path fresh) (ret fresh))"

text \<open>A key that was made is the key of every later start, whatever would be generated then.\<close>

lemma key_survives_restart:
  assumes "load_or_create fresh path fs = (Inr k, fs')" and "length fresh = 32"
  shows "load_or_create fresh' path fs' = (Inr k, fs')"
  using assms by (auto simp: load_or_create_def save_key_def bnd_def andthen_def split: option.splits if_splits)

subsection \<open>Envelopes\<close>

definition INFO :: "byte list" where
  "INFO = concat (map utf8_char (u ''semaphore/v1/message''))"

definition derive_key :: "crypto \<Rightarrow> byte list \<Rightarrow> byte list" where
  "derive_key c secret = hkdf c INFO secret"

definition key_for :: "crypto \<Rightarrow> byte list \<Rightarrow> ustr \<Rightarrow> exn + byte list" where
  "key_for c private peer = (case exchange c private peer of Inl e \<Rightarrow> Inl e | Inr s \<Rightarrow> Inr (derive_key c s))"

text \<open>\<open>nonce\<close> is what \<open>os.urandom\<close> returns.\<close>

definition seal :: "crypto \<Rightarrow> byte list \<Rightarrow> byte list \<Rightarrow> ustr \<Rightarrow> ustr \<Rightarrow> exn + ustr \<times> ustr" where
  "seal c key nonce plaintext associated =
     (case utf8_encode plaintext of Inl e \<Rightarrow> Inl e
      | Inr p \<Rightarrow> (case utf8_encode associated of Inl e \<Rightarrow> Inl e
        | Inr ad \<Rightarrow> Inr (b64 (gcm_encrypt c key nonce p ad), b64 nonce)))"

text \<open>
  The ciphertext and the nonce come out of a frame and may be any JSON value: what is not a string
  has no \<open>encode\<close>. \<open>ValueError\<close> (bad base64, text that is not ASCII, a name that UTF-8 cannot
  represent) becomes \<open>DecryptionFailed\<close>; decoding the plaintext happens outside the \<open>try\<close>.
\<close>

definition unb64_val :: "pyval \<Rightarrow> exn + byte list" where
  "unb64_val v = (case v of
       PStr s \<Rightarrow> (case unb64 s of Inl _ \<Rightarrow> Inl Decryption_Failed | Inr bs \<Rightarrow> Inr bs)
     | _ \<Rightarrow> Inl Attribute_Error)"

definition open_envelope :: "crypto \<Rightarrow> byte list \<Rightarrow> pyval \<Rightarrow> pyval \<Rightarrow> ustr \<Rightarrow> exn + ustr" where
  "open_envelope c key ciphertext nonce associated =
     (case unb64_val nonce of Inl e \<Rightarrow> Inl e
      | Inr n \<Rightarrow> (case unb64_val ciphertext of Inl e \<Rightarrow> Inl e
        | Inr ct \<Rightarrow> (case utf8_encode associated of Inl _ \<Rightarrow> Inl Decryption_Failed
          | Inr ad \<Rightarrow> (case gcm_decrypt c key n ct ad of None \<Rightarrow> Inl Decryption_Failed
            | Some p \<Rightarrow> (case utf8_decode p of None \<Rightarrow> Inl Value_Error | Some t \<Rightarrow> Inr t)))))"

lemma open_seal:
  assumes "crypto_ok c" and "seal c key nonce text ad = Inr (ct, n)"
  shows "open_envelope c key (PStr ct) (PStr n) ad = Inr text"
proof -
  obtain p a where "utf8_encode text = Inr p" "utf8_encode ad = Inr a" "ct = b64 (gcm_encrypt c key nonce p a)" "n = b64 nonce"
    using assms(2) by (auto simp: seal_def split: sum.splits)
  then show ?thesis
    using assms(1) utf8_roundtrip by (simp add: open_envelope_def unb64_val_def crypto_ok_def)
qed

lemma key_for_symmetric:
  assumes "crypto_ok c"
  shows "key_for c a (public_b64 c b) = key_for c b (public_b64 c a)"
proof -
  have "x_exchange c a (x_public c b) = x_exchange c b (x_public c a)" "length (x_public c a) = 32" "length (x_public c b) = 32"
    using assms unfolding crypto_ok_def by blast+
  then show ?thesis by (simp add: key_for_def exchange_def public_b64_def)
qed

text \<open>A concrete, insecure instance, for the examples.\<close>

definition toy_crypto :: crypto where
  "toy_crypto = \<lparr>x_public = (\<lambda>p. take 32 (p @ replicate 32 0)),
     x_exchange = (\<lambda>p q. Inr (map2 (+) (take 32 (p @ replicate 32 0)) q)),
     hkdf = (\<lambda>i s. s), gcm_encrypt = (\<lambda>k n p ad. p), gcm_decrypt = (\<lambda>k n ct ad. Some ct)\<rparr>"

lemma toy_crypto_ok: "crypto_ok toy_crypto"
proof -
  have "map2 (+) xs ys = map2 (+) ys xs" for xs ys :: "byte list"
    by (induction xs ys rule: list_induct2') (simp_all add: add.commute)
  then show ?thesis by (auto simp: crypto_ok_def toy_crypto_def)
qed

end
