(* ===== verification/Keyring.thy ===== *)
theory Keyring
  imports Envelope
begin

section \<open>The keys a client holds\<close>

text \<open>
  \<open>im/crypto/keyring.py\<close>: the client's own key, everyone else's public half, and the cache of derived
  message keys. Operations are computations on the keyring, so that an exception keeps what the
  keyring had cached before it. The nonces an operation draws are an argument.
\<close>

subsection \<open>State and operations\<close>

record keyring =
  kr_private :: "byte list"
  kr_me :: ustr
  kr_pubkeys :: "(ustr, ustr) dict"
  kr_derived :: "(ustr, byte list) dict"

definition new_keyring :: "byte list \<Rightarrow> ustr \<Rightarrow> keyring" where
  "new_keyring private me = \<lparr>kr_private = private, kr_me = me, kr_pubkeys = [], kr_derived = []\<rparr>"

definition kr_remember :: "ustr \<Rightarrow> ustr \<Rightarrow> keyring \<Rightarrow> keyring" where
  "kr_remember user pubkey kr =
     (if dict_get (kr_pubkeys kr) user = Some pubkey then kr
      else kr\<lparr>kr_pubkeys := dict_set (kr_pubkeys kr) user pubkey, kr_derived := dict_pop (kr_derived kr) user\<rparr>)"

definition kr_knows :: "ustr \<Rightarrow> keyring \<Rightarrow> bool" where
  "kr_knows user kr \<longleftrightarrow> dict_get (kr_pubkeys kr) user \<noteq> None"

definition kr_forget :: "ustr \<Rightarrow> keyring \<Rightarrow> keyring" where
  "kr_forget user kr = kr\<lparr>kr_pubkeys := dict_pop (kr_pubkeys kr) user, kr_derived := dict_pop (kr_derived kr) user\<rparr>"

definition self_key :: "crypto \<Rightarrow> keyring \<Rightarrow> keyring" where
  "self_key c kr =
     (if dict_get (kr_pubkeys kr) (kr_me kr) \<noteq> None then kr
      else kr\<lparr>kr_pubkeys := dict_set (kr_pubkeys kr) (kr_me kr) (public_b64 c (kr_private kr))\<rparr>)"

definition kr_key :: "crypto \<Rightarrow> ustr \<Rightarrow> (keyring, byte list option) py" where
  "kr_key c user =
     andthen (modify (\<lambda>kr. if user \<noteq> [] \<and> user = kr_me kr then self_key c kr else kr))
     (bnd (gets (\<lambda>kr. dict_get (kr_derived kr) user)) (\<lambda>cached.
      case cached of Some k \<Rightarrow> ret (Some k)
      | None \<Rightarrow>
        bnd (gets (\<lambda>kr. dict_get (kr_pubkeys kr) user)) (\<lambda>p.
        case p of None \<Rightarrow> ret None
        | Some pubkey \<Rightarrow>
          bnd (gets (\<lambda>kr. key_for c (kr_private kr) pubkey)) (\<lambda>r.
          bnd (lift r) (\<lambda>derived.
          andthen (modify (\<lambda>kr. kr\<lparr>kr_derived := dict_set (kr_derived kr) user derived\<rparr>)) (ret (Some derived)))))))"

definition kr_seal :: "crypto \<Rightarrow> byte list \<Rightarrow> ustr \<Rightarrow> ustr \<Rightarrow> ustr \<Rightarrow> (keyring, (ustr \<times> ustr) option) py" where
  "kr_seal c nonce user plaintext sender = bnd (kr_key c user) (\<lambda>k.
     case k of None \<Rightarrow> ret None
     | Some key \<Rightarrow> bnd (lift (seal c key nonce plaintext sender)) (\<lambda>r. ret (Some r)))"

text \<open>\<open>any(self._key(name) is None for name in everyone)\<close> stops at the first key that is missing.\<close>

fun any_missing :: "crypto \<Rightarrow> ustr list \<Rightarrow> (keyring, bool) py" where
  "any_missing c [] = ret False"
| "any_missing c (n # ns) = bnd (kr_key c n) (\<lambda>k. if k = None then ret True else any_missing c ns)"

text \<open>The dictionary comprehension; \<open>list(None)\<close> is a \<open>TypeError\<close>. \<open>nonces i\<close> is drawn for the i-th member.\<close>

fun seal_each :: "crypto \<Rightarrow> (nat \<Rightarrow> byte list) \<Rightarrow> ustr \<Rightarrow> ustr \<Rightarrow> ustr list \<Rightarrow> (keyring, (ustr, ustr \<times> ustr) dict) py" where
  "seal_each c nonces plaintext sender [] = ret []"
| "seal_each c nonces plaintext sender (n # ns) = bnd (kr_seal c (nonces 0) n plaintext sender) (\<lambda>r.
     case r of None \<Rightarrow> raise Type_Error
     | Some p \<Rightarrow> bnd (seal_each c (nonces \<circ> Suc) plaintext sender ns) (\<lambda>env. ret ((n, p) # env)))"

definition everyone_of :: "ustr list \<Rightarrow> ustr \<Rightarrow> ustr list" where
  "everyone_of members sender = sort (remdups (members @ [sender]))"

definition seal_for_members ::
  "crypto \<Rightarrow> (nat \<Rightarrow> byte list) \<Rightarrow> ustr list \<Rightarrow> ustr \<Rightarrow> ustr \<Rightarrow> (keyring, (ustr, ustr \<times> ustr) dict option) py" where
  "seal_for_members c nonces members plaintext sender =
     andthen (modify (\<lambda>kr. self_key c (kr\<lparr>kr_me := sender\<rparr>)))
     (bnd (any_missing c (everyone_of members sender)) (\<lambda>missing.
      if missing then ret None
      else bnd (seal_each c nonces plaintext sender (everyone_of members sender)) (\<lambda>env. ret (Some env))))"

definition missing_keys :: "ustr list \<Rightarrow> keyring \<Rightarrow> ustr list" where
  "missing_keys members kr = sort (filter (\<lambda>n. \<not> kr_knows n kr) (remdups members))"

definition kr_open :: "crypto \<Rightarrow> ustr \<Rightarrow> pyval \<Rightarrow> pyval \<Rightarrow> ustr \<Rightarrow> (keyring, ustr) py" where
  "kr_open c user ciphertext nonce sender = bnd (kr_key c user) (\<lambda>k.
     case k of None \<Rightarrow> raise Decryption_Failed
     | Some key \<Rightarrow> lift (open_envelope c key ciphertext nonce sender))"

subsection \<open>The cache never disagrees with the keys\<close>

definition ring_ok :: "crypto \<Rightarrow> keyring \<Rightarrow> bool" where
  "ring_ok c kr \<longleftrightarrow> (\<forall>n k. dict_get (kr_derived kr) n = Some k \<longrightarrow>
     (\<exists>pk. dict_get (kr_pubkeys kr) n = Some pk \<and> key_for c (kr_private kr) pk = Inr k))"

interpretation ring: run_rel "keeps (ring_ok c)" for c
  by unfold_locales (auto simp: keeps_def)

lemma new_keyring_ok: "ring_ok c (new_keyring p me)"
  by (simp add: ring_ok_def new_keyring_def)

lemma kr_remember_ok: "ring_ok c kr \<Longrightarrow> ring_ok c (kr_remember n pk kr)"
  by (auto simp: ring_ok_def kr_remember_def split: if_splits)

lemma kr_forget_ok: "ring_ok c kr \<Longrightarrow> ring_ok c (kr_forget n kr)"
  by (auto simp: ring_ok_def kr_forget_def split: if_splits)

lemma self_key_ok: "ring_ok c kr \<Longrightarrow> ring_ok c (self_key c kr)"
  by (fastforce simp: ring_ok_def self_key_def split: if_splits)

text \<open>The keyring as \<open>_key\<close> sees it, and the key computed afresh from it.\<close>

definition ring_for :: "crypto \<Rightarrow> ustr \<Rightarrow> keyring \<Rightarrow> keyring" where
  "ring_for c user kr = (if user \<noteq> [] \<and> user = kr_me kr then self_key c kr else kr)"

definition fresh_key :: "crypto \<Rightarrow> ustr \<Rightarrow> keyring \<Rightarrow> exn + byte list option" where
  "fresh_key c user kr = (case dict_get (kr_pubkeys (ring_for c user kr)) user of
       None \<Rightarrow> Inr None
     | Some pk \<Rightarrow> (case key_for c (kr_private kr) pk of Inl e \<Rightarrow> Inl e | Inr k \<Rightarrow> Inr (Some k)))"

lemma ring_for_ok: "ring_ok c kr \<Longrightarrow> ring_ok c (ring_for c user kr)"
  by (simp add: ring_for_def self_key_ok)

lemma ring_for_fields [simp]: "kr_private (ring_for c user kr) = kr_private kr" "kr_me (ring_for c user kr) = kr_me kr"
  "kr_derived (ring_for c user kr) = kr_derived kr"
  by (simp_all add: ring_for_def self_key_def)

lemma ring_for_derived [simp]: "(ring_for c user kr)\<lparr>kr_derived := kr_derived kr\<rparr> = ring_for c user kr"
  by (simp add: ring_for_def self_key_def)

lemma kr_key_run:
  assumes "ring_ok c kr"
  shows "\<exists>d. kr_key c user kr = (fresh_key c user kr, (ring_for c user kr)\<lparr>kr_derived := d\<rparr>) \<and>
    ring_ok c ((ring_for c user kr)\<lparr>kr_derived := d\<rparr>)"
proof -
  let ?r = "ring_for c user kr"
  have ok: "ring_ok c ?r" using assms by (rule ring_for_ok)
  have run: "kr_key c user kr = (case dict_get (kr_derived ?r) user of Some k \<Rightarrow> (Inr (Some k), ?r)
      | None \<Rightarrow> (case dict_get (kr_pubkeys ?r) user of None \<Rightarrow> (Inr None, ?r)
        | Some pk \<Rightarrow> (case key_for c (kr_private ?r) pk of Inl e \<Rightarrow> (Inl e, ?r)
          | Inr k \<Rightarrow> (Inr (Some k), ?r\<lparr>kr_derived := dict_set (kr_derived ?r) user k\<rparr>))))"
    by (simp add: kr_key_def ring_for_def andthen_def bnd_def split: option.split sum.split)
  show ?thesis
  proof (cases "dict_get (kr_derived ?r) user")
    case (Some k)
    then obtain pk where "dict_get (kr_pubkeys ?r) user = Some pk" "key_for c (kr_private kr) pk = Inr k"
      using ok by (auto simp: ring_ok_def)
    then show ?thesis
      using run Some ok by (intro exI [of _ "kr_derived ?r"]) (simp add: fresh_key_def)
  next
    case None
    show ?thesis
    proof (cases "\<exists>pk k. dict_get (kr_pubkeys ?r) user = Some pk \<and> key_for c (kr_private kr) pk = Inr k")
      case True
      then obtain pk k where pk: "dict_get (kr_pubkeys ?r) user = Some pk" "key_for c (kr_private kr) pk = Inr k" by blast
      have "ring_ok c (?r\<lparr>kr_derived := dict_set (kr_derived ?r) user k\<rparr>)" using ok pk by (auto simp: ring_ok_def)
      then show ?thesis
        using run None pk by (intro exI [of _ "dict_set (kr_derived ?r) user k"]) (simp add: fresh_key_def)
    next
      case False
      then show ?thesis
        using run None ok
        by (intro exI [of _ "kr_derived ?r"]) (auto simp: fresh_key_def split: option.splits sum.splits)
    qed
  qed
qed

text \<open>C21: caching derived keys changes no answer. In a keyring whose cache agrees with its public
  keys, \<open>_key\<close> returns what deriving the key afresh returns, or raises what that raises, and
  leaves a keyring that agrees again; remembering a changed key, forgetting one and adding one's
  own keep the agreement.\<close>

theorem cached_key_is_fresh:
  assumes "ring_ok c kr"
  shows "outcome (kr_key c user) kr = fresh_key c user kr \<and> ring_ok c (after (kr_key c user) kr) \<and>
    ring_ok c (kr_remember n pk kr) \<and> ring_ok c (kr_forget n kr) \<and> ring_ok c (self_key c kr)"
  using kr_key_run [OF assms, of user] kr_remember_ok [OF assms] kr_forget_ok [OF assms] self_key_ok [OF assms] by auto


subsection \<open>What is sealed can be opened by whom it was sealed for\<close>

text \<open>
  \<open>priv\<close> gives everybody's private key. A keyring is honest for its owner when it holds the owner's
  private key and the public keys in it are the ones their owners published.
\<close>

definition honest :: "crypto \<Rightarrow> (ustr \<Rightarrow> byte list) \<Rightarrow> ustr \<Rightarrow> keyring \<Rightarrow> bool" where
  "honest c priv who kr \<longleftrightarrow> ring_ok c kr \<and> kr_private kr = priv who \<and> kr_me kr \<in> {[], who} \<and>
     (\<forall>n pk. dict_get (kr_pubkeys kr) n = Some pk \<longrightarrow> n \<noteq> [] \<longrightarrow> pk = public_b64 c (priv n))"

definition reaches :: "ustr \<Rightarrow> keyring \<Rightarrow> bool" where
  "reaches n kr \<longleftrightarrow> n \<noteq> [] \<and> (kr_knows n kr \<or> n = kr_me kr)"

lemma honest_self_key:
  assumes "honest c priv who kr" and "kr_me kr \<noteq> []"
  shows "honest c priv who (self_key c kr)"
  using assms self_key_ok [of c kr] by (auto simp: honest_def self_key_def split: if_splits)

lemma honest_ring_for: "honest c priv who kr \<Longrightarrow> honest c priv who (ring_for c user kr)"
  using honest_self_key [of c priv who kr] by (auto simp: ring_for_def)

lemma ring_for_reaches: "reaches n kr \<Longrightarrow> reaches n (ring_for c user kr)"
  by (auto simp: reaches_def ring_for_def self_key_def kr_knows_def)

lemma honest_fresh_key:
  assumes "honest c priv who kr" and "reaches n kr"
  shows "fresh_key c n kr = (case key_for c (priv who) (public_b64 c (priv n)) of Inl e \<Rightarrow> Inl e | Inr k \<Rightarrow> Inr (Some k))"
proof -
  have "\<exists>pk. dict_get (kr_pubkeys (ring_for c n kr)) n = Some pk"
    using assms(2) by (auto simp: ring_for_def self_key_def reaches_def kr_knows_def)
  then obtain pk where pk: "dict_get (kr_pubkeys (ring_for c n kr)) n = Some pk" by blast
  moreover have "pk = public_b64 c (priv n)"
    using honest_ring_for [OF assms(1), of n] pk assms(2) by (auto simp: honest_def reaches_def)
  ultimately show ?thesis using assms(1) by (simp add: fresh_key_def honest_def)
qed

lemma honest_key:
  assumes "honest c priv who kr" and "kr_key c user kr = (r, kr')"
  shows "honest c priv who kr'" "reaches n kr \<Longrightarrow> reaches n kr'" "r = fresh_key c user kr" "kr_me kr' = kr_me kr"
proof -
  have "ring_ok c kr" using assms(1) by (simp add: honest_def)
  then obtain d where d: "kr' = (ring_for c user kr)\<lparr>kr_derived := d\<rparr>" "ring_ok c kr'" "r = fresh_key c user kr"
    using kr_key_run [of c kr user] assms(2) by auto
  show "honest c priv who kr'" using honest_ring_for [OF assms(1), of user] d(1,2) by (auto simp: honest_def)
  show "reaches n kr'" if "reaches n kr" using ring_for_reaches [OF that, of c user] by (simp add: d(1) reaches_def kr_knows_def)
  show "r = fresh_key c user kr" "kr_me kr' = kr_me kr" using d by simp_all
qed

lemma kr_seal_Some:
  assumes "honest c priv who kr" and "kr_seal c nonce n text sender kr = (Inr (Some (ct, nn)), kr')" and "reaches n kr"
  shows "\<exists>k. key_for c (priv who) (public_b64 c (priv n)) = Inr k \<and> seal c k nonce text sender = Inr (ct, nn)"
    "honest c priv who kr'" "\<And>m. reaches m kr \<Longrightarrow> reaches m kr'" "kr_me kr' = kr_me kr"
proof -
  obtain r kr1 where k: "kr_key c n kr = (r, kr1)" by (cases "kr_key c n kr")
  note h = honest_key [OF assms(1) k]
  obtain key where r: "r = Inr (Some key)" "seal c key nonce text sender = Inr (ct, nn)" "kr' = kr1"
    using assms(2) k by (auto simp: kr_seal_def bnd_def split: sum.splits option.splits)
  have "key_for c (priv who) (public_b64 c (priv n)) = Inr key"
    using honest_fresh_key [OF assms(1,3)] h(3) r(1) by (auto split: sum.splits)
  then show "\<exists>k. key_for c (priv who) (public_b64 c (priv n)) = Inr k \<and> seal c k nonce text sender = Inr (ct, nn)" using r(2) by blast
  show "honest c priv who kr'" "\<And>m. reaches m kr \<Longrightarrow> reaches m kr'" "kr_me kr' = kr_me kr" using h r(3) by blast+
qed

lemma kr_open_key:
  assumes "crypto_ok c" and "honest c priv who kr" and "reaches peer kr"
    and "key_for c (priv peer) (public_b64 c (priv who)) = Inr k" and "seal c k nonce text sender = Inr (ct, nn)"
  shows "outcome (kr_open c peer (PStr ct) (PStr nn) sender) kr = Inr text"
proof -
  obtain r kr1 where o: "kr_key c peer kr = (r, kr1)" by (cases "kr_key c peer kr")
  have "r = Inr (Some k)"
    using honest_key(3) [OF assms(2) o] honest_fresh_key [OF assms(2,3)] assms(4) key_for_symmetric [OF assms(1), of "priv who" "priv peer"]
    by simp
  then show ?thesis using o open_seal [OF assms(1,5)] by (simp add: kr_open_def bnd_def)
qed

text \<open>End-to-end encryption of direct messages. What one client seals for another with the
  other's published key, the other opens with the sender's published key, and gets the text that
  was typed.\<close>

theorem sealed_message_opens:
  assumes "crypto_ok c" and "honest c priv alice ka" and "honest c priv bob kb"
    and "reaches bob ka" and "reaches alice kb"
    and "kr_seal c nonce bob text alice ka = (Inr (Some (ct, nn)), ka')"
  shows "outcome (kr_open c alice (PStr ct) (PStr nn) alice) kb = Inr text"
proof -
  obtain k where "key_for c (priv alice) (public_b64 c (priv bob)) = Inr k" "seal c k nonce text alice = Inr (ct, nn)"
    using kr_seal_Some(1) [OF assms(2,6,4)] by blast
  then show ?thesis using kr_open_key [OF assms(1,3,5)] by blast
qed


subsection \<open>Rooms\<close>

lemma fresh_key_reaches:
  assumes "fresh_key c n kr = Inr (Some k)" and "n \<noteq> []"
  shows "reaches n kr"
  using assms by (auto simp: fresh_key_def reaches_def kr_knows_def ring_for_def split: option.splits sum.splits if_splits)

lemma any_missing_step:
  assumes "any_missing c (n # ns) kr = (Inr False, kr')"
  obtains k kr1 where "kr_key c n kr = (Inr (Some k), kr1)" "any_missing c ns kr1 = (Inr False, kr')"
  using assms by (auto simp: bnd_def split: prod.splits sum.splits if_splits option.splits)

lemma any_missing_False:
  assumes "honest c priv who kr" and "[] \<notin> set ns" and "any_missing c ns kr = (Inr False, kr')"
  shows "honest c priv who kr' \<and> (\<forall>n\<in>set ns. reaches n kr') \<and> (\<forall>m. reaches m kr \<longrightarrow> reaches m kr')"
  using assms
proof (induction ns arbitrary: kr)
  case (Cons n ns)
  obtain k kr1 where k: "kr_key c n kr = (Inr (Some k), kr1)" "any_missing c ns kr1 = (Inr False, kr')"
    using any_missing_step [OF Cons.prems(3)] .
  note h = honest_key [OF Cons.prems(1) k(1)]
  have "reaches n kr" using fresh_key_reaches [of c n kr k] h(3) Cons.prems(2) by auto
  then have "reaches n kr1" by (rule h(2))
  moreover have "honest c priv who kr' \<and> (\<forall>n\<in>set ns. reaches n kr') \<and> (\<forall>m. reaches m kr1 \<longrightarrow> reaches m kr')"
    using Cons.IH [OF h(1) _ k(2)] Cons.prems(2) by simp
  ultimately show ?case using h(2) by auto
qed simp

lemma seal_each_Inr:
  assumes "honest c priv who kr" and "\<forall>n\<in>set ns. reaches n kr" and "seal_each c nonces text sender ns kr = (Inr env, kr')"
  shows "map fst env = ns \<and> (\<forall>n ct nn. (n, ct, nn) \<in> set env \<longrightarrow>
    (\<exists>k nonce. key_for c (priv who) (public_b64 c (priv n)) = Inr k \<and> seal c k nonce text sender = Inr (ct, nn)))"
  using assms
proof (induction ns arbitrary: kr nonces env)
  case (Cons n ns)
  obtain r kr1 where s1: "kr_seal c (nonces 0) n text sender kr = (r, kr1)" by (cases "kr_seal c (nonces 0) n text sender kr")
  obtain ct nn env' where r: "r = Inr (Some (ct, nn))" "seal_each c (nonces \<circ> Suc) text sender ns kr1 = (Inr env', kr')" "env = (n, ct, nn) # env'"
    using Cons.prems(3) s1 by (auto simp: bnd_def split: prod.splits sum.splits option.splits)
  note k = kr_seal_Some [OF Cons.prems(1) s1 [unfolded r(1)]]
  have "\<forall>m\<in>set ns. reaches m kr1" using k(3) Cons.prems(2) by simp
  from Cons.IH [OF k(2) this r(2)] k(1) Cons.prems(2) r(3) show ?case by auto
qed simp

lemma everyone_set: "set (everyone_of members sender) = insert sender (set members)"
  by (auto simp: everyone_of_def)

lemma seal_for_members_Some:
  assumes "seal_for_members c nonces members text sender kr = (Inr (Some env), kr')"
  obtains kr1 where "any_missing c (everyone_of members sender) (self_key c (kr\<lparr>kr_me := sender\<rparr>)) = (Inr False, kr1)"
    "seal_each c nonces text sender (everyone_of members sender) kr1 = (Inr env, kr')"
  using assms by (auto simp: seal_for_members_def andthen_def bnd_def split: prod.splits sum.splits if_splits)

text \<open>C10: end-to-end encryption of rooms. When a room message is sealed, there is exactly one
  envelope for every member and one for the sender, and each of them opens the one addressed to
  them to the text that was typed: nobody in the room is left out, and the sender can read the
  message back from history.\<close>

theorem room_envelopes_open:
  assumes "crypto_ok c" and "honest c priv alice ka" and "alice \<noteq> []" and "[] \<notin> set members"
    and "seal_for_members c nonces members text alice ka = (Inr (Some env), ka')"
  shows "map fst env = everyone_of members alice \<and> set (map fst env) = insert alice (set members) \<and> distinct (map fst env) \<and>
    (\<forall>n ct nn kb. (n, ct, nn) \<in> set env \<longrightarrow> honest c priv n kb \<longrightarrow> reaches alice kb \<longrightarrow>
       outcome (kr_open c alice (PStr ct) (PStr nn) alice) kb = Inr text)"
proof -
  let ?kr = "self_key c (ka\<lparr>kr_me := alice\<rparr>)"
  have "honest c priv alice (ka\<lparr>kr_me := alice\<rparr>)" using assms(2) by (auto simp: honest_def ring_ok_def)
  then have h: "honest c priv alice ?kr" using honest_self_key assms(3) by simp
  obtain kr1 where a: "any_missing c (everyone_of members alice) ?kr = (Inr False, kr1)"
    "seal_each c nonces text alice (everyone_of members alice) kr1 = (Inr env, ka')"
    using seal_for_members_Some [OF assms(5)] .
  have ne: "[] \<notin> set (everyone_of members alice)" using assms(3,4) by (simp add: everyone_set)
  have m: "honest c priv alice kr1" "\<forall>n\<in>set (everyone_of members alice). reaches n kr1"
    using any_missing_False [OF h ne a(1)] by blast+
  note e = seal_each_Inr [OF m a(2)]
  have "outcome (kr_open c alice (PStr ct) (PStr nn) alice) kb = Inr text"
    if mem: "(n, ct, nn) \<in> set env" and hb: "honest c priv n kb" and rb: "reaches alice kb" for n ct nn kb
  proof -
    obtain k nonce where "key_for c (priv alice) (public_b64 c (priv n)) = Inr k" "seal c k nonce text alice = Inr (ct, nn)"
      using e mem by blast
    then show ?thesis using kr_open_key [OF assms(1) hb rb] by blast
  qed
  moreover have "map fst env = everyone_of members alice" using e by blast
  moreover have "distinct (everyone_of members alice)" by (simp add: everyone_of_def)
  ultimately show ?thesis by (simp add: everyone_set)
qed

text \<open>A public key that the exchange refuses, in a keyring that has not cached anything for it.\<close>

lemma any_missing_bad:
  assumes "ring_ok c kr" and "bad \<in> set ns" and "fresh_key c bad kr = Inl e" and "\<forall>n\<in>set ns. fresh_key c n kr \<noteq> Inr None"
  shows "\<exists>e'. outcome (any_missing c ns) kr = Inl e'"
  using assms
proof (induction ns arbitrary: kr)
  case (Cons n ns)
  obtain r kr1 where k: "kr_key c n kr = (r, kr1)" by (cases "kr_key c n kr")
  obtain d where d: "r = fresh_key c n kr" "kr1 = (ring_for c n kr)\<lparr>kr_derived := d\<rparr>" "ring_ok c kr1"
    using kr_key_run [OF Cons.prems(1), of n] k by auto
  show ?case
  proof (cases r)
    case (Inl e')
    then show ?thesis using k by (auto simp: bnd_def)
  next
    case (Inr x)
    then obtain key where x: "x = Some key" using Cons.prems(4) d(1) by (cases x) auto
    have fk: "fresh_key c m kr1 = fresh_key c m kr" for m
      by (auto simp: d(2) fresh_key_def ring_for_def self_key_def split: if_splits option.splits)
    have "bad \<in> set ns" using Cons.prems(2,3) d(1) Inr by auto
    then have "\<exists>e'. outcome (any_missing c ns) kr1 = Inl e'"
      using Cons.IH [OF d(3)] Cons.prems(3,4) by (simp add: fk)
    then show ?thesis using k Inr x by (auto simp: bnd_def)
  qed
qed simp

text \<open>One malformed public key silences a room. When every member's key is known but one of
  them is not a key (the server stores whatever string an account registered with), sealing a
  message for the room raises instead of returning envelopes, for every member who tries.\<close>

theorem malformed_key_blocks_room:
  assumes "ring_ok c kr" and "bad \<in> set members" and "dict_get (kr_pubkeys kr) bad = Some pk" and "bad \<noteq> sender"
    and "exchange c (kr_private kr) pk = Inl e" and "\<forall>n\<in>set members. kr_knows n kr"
  shows "\<exists>e'. outcome (seal_for_members c nonces members text sender) kr = Inl e'"
proof -
  let ?kr = "self_key c (kr\<lparr>kr_me := sender\<rparr>)"
  have ok: "ring_ok c ?kr" using assms(1) by (intro self_key_ok) (simp add: ring_ok_def)
  have me: "kr_me ?kr = sender" "kr_private ?kr = kr_private kr" by (simp_all add: self_key_def)
  have known: "dict_get (kr_pubkeys ?kr) n \<noteq> None" if "n \<in> set (everyone_of members sender)" for n
    using assms(6) that by (auto simp: everyone_set self_key_def kr_knows_def)
  have "dict_get (kr_pubkeys ?kr) bad = Some pk" using assms(3,4) by (simp add: self_key_def)
  then have "fresh_key c bad ?kr = Inl e"
    using assms(4,5) me by (simp add: fresh_key_def ring_for_def key_for_def)
  moreover have "fresh_key c n ?kr \<noteq> Inr None" if "n \<in> set (everyone_of members sender)" for n
    using known [OF that] by (auto simp: fresh_key_def ring_for_def self_key_def split: option.splits sum.splits if_splits)
  ultimately obtain e' where "outcome (any_missing c (everyone_of members sender)) ?kr = Inl e'"
    using any_missing_bad [OF ok, of bad "everyone_of members sender" e] assms(2) by (auto simp: everyone_set)
  then show ?thesis by (auto simp: seal_for_members_def andthen_def bnd_def split: prod.split)
qed


subsection \<open>Concrete instances\<close>

definition sample_private :: "ustr \<Rightarrow> byte list" where
  "sample_private n = map byte_of n"

definition sample_ring :: "string \<Rightarrow> string list \<Rightarrow> keyring" where
  "sample_ring who known = \<lparr>kr_private = sample_private (u who), kr_me = u who,
     kr_pubkeys = map (\<lambda>n. (u n, public_b64 toy_crypto (sample_private (u n)))) known, kr_derived = []\<rparr>"

lemma sample_pubkeys:
  "dict_get (map (\<lambda>n. (u n, public_b64 toy_crypto (sample_private (u n)))) known) m = Some pk \<Longrightarrow>
   pk = public_b64 toy_crypto (sample_private m)"
  by (induction known) (auto split: if_splits)

lemma sample_honest: "honest toy_crypto sample_private (u who) (sample_ring who known)"
  using sample_pubkeys by (auto simp: honest_def sample_ring_def ring_ok_def)

lemma sample_reaches: "n \<noteq> [] \<Longrightarrow> n \<in> set known \<Longrightarrow> reaches (u n) (sample_ring who known)"
  by (induction known) (auto simp: reaches_def sample_ring_def kr_knows_def u_def)

lemma toy_key_for: "\<exists>k. key_for toy_crypto p (public_b64 toy_crypto q) = Inr k"
  by (simp add: key_for_def exchange_def public_b64_def toy_crypto_def)

lemma toy_seal: "\<exists>ct. seal toy_crypto k n (u t) (u a) = Inr (ct, b64 n)"
  by (simp add: seal_def utf8_encode_u)

lemma sample_seal:
  assumes "n \<noteq> []" and "n \<in> set known"
  shows "\<exists>ct nn kr'. kr_seal toy_crypto nonce (u n) (u t) (u who) (sample_ring who known) = (Inr (Some (ct, nn)), kr')"
proof -
  obtain r kr1 where k: "kr_key toy_crypto (u n) (sample_ring who known) = (r, kr1)"
    by (cases "kr_key toy_crypto (u n) (sample_ring who known)")
  obtain key where "r = Inr (Some key)"
    using honest_key(3) [OF sample_honest k] honest_fresh_key [OF sample_honest sample_reaches [OF assms]]
      toy_key_for [of "sample_private (u who)" "sample_private (u n)"] by auto
  moreover obtain ct where "seal toy_crypto key nonce (u t) (u who) = Inr (ct, b64 nonce)" using toy_seal by blast
  ultimately show ?thesis using k by (simp add: kr_seal_def bnd_def)
qed

lemma toy_any_missing:
  assumes "honest toy_crypto sample_private who kr" and "\<forall>n\<in>set ns. reaches n kr"
  shows "\<exists>kr'. any_missing toy_crypto ns kr = (Inr False, kr')"
  using assms
proof (induction ns arbitrary: kr)
  case (Cons n ns)
  obtain r kr1 where k: "kr_key toy_crypto n kr = (r, kr1)" by (cases "kr_key toy_crypto n kr")
  note h = honest_key [OF Cons.prems(1) k]
  obtain key where "r = Inr (Some key)"
    using h(3) honest_fresh_key [OF Cons.prems(1), of n] toy_key_for [of "sample_private who" "sample_private n"] Cons.prems(2) by auto
  moreover have "\<exists>kr'. any_missing toy_crypto ns kr1 = (Inr False, kr')" using Cons.IH [OF h(1)] h(2) Cons.prems(2) by simp
  ultimately show ?case using k by (auto simp: bnd_def)
qed simp

lemma toy_seal_each:
  assumes "honest toy_crypto sample_private who kr" and "\<forall>n\<in>set ns. reaches n kr"
  shows "\<exists>env kr'. seal_each toy_crypto nonces (u t) (u a) ns kr = (Inr env, kr')"
  using assms
proof (induction ns arbitrary: kr nonces)
  case (Cons n ns)
  obtain r kr1 where k: "kr_key toy_crypto n kr = (r, kr1)" by (cases "kr_key toy_crypto n kr")
  note h = honest_key [OF Cons.prems(1) k]
  obtain key where "r = Inr (Some key)"
    using h(3) honest_fresh_key [OF Cons.prems(1), of n] toy_key_for [of "sample_private who" "sample_private n"] Cons.prems(2) by auto
  moreover obtain ct where "seal toy_crypto key (nonces 0) (u t) (u a) = Inr (ct, b64 (nonces 0))" using toy_seal by blast
  moreover have "\<forall>m\<in>set ns. reaches m kr1" using h(2) Cons.prems(2) by simp
  then obtain env kr' where "seal_each toy_crypto (nonces \<circ> Suc) (u t) (u a) ns kr1 = (Inr env, kr')"
    using Cons.IH [OF h(1)] by blast
  ultimately show ?case using k by (simp add: kr_seal_def bnd_def)
qed simp

lemma toy_seal_for_members:
  "\<exists>env kr'. seal_for_members toy_crypto nonces [u ''bob''] (u t) (u ''alice'') (sample_ring ''alice'' [''bob'']) = (Inr (Some env), kr')"
proof -
  let ?kr = "self_key toy_crypto ((sample_ring ''alice'' [''bob''])\<lparr>kr_me := u ''alice''\<rparr>)"
  have me: "(sample_ring ''alice'' [''bob''])\<lparr>kr_me := u ''alice''\<rparr> = sample_ring ''alice'' [''bob'']" by (simp add: sample_ring_def)
  have h: "honest toy_crypto sample_private (u ''alice'') ?kr"
    unfolding me by (rule honest_self_key [OF sample_honest]) (simp add: sample_ring_def u_def)
  have ns: "\<forall>n\<in>set (everyone_of [u ''bob''] (u ''alice'')). reaches n ?kr"
    by (auto simp: everyone_set reaches_def self_key_def sample_ring_def kr_knows_def u_def)
  obtain kr1 where a: "any_missing toy_crypto (everyone_of [u ''bob''] (u ''alice'')) ?kr = (Inr False, kr1)"
    using toy_any_missing [OF h ns] by blast
  have "[] \<notin> set (everyone_of [u ''bob''] (u ''alice''))" by (simp add: everyone_set u_def)
  from any_missing_False [OF h this a] obtain env kr' where "seal_each toy_crypto nonces (u t) (u ''alice'') (everyone_of [u ''bob''] (u ''alice'')) kr1 = (Inr env, kr')"
    using toy_seal_each [of "u ''alice''" kr1] by blast
  with a show ?thesis by (simp add: seal_for_members_def andthen_def bnd_def)
qed

theorem cached_key_is_fresh_witness:
  "ring_ok toy_crypto (sample_ring ''alice'' [''bob'']) \<and>
   outcome (kr_key toy_crypto (u ''bob'')) (sample_ring ''alice'' [''bob'']) = fresh_key toy_crypto (u ''bob'') (sample_ring ''alice'' [''bob''])"
proof -
  have "ring_ok toy_crypto (sample_ring ''alice'' [''bob''])" using sample_honest by (auto simp: honest_def)
  from cached_key_is_fresh [OF this, of "u ''bob''"] this show ?thesis by blast
qed

theorem sealed_message_opens_witness:
  "\<exists>ct nn ka'. kr_seal toy_crypto [] (u ''bob'') (u ''hi'') (u ''alice'') (sample_ring ''alice'' [''bob'']) = (Inr (Some (ct, nn)), ka') \<and>
     outcome (kr_open toy_crypto (u ''alice'') (PStr ct) (PStr nn) (u ''alice'')) (sample_ring ''bob'' [''alice'']) = Inr (u ''hi'')"
proof -
  obtain ct nn ka' where k: "kr_seal toy_crypto [] (u ''bob'') (u ''hi'') (u ''alice'') (sample_ring ''alice'' [''bob'']) = (Inr (Some (ct, nn)), ka')"
    using sample_seal [of "''bob''" "[''bob'']" "[]" "''hi''" "''alice''"] by auto
  have "outcome (kr_open toy_crypto (u ''alice'') (PStr ct) (PStr nn) (u ''alice'')) (sample_ring ''bob'' [''alice'']) = Inr (u ''hi'')"
    by (rule sealed_message_opens [OF toy_crypto_ok sample_honest sample_honest _ _ k]) (simp_all add: sample_reaches)
  with k show ?thesis by blast
qed

theorem malformed_key_blocks_room_witness:
  "\<exists>e. outcome (seal_for_members toy_crypto (\<lambda>_. []) [u ''eve''] (u ''hi'') (u ''alice''))
     (kr_remember (u ''eve'') (u ''not a key'') (sample_ring ''alice'' [])) = Inl e"
proof (rule malformed_key_blocks_room)
  let ?kr = "kr_remember (u ''eve'') (u ''not a key'') (sample_ring ''alice'' [])"
  show "ring_ok toy_crypto ?kr" using sample_honest [of "''alice''" "[]"] by (intro kr_remember_ok) (simp add: honest_def)
  show "dict_get (kr_pubkeys ?kr) (u ''eve'') = Some (u ''not a key'')" by (simp add: kr_remember_def sample_ring_def)
  show "exchange toy_crypto (kr_private ?kr) (u ''not a key'') = Inl Value_Error"
    by (simp add: exchange_def unb64_def u_def b64_val_def)
  show "u ''eve'' \<in> set [u ''eve'']" "u ''eve'' \<noteq> u ''alice''" by (simp_all add: u_def)
  show "\<forall>n\<in>set [u ''eve'']. kr_knows n ?kr" by (simp add: kr_knows_def kr_remember_def sample_ring_def)
qed

theorem room_envelopes_open_witness:
  "\<exists>env ka'. seal_for_members toy_crypto (\<lambda>_. []) [u ''bob''] (u ''hi'') (u ''alice'') (sample_ring ''alice'' [''bob'']) = (Inr (Some env), ka') \<and>
     map fst env = [u ''alice'', u ''bob''] \<and>
     (\<forall>ct nn. (u ''bob'', ct, nn) \<in> set env \<longrightarrow>
        outcome (kr_open toy_crypto (u ''alice'') (PStr ct) (PStr nn) (u ''alice'')) (sample_ring ''bob'' [''alice'']) = Inr (u ''hi''))"
proof -
  have e: "everyone_of [u ''bob''] (u ''alice'') = [u ''alice'', u ''bob'']" by (simp add: everyone_of_def u_def)
  obtain env ka' where r: "seal_for_members toy_crypto (\<lambda>_. []) [u ''bob''] (u ''hi'') (u ''alice'') (sample_ring ''alice'' [''bob'']) = (Inr (Some env), ka')"
    using toy_seal_for_members by blast
  have "u ''alice'' \<noteq> []" "[] \<notin> set [u ''bob'']" by (simp_all add: u_def)
  from room_envelopes_open [OF toy_crypto_ok sample_honest this r] e r sample_honest sample_reaches [of "''alice''" "[''alice'']" "''bob''"]
  show ?thesis by fastforce
qed

end
