(* ===== verification/ChatModel.thy ===== *)
theory ChatModel
  imports Codec "HOL-Library.Product_Lexorder" "HOL-Library.Multiset"
begin

section \<open>The client's model of its conversations\<close>

text \<open>
  \<open>im/client/model/conversation.py\<close>, \<open>events.py\<close> and \<open>chat.py\<close>. The model is driven from one thread, so
  its methods are functions from model to model. What the listeners were told is part of the
  state, in order, one entry per listener and event. \<open>str.lower\<close> and \<open>str.casefold\<close> are tables of the
  Unicode database: parameters of the methods that use them.
\<close>

subsection \<open>Messages and conversations\<close>

text \<open>
  The id and the body of a message come out of a frame unchecked and may be any JSON value; the
  other fields are what their annotations say.
\<close>

record chat_message =
  msg_id :: pyval
  msg_sender :: ustr
  msg_body :: pyval
  msg_ts :: int
  msg_mine :: bool
  msg_state :: ustr

record conversation =
  cv_key :: ustr
  cv_messages :: "chat_message list"
  cv_unread :: nat

definition new_conversation :: "ustr \<Rightarrow> conversation" where
  "new_conversation key = \<lparr>cv_key = key, cv_messages = [], cv_unread = 0\<rparr>"

definition cv_is_room :: "conversation \<Rightarrow> bool" where
  "cv_is_room cv = startswith (cv_key cv) (u ''#'')"

definition cv_add :: "chat_message \<Rightarrow> bool \<Rightarrow> conversation \<Rightarrow> conversation" where
  "cv_add msg act cv = cv\<lparr>cv_messages := cv_messages cv @ [msg],
     cv_unread := (if \<not> act \<and> \<not> msg_mine msg then cv_unread cv + 1 else cv_unread cv)\<rparr>"

definition cv_mark_read :: "conversation \<Rightarrow> bool \<times> conversation" where
  "cv_mark_read cv = (if cv_unread cv = 0 then (False, cv) else (True, cv\<lparr>cv_unread := 0\<rparr>))"

definition cv_last :: "conversation \<Rightarrow> chat_message option" where
  "cv_last cv = (if cv_messages cv = [] then None else Some (last (cv_messages cv)))"

definition cv_len :: "conversation \<Rightarrow> nat" where
  "cv_len cv = length (cv_messages cv)"

subsection \<open>Searching text\<close>

text \<open>\<open>str.find\<close>: the first place where \<open>needle\<close> occurs.\<close>

definition str_find :: "ustr \<Rightarrow> ustr \<Rightarrow> nat option" where
  "str_find needle s = find (\<lambda>i. take (length needle) (drop i s) = needle) [0..<Suc (length s)]"

definition snippet :: "(ustr \<Rightarrow> ustr) \<Rightarrow> ustr \<Rightarrow> nat \<Rightarrow> ustr \<Rightarrow> ustr" where
  "snippet casefold query width body = (case str_find (casefold (strip query)) (casefold body) of
       None \<Rightarrow> take width body
     | Some pos \<Rightarrow>
       (let start = pos - width div 3;
            stop = min (length body) (start + width)
        in (if start \<noteq> 0 then u ''...'' else []) @ drop start (take stop body) @ (if stop < length body then u ''...'' else [])))"

subsection \<open>Events\<close>

datatype event =
    IdentityEstablished ustr
  | RosterReplaced "ustr list"
  | PresenceChanged ustr bool
  | MessageAdded ustr chat_message
  | UnreadChanged ustr nat
  | ReceiptChanged ustr ustr ustr
  | HistoryLoaded ustr nat
  | TypingChanged ustr "ustr list"
  | RoomMembersChanged ustr "ustr list"
  | ConversationSelected "ustr option"
  | ConnectionStateChanged ustr
  | ErrorRaised ustr ustr
  | ContactsChanged "ustr list"

subsection \<open>The model\<close>

record chat_content =
  cm_username :: "ustr option"
  connection_state :: ustr
  roster :: "(ustr, bool) dict"
  contacts :: "(ustr, bool) dict"
  conversations :: "(ustr, conversation) dict"
  cm_rooms :: "(ustr, ustr list) dict"
  cm_typing :: "(ustr, ustr list) dict"
  active :: "ustr option"

text \<open>
  A set of names is a list without repetitions; a listener is a number. A listener is called in the
  middle of a method and may read the model then: \<open>delivered\<close> has, with every event, the content of
  the model at the time of the call.
\<close>

record chat_model = chat_content +
  listeners :: "nat list"
  delivered :: "(nat \<times> event \<times> chat_content) list"

definition new_chat_model :: chat_model where
  "new_chat_model = \<lparr>cm_username = None, connection_state = u ''DISCONNECTED'', roster = [], contacts = [], conversations = [],
     cm_rooms = [], cm_typing = [], active = None, listeners = [], delivered = []\<rparr>"

definition subscribe :: "nat \<Rightarrow> chat_model \<Rightarrow> chat_model" where
  "subscribe l m = m\<lparr>listeners := listeners m @ [l]\<rparr>"

definition unsubscribe :: "nat \<Rightarrow> chat_model \<Rightarrow> chat_model" where
  "unsubscribe l m = m\<lparr>listeners := remove1 l (listeners m)\<rparr>"

definition emit :: "event \<Rightarrow> chat_model \<Rightarrow> chat_model" where
  "emit ev m = m\<lparr>delivered := delivered m @ map (\<lambda>l. (l, ev, chat_content.truncate m)) (listeners m)\<rparr>"

definition set_identity :: "ustr \<Rightarrow> chat_model \<Rightarrow> chat_model" where
  "set_identity name m = emit (IdentityEstablished name) (m\<lparr>cm_username := Some name\<rparr>)"

definition set_connection_state :: "ustr \<Rightarrow> chat_model \<Rightarrow> chat_model" where
  "set_connection_state st m =
     (if st = connection_state m then m else emit (ConnectionStateChanged st) (m\<lparr>connection_state := st\<rparr>))"

definition replace_roster :: "ustr list \<Rightarrow> chat_model \<Rightarrow> chat_model" where
  "replace_roster users m =
     (let r1 = foldl (\<lambda>d n. dict_set d n True) (roster m) users;
          r2 = map (\<lambda>(n, online). (n, if n \<in> set users then online else False)) r1
      in emit (RosterReplaced (sort (dict_keys r2))) (m\<lparr>roster := r2\<rparr>))"

text \<open>\<open>contacts\<close> is a list of JSON values here: an entry that is not an object has no \<open>get\<close>.\<close>

fun contact_entries :: "pyval list \<Rightarrow> exn + (ustr \<times> bool) list" where
  "contact_entries [] = Inr []"
| "contact_entries (PDict d # es) = (case contact_entries es of Inl e \<Rightarrow> Inl e
     | Inr r \<Rightarrow> Inr (if py_truthy (pget d (u ''user''))
         then (py_str (pget d (u ''user'')), py_truthy (pget d (u ''online''))) # r else r))"
| "contact_entries (_ # es) = Inl Attribute_Error"

definition dict_eq :: "('k, 'v) dict \<Rightarrow> ('k, 'v) dict \<Rightarrow> bool" where
  "dict_eq d e \<longleftrightarrow> set d = set e"

definition setdefaults :: "('k \<times> 'v) list \<Rightarrow> ('k, 'v) dict \<Rightarrow> ('k, 'v) dict" where
  "setdefaults ps d = foldl (\<lambda>d (k, v). if dict_get d k = None then dict_set d k v else d) d ps"

definition take_contacts :: "(ustr, bool) dict \<Rightarrow> chat_model \<Rightarrow> chat_model" where
  "take_contacts fresh m =
     (if dict_eq fresh (contacts m) then m
      else emit (ContactsChanged (sort (dict_keys fresh))) (m\<lparr>contacts := fresh, roster := setdefaults fresh (roster m)\<rparr>))"

definition replace_contacts :: "pyval list \<Rightarrow> chat_model \<Rightarrow> exn + chat_model" where
  "replace_contacts entries m = (case contact_entries entries of Inl e \<Rightarrow> Inl e | Inr ps \<Rightarrow> Inr (take_contacts (dict_of ps) m))"

definition is_online :: "ustr \<Rightarrow> 'z chat_content_scheme \<Rightarrow> bool" where
  "is_online user m = (case dict_get (roster m) user of None \<Rightarrow> False | Some b \<Rightarrow> b)"

definition contact_names :: "(ustr \<Rightarrow> ustr) \<Rightarrow> 'z chat_content_scheme \<Rightarrow> ustr list" where
  "contact_names lower m =
     sort_key (\<lambda>n. (\<not> is_online n m, lower n)) (filter (\<lambda>n. n \<noteq> [] \<and> Some n \<noteq> cm_username m) (dict_keys (contacts m)))"

definition set_presence :: "ustr \<Rightarrow> bool \<Rightarrow> chat_model \<Rightarrow> chat_model" where
  "set_presence user online m =
     (let m1 = (if dict_get (contacts m) user \<noteq> None then m\<lparr>contacts := dict_set (contacts m) user online\<rparr> else m) in
      if dict_get (roster m1) user = Some online then m1
      else emit (PresenceChanged user online) (m1\<lparr>roster := dict_set (roster m1) user online\<rparr>))"

definition online_users :: "'z chat_content_scheme \<Rightarrow> ustr list" where
  "online_users m = sort (map fst (filter snd (roster m)))"

text \<open>\<open>conversation(key)\<close> makes the conversation when there is none; \<open>conv\<close> is the one it returns.\<close>

definition conv :: "ustr \<Rightarrow> 'z chat_content_scheme \<Rightarrow> conversation" where
  "conv key m = (case dict_get (conversations m) key of None \<Rightarrow> new_conversation key | Some cv \<Rightarrow> cv)"

definition open_conv :: "ustr \<Rightarrow> 'z chat_content_scheme \<Rightarrow> 'z chat_content_scheme" where
  "open_conv key m = (if dict_get (conversations m) key = None
     then m\<lparr>conversations := dict_set (conversations m) key (new_conversation key)\<rparr> else m)"

definition put_conv :: "ustr \<Rightarrow> conversation \<Rightarrow> chat_model \<Rightarrow> chat_model" where
  "put_conv key cv m = m\<lparr>conversations := dict_set (conversations m) key cv\<rparr>"

definition set_typing :: "ustr \<Rightarrow> ustr \<Rightarrow> bool \<Rightarrow> chat_model \<Rightarrow> chat_model" where
  "set_typing key user on m =
     (let who = (case dict_get (cm_typing m) key of None \<Rightarrow> [] | Some w \<Rightarrow> w);
          who' = (if on then (if user \<in> set who then who else who @ [user]) else removeAll user who);
          m1 = m\<lparr>cm_typing := dict_set (cm_typing m) key who'\<rparr>
      in if set who' \<noteq> set who then emit (TypingChanged key (sort who')) m1 else m1)"

definition add_message :: "ustr \<Rightarrow> chat_message \<Rightarrow> chat_model \<Rightarrow> chat_model" where
  "add_message key msg m =
     (let cv = conv key m;
          cv' = cv_add msg (Some key = active m) cv;
          m1 = put_conv key cv' m;
          m2 = (if \<not> msg_mine msg then set_typing key (msg_sender msg) False m1 else m1);
          m3 = emit (MessageAdded key msg) m2
      in if cv_unread cv' \<noteq> cv_unread cv then emit (UnreadChanged key (cv_unread cv')) m3 else m3)"

definition load_history :: "ustr \<Rightarrow> chat_message list \<Rightarrow> chat_model \<Rightarrow> chat_model" where
  "load_history key msgs m =
     emit (HistoryLoaded key (length msgs)) (put_conv key ((conv key m)\<lparr>cv_messages := msgs\<rparr>) m)"

definition receipt_order :: "ustr \<Rightarrow> nat" where
  "receipt_order st = (if st = u ''DELIVERED'' then 1 else if st = u ''READ'' then 2 else 0)"

text \<open>The loop over the messages: the first one with the id is the one that counts.\<close>

fun receive :: "ustr \<Rightarrow> ustr \<Rightarrow> chat_message list \<Rightarrow> chat_message list option" where
  "receive i st [] = None"
| "receive i st (msg # msgs) =
     (if msg_id msg \<noteq> PStr i then map_option ((#) msg) (receive i st msgs)
      else if receipt_order st \<le> receipt_order (msg_state msg) then None
      else Some (msg\<lparr>msg_state := st\<rparr> # msgs))"

definition set_receipt :: "ustr \<Rightarrow> ustr \<Rightarrow> ustr \<Rightarrow> chat_model \<Rightarrow> chat_model" where
  "set_receipt key i st m = (case dict_get (conversations m) key of None \<Rightarrow> m
     | Some cv \<Rightarrow> (case receive i st (cv_messages cv) of None \<Rightarrow> m
       | Some msgs \<Rightarrow> emit (ReceiptChanged key i st) (put_conv key (cv\<lparr>cv_messages := msgs\<rparr>) m)))"

definition select :: "ustr option \<Rightarrow> chat_model \<Rightarrow> chat_model" where
  "select key m =
     (let m1 = emit (ConversationSelected key) (m\<lparr>active := key\<rparr>) in
      case key of None \<Rightarrow> m1
      | Some k \<Rightarrow>
        (let (changed, cv) = cv_mark_read (conv k m1); m2 = put_conv k cv m1
         in if changed then emit (UnreadChanged k 0) m2 else m2))"

definition unread_total :: "'z chat_content_scheme \<Rightarrow> nat" where
  "unread_total m = sum_list (map (cv_unread \<circ> snd) (conversations m))"

text \<open>A message whose body is not a string has no \<open>casefold\<close>.\<close>

fun search_bodies :: "(ustr \<Rightarrow> ustr) \<Rightarrow> ustr \<Rightarrow> (ustr \<times> chat_message) list \<Rightarrow> exn + (ustr \<times> chat_message) list" where
  "search_bodies casefold needle [] = Inr []"
| "search_bodies casefold needle ((k, msg) # rest) = (case msg_body msg of
     PStr b \<Rightarrow> (case search_bodies casefold needle rest of Inl e \<Rightarrow> Inl e
       | Inr hits \<Rightarrow> Inr (if str_find needle (casefold b) \<noteq> None then (k, msg) # hits else hits))
   | _ \<Rightarrow> Inl Attribute_Error)"

definition all_messages :: "'z chat_content_scheme \<Rightarrow> (ustr \<times> chat_message) list" where
  "all_messages m = concat (map (\<lambda>(k, cv). map (Pair k) (cv_messages cv)) (conversations m))"

definition search :: "(ustr \<Rightarrow> ustr) \<Rightarrow> ustr \<Rightarrow> nat \<Rightarrow> chat_model \<Rightarrow> exn + (ustr \<times> chat_message) list" where
  "search casefold query limit m =
     (let needle = casefold (strip query) in
      if needle = [] then Inr []
      else case search_bodies casefold needle (all_messages m) of Inl e \<Rightarrow> Inl e
        | Inr hits \<Rightarrow> Inr (take limit (sort_key (\<lambda>(_, msg). - msg_ts msg) hits)))"

definition keys :: "(ustr \<Rightarrow> ustr) \<Rightarrow> 'z chat_content_scheme \<Rightarrow> ustr list" where
  "keys lower m = sort_key (\<lambda>k. (\<not> startswith k (u ''#''), lower k)) (dict_keys (conversations m))"

definition typing_in :: "ustr \<Rightarrow> 'z chat_content_scheme \<Rightarrow> ustr list" where
  "typing_in key m = (case dict_get (cm_typing m) key of None \<Rightarrow> [] | Some w \<Rightarrow> sort w)"

definition set_room_members :: "ustr \<Rightarrow> ustr list \<Rightarrow> chat_model \<Rightarrow> chat_model" where
  "set_room_members room members m =
     (let ordered = sort members in
      if dict_get (cm_rooms m) room = Some ordered then m
      else emit (RoomMembersChanged room ordered) (open_conv room (m\<lparr>cm_rooms := dict_set (cm_rooms m) room ordered\<rparr>)))"

definition room_members :: "ustr \<Rightarrow> 'z chat_content_scheme \<Rightarrow> ustr list" where
  "room_members room m = (case dict_get (cm_rooms m) room of None \<Rightarrow> [] | Some ms \<Rightarrow> ms)"

definition my_rooms :: "'z chat_content_scheme \<Rightarrow> ustr list" where
  "my_rooms m = (case cm_username m of None \<Rightarrow> []
     | Some me \<Rightarrow> sort (map fst (filter (\<lambda>(_, ms). me \<in> set ms) (cm_rooms m))))"

definition raise_error :: "ustr \<Rightarrow> ustr \<Rightarrow> chat_model \<Rightarrow> chat_model" where
  "raise_error code msg m = emit (ErrorRaised code msg) m"


subsection \<open>Every sequence of calls\<close>

datatype model_call =
    Subscribe nat | Unsubscribe nat | Set_Identity ustr | Set_Connection_State ustr | Replace_Roster "ustr list"
  | Replace_Contacts "pyval list" | Set_Presence ustr bool | Conversation ustr | Add_Message ustr chat_message
  | Load_History ustr "chat_message list" | Set_Receipt ustr ustr ustr | Select "ustr option" | Set_Typing ustr ustr bool
  | Set_Room_Members ustr "ustr list" | Raise_Error ustr ustr

fun model_do :: "chat_model \<Rightarrow> model_call \<Rightarrow> chat_model" where
  "model_do m (Subscribe l) = subscribe l m"
| "model_do m (Unsubscribe l) = unsubscribe l m"
| "model_do m (Set_Identity n) = set_identity n m"
| "model_do m (Set_Connection_State st) = set_connection_state st m"
| "model_do m (Replace_Roster us) = replace_roster us m"
| "model_do m (Replace_Contacts es) = (case replace_contacts es m of Inl _ \<Rightarrow> m | Inr m' \<Rightarrow> m')"
| "model_do m (Set_Presence n b) = set_presence n b m"
| "model_do m (Conversation k) = open_conv k m"
| "model_do m (Add_Message k msg) = add_message k msg m"
| "model_do m (Load_History k msgs) = load_history k msgs m"
| "model_do m (Set_Receipt k i st) = set_receipt k i st m"
| "model_do m (Select k) = select k m"
| "model_do m (Set_Typing k n b) = set_typing k n b m"
| "model_do m (Set_Room_Members r ms) = set_room_members r ms m"
| "model_do m (Raise_Error c msg) = raise_error c msg m"

text \<open>
  The invariant: keys are unique and a conversation is filed under its own key, what is on screen
  has nothing unread, every contact has an entry on the roster.
\<close>

definition model_ok :: "chat_model \<Rightarrow> bool" where
  "model_ok m \<longleftrightarrow> dict_wf (roster m) \<and> dict_wf (contacts m) \<and> dict_wf (conversations m) \<and>
     dict_wf (cm_rooms m) \<and> dict_wf (cm_typing m) \<and>
     (\<forall>k. cv_key (conv k m) = k) \<and>
     (\<forall>k. active m = Some k \<longrightarrow> cv_unread (conv k m) = 0) \<and>
     (\<forall>n. dict_get (contacts m) n \<noteq> None \<longrightarrow> dict_get (roster m) n \<noteq> None)"

lemma emit_fields [simp]:
  "cm_username (emit ev m) = cm_username m" "connection_state (emit ev m) = connection_state m" "roster (emit ev m) = roster m"
  "contacts (emit ev m) = contacts m" "conversations (emit ev m) = conversations m" "cm_rooms (emit ev m) = cm_rooms m"
  "cm_typing (emit ev m) = cm_typing m" "active (emit ev m) = active m" "listeners (emit ev m) = listeners m"
  by (simp_all add: emit_def)

lemma conv_emit [simp]: "conv k (emit ev m) = conv k m"
  by (simp add: conv_def)

lemma conv_put [simp]: "conv k (put_conv k' cv m) = (if k = k' then cv else conv k m)"
  by (simp add: conv_def put_conv_def)

lemma conv_open [simp]: "conv k (open_conv k' m) = conv k m"
  by (auto simp: conv_def open_conv_def new_conversation_def split: option.split)

lemma put_conv_fields [simp]:
  "cm_username (put_conv k cv m) = cm_username m" "connection_state (put_conv k cv m) = connection_state m" "roster (put_conv k cv m) = roster m"
  "contacts (put_conv k cv m) = contacts m" "cm_rooms (put_conv k cv m) = cm_rooms m" "cm_typing (put_conv k cv m) = cm_typing m"
  "active (put_conv k cv m) = active m" "listeners (put_conv k cv m) = listeners m" "delivered (put_conv k cv m) = delivered m"
  "conversations (put_conv k cv m) = dict_set (conversations m) k cv"
  by (simp_all add: put_conv_def)

lemma open_conv_fields [simp]:
  "cm_username (open_conv k m) = cm_username m" "connection_state (open_conv k m) = connection_state m" "roster (open_conv k m) = roster m"
  "contacts (open_conv k m) = contacts m" "cm_rooms (open_conv k m) = cm_rooms m" "cm_typing (open_conv k m) = cm_typing m"
  "active (open_conv k m) = active m" "dict_wf (conversations m) \<Longrightarrow> dict_wf (conversations (open_conv k m))"
  by (simp_all add: open_conv_def)

lemma open_conv_told [simp]: "listeners (open_conv k m) = listeners m" "delivered (open_conv k m) = delivered m"
  by (simp_all add: open_conv_def)

lemma conv_fields [simp]:
  "conv k (m\<lparr>cm_username := a\<rparr>) = conv k m" "conv k (m\<lparr>connection_state := b\<rparr>) = conv k m" "conv k (m\<lparr>roster := c\<rparr>) = conv k m"
  "conv k (m\<lparr>contacts := d\<rparr>) = conv k m" "conv k (m\<lparr>cm_rooms := e\<rparr>) = conv k m" "conv k (m\<lparr>cm_typing := f\<rparr>) = conv k m"
  "conv k (m\<lparr>active := g\<rparr>) = conv k m"
  by (simp_all add: conv_def)

lemma conv_told [simp]: "conv k (m\<lparr>listeners := h\<rparr>) = conv k m" "conv k (m\<lparr>delivered := i\<rparr>) = conv k m"
  by (simp_all add: conv_def)

lemma new_chat_model_ok: "model_ok new_chat_model"
  by (simp add: model_ok_def new_chat_model_def conv_def new_conversation_def)

lemma foldl_roster:
  assumes "dict_wf d"
  shows "dict_wf (foldl (\<lambda>d n. dict_set d n True) d us)"
    "dict_get (foldl (\<lambda>d n. dict_set d n True) d us) k = (if k \<in> set us then Some True else dict_get d k)"
  using assms by (induction us arbitrary: d) auto

lemma dict_get_map: "dict_get (map (\<lambda>(n, b). (n, f n b)) d) k = map_option (f k) (dict_get d k)"
  by (induction d) auto

lemma setdefaults_wf: "dict_wf d \<Longrightarrow> dict_wf (setdefaults ps d)"
  unfolding setdefaults_def by (induction ps arbitrary: d) auto

lemma setdefaults_get: "dict_get (setdefaults ps d) k = (case dict_get d k of None \<Rightarrow> dict_get ps k | Some v \<Rightarrow> Some v)"
proof (induction ps arbitrary: d)
  case Nil
  then show ?case by (simp add: setdefaults_def split: option.split)
next
  case (Cons p ps)
  obtain a b where p: "p = (a, b)" by (cases p)
  let ?d = "if dict_get d a = None then dict_set d a b else d"
  have "setdefaults (p # ps) d = setdefaults ps ?d" by (simp add: p setdefaults_def)
  moreover have "dict_get ?d k = (case dict_get d k of None \<Rightarrow> if k = a then Some b else None | Some v \<Rightarrow> Some v)"
    by (auto split: option.split)
  ultimately show ?case using Cons.IH [of ?d] by (auto simp: p split: option.splits)
qed

lemma set_typing_fields:
  "cm_username (set_typing k n b m) = cm_username m" "connection_state (set_typing k n b m) = connection_state m"
  "roster (set_typing k n b m) = roster m" "contacts (set_typing k n b m) = contacts m" "conversations (set_typing k n b m) = conversations m"
  "cm_rooms (set_typing k n b m) = cm_rooms m" "active (set_typing k n b m) = active m" "listeners (set_typing k n b m) = listeners m"
  "conv k' (set_typing k n b m) = conv k' m" "dict_wf (cm_typing m) \<Longrightarrow> dict_wf (cm_typing (set_typing k n b m))"
  by (simp_all add: set_typing_def Let_def conv_def)

lemma receive_length: "receive i st msgs = Some msgs' \<Longrightarrow> length msgs' = length msgs"
  by (induction msgs arbitrary: msgs') (auto split: if_splits)

lemma model_do_ok:
  assumes "model_ok m"
  shows "model_ok (model_do m call)"
proof (cases call)
  case (Replace_Roster us)
  let ?r = "foldl (\<lambda>d n. dict_set d n True) (roster m) us"
  have "dict_wf ?r" using foldl_roster(1) [of "roster m" us] assms by (simp add: model_ok_def)
  moreover have "map fst (map (\<lambda>(n, b). (n, if n \<in> set us then b else False)) ?r) = map fst ?r" by (induction ?r) auto
  ultimately show ?thesis
    using assms foldl_roster(2) [of "roster m" us]
    by (auto simp: Replace_Roster model_ok_def replace_roster_def Let_def dict_get_map comp_def case_prod_beta split: if_splits)
next
  case (Replace_Contacts es)
  have "model_ok (take_contacts (dict_of ps) m)" for ps
    using assms setdefaults_wf [of "roster m"]
    by (auto simp: model_ok_def take_contacts_def setdefaults_get split: option.splits)
  then show ?thesis using assms by (simp add: Replace_Contacts replace_contacts_def split: sum.split)
next
  case (Select k)
  then show ?thesis
    using assms by (cases k) (auto simp: model_ok_def select_def Let_def cv_mark_read_def)
next
  case (Add_Message k msg)
  then show ?thesis
    using assms by (auto simp: model_ok_def add_message_def Let_def cv_add_def set_typing_fields)
next
  case (Set_Receipt k i st)
  have "conv k m = cv" if "dict_get (conversations m) k = Some cv" for cv using that by (simp add: conv_def)
  then show ?thesis
    using assms by (auto simp: Set_Receipt model_ok_def set_receipt_def split: option.split)
qed (use assms in \<open>auto simp: model_ok_def subscribe_def unsubscribe_def set_identity_def set_connection_state_def set_presence_def
    load_history_def set_typing_fields set_room_members_def raise_error_def Let_def\<close>)

lemma model_calls_ok: "model_ok m \<Longrightarrow> model_ok (foldl model_do m calls)"
  by (induction calls arbitrary: m) (auto intro: model_do_ok)


text \<open>C30: whatever sequence of calls is made on the model, keys stay unique, a conversation is
  filed under its own key, the conversation on screen has no unread messages, and every contact
  has an entry on the roster.\<close>

theorem model_invariant:
  "let m = foldl model_do new_chat_model calls in
     dict_wf (conversations m) \<and> dict_wf (roster m) \<and> dict_wf (contacts m) \<and>
     (\<forall>k. cv_key (conv k m) = k) \<and> (\<forall>k. active m = Some k \<longrightarrow> cv_unread (conv k m) = 0) \<and>
     (\<forall>n. n \<in> set (dict_keys (contacts m)) \<longrightarrow> n \<in> set (dict_keys (roster m)))"
  using model_calls_ok [OF new_chat_model_ok, of calls]
  by (auto simp: model_ok_def Let_def dict_keys_def dict_get_None_iff)

theorem model_invariant_witness:
  "let m = foldl model_do new_chat_model [Set_Presence (u ''bob'') True, Select (Some (u ''bob''))] in
     active m = Some (u ''bob'') \<and> cv_unread (conv (u ''bob'') m) = 0 \<and> dict_wf (roster m)"
proof -
  let ?m = "foldl model_do new_chat_model [Set_Presence (u ''bob'') True, Select (Some (u ''bob''))]"
  have "active ?m = Some (u ''bob'')"
    by (simp add: select_def Let_def case_prod_beta)
  with model_invariant [of "[Set_Presence (u ''bob'') True, Select (Some (u ''bob''))]"] show ?thesis unfolding Let_def by blast
qed

subsection \<open>A view that only listens\<close>

text \<open>What a view can know without ever asking the model, and how each event changes it.\<close>

record view =
  v_user :: "ustr option"
  v_connection :: ustr
  v_active :: "ustr option"
  v_unread :: "ustr \<Rightarrow> nat"
  v_rooms :: "ustr \<Rightarrow> ustr list"
  v_typing :: "ustr \<Rightarrow> ustr list"

definition view_of :: "chat_model \<Rightarrow> view" where
  "view_of m = \<lparr>v_user = cm_username m, v_connection = connection_state m, v_active = active m,
     v_unread = (\<lambda>k. cv_unread (conv k m)), v_rooms = (\<lambda>r. room_members r m), v_typing = (\<lambda>k. typing_in k m)\<rparr>"

fun view_step :: "view \<Rightarrow> event \<Rightarrow> view" where
  "view_step v (IdentityEstablished n) = v\<lparr>v_user := Some n\<rparr>"
| "view_step v (ConnectionStateChanged st) = v\<lparr>v_connection := st\<rparr>"
| "view_step v (ConversationSelected k) = v\<lparr>v_active := k\<rparr>"
| "view_step v (UnreadChanged k n) = v\<lparr>v_unread := (v_unread v)(k := n)\<rparr>"
| "view_step v (RoomMembersChanged r ms) = v\<lparr>v_rooms := (v_rooms v)(r := ms)\<rparr>"
| "view_step v (TypingChanged k ns) = v\<lparr>v_typing := (v_typing v)(k := ns)\<rparr>"
| "view_step v _ = v"

definition calls_to :: "nat \<Rightarrow> chat_model \<Rightarrow> (event \<times> chat_content) list" where
  "calls_to l m = map snd (filter (\<lambda>(k, _). k = l) (delivered m))"

definition heard :: "nat \<Rightarrow> chat_model \<Rightarrow> event list" where
  "heard l m = map fst (calls_to l m)"

text \<open>\<open>l\<close> is subscribed once; between \<open>m\<close> and \<open>m'\<close> it hears events that take it from one view to the other.\<close>

definition told :: "nat \<Rightarrow> chat_model \<Rightarrow> chat_model \<Rightarrow> bool" where
  "told l m m' \<longleftrightarrow> (\<exists>evs. heard l m' = heard l m @ evs \<and> foldl view_step (view_of m) evs = view_of m') \<and>
     count_list (listeners m') l = count_list (listeners m) l"

lemma told_refl: "told l m m"
  by (simp add: told_def)

lemma calls_to_emit:
  assumes "count_list (listeners m) l = 1"
  shows "calls_to l (emit ev m) = calls_to l m @ [(ev, chat_content.truncate m)]"
proof -
  have "map snd (filter (\<lambda>(k, _). k = l) (map (\<lambda>l'. (l', x)) ls)) = replicate (count_list ls l) x" for ls and x :: "event \<times> chat_content"
    by (induction ls) auto
  then show ?thesis using assms by (simp add: calls_to_def emit_def)
qed

lemma heard_emit: "count_list (listeners m) l = 1 \<Longrightarrow> heard l (emit ev m) = heard l m @ [ev]"
  by (simp add: heard_def calls_to_emit)

lemma heard_same: "delivered m' = delivered m \<Longrightarrow> heard l m' = heard l m"
  by (simp add: heard_def calls_to_def)

lemma view_of_emit [simp]: "view_of (emit ev m) = view_of m"
  by (simp add: view_of_def room_members_def typing_in_def)

lemma toldI:
  assumes "count_list (listeners m) l = 1" and "listeners m1 = listeners m" and "delivered m1 = delivered m"
    and "view_step (view_of m) ev = view_of m1"
  shows "told l m (emit ev m1)"
  using assms heard_emit [of m1 l ev] heard_same [of m1 m l] by (simp add: told_def)

lemma told_silent: "delivered m' = delivered m \<Longrightarrow> listeners m' = listeners m \<Longrightarrow> view_of m' = view_of m \<Longrightarrow> told l m m'"
  using heard_same [of m' m l] unfolding told_def by (intro conjI exI [of _ "[]"]) simp_all

lemma told_trans: "told l m m1 \<Longrightarrow> told l m1 m2 \<Longrightarrow> told l m m2"
proof -
  assume "told l m m1" and "told l m1 m2"
  then obtain es fs where "heard l m1 = heard l m @ es" "foldl view_step (view_of m) es = view_of m1"
    "heard l m2 = heard l m1 @ fs" "foldl view_step (view_of m1) fs = view_of m2"
    "count_list (listeners m2) l = count_list (listeners m) l" by (auto simp: told_def)
  then have "heard l m2 = heard l m @ (es @ fs)" "foldl view_step (view_of m) (es @ fs) = view_of m2"
    "count_list (listeners m2) l = count_list (listeners m) l" by simp_all
  then show ?thesis unfolding told_def by blast
qed

lemma fun_upd_self: "f(x := f x) = f"
  by (rule ext) simp

lemma sort_same_set: "distinct xs \<Longrightarrow> distinct ys \<Longrightarrow> set xs = set ys \<Longrightarrow> sort xs = sort ys"
  by (metis distinct_sort set_sort sorted_distinct_set_unique sorted_sort)

text \<open>Sets of names hold no name twice.\<close>

definition typing_sets :: "chat_model \<Rightarrow> bool" where
  "typing_sets m \<longleftrightarrow> (\<forall>k w. dict_get (cm_typing m) k = Some w \<longrightarrow> distinct w)"

lemma set_typing_sets: "typing_sets m \<Longrightarrow> typing_sets (set_typing k n b m)"
  by (auto simp: typing_sets_def set_typing_def Let_def distinct_removeAll split: option.splits if_splits)

lemma told_typing:
  assumes "count_list (listeners m) l = 1" and "typing_sets m"
  shows "told l m (set_typing k n b m)"
proof -
  let ?who = "case dict_get (cm_typing m) k of None \<Rightarrow> [] | Some w \<Rightarrow> w"
  let ?who' = "if b then (if n \<in> set ?who then ?who else ?who @ [n]) else removeAll n ?who"
  let ?m = "m\<lparr>cm_typing := dict_set (cm_typing m) k ?who'\<rparr>"
  have v: "view_of ?m = (view_of m)\<lparr>v_typing := (v_typing (view_of m))(k := sort ?who')\<rparr>"
    by (auto simp: view_of_def room_members_def typing_in_def fun_eq_iff)
  have d: "distinct ?who" "distinct ?who'" using assms(2) by (auto simp: typing_sets_def distinct_removeAll split: option.split)
  show ?thesis
  proof (cases "set ?who' = set ?who")
    case True
    have "sort ?who' = v_typing (view_of m) k"
      using sort_same_set [OF d(2,1) True] by (simp add: view_of_def typing_in_def split: option.split)
    then have "view_of ?m = view_of m" using v by (simp add: fun_upd_self)
    then have "told l m ?m" by (intro told_silent) simp_all
    with True show ?thesis by (simp add: set_typing_def Let_def)
  next
    case False
    have "told l m (emit (TypingChanged k (sort ?who')) ?m)" by (rule toldI [OF assms(1)]) (simp_all add: v)
    with False show ?thesis by (simp add: set_typing_def Let_def)
  qed
qed


lemma typing_events:
  assumes "count_list (listeners m) l = 1"
  shows "\<exists>evs. heard l (set_typing k n b m) = heard l m @ evs \<and> (\<forall>ev\<in>set evs. \<exists>a c. ev = TypingChanged a c)"
  using heard_emit [of "m\<lparr>cm_typing := x\<rparr>" l for x] assms heard_same [of "m\<lparr>cm_typing := x\<rparr>" m l for x]
  by (auto simp: set_typing_def Let_def)

lemma typing_commutes:
  "\<forall>ev\<in>set evs. \<exists>a b. ev = TypingChanged a b \<Longrightarrow>
   view_step (foldl view_step v evs) (UnreadChanged k n) = foldl view_step (view_step v (UnreadChanged k n)) evs"
proof (induction evs arbitrary: v)
  case (Cons ev evs)
  then obtain a b where ev: "ev = TypingChanged a b" by auto
  have "v\<lparr>v_typing := x, v_unread := y\<rparr> = v\<lparr>v_unread := y, v_typing := x\<rparr>" for x y by (cases v) simp
  then have "view_step (view_step v ev) (UnreadChanged k n) = view_step (view_step v (UnreadChanged k n)) ev" by (simp add: ev)
  with Cons.IH [of "view_step v ev"] Cons.prems show ?case by simp
qed simp

text \<open>The calls that say nothing about what the view shows.\<close>

lemma told_add:
  assumes "count_list (listeners m) l = 1" and "typing_sets m"
  shows "told l m (add_message k msg m)"
proof -
  let ?cv = "conv k m" and ?cv' = "cv_add msg (Some k = active m) (conv k m)"
  let ?m1 = "put_conv k ?cv' m"
  let ?m2 = "if \<not> msg_mine msg then set_typing k (msg_sender msg) False ?m1 else ?m1"
  have vm1: "view_of ?m1 = (view_of m)\<lparr>v_unread := (v_unread (view_of m))(k := cv_unread ?cv')\<rparr>"
    by (auto simp: view_of_def room_members_def typing_in_def fun_eq_iff)
  have c1: "count_list (listeners ?m1) l = 1" using assms(1) by simp
  have t2: "told l ?m1 ?m2"
    using told_typing [OF c1, of k "msg_sender msg" False] assms(2) told_refl by (simp add: typing_sets_def)
  have c2: "count_list (listeners ?m2) l = 1" using assms(1) by (simp add: set_typing_fields)
  have un: "v_unread (view_of ?m2) = (v_unread (view_of m))(k := cv_unread ?cv')"
    using vm1 by (simp add: view_of_def set_typing_fields)
  obtain evs where evs: "heard l ?m2 = heard l m @ evs" "foldl view_step (view_of ?m1) evs = view_of ?m2"
    using t2 heard_same [of ?m1 m l] by (auto simp: told_def)
  have evs_typing: "\<forall>ev\<in>set evs. \<exists>a b. ev = TypingChanged a b"
    using evs(1) typing_events [OF c1, of k "msg_sender msg" False] heard_same [of ?m1 m l] by (auto split: if_splits)
  note ct = typing_commutes [OF evs_typing]
  have final: "view_of (add_message k msg m) = view_of ?m2" by (simp add: add_message_def Let_def)
  show ?thesis
  proof (cases "cv_unread ?cv' = cv_unread ?cv")
    case True
    have "(v_unread (view_of m))(k := cv_unread ?cv') = v_unread (view_of m)" using True by (simp add: view_of_def fun_eq_iff)
    then have "view_of ?m1 = view_of m" unfolding vm1 by simp
    then have "foldl view_step (view_of m) (evs @ [MessageAdded k msg]) = view_of ?m2" using evs(2) by simp
    moreover have "add_message k msg m = emit (MessageAdded k msg) ?m2" using True by (simp add: add_message_def Let_def)
    ultimately show ?thesis
      using heard_emit [OF c2] evs(1) assms(1) c2 unfolding told_def by (metis append.assoc emit_fields(9) view_of_emit)
  next
    case False
    let ?e = "UnreadChanged k (cv_unread ?cv')"
    have "foldl view_step (view_of m) (evs @ [MessageAdded k msg, ?e]) = view_step (foldl view_step (view_of m) evs) ?e" by simp
    also have "\<dots> = foldl view_step (view_step (view_of m) ?e) evs" by (rule ct)
    also have "view_step (view_of m) ?e = view_of ?m1" using vm1 by simp
    finally have v: "foldl view_step (view_of m) (evs @ [MessageAdded k msg, ?e]) = view_of ?m2" using evs(2) by simp
    have a: "add_message k msg m = emit ?e (emit (MessageAdded k msg) ?m2)" using False by (simp add: add_message_def Let_def)
    have "count_list (listeners (emit (MessageAdded k msg) ?m2)) l = 1" using c2 by simp
    from heard_emit [OF this, of ?e] heard_emit [OF c2, of "MessageAdded k msg"] evs(1)
    have "heard l (add_message k msg m) = heard l m @ (evs @ [MessageAdded k msg, ?e])" by (simp add: a)
    with v final assms(1) c2 show ?thesis unfolding told_def by (auto simp: a)
  qed
qed


lemma told_select:
  assumes "count_list (listeners m) l = 1"
  shows "told l m (select key m)"
proof (cases key)
  case None
  have "told l m (emit (ConversationSelected None) (m\<lparr>active := None\<rparr>))"
    by (rule toldI [OF assms]) (simp_all add: view_of_def room_members_def typing_in_def)
  then show ?thesis by (simp add: None select_def)
next
  case (Some k)
  let ?m1 = "emit (ConversationSelected (Some k)) (m\<lparr>active := Some k\<rparr>)"
  have t1: "told l m ?m1" by (rule toldI [OF assms]) (simp_all add: view_of_def room_members_def typing_in_def)
  let ?cv = "snd (cv_mark_read (conv k ?m1))"
  have c1: "count_list (listeners ?m1) l = 1" using assms by simp
  have v: "view_of (put_conv k ?cv ?m1) = (view_of ?m1)\<lparr>v_unread := (v_unread (view_of ?m1))(k := 0)\<rparr>"
    by (auto simp: view_of_def room_members_def typing_in_def fun_eq_iff cv_mark_read_def)
  have "told l ?m1 (if fst (cv_mark_read (conv k ?m1)) then emit (UnreadChanged k 0) (put_conv k ?cv ?m1) else put_conv k ?cv ?m1)"
  proof (cases "cv_unread (conv k ?m1) = 0")
    case True
    then have "(v_unread (view_of ?m1))(k := 0) = v_unread (view_of ?m1)" by (auto simp: view_of_def fun_eq_iff)
    then have "view_of (put_conv k ?cv ?m1) = view_of ?m1" unfolding v by simp
    then have "told l ?m1 (put_conv k ?cv ?m1)" by (intro told_silent) simp_all
    then show ?thesis using True by (simp add: cv_mark_read_def)
  next
    case False
    have "told l ?m1 (emit (UnreadChanged k 0) (put_conv k ?cv ?m1))" by (rule toldI [OF c1]) (simp_all only: put_conv_fields v view_step.simps)
    then show ?thesis using False by (simp add: cv_mark_read_def)
  qed
  then have "told l ?m1 (select key m)" by (simp add: Some select_def Let_def case_prod_beta)
  with t1 show ?thesis by (rule told_trans)
qed

definition quiet :: "nat \<Rightarrow> model_call \<Rightarrow> bool" where
  "quiet l call \<longleftrightarrow> call \<noteq> Subscribe l \<and> call \<noteq> Unsubscribe l"

text \<open>The calls that tell the views of everything they change, and leave the listeners alone.\<close>

fun evented :: "model_call \<Rightarrow> bool" where
  "evented (Subscribe l) = False"
| "evented (Unsubscribe l) = False"
| "evented (Conversation k) = False"
| "evented _ = True"

lemma view_of_put_messages: "cv_unread cv = cv_unread (conv k m) \<Longrightarrow> view_of (put_conv k cv m) = view_of m"
  by (auto simp: view_of_def room_members_def typing_in_def fun_eq_iff)

lemma told_call:
  assumes "count_list (listeners m) l = 1" and "typing_sets m" and "quiet l call"
  shows "told l m (model_do m call)"
proof (cases call)
  case (Subscribe l')
  with assms(3) show ?thesis
    by (auto simp: quiet_def subscribe_def told_def heard_def calls_to_def view_of_def room_members_def typing_in_def conv_def)
next
  case (Unsubscribe l')
  then have "l' \<noteq> l" using assms(3) by (auto simp: quiet_def)
  then have "count_list (remove1 l' xs) l = count_list xs l" for xs by (induction xs) auto
  then show ?thesis
    by (auto simp: Unsubscribe unsubscribe_def told_def heard_def calls_to_def view_of_def room_members_def typing_in_def conv_def)
next
  case (Set_Identity n)
  show ?thesis unfolding Set_Identity model_do.simps set_identity_def
    by (rule toldI [OF assms(1)]) (simp_all add: view_of_def room_members_def typing_in_def)
next
  case (Set_Connection_State st)
  have "told l m (emit (ConnectionStateChanged st) (m\<lparr>connection_state := st\<rparr>))"
    by (rule toldI [OF assms(1)]) (simp_all add: view_of_def room_members_def typing_in_def)
  then show ?thesis by (simp add: Set_Connection_State set_connection_state_def told_refl)
next
  case (Replace_Roster us)
  show ?thesis unfolding Replace_Roster model_do.simps replace_roster_def Let_def
    by (rule toldI [OF assms(1)]) (simp_all add: view_of_def room_members_def typing_in_def)
next
  case (Replace_Contacts es)
  have "told l m (take_contacts c m)" for c
    unfolding take_contacts_def
    by (cases "dict_eq c (contacts m)")
       (auto intro: told_refl intro!: toldI [OF assms(1)] simp: view_of_def room_members_def typing_in_def)
  then show ?thesis by (auto simp: Replace_Contacts replace_contacts_def told_refl split: sum.split)
next
  case (Set_Presence n b)
  let ?m = "if dict_get (contacts m) n \<noteq> None then m\<lparr>contacts := dict_set (contacts m) n b\<rparr> else m"
  have t: "told l m ?m" by (rule told_silent) (simp_all add: view_of_def room_members_def typing_in_def)
  have "told l ?m (emit (PresenceChanged n b) (?m\<lparr>roster := dict_set (roster ?m) n b\<rparr>))"
    by (rule toldI) (use assms(1) in \<open>simp_all add: view_of_def room_members_def typing_in_def\<close>)
  from told_trans [OF t this] t show ?thesis unfolding Set_Presence model_do.simps set_presence_def Let_def by presburger
next
  case (Conversation k)
  have "told l m (open_conv k m)"
    by (rule told_silent) (simp_all add: view_of_def room_members_def typing_in_def)
  then show ?thesis by (simp add: Conversation)
next
  case (Load_History k msgs)
  show ?thesis unfolding Load_History model_do.simps load_history_def
    by (rule toldI [OF assms(1)]) (simp_all add: view_of_put_messages)
next
  case (Set_Receipt k i st)
  have "told l m (emit (ReceiptChanged k i st) (put_conv k (cv\<lparr>cv_messages := ms\<rparr>) m))" if "dict_get (conversations m) k = Some cv" for cv ms
    by (rule toldI [OF assms(1)]) (use that in \<open>simp_all add: view_of_put_messages conv_def\<close>)
  then show ?thesis by (auto simp: Set_Receipt set_receipt_def told_refl split: option.split)
next
  case (Set_Room_Members r ms)
  have "told l m (emit (RoomMembersChanged r (sort ms)) (open_conv r (m\<lparr>cm_rooms := dict_set (cm_rooms m) r (sort ms)\<rparr>)))"
    by (rule toldI [OF assms(1)]) (auto simp: view_of_def room_members_def typing_in_def fun_eq_iff)
  then show ?thesis by (simp add: Set_Room_Members set_room_members_def Let_def told_refl)
next
  case (Raise_Error c msg)
  show ?thesis unfolding Raise_Error model_do.simps raise_error_def by (rule toldI [OF assms(1)]) simp_all
qed (simp_all add: told_select told_add told_typing assms)

lemma typing_sets_same: "cm_typing m' = cm_typing m \<Longrightarrow> typing_sets m \<Longrightarrow> typing_sets m'"
  by (simp add: typing_sets_def)

lemma typing_sets_call:
  assumes "typing_sets m"
  shows "typing_sets (model_do m call)"
proof (cases call)
  case (Add_Message k msg)
  let ?m1 = "put_conv k (cv_add msg (Some k = active m) (conv k m)) m"
  have "typing_sets ?m1" by (rule typing_sets_same [OF _ assms]) simp
  then have "typing_sets (if \<not> msg_mine msg then set_typing k (msg_sender msg) False ?m1 else ?m1)" by (simp add: set_typing_sets)
  then show ?thesis by (rule typing_sets_same [rotated]) (simp add: Add_Message add_message_def Let_def)
next
  case (Set_Typing k n b)
  then show ?thesis using assms set_typing_sets by simp
qed (use assms in \<open>auto intro: typing_sets_same [rotated] simp: subscribe_def unsubscribe_def set_identity_def set_connection_state_def
      replace_roster_def Let_def replace_contacts_def take_contacts_def set_presence_def load_history_def set_receipt_def select_def
      set_room_members_def raise_error_def case_prod_beta split: sum.split option.split\<close>)

lemma told_calls:
  assumes "count_list (listeners m) l = 1" and "typing_sets m" and "list_all (quiet l) calls"
  shows "told l m (foldl model_do m calls)"
  using assms
proof (induction calls arbitrary: m)
  case Nil
  then show ?case by (simp add: told_refl)
next
  case (Cons call calls)
  have t: "told l m (model_do m call)" using Cons.prems by (intro told_call) simp_all
  then have "count_list (listeners (model_do m call)) l = 1" using Cons.prems(1) by (simp add: told_def)
  with Cons.IH [of "model_do m call"] Cons.prems t typing_sets_call show ?case by (auto intro: told_trans)
qed

text \<open>C19: a view that renders on events alone never has to poll. A listener that subscribed to a
  new model and stays subscribed can compute, from nothing but the events it was called with,
  who is logged in, the state of the connection, what is on screen, every unread count, the
  members of every room and who is typing where, exactly as the model has them.\<close>

theorem view_never_has_to_poll:
  assumes "list_all (quiet l) calls"
  shows "foldl view_step (view_of new_chat_model) (heard l (foldl model_do (subscribe l new_chat_model) calls))
    = view_of (foldl model_do (subscribe l new_chat_model) calls)"
proof -
  let ?m = "subscribe l new_chat_model"
  have "count_list (listeners ?m) l = 1" "typing_sets ?m" by (simp_all add: subscribe_def new_chat_model_def typing_sets_def)
  from told_calls [OF this assms] obtain evs where
    "heard l (foldl model_do ?m calls) = heard l ?m @ evs" "foldl view_step (view_of ?m) evs = view_of (foldl model_do ?m calls)"
    by (auto simp: told_def)
  moreover have "heard l ?m = []" "view_of ?m = view_of new_chat_model"
    by (simp_all add: heard_def calls_to_def subscribe_def new_chat_model_def view_of_def room_members_def typing_in_def conv_def)
  ultimately show ?thesis by simp
qed

text \<open>\<open>l\<close> is called 7; alice logs in, gets a message from bob while nothing is on screen, and opens the chat.\<close>

theorem view_never_has_to_poll_witness:
  "let calls = [Set_Identity (u ''alice''), Set_Typing (u ''bob'') (u ''bob'') True,
       Add_Message (u ''bob'') \<lparr>msg_id = PStr (u ''1''), msg_sender = u ''bob'', msg_body = PStr (u ''hi''), msg_ts = 5, msg_mine = False, msg_state = u ''SENT''\<rparr>,
       Select (Some (u ''bob''))];
     m = foldl model_do (subscribe 7 new_chat_model) calls
   in list_all (quiet 7) calls \<and> length (heard 7 m) = 7 \<and> foldl view_step (view_of new_chat_model) (heard 7 m) = view_of m"
proof -
  let ?calls = "[Set_Identity (u ''alice''), Set_Typing (u ''bob'') (u ''bob'') True,
       Add_Message (u ''bob'') \<lparr>msg_id = PStr (u ''1''), msg_sender = u ''bob'', msg_body = PStr (u ''hi''), msg_ts = 5, msg_mine = False, msg_state = u ''SENT''\<rparr>,
       Select (Some (u ''bob''))]"
  have q: "list_all (quiet 7) ?calls" by (simp add: quiet_def)
  have n: "length (heard 7 (foldl model_do (subscribe 7 new_chat_model) ?calls)) = 7"
    by (simp add: heard_def calls_to_def subscribe_def new_chat_model_def set_identity_def set_typing_def add_message_def cv_add_def select_def
        cv_mark_read_def emit_def put_conv_def conv_def new_conversation_def Let_def)
  show ?thesis unfolding Let_def using q n view_never_has_to_poll [OF q] by blast
qed

subsection \<open>Receipts\<close>

text \<open>What a receipt does to one message.\<close>

definition stamp :: "ustr \<Rightarrow> chat_message \<Rightarrow> chat_message" where
  "stamp st msg = (if receipt_order st \<le> receipt_order (msg_state msg) then msg else msg\<lparr>msg_state := st\<rparr>)"

fun stamp_first :: "ustr \<Rightarrow> ustr \<Rightarrow> chat_message list \<Rightarrow> chat_message list" where
  "stamp_first i st [] = []"
| "stamp_first i st (msg # msgs) = (if msg_id msg \<noteq> PStr i then msg # stamp_first i st msgs else stamp st msg # msgs)"

lemma stamp_first_receive: "stamp_first i st msgs = (case receive i st msgs of None \<Rightarrow> msgs | Some msgs' \<Rightarrow> msgs')"
  by (induction msgs) (auto simp: stamp_def split: option.split)

lemma receipt_order_inj: "receipt_order s = receipt_order t \<Longrightarrow> receipt_order s \<noteq> 0 \<Longrightarrow> s = t"
  by (auto simp: receipt_order_def split: if_splits)

lemma stamp_id [simp]: "msg_id (stamp st msg) = msg_id msg"
  by (simp add: stamp_def)

lemma stamp_commute: "stamp s (stamp t msg) = stamp t (stamp s msg)"
proof (cases "s = t")
  case False
  then have "receipt_order s = receipt_order t \<longrightarrow> receipt_order s = 0" using receipt_order_inj by blast
  then show ?thesis by (cases "receipt_order s" "receipt_order t" rule: linorder_cases) (simp_all add: stamp_def)
qed simp

lemma stamp_first_commute: "stamp_first i s (stamp_first i t msgs) = stamp_first i t (stamp_first i s msgs)"
  by (induction msgs) (auto simp: stamp_commute)

lemma stamp_first_other: "i \<noteq> j \<Longrightarrow> stamp_first i s (stamp_first j t msgs) = stamp_first j t (stamp_first i s msgs)"
  by (induction msgs) auto

lemma dict_set_commute: "k \<noteq> k' \<Longrightarrow> dict_get d k \<noteq> None \<Longrightarrow> dict_get d k' \<noteq> None \<Longrightarrow>
    dict_set (dict_set d k v) k' w = dict_set (dict_set d k' w) k v"
  by (induction d) (auto split: if_splits)

definition stamp_conv :: "ustr \<Rightarrow> ustr \<Rightarrow> conversation \<Rightarrow> conversation" where
  "stamp_conv i st cv = cv\<lparr>cv_messages := stamp_first i st (cv_messages cv)\<rparr>"

lemma conversations_set_receipt:
  "conversations (set_receipt k i st m) = (case dict_get (conversations m) k of None \<Rightarrow> conversations m
     | Some cv \<Rightarrow> dict_set (conversations m) k (stamp_conv i st cv))"
  by (auto simp: set_receipt_def stamp_conv_def stamp_first_receive dict_set_same split: option.split)

lemma stamp_conv_commute: "stamp_conv i s (stamp_conv j t cv) = stamp_conv j t (stamp_conv i s cv)"
  by (cases "i = j") (simp_all add: stamp_conv_def stamp_first_commute stamp_first_other)

definition receipt_moved :: "chat_message \<Rightarrow> chat_message \<Rightarrow> bool" where
  "receipt_moved a b \<longleftrightarrow> b = a\<lparr>msg_state := msg_state b\<rparr> \<and> receipt_order (msg_state a) \<le> receipt_order (msg_state b)"

lemma stamp_first_moved: "list_all2 receipt_moved msgs (stamp_first i st msgs)"
  by (induction msgs) (auto simp: receipt_moved_def stamp_def list_all2_same)

text \<open>C29: receipts may cross on the wire. Two receipts lead to the same conversations in either
  order, whatever they are about, and no receipt changes anything of any message but its state,
  nor moves that state backwards.\<close>

theorem receipts_may_cross:
  "conversations (set_receipt k i s (set_receipt k' j t m)) = conversations (set_receipt k' j t (set_receipt k i s m)) \<and>
   list_all2 receipt_moved (cv_messages (conv c m)) (cv_messages (conv c (set_receipt k i s m)))"
proof
  show "conversations (set_receipt k i s (set_receipt k' j t m)) = conversations (set_receipt k' j t (set_receipt k i s m))"
    by (cases "k = k'")
       (auto simp: conversations_set_receipt dict_set_twice stamp_conv_commute dict_set_commute split: option.split)
  show "list_all2 receipt_moved (cv_messages (conv c m)) (cv_messages (conv c (set_receipt k i s m)))"
    using stamp_first_moved
    by (auto simp: conv_def conversations_set_receipt stamp_conv_def receipt_moved_def list_all2_same split: option.split)
qed

subsection \<open>Searching\<close>

text \<open>The specification: the loaded messages whose folded body contains the folded query.\<close>

definition matches :: "(ustr \<Rightarrow> ustr) \<Rightarrow> ustr \<Rightarrow> ustr \<times> chat_message \<Rightarrow> bool" where
  "matches casefold query h = (case msg_body (snd h) of
     PStr b \<Rightarrow> (\<exists>pre post. casefold b = pre @ casefold (strip query) @ post) | _ \<Rightarrow> False)"

definition text_body :: "chat_message \<Rightarrow> bool" where
  "text_body msg = (case msg_body msg of PStr b \<Rightarrow> True | _ \<Rightarrow> False)"

lemma str_find_occurs: "str_find needle s \<noteq> None \<longleftrightarrow> (\<exists>pre post. s = pre @ needle @ post)"
proof
  assume "str_find needle s \<noteq> None"
  then obtain i where "take (length needle) (drop i s) = needle" by (auto simp: str_find_def find_None_iff)
  then have "s = take i s @ needle @ drop (length needle) (drop i s)" by (metis append_take_drop_id)
  then show "\<exists>pre post. s = pre @ needle @ post" by blast
next
  assume "\<exists>pre post. s = pre @ needle @ post"
  then obtain pre post where "s = pre @ needle @ post" by blast
  then have "length pre \<in> set [0..<Suc (length s)]" "take (length needle) (drop (length pre) s) = needle" by auto
  then show "str_find needle s \<noteq> None" unfolding str_find_def find_None_iff by blast
qed

lemma search_bodies_text:
  "list_all (text_body \<circ> snd) hs \<Longrightarrow> search_bodies casefold (casefold (strip query)) hs = Inr (filter (matches casefold query) hs)"
  by (induction hs) (auto simp: text_body_def matches_def str_find_occurs simp del: not_None_eq split: pyval.splits, blast)

text \<open>A search over loaded text returns messages that contain the query, each from the
  conversation it is reported under; as many as there are up to the limit; newest first; and no
  match it leaves out is newer than one it lists.\<close>

theorem search_finds_newest:
  assumes "list_all (text_body \<circ> snd) (all_messages m)" and "casefold (strip query) \<noteq> []"
  shows "\<exists>hits rest. search casefold query limit m = Inr hits \<and>
    mset (hits @ rest) = mset (filter (matches casefold query) (all_messages m)) \<and>
    length hits = min limit (length (filter (matches casefold query) (all_messages m))) \<and>
    sorted_wrt (\<lambda>a b. msg_ts (snd a) \<ge> msg_ts (snd b)) (hits @ rest)"
proof -
  let ?all = "filter (matches casefold query) (all_messages m)"
  let ?s = "sort_key (\<lambda>(_, msg). - msg_ts msg) ?all"
  have "sorted (map (\<lambda>(_, msg). - msg_ts msg) ?s)" by simp
  then have "sorted_wrt (\<lambda>a b. msg_ts (snd a) \<ge> msg_ts (snd b)) ?s" by (simp add: sorted_map case_prod_beta)
  moreover have "search casefold query limit m = Inr (take limit ?s)"
    using assms search_bodies_text [OF assms(1), of casefold query] by (simp add: search_def Let_def)
  moreover have "mset (take limit ?s @ drop limit ?s) = mset ?all" by simp
  moreover have "length (take limit ?s) = min limit (length ?all)" by simp
  ultimately show ?thesis by (metis append_take_drop_id)
qed

text \<open>Two messages from bob, one of them about lunch, at most one hit.\<close>

theorem search_finds_newest_witness:
  "let m = foldl model_do new_chat_model
     (map (Add_Message (u ''bob'')) [\<lparr>msg_id = PStr (u ''1''), msg_sender = u ''bob'', msg_body = PStr (u ''lunch?''), msg_ts = 5, msg_mine = False, msg_state = u ''SENT''\<rparr>,
        \<lparr>msg_id = PStr (u ''2''), msg_sender = u ''bob'', msg_body = PStr (u ''or not''), msg_ts = 6, msg_mine = False, msg_state = u ''SENT''\<rparr>])
   in list_all (text_body \<circ> snd) (all_messages m) \<and> length (all_messages m) = 2 \<and>
     (\<exists>hits rest. search id (u '' lunch '') 1 m = Inr hits \<and>
    mset (hits @ rest) = mset (filter (matches id (u '' lunch '')) (all_messages m)) \<and>
    length hits = min 1 (length (filter (matches id (u '' lunch '')) (all_messages m))) \<and>
    sorted_wrt (\<lambda>a b. msg_ts (snd a) \<ge> msg_ts (snd b)) (hits @ rest))"
proof -
  let ?m = "foldl model_do new_chat_model
     (map (Add_Message (u ''bob'')) [\<lparr>msg_id = PStr (u ''1''), msg_sender = u ''bob'', msg_body = PStr (u ''lunch?''), msg_ts = 5, msg_mine = False, msg_state = u ''SENT''\<rparr>,
        \<lparr>msg_id = PStr (u ''2''), msg_sender = u ''bob'', msg_body = PStr (u ''or not''), msg_ts = 6, msg_mine = False, msg_state = u ''SENT''\<rparr>])"
  have a: "list_all (text_body \<circ> snd) (all_messages ?m)" "length (all_messages ?m) = 2"
    by (simp_all add: all_messages_def new_chat_model_def set_typing_def add_message_def cv_add_def emit_def put_conv_def conv_def
        new_conversation_def Let_def text_body_def)
  have n: "id (strip (u '' lunch '')) \<noteq> []" by (simp add: strip_def rstrip_by_def u_def is_space_def)
  show ?thesis unfolding Let_def using a search_finds_newest [of ?m id "u '' lunch ''" 1, OF a(1) n] by blast
qed

subsection \<open>Contacts and the roster\<close>

text \<open>
  A contact who is already on the roster keeps the roster's state there, whatever the contact list
  says: the two can disagree.
\<close>

lemma contacts_and_roster_can_disagree:
  assumes "dict_get (roster m) n = Some b" and "n \<noteq> []"
  shows "\<exists>m'. replace_contacts [PDict [(u ''user'', PStr n), (u ''online'', PBool (\<not> b))]] m = Inr m' \<and>
    dict_get (contacts m') n = Some (\<not> b) \<and> is_online n m' = b"
proof -
  let ?c = "[(n, \<not> b)]"
  have "replace_contacts [PDict [(u ''user'', PStr n), (u ''online'', PBool (\<not> b))]] m = Inr (take_contacts ?c m)"
    using assms(2) by (simp add: replace_contacts_def pget_def dict_of_def u_def)
  moreover have "dict_get d n = Some (\<not> b)" if "set d = {(n, \<not> b)}" for d
    using that by (metis dict_get_Some_mem dict_get_None_iff insertI1 image_eqI fst_conv not_None_eq set_map singletonD snd_conv)
  then have "dict_get (contacts (take_contacts ?c m)) n = Some (\<not> b)" by (simp add: take_contacts_def dict_eq_def)
  moreover have "is_online n (take_contacts ?c m) = b"
    using assms by (auto simp: take_contacts_def is_online_def setdefaults_get)
  ultimately show ?thesis by blast
qed

subsection \<open>Calls that leave the connection state alone\<close>

fun is_connection :: "event \<Rightarrow> bool" where
  "is_connection (ConnectionStateChanged st) = True"
| "is_connection _ = False"

definition steady :: "chat_model \<Rightarrow> chat_model \<Rightarrow> bool" where
  "steady m m' \<longleftrightarrow> connection_state m' = connection_state m \<and> listeners m' = listeners m \<and>
     (\<exists>es. delivered m' = delivered m @ es \<and> list_all (\<lambda>(_, ev, _). \<not> is_connection ev) es)"

lemma steady_silent:
  "connection_state m' = connection_state m \<Longrightarrow> listeners m' = listeners m \<Longrightarrow> delivered m' = delivered m \<Longrightarrow> steady m m'"
  by (simp add: steady_def)

lemma steady_emit: "steady m m' \<Longrightarrow> \<not> is_connection ev \<Longrightarrow> steady m (emit ev m')"
  by (auto simp: steady_def emit_def list_all_iff)

lemma steady_put: "steady m m' \<Longrightarrow> steady m (put_conv k cv m')"
  by (simp add: steady_def)

lemma steady_set_typing: "steady m m' \<Longrightarrow> steady m (set_typing k n b m')"
  unfolding set_typing_def Let_def by (auto simp: steady_def emit_def list_all_iff)

lemma steady_calls:
  "steady m (add_message k msg m)" "steady m (m\<lparr>active := a\<rparr>)" "steady m (open_conv k m)" "steady m (select a m)" "steady m (raise_error x y m)"
  "steady m (set_receipt k x y m)" "steady m (set_presence x b m)" "steady m (set_typing k x b m)" "steady m (load_history k msgs m)"
  "steady m (set_room_members x xs m)" "steady m (set_identity x m)" "steady m (replace_roster xs m)" "steady m (take_contacts d m)"
  by (auto simp: add_message_def select_def raise_error_def set_receipt_def set_presence_def load_history_def set_room_members_def
      set_identity_def replace_roster_def take_contacts_def Let_def
      intro!: steady_emit steady_put steady_set_typing intro: steady_silent split: option.split prod.split)

end
