(* ===== verification/Controller.thy ===== *)
theory Controller
  imports Reconnect Keyring ChatModel
begin

section \<open>The controller: between the protocol and the model\<close>

text \<open>
  \<open>im/client/controller/chat.py\<close>. A client is a session (the connection the controller calls), a
  model and, when bodies are encrypted, a keyring. Gestures become frames, frames become changes
  of the model. The primitives of the encryption are the parameter \<open>c\<close>; the nonces come from the
  random source of the world.

  The server stamps \<open>from\<close> with the name a connection logged in under, so \<open>sender\<close> is a string or
  missing. A true value that is not a string is answered here with \<open>AttributeError\<close>, which is what
  \<open>key.startswith\<close> raises for it in a direct message.
\<close>

subsection \<open>State\<close>

record client = session +
  ct_model :: chat_model
  ct_ring :: "keyring option"
  ct_held :: "(ustr, ustr list) dict"
  ct_awaiting :: "(ustr, frame list) dict"
  ct_pending_user :: "ustr option"
  ct_pending_room :: "(ustr \<times> ustr list) option"

definition on_model :: "(chat_model \<Rightarrow> chat_model) \<Rightarrow> ('z client_scheme, unit) py" where
  "on_model g = modify (\<lambda>s. s\<lparr>ct_model := g (ct_model s)\<rparr>)"

text \<open>A call on the keyring; without one there is no such attribute.\<close>

definition on_ring :: "(keyring, 'a) py \<Rightarrow> ('z client_scheme, 'a) py" where
  "on_ring m = (\<lambda>s. case ct_ring s of None \<Rightarrow> (Inl Attribute_Error, s)
     | Some kr \<Rightarrow> (case m kr of (r, kr') \<Rightarrow> (r, s\<lparr>ct_ring := Some kr'\<rparr>)))"

definition room_key :: "ustr \<Rightarrow> bool" where
  "room_key key = startswith key (u ''#'')"

definition as_str :: "pyval \<Rightarrow> ('s, ustr) py" where
  "as_str v = (case v of PStr s \<Rightarrow> ret s | _ \<Rightarrow> raise Attribute_Error)"

text \<open>What \<open>for x in v\<close> goes through.\<close>

definition py_iter :: "pyval \<Rightarrow> exn + pyval list" where
  "py_iter v = (case v of PList xs \<Rightarrow> Inr xs | PDict d \<Rightarrow> Inr (map (PStr \<circ> fst) d) | PStr s \<Rightarrow> Inr (map (\<lambda>ch. PStr [ch]) s)
     | _ \<Rightarrow> Inl Type_Error)"

text \<open>\<open>d.get(k) or []\<close>, iterated.\<close>

definition data_list :: "(ustr, pyval) dict \<Rightarrow> string \<Rightarrow> exn + pyval list" where
  "data_list d k = py_iter (py_or (pget d (u k)) (PList []))"

subsection \<open>The methods of the connection the controller calls\<close>

definition cn_message :: "ustr \<Rightarrow> ustr \<Rightarrow> pyval \<Rightarrow> (ustr, ustr \<times> ustr) dict \<Rightarrow> ('z session_scheme, frame) py" where
  "cn_message to body nonce env = live_frame MSG (PStr to) (PStr body) nonce
     (if env = [] then [] else [(u ''env'', PDict (map (\<lambda>(n, ct, nn). (n, PList [PStr ct, PStr nn])) env))])"

definition cn_tell :: "message_type \<Rightarrow> pyval \<Rightarrow> (ustr, pyval) dict \<Rightarrow> ('z session_scheme, unit) py" where
  "cn_tell ty to d = andthen (live_frame ty to PNone PNone d) (ret ())"

definition cn_ping :: "('z session_scheme, unit) py" where
  "cn_ping = cn_tell PING PNone []"

definition cn_typing :: "ustr \<Rightarrow> bool \<Rightarrow> ('z session_scheme, unit) py" where
  "cn_typing to on = cn_tell TYPING (PStr to) [(u ''on'', PBool on)]"

definition cn_receipt :: "ustr \<Rightarrow> pyval \<Rightarrow> string \<Rightarrow> ('z session_scheme, unit) py" where
  "cn_receipt to ref st = cn_tell RECEIPT (PStr to) [(u ''ref'', ref), (u ''state'', PStr (u st))]"

text \<open>The controller's \<open>try: ... except Exception:\<close> around a receipt.\<close>

definition try_receipt :: "ustr \<Rightarrow> pyval \<Rightarrow> string \<Rightarrow> ('z session_scheme, unit) py" where
  "try_receipt to ref st = rescue (cn_receipt to ref st) (\<lambda>_. ret ())"

definition cn_get_key :: "ustr \<Rightarrow> ('z session_scheme, unit) py" where
  "cn_get_key user = cn_tell GET_KEY PNone [(u ''user'', PStr user)]"

definition cn_history :: "ustr \<Rightarrow> int option \<Rightarrow> int \<Rightarrow> ('z session_scheme, unit) py" where
  "cn_history room before limit = cn_tell HISTORY (PStr room)
     ([(u ''room'', PStr room), (u ''limit'', PInt limit)] @ (case before of None \<Rightarrow> [] | Some b \<Rightarrow> [(u ''before'', PInt b)]))"

definition cn_create_room :: "ustr \<Rightarrow> ustr list \<Rightarrow> ('z session_scheme, unit) py" where
  "cn_create_room room members = cn_tell CREATE_ROOM PNone
     ([(u ''room'', PStr room)] @ (if members = [] then [] else [(u ''members'', PList (map PStr members))]))"

definition cn_add_contact :: "ustr \<Rightarrow> ('z session_scheme, unit) py" where
  "cn_add_contact user = cn_tell ADD_CONTACT PNone [(u ''user'', PStr user)]"

definition cn_remove_contact :: "ustr \<Rightarrow> ('z session_scheme, unit) py" where
  "cn_remove_contact user = cn_tell REMOVE_CONTACT PNone [(u ''user'', PStr user)]"

definition cn_invite :: "ustr \<Rightarrow> ustr list \<Rightarrow> ('z session_scheme, unit) py" where
  "cn_invite room members = cn_tell INVITE PNone [(u ''room'', PStr room), (u ''members'', PList (map PStr members))]"

definition cn_join :: "ustr \<Rightarrow> ('z session_scheme, unit) py" where
  "cn_join room = cn_tell JOIN PNone [(u ''room'', PStr room)]"

definition cn_leave :: "ustr \<Rightarrow> ('z session_scheme, unit) py" where
  "cn_leave room = cn_tell LEAVE PNone [(u ''room'', PStr room)]"

lemmas cn_defs = cn_ping_def cn_typing_def cn_receipt_def cn_get_key_def cn_history_def cn_create_room_def cn_add_contact_def
  cn_remove_contact_def cn_invite_def cn_join_def cn_leave_def

subsection \<open>Gestures\<close>

definition ct_hold :: "ustr \<Rightarrow> ustr \<Rightarrow> ustr list \<Rightarrow> ('z client_scheme, unit) py" where
  "ct_hold target text fetch =
     bnd (gets (\<lambda>s. dict_get (ct_held s) target)) (\<lambda>waiting.
     andthen (modify (\<lambda>s. s\<lparr>ct_held := dict_set (ct_held s) target ((case waiting of None \<Rightarrow> [] | Some w \<Rightarrow> w) @ [text])\<rparr>))
       (if waiting = None then for_each fetch cn_get_key else ret ()))"

definition ct_me :: "'z client_scheme \<Rightarrow> ustr" where
  "ct_me s = (case cm_username (ct_model s) of None \<Rightarrow> u ''me'' | Some n \<Rightarrow> if n = [] then u ''me'' else n)"

definition ring_missing :: "ustr list \<Rightarrow> 'z client_scheme \<Rightarrow> ustr list" where
  "ring_missing names s = (case ct_ring s of None \<Rightarrow> [] | Some kr \<Rightarrow> missing_keys names kr)"

text \<open>One nonce is drawn for every envelope.\<close>

definition ct_seal_members :: "crypto \<Rightarrow> ustr list \<Rightarrow> ustr \<Rightarrow> ustr \<Rightarrow> ('z client_scheme, (ustr, ustr \<times> ustr) dict option) py" where
  "ct_seal_members c members text me = bnd (gets (\<lambda>s. \<lambda>i. token_src s (draws s + i))) (\<lambda>nonces.
     andthen (modify (\<lambda>s. s\<lparr>draws := draws s + length (everyone_of members me)\<rparr>))
       (on_ring (seal_for_members c nonces members text me)))"

definition send_to_room :: "crypto \<Rightarrow> ustr \<Rightarrow> ustr \<Rightarrow> ustr \<Rightarrow> ('z client_scheme, frame option) py" where
  "send_to_room c room text me =
     bnd (gets (\<lambda>s. room_members room (ct_model s))) (\<lambda>members.
     bnd (gets (ring_missing (filter (\<lambda>n. n \<noteq> me) members))) (\<lambda>missing.
     if missing \<noteq> [] then andthen (ct_hold room text missing) (ret None)
     else bnd (ct_seal_members c members text me) (\<lambda>r.
       case r of None \<Rightarrow> andthen (ct_hold room text members) (ret None)
       | Some env \<Rightarrow> bnd (cn_message room [] PNone env) (\<lambda>f. ret (Some f)))))"

definition ct_seal :: "crypto \<Rightarrow> ustr \<Rightarrow> ustr \<Rightarrow> ustr \<Rightarrow> ('z client_scheme, (ustr \<times> ustr) option) py" where
  "ct_seal c user text me = bnd token_bytes (\<lambda>nonce. on_ring (kr_seal c nonce user text me))"

text \<open>The frame a message goes out in, or \<open>None\<close> when the text was held.\<close>

definition ct_frame :: "crypto \<Rightarrow> ustr \<Rightarrow> ustr \<Rightarrow> ustr \<Rightarrow> ('z client_scheme, frame option) py" where
  "ct_frame c target text me =
     bnd (gets ct_ring) (\<lambda>ring.
     if ring = None then bnd (cn_message target text PNone []) (\<lambda>f. ret (Some f))
     else if room_key target then send_to_room c target text me
     else bnd (ct_seal c target text me) (\<lambda>r.
       case r of None \<Rightarrow> andthen (ct_hold target text [target]) (ret None)
       | Some (ct, nn) \<Rightarrow> bnd (cn_message target ct (PStr nn) []) (\<lambda>f. ret (Some f))))"

definition my_message :: "frame \<Rightarrow> ustr \<Rightarrow> ustr \<Rightarrow> chat_message" where
  "my_message f me text = \<lparr>msg_id = f_id f, msg_sender = me, msg_body = PStr text, msg_ts = f_ts f, msg_mine = True, msg_state = u ''SENT''\<rparr>"

definition ct_send :: "crypto \<Rightarrow> ustr \<Rightarrow> ('z client_scheme, chat_message option) py" where
  "ct_send c text =
     bnd (gets (\<lambda>s. active (ct_model s))) (\<lambda>act.
     case act of None \<Rightarrow> ret None
     | Some target \<Rightarrow>
       if strip text = [] then ret None
       else bnd (gets ct_me) (\<lambda>me.
         bnd (ct_frame c target text me) (\<lambda>r.
         case r of None \<Rightarrow> ret None
         | Some f \<Rightarrow> andthen (on_model (add_message target (my_message f me text))) (ret (Some (my_message f me text))))))"

text \<open>\<open>try: ... finally:\<close>.\<close>

definition finally_do :: "('s, unit) py \<Rightarrow> ('s, unit) py \<Rightarrow> ('s, unit) py" where
  "finally_do m fin = andthen (rescue m (\<lambda>e. andthen fin (raise e))) fin"

text \<open>The body of the loop of \<open>_release\<close>: what \<open>send\<close> returns is not used.\<close>

definition send_waiting :: "crypto \<Rightarrow> ustr \<Rightarrow> ('z client_scheme, unit) py" where
  "send_waiting c text = bnd (ct_send c text) (\<lambda>_. ret ())"

definition ct_release :: "crypto \<Rightarrow> ustr \<Rightarrow> ('z client_scheme, unit) py" where
  "ct_release c user =
     bnd (gets (\<lambda>s. case dict_get (ct_held s) user of None \<Rightarrow> [] | Some w \<Rightarrow> w)) (\<lambda>waiting.
     andthen (modify (\<lambda>s. s\<lparr>ct_held := dict_pop (ct_held s) user\<rparr>))
     (if waiting = [] then ret ()
      else bnd (gets (\<lambda>s. active (ct_model s))) (\<lambda>previous.
        andthen (on_model (\<lambda>m. m\<lparr>active := Some user\<rparr>))
          (finally_do (for_each waiting (send_waiting c))
             (on_model (\<lambda>m. m\<lparr>active := previous\<rparr>))))))"

definition unread_of :: "ustr \<Rightarrow> 'z client_scheme \<Rightarrow> chat_message list" where
  "unread_of key s = filter (\<lambda>msg. \<not> msg_mine msg \<and> cv_unread (conv key (ct_model s)) \<noteq> 0) (cv_messages (conv key (ct_model s)))"

definition ct_select :: "ustr \<Rightarrow> ('z client_scheme, unit) py" where
  "ct_select key =
     bnd (gets (unread_of key)) (\<lambda>unread.
     andthen (on_model (open_conv key))
     (andthen (on_model (select (Some key)))
     (if room_key key then ret ()
      else for_each unread (\<lambda>msg. try_receipt (msg_sender msg) (msg_id msg) ''READ''))))"

definition ct_typing :: "bool \<Rightarrow> ('z client_scheme, unit) py" where
  "ct_typing on = bnd (gets (\<lambda>s. active (ct_model s))) (\<lambda>act. case act of None \<Rightarrow> ret () | Some key \<Rightarrow> cn_typing key on)"

definition request_history :: "ustr option \<Rightarrow> int \<Rightarrow> ('z client_scheme, bool) py" where
  "request_history key limit = bnd (gets (\<lambda>s. active (ct_model s))) (\<lambda>act.
     case (if key \<in> {None, Some []} then act else key) of
       None \<Rightarrow> ret False
     | Some target \<Rightarrow> andthen (cn_history target None limit) (ret True))"

definition join_and_invite :: "ustr \<Rightarrow> ustr list \<Rightarrow> ('z client_scheme, unit) py" where
  "join_and_invite room members = andthen (cn_join room) (if members = [] then ret () else cn_invite room members)"

definition open_room :: "ustr \<Rightarrow> ustr list \<Rightarrow> ('z client_scheme, unit) py" where
  "open_room room members =
     andthen (modify (\<lambda>s. s\<lparr>ct_pending_room := Some (room, members)\<rparr>))
     (bnd (gets (\<lambda>s. dict_get (cm_rooms (ct_model s)) room \<noteq> None)) (\<lambda>known.
      if known then join_and_invite room members else cn_create_room room members))"

definition open_conversation :: "ustr \<Rightarrow> ('z client_scheme, unit) py" where
  "open_conversation name =
     (let user = strip name in
      if user = [] then ret ()
      else if room_key user then open_room user []
      else bnd (gets ct_model) (\<lambda>m.
        if Some user = cm_username m then on_model (raise_error (u ''BAD_CONTACT'') (u ''you cannot message yourself''))
        else if dict_get (contacts m) user \<noteq> None \<or> dict_get (roster m) user \<noteq> None then ct_select user
        else andthen (modify (\<lambda>s. s\<lparr>ct_pending_user := Some user\<rparr>)) (cn_add_contact user)))"

subsection \<open>Frames\<close>

text \<open>\<open>frame.to or ""\<close>, on which \<open>startswith\<close> is called at once.\<close>

definition target_of :: "frame \<Rightarrow> ('s, ustr) py" where
  "target_of f = as_str (py_or (f_to f) (PStr []))"

definition sender_or :: "frame \<Rightarrow> ustr \<Rightarrow> ('s, ustr) py" where
  "sender_or f other = as_str (py_or (f_sender f) (PStr other))"

definition unreadable :: ustr where
  "unreadable = u ''[could not decrypt this message]''"

text \<open>Opening what was sealed; \<open>DecryptionFailed\<close> is shown in place.\<close>

definition ct_open :: "crypto \<Rightarrow> ustr \<Rightarrow> pyval \<Rightarrow> pyval \<Rightarrow> ustr \<Rightarrow> ('z client_scheme, pyval) py" where
  "ct_open c peer body nonce sender =
     rescue (bnd (on_ring (kr_open c peer body nonce sender)) (\<lambda>t. ret (PStr t)))
       (\<lambda>e. if e = Decryption_Failed then ret (PStr unreadable) else raise e)"

definition plaintext :: "crypto \<Rightarrow> frame \<Rightarrow> ustr \<Rightarrow> ('z client_scheme, pyval) py" where
  "plaintext c f peer = bnd (gets ct_ring) (\<lambda>ring.
     if ring = None \<or> \<not> py_truthy (f_nonce f) then ret (py_or (f_body f) (PStr []))
     else bnd (sender_or f []) (ct_open c peer (py_or (f_body f) (PStr [])) (f_nonce f)))"

definition ct_file :: "crypto \<Rightarrow> frame \<Rightarrow> ustr \<Rightarrow> ('z client_scheme, unit) py" where
  "ct_file c f key =
     bnd (sender_or f (u ''?'')) (\<lambda>sender.
     bnd (sender_or f key) (\<lambda>peer.
     andthen (if py_truthy (f_sender f) \<and> \<not> room_key key
              then try_receipt sender (f_id f) ''DELIVERED'' else ret ())
     (bnd (plaintext c f peer) (\<lambda>body.
      bnd (if f_ts f \<noteq> 0 then ret (f_ts f) else now_ms) (\<lambda>ts.
      on_model (add_message key
        \<lparr>msg_id = f_id f, msg_sender = sender, msg_body = body, msg_ts = ts, msg_mine = False, msg_state = u ''SENT''\<rparr>))))))"

definition incoming_message :: "crypto \<Rightarrow> frame \<Rightarrow> ('z client_scheme, unit) py" where
  "incoming_message c f =
     bnd (target_of f) (\<lambda>target.
     bnd (if room_key target then ret target else sender_or f target) (\<lambda>key.
     if key = [] then ret ()
     else bnd (sender_or f key) (\<lambda>peer.
       bnd (gets (\<lambda>s. py_truthy (f_nonce f) \<and> Some peer \<noteq> cm_username (ct_model s) \<and>
              (case ct_ring s of None \<Rightarrow> False | Some kr \<Rightarrow> \<not> kr_knows peer kr))) (\<lambda>wait.
       if wait
       then bnd (gets (\<lambda>s. dict_get (ct_awaiting s) peer)) (\<lambda>waiting.
            andthen (modify (\<lambda>s. s\<lparr>ct_awaiting := dict_set (ct_awaiting s) peer ((case waiting of None \<Rightarrow> [] | Some w \<Rightarrow> w) @ [f])\<rparr>))
              (if waiting = None then cn_get_key peer else ret ()))
       else ct_file c f key))))"

definition deliver_awaiting :: "crypto \<Rightarrow> ustr \<Rightarrow> ('z client_scheme, unit) py" where
  "deliver_awaiting c user =
     bnd (gets (\<lambda>s. case dict_get (ct_awaiting s) user of None \<Rightarrow> [] | Some w \<Rightarrow> w)) (\<lambda>waiting.
     andthen (modify (\<lambda>s. s\<lparr>ct_awaiting := dict_pop (ct_awaiting s) user\<rparr>))
     (for_each waiting (\<lambda>f. bnd (target_of f) (\<lambda>target. ct_file c f (if room_key target then target else user)))))"

text \<open>\<open>_receipt\<close>, \<open>_presence\<close> and \<open>_typing\<close>.\<close>

definition in_receipt :: "frame \<Rightarrow> ('z client_scheme, unit) py" where
  "in_receipt f =
     (let ref = pget (f_data f) (u ''ref''); st = pget (f_data f) (u ''state'') in
      if py_truthy ref \<and> py_truthy st \<and> py_truthy (f_sender f)
      then on_model (set_receipt (py_str (f_sender f)) (py_str ref) (py_str st)) else ret ())"

definition in_presence :: "frame \<Rightarrow> ('z client_scheme, unit) py" where
  "in_presence f =
     (let user = pget (f_data f) (u ''user'') in
      if py_truthy user then on_model (set_presence (py_str user) (pget (f_data f) (u ''state'') = PStr (u ''ONLINE''))) else ret ())"

definition in_typing :: "frame \<Rightarrow> ('z client_scheme, unit) py" where
  "in_typing f =
     (if \<not> py_truthy (f_sender f) then ret ()
      else bnd (target_of f) (\<lambda>target. bnd (sender_or f []) (\<lambda>sender.
        on_model (set_typing (if room_key target then target else sender) sender (py_truthy (pget (f_data f) (u ''on'')))))))"

definition in_key :: "crypto \<Rightarrow> frame \<Rightarrow> ('z client_scheme, unit) py" where
  "in_key c f =
     (let user = pget (f_data f) (u ''user''); pubkey = pget (f_data f) (u ''pubkey'') in
      bnd (gets ct_ring) (\<lambda>ring.
      if \<not> py_truthy user \<or> \<not> py_truthy pubkey \<or> ring = None then ret ()
      else andthen (on_ring (modify (kr_remember (py_str user) (py_str pubkey))))
        (andthen (ct_release c (py_str user))
        (andthen (deliver_awaiting c (py_str user))
        (bnd (gets (\<lambda>s. filter room_key (dict_keys (ct_held s)))) (\<lambda>rooms.
         for_each rooms (\<lambda>room.
           bnd (gets (\<lambda>s. ring_missing (filter (\<lambda>n. Some n \<noteq> cm_username (ct_model s)) (room_members room (ct_model s))) s)) (\<lambda>missing.
           if missing = [] then ct_release c room else ret ()))))))))"

text \<open>One row of \<open>_history_result\<close> and its body, \<open>_stored_plaintext\<close>.\<close>

definition stored_plaintext :: "crypto \<Rightarrow> (ustr, pyval) dict \<Rightarrow> ustr \<Rightarrow> ustr \<Rightarrow> ('z client_scheme, pyval) py" where
  "stored_plaintext c row key me =
     (let body = py_str (py_or (pget row (u ''body'')) (PStr [])); nonce = pget row (u ''n'');
          author = py_str (py_or (pget row (u ''from'')) (PStr []));
          peer = (if author \<noteq> me then author else if room_key key then me else key)
      in bnd (gets ct_ring) (\<lambda>ring.
         if ring = None \<or> \<not> py_truthy nonce then ret (PStr body)
         else ct_open c peer (PStr body) (PStr (py_str nonce)) author))"

definition get_or :: "(ustr, pyval) dict \<Rightarrow> string \<Rightarrow> string \<Rightarrow> pyval" where
  "get_or d k dflt = (case dict_get d (u k) of None \<Rightarrow> PStr (u dflt) | Some v \<Rightarrow> v)"

definition history_row :: "crypto \<Rightarrow> ustr \<Rightarrow> ustr option \<Rightarrow> pyval \<Rightarrow> ('z client_scheme, chat_message) py" where
  "history_row c key me r = (case r of
     PDict row \<Rightarrow>
       bnd (stored_plaintext c row key (case me of None \<Rightarrow> [] | Some n \<Rightarrow> n)) (\<lambda>body.
       bnd (if py_truthy (pget row (u ''ts'')) then ret (pget row (u ''ts'')) else bnd now_ms (\<lambda>t. ret (PInt t))) (\<lambda>t.
       bnd (lift (py_int t)) (\<lambda>ts.
       ret \<lparr>msg_id = PStr (py_str (get_or row ''id'' [])), msg_sender = py_str (get_or row ''from'' ''?''), msg_body = body, msg_ts = ts,
            msg_mine = (pget row (u ''from'') = (case me of None \<Rightarrow> PNone | Some n \<Rightarrow> PStr n)), msg_state = u ''SENT''\<rparr>)))
   | _ \<Rightarrow> raise Attribute_Error)"

definition history_result :: "crypto \<Rightarrow> frame \<Rightarrow> ('z client_scheme, unit) py" where
  "history_result c f =
     (let key = py_or (pget (f_data f) (u ''room'')) (f_to f) in
      if \<not> py_truthy key then ret ()
      else bnd (gets (\<lambda>s. cm_username (ct_model s))) (\<lambda>me.
        bnd (lift (data_list (f_data f) ''messages'')) (\<lambda>rows.
        bnd (map_each rows (history_row c (py_str key) me)) (\<lambda>msgs.
        on_model (load_history (py_str key) msgs)))))"

definition in_room_state :: "frame \<Rightarrow> ('z client_scheme, unit) py" where
  "in_room_state f =
     (let room = py_or (pget (f_data f) (u ''room'')) (f_to f) in
      if \<not> py_truthy room then ret ()
      else bnd (lift (data_list (f_data f) ''members'')) (\<lambda>members.
        andthen (on_model (set_room_members (py_str room) (map py_str members)))
        (bnd (gets (\<lambda>s. (case ct_pending_room s of None \<Rightarrow> False | Some (r, _) \<Rightarrow> r = py_str room) \<and>
               (case cm_username (ct_model s) of None \<Rightarrow> False | Some me \<Rightarrow> me \<in> set (room_members (py_str room) (ct_model s))))) (\<lambda>mine.
         if mine then andthen (modify (\<lambda>s. s\<lparr>ct_pending_room := None\<rparr>)) (ct_select (py_str room)) else ret ()))))"

text \<open>\<open>replace_contacts\<close> changes nothing when it raises.\<close>

definition with_contacts :: "pyval list \<Rightarrow> chat_model \<Rightarrow> chat_model" where
  "with_contacts es m = (case replace_contacts es m of Inl _ \<Rightarrow> m | Inr m' \<Rightarrow> m')"

lemma steady_contacts: "steady m (with_contacts es m)"
  by (auto simp: with_contacts_def replace_contacts_def steady_calls intro: steady_silent split: sum.split)

definition ct_contacts :: "frame \<Rightarrow> ('z client_scheme, unit) py" where
  "ct_contacts f =
     bnd (lift (data_list (f_data f) ''contacts'')) (\<lambda>es.
     bnd (gets (\<lambda>s. replace_contacts es (ct_model s))) (\<lambda>r. andthen (lift r) (on_model (with_contacts es))))"

definition open_pending_user :: "('z client_scheme, unit) py" where
  "open_pending_user = bnd (gets (\<lambda>s. (ct_pending_user s, contacts (ct_model s)))) (\<lambda>(pending, known).
     case pending of None \<Rightarrow> ret ()
     | Some user \<Rightarrow> if dict_get known user \<noteq> None
         then andthen (modify (\<lambda>s. s\<lparr>ct_pending_user := None\<rparr>)) (ct_select user) else ret ())"

definition on_error :: "ustr \<Rightarrow> ('z client_scheme, unit) py" where
  "on_error code = bnd (gets ct_pending_room) (\<lambda>pending.
     if code = u ''NO_SUCH_USER'' then modify (\<lambda>s. s\<lparr>ct_pending_user := None\<rparr>)
     else if code = u ''ROOM_EXISTS'' \<and> pending \<noteq> None
       then (case pending of None \<Rightarrow> ret () | Some (room, members) \<Rightarrow> join_and_invite room members)
     else if code \<in> {u ''NO_SUCH_ROOM'', u ''BAD_ROOM''} then modify (\<lambda>s. s\<lparr>ct_pending_room := None\<rparr>)
     else ret ())"

definition logged_in :: "frame \<Rightarrow> ('z client_scheme, unit) py" where
  "logged_in f =
     (let name = pget (f_data f) (u ''user'') in
      andthen (if py_truthy name then on_model (set_identity (py_str name)) else ret ())
      (bnd (lift (data_list (f_data f) ''roster'')) (\<lambda>names.
       andthen (on_model (replace_roster (map py_str names))) (ct_contacts f))))"

definition on_frame :: "crypto \<Rightarrow> frame \<Rightarrow> ('z client_scheme, unit) py" where
  "on_frame c f = (case f_type f of
       MSG \<Rightarrow> incoming_message c f
     | PRESENCE \<Rightarrow> in_presence f
     | TYPING \<Rightarrow> in_typing f
     | RECEIPT \<Rightarrow> in_receipt f
     | KEY \<Rightarrow> in_key c f
     | HISTORY_RESULT \<Rightarrow> history_result c f
     | CONTACTS \<Rightarrow> andthen (ct_contacts f) open_pending_user
     | ROOM_STATE \<Rightarrow> in_room_state f
     | LOGIN_OK \<Rightarrow> logged_in f
     | ERROR \<Rightarrow>
         (let code = py_str (get_or (f_data f) ''code'' ''ERROR'') in
          andthen (on_error code) (on_model (raise_error code (py_str (get_or (f_data f) ''message'' [])))))
     | _ \<Rightarrow> ret ())"

definition on_state :: "ustr \<Rightarrow> ('z client_scheme, unit) py" where
  "on_state st = on_model (set_connection_state st)"

subsection \<open>Everything that can happen to a client\<close>

datatype client_step =
    Do_Send ustr | Do_Select ustr | Do_Typing bool | Do_History "ustr option" int | Do_Create ustr "ustr list"
  | Do_Invite ustr "ustr list" | Do_Open ustr | Do_Open_Room ustr "ustr list" | Do_Add ustr | Do_Remove ustr
  | Do_Join ustr | Do_Leave ustr | Do_Ping | Got_Frame frame | Got_State ustr | Got_Io io
  | Start bool bool "io list" "io list" "io list" | Close | Supervise rat bool bool "io list" "io list"

text \<open>A step that raises ends there; what it did before stays.\<close>

definition client_do :: "crypto \<Rightarrow> 'z client_scheme \<Rightarrow> client_step \<Rightarrow> 'z client_scheme" where
  "client_do c s st = (case st of
       Do_Send t \<Rightarrow> after (ct_send c t) s
     | Do_Select k \<Rightarrow> after (ct_select k) s
     | Do_Typing b \<Rightarrow> after (ct_typing b) s
     | Do_History k n \<Rightarrow> after (request_history k n) s
     | Do_Create r ms \<Rightarrow> after (cn_create_room r ms) s
     | Do_Invite r ms \<Rightarrow> after (cn_invite r ms) s
     | Do_Open n \<Rightarrow> after (open_conversation n) s
     | Do_Open_Room r ms \<Rightarrow> after (open_room r ms) s
     | Do_Add n \<Rightarrow> after (cn_add_contact n) s
     | Do_Remove n \<Rightarrow> after (cn_remove_contact n) s
     | Do_Join r \<Rightarrow> after (cn_join r) s
     | Do_Leave r \<Rightarrow> after (cn_leave r) s
     | Do_Ping \<Rightarrow> after cn_ping s
     | Got_Frame f \<Rightarrow> after (on_frame c f) s
     | Got_State st \<Rightarrow> after (on_state st) s
     | Got_Io i \<Rightarrow> after (io_turn i) s
     | Start reg dialled ios1 ios2 ios3 \<Rightarrow> after (session_start reg dialled ios1 ios2 ios3) s
     | Close \<Rightarrow> after session_close s
     | Supervise r stopped dialled ios1 ios2 \<Rightarrow> after (watch_turn r stopped dialled ios1 ios2) s)"

subsection \<open>Facts about every operation of the controller\<close>

text \<open>
  A relation between the state before and after that the primitives of the controller respect is
  respected by its gestures and by what it does on a frame. The primitives: a call of the model that
  announces what it changes, a change of the controller's own fields, a frame that is no message, the
  building of a message frame, opening what was sealed, selecting a conversation. Only a public key
  makes the controller do more, because text waiting for it goes out behind the back of the views.
\<close>

locale call_rel = world_rel R for R :: "'z client_scheme \<Rightarrow> 'z client_scheme \<Rightarrow> bool" +
  fixes c :: crypto
  assumes runs_call: "evented call \<Longrightarrow> runs_in R (on_model (\<lambda>m. model_do m call))"
    and runs_select: "runs_in R (ct_select key)"
    and runs_tell: "ty \<noteq> MSG \<Longrightarrow> runs_in R (cn_tell ty to d)"
    and runs_ct_frame: "runs_in R (ct_frame c target text me)"
    and runs_open: "runs_in R (ct_open c peer body nonce sender)"
    and runs_held: "runs_in R (modify (\<lambda>s. s\<lparr>ct_held := h s\<rparr>))"
    and runs_awaiting: "runs_in R (modify (\<lambda>s. s\<lparr>ct_awaiting := w s\<rparr>))"
    and runs_pending_user: "runs_in R (modify (\<lambda>s. s\<lparr>ct_pending_user := p s\<rparr>))"
    and runs_pending_room: "runs_in R (modify (\<lambda>s. s\<lparr>ct_pending_room := q s\<rparr>))"
begin

lemma runs_cn:
  "runs_in R cn_ping" "runs_in R (cn_typing a b)" "runs_in R (cn_receipt a v t)" "runs_in R (cn_get_key a)"
  "runs_in R (cn_history a i n)" "runs_in R (cn_create_room a ms)" "runs_in R (cn_add_contact a)" "runs_in R (cn_remove_contact a)"
  "runs_in R (cn_invite a ms)" "runs_in R (cn_join a)" "runs_in R (cn_leave a)" "runs_in R (try_receipt a v t)"
  unfolding try_receipt_def cn_defs by (intro runs_rules runs_tell, simp)+

lemma runs_as_str: "runs_in R (as_str v)"
  by (simp add: as_str_def runs_rules split: pyval.split)

lemma runs_calls:
  "runs_in R (on_model (add_message k msg))" "runs_in R (on_model (select a))" "runs_in R (on_model (raise_error x y))"
  "runs_in R (on_model (set_receipt k x y))" "runs_in R (on_model (set_presence x b))" "runs_in R (on_model (set_typing k x b))"
  "runs_in R (on_model (load_history k msgs))" "runs_in R (on_model (set_room_members x xs))" "runs_in R (on_model (set_identity x))"
  "runs_in R (on_model (replace_roster xs))" "runs_in R (on_model (with_contacts es))" "runs_in R (on_model (set_connection_state st))"
  using runs_call [of "Add_Message k msg"] runs_call [of "Select a"] runs_call [of "Raise_Error x y"] runs_call [of "Set_Receipt k x y"]
    runs_call [of "Set_Presence x b"] runs_call [of "Set_Typing k x b"] runs_call [of "Load_History k msgs"] runs_call [of "Set_Room_Members x xs"]
    runs_call [of "Set_Identity x"] runs_call [of "Replace_Roster xs"] runs_call [of "Replace_Contacts es"] runs_call [of "Set_Connection_State st"]
  by (simp_all add: with_contacts_def [abs_def])

lemma runs_on_state: "runs_in R (on_state st)"
  unfolding on_state_def by (rule runs_calls)

lemmas controller_rules = world_rules runs_calls runs_cn runs_open runs_held runs_awaiting runs_pending_user runs_pending_room runs_as_str

lemma runs_ct_send: "runs_in R (ct_send c text)"
  unfolding ct_send_def by (intro controller_rules runs_ct_frame)

lemma runs_join: "runs_in R (join_and_invite room members)"
  unfolding join_and_invite_def by (intro controller_rules)

lemma runs_gestures:
  "runs_in R (ct_typing b)" "runs_in R (request_history k n)" "runs_in R (open_room r ms)" "runs_in R (open_conversation n')"
  unfolding ct_typing_def request_history_def open_conversation_def open_room_def Let_def
  by (intro controller_rules runs_join runs_select)+

lemma runs_file: "runs_in R (ct_file c f key)"
  unfolding ct_file_def plaintext_def sender_or_def by (intro controller_rules)

lemma runs_deliver_awaiting: "runs_in R (deliver_awaiting c user)"
  unfolding deliver_awaiting_def target_of_def by (intro controller_rules runs_file)

lemma runs_inbound:
  "runs_in R (incoming_message c f)" "runs_in R (in_receipt f)" "runs_in R (in_presence f)" "runs_in R (in_typing f)"
  unfolding incoming_message_def in_receipt_def in_presence_def in_typing_def target_of_def sender_or_def Let_def
  by (intro controller_rules runs_file)+

lemma runs_stored: "runs_in R (stored_plaintext c row key me)"
  unfolding stored_plaintext_def Let_def by (intro controller_rules)

lemma runs_history_row: "runs_in R (history_row c key me r)"
proof (cases "\<exists>row. r = PDict row")
  case True
  then obtain row where r: "r = PDict row" ..
  show ?thesis unfolding history_row_def r pyval.case by (intro controller_rules runs_stored)
qed (auto simp: history_row_def intro: runs_pure split: pyval.split)

lemma runs_results:
  "runs_in R (history_result c f)" "runs_in R (in_room_state f)" "runs_in R (ct_contacts f)" "runs_in R open_pending_user"
  "runs_in R (on_error code)" "runs_in R (logged_in f)"
  unfolding history_result_def in_room_state_def ct_contacts_def open_pending_user_def on_error_def logged_in_def Let_def
  by (auto intro!: controller_rules runs_history_row runs_select runs_join)

lemma runs_most_frames: "f_type f \<noteq> KEY \<Longrightarrow> runs_in R (on_frame c f)"
  unfolding on_frame_def Let_def by (cases "f_type f") (auto intro!: controller_rules runs_inbound runs_results)

end

text \<open>When the relation allows any change of the model that leaves the connection alone, keys are covered too.\<close>

locale client_rel = world_rel R for R :: "'z client_scheme \<Rightarrow> 'z client_scheme \<Rightarrow> bool" +
  fixes c :: crypto
  assumes runs_on_model: "(\<And>m. steady m (g m)) \<Longrightarrow> runs_in R (on_model g)"
    and runs_state: "runs_in R (on_state st)"
    and runs_told: "ty \<noteq> MSG \<Longrightarrow> runs_in R (cn_tell ty to d)"
    and runs_framed: "runs_in R (ct_frame c target text me)"
    and runs_opened: "runs_in R (ct_open c peer body nonce sender)"
    and runs_remember: "runs_in R (on_ring (modify (kr_remember n pk)))"
    and runs_fields: "runs_in R (modify (\<lambda>s. s\<lparr>ct_held := h s\<rparr>))" "runs_in R (modify (\<lambda>s. s\<lparr>ct_awaiting := w s\<rparr>))"
      "runs_in R (modify (\<lambda>s. s\<lparr>ct_pending_user := p s\<rparr>))" "runs_in R (modify (\<lambda>s. s\<lparr>ct_pending_room := q s\<rparr>))"

lemma steady_evented: "evented call \<Longrightarrow> (\<And>st. call \<noteq> Set_Connection_State st) \<Longrightarrow> steady m (model_do m call)"
  using steady_contacts by (cases call) (auto simp: steady_calls with_contacts_def)

sublocale client_rel \<subseteq> call_rel
proof unfold_locales
  show "runs_in R (on_model (\<lambda>m. model_do m call))" if "evented call" for call
  proof (cases "\<exists>st. call = Set_Connection_State st")
    case True
    then show ?thesis using runs_state by (auto simp: on_state_def)
  next
    case False
    then show ?thesis using that by (intro runs_on_model steady_evented) auto
  qed
  show cn: "runs_in R (cn_tell ty to d)" if "ty \<noteq> MSG" for ty to d using that by (rule runs_told)
  have "runs_in R (try_receipt a v t)" for a v t
    unfolding try_receipt_def cn_receipt_def by (intro runs_rules runs_told) simp
  then show "runs_in R (ct_select key)" for key
    unfolding ct_select_def by (intro runs_rules runs_on_model steady_calls)
qed (intro runs_framed runs_opened runs_fields)+

context client_rel
begin

lemma runs_finally: "runs_in R m \<Longrightarrow> runs_in R fin \<Longrightarrow> runs_in R (finally_do m fin)"
  unfolding finally_do_def by (intro runs_rules)

lemma runs_release: "runs_in R (ct_release c user)"
  unfolding ct_release_def send_waiting_def by (intro controller_rules runs_on_model steady_calls runs_finally runs_ct_send)

lemma runs_in_key: "runs_in R (in_key c f)"
  unfolding in_key_def Let_def by (intro controller_rules runs_remember runs_release runs_deliver_awaiting)

lemma runs_on_frame: "runs_in R (on_frame c f)"
proof (cases "f_type f = KEY")
  case True
  then show ?thesis using runs_in_key by (simp add: on_frame_def)
qed (rule runs_most_frames)

end

subsection \<open>Concrete instances\<close>

definition sample_client :: "keyring option \<Rightarrow> chat_model \<Rightarrow> (ustr, ustr list) dict \<Rightarrow> client" where
  "sample_client kr m held = \<lparr>uuid_src = nat_str, clock_src = int, token_src = (\<lambda>n. [byte_of n]), scrypt_fn = (\<lambda>p salt. p @ salt), draws = 0,
     lk_username = Some (u ''alice''), lk_machine = \<lparr>mc_state = ONLINE, mc_watched = True, mc_seen = [ONLINE]\<rparr>,
     lk_buffer = new_line_buffer MAX_LINE_BYTES, lk_outbox = [], lk_closing = False, lk_await = [], lk_reply = None,
     lk_ready = False, lk_hb_made = True, lk_beating = True, lk_unanswered = 0, lk_reading = True, lk_writing = True,
     lk_sock_open = True, lk_wire = [], lk_heard = [], lk_wait_turns = [Tn_Write True], lk_flush_turns = [Tn_Write True, Tn_Write True],
     se_user = u ''alice'', se_pass = u ''pw'', se_pubkey = None, se_has = True,
     se_stopped = False, se_supervised = True, se_reconnects = 0, se_backoff = new_backoff,
     ct_model = m, ct_ring = kr, ct_held = held, ct_awaiting = [], ct_pending_user = None, ct_pending_room = None\<rparr>"

definition sample_model :: "ustr option \<Rightarrow> chat_model" where
  "sample_model act = new_chat_model\<lparr>cm_username := Some (u ''alice''), active := act\<rparr>"

lemma sample_client_fields [simp]:
  "ct_model (sample_client kr m h) = m" "ct_ring (sample_client kr m h) = kr" "ct_held (sample_client kr m h) = h"
  "ct_awaiting (sample_client kr m h) = []" "lk_outbox (sample_client kr m h) = []" "lk_wire (sample_client kr m h) = []"
  by (simp_all add: sample_client_def)

definition key_of_bob :: frame where
  "key_of_bob = sample_frame\<lparr>f_type := KEY, f_data := [(u ''user'', PStr (u ''bob'')),
     (u ''pubkey'', PStr (public_b64 toy_crypto (sample_private (u ''bob''))))]\<rparr>"

end
