(* ===== verification/ClientSafety.thy ===== *)
theory ClientSafety
  imports Controller
begin

section \<open>What leaves a client\<close>

text \<open>
  A client with a keyring never puts a message on the wire that is not sealed, whatever the user
  does, whatever the server sends and however the threads interleave.
\<close>

subsection \<open>Results of a computation that keeps an invariant\<close>

definition yields :: "('s \<Rightarrow> bool) \<Rightarrow> ('s, 'a) py \<Rightarrow> ('a \<Rightarrow> bool) \<Rightarrow> bool" where
  "yields I m P \<longleftrightarrow> (\<forall>s. I s \<longrightarrow> I (after m s) \<and> (\<forall>x. outcome m s = Inr x \<longrightarrow> P x))"

lemma yields_bnd:
  assumes "yields I m P" and "\<And>x. P x \<Longrightarrow> yields I (f x) Q"
  shows "yields I (bnd m f) Q"
  unfolding yields_def
proof (intro allI impI)
  fix s assume "I s"
  obtain r s' where m: "m s = (r, s')" by (cases "m s")
  then have "I s'" "\<And>x. r = Inr x \<Longrightarrow> P x" using assms(1) \<open>I s\<close> by (auto simp: yields_def)
  then show "I (after (bnd m f) s) \<and> (\<forall>x. outcome (bnd m f) s = Inr x \<longrightarrow> Q x)"
    using assms(2) m by (cases r) (auto simp: bnd_def yields_def)
qed

lemma yields_keeps: "runs_in (keeps I) m \<longleftrightarrow> yields I m (\<lambda>_. True)"
  by (simp add: yields_def runs_in_def keeps_def)

lemma yields_weaken: "yields I m P \<Longrightarrow> (\<And>x. P x \<Longrightarrow> Q x) \<Longrightarrow> yields I m Q"
  by (auto simp: yields_def)

lemma yields_runs: "yields I m P \<Longrightarrow> runs_in (keeps I) m"
  by (auto simp: yields_def runs_in_def keeps_def)

lemma yields_ret: "P x \<Longrightarrow> yields I (ret x) P"
  by (simp add: yields_def)

lemma yields_raise: "yields I (raise e) P"
  by (simp add: yields_def)

lemma yields_lift: "(\<And>x. r = Inr x \<Longrightarrow> P x) \<Longrightarrow> yields I (lift r) P"
  by (simp add: yields_def)

lemma keeps_bnd: "yields I m P \<Longrightarrow> (\<And>x. P x \<Longrightarrow> runs_in (keeps I) (f x)) \<Longrightarrow> runs_in (keeps I) (bnd m f)"
  unfolding yields_keeps by (rule yields_bnd)

subsection \<open>What a keyring seals\<close>

definition ring_of :: "crypto \<Rightarrow> byte list \<Rightarrow> keyring \<Rightarrow> bool" where
  "ring_of c priv kr \<longleftrightarrow> ring_ok c kr \<and> kr_private kr = priv"

interpretation ro: run_rel "keeps (ring_of c priv)" for c priv
  by unfold_locales (auto simp: keeps_def)

definition sealed_part :: "crypto \<Rightarrow> byte list \<Rightarrow> ustr \<Rightarrow> ustr \<Rightarrow> bool" where
  "sealed_part c priv ct nn \<longleftrightarrow> (\<exists>pk k nonce text me. key_for c priv pk = Inr k \<and> seal c k nonce text me = Inr (ct, nn))"

lemma kr_key_yields:
  "yields (ring_of c priv) (kr_key c user) (\<lambda>r. \<forall>k. r = Some k \<longrightarrow> (\<exists>pk. key_for c priv pk = Inr k))"
  unfolding yields_def
proof (intro allI impI)
  fix kr assume "ring_of c priv kr"
  then have ok: "ring_ok c kr" "kr_private kr = priv" by (simp_all add: ring_of_def)
  obtain d where "kr_key c user kr = (fresh_key c user kr, (ring_for c user kr)\<lparr>kr_derived := d\<rparr>)"
    "ring_ok c ((ring_for c user kr)\<lparr>kr_derived := d\<rparr>)" using kr_key_run [OF ok(1)] by blast
  then show "ring_of c priv (after (kr_key c user) kr) \<and>
      (\<forall>r. outcome (kr_key c user) kr = Inr r \<longrightarrow> (\<forall>k. r = Some k \<longrightarrow> (\<exists>pk. key_for c priv pk = Inr k)))"
    using ok by (auto simp: ring_of_def fresh_key_def split: option.splits sum.splits)
qed

lemma kr_seal_yields: "yields (ring_of c priv) (kr_seal c nonce user text me) (\<lambda>r. \<forall>ct nn. r = Some (ct, nn) \<longrightarrow> sealed_part c priv ct nn)"
  unfolding kr_seal_def
proof (rule yields_bnd [OF kr_key_yields])
  fix r assume r: "\<forall>k. r = Some k \<longrightarrow> (\<exists>pk. key_for c priv pk = Inr k)"
  show "yields (ring_of c priv) (case r of None \<Rightarrow> ret None | Some key \<Rightarrow> bnd (lift (seal c key nonce text me)) (\<lambda>r. ret (Some r)))
      (\<lambda>r. \<forall>ct nn. r = Some (ct, nn) \<longrightarrow> sealed_part c priv ct nn)"
  proof (cases r)
    case (Some key)
    obtain pk where pk: "key_for c priv pk = Inr key" using r Some by blast
    have "yields (ring_of c priv) (lift (seal c key nonce text me)) (\<lambda>p. sealed_part c priv (fst p) (snd p))"
      using pk by (intro yields_lift) (force simp: sealed_part_def)
    then show ?thesis unfolding Some option.case by (rule yields_bnd) (auto simp: yields_def)
  qed (auto intro: yields_ret)
qed

lemma any_missing_runs: "runs_in (keeps (ring_of c priv)) (any_missing c ns)"
  by (induction ns) (auto intro!: ro.runs_rules yields_runs [OF kr_key_yields])

lemma seal_each_yields:
  "yields (ring_of c priv) (seal_each c nonces text me ns)
     (\<lambda>env. map fst env = ns \<and> (\<forall>n ct nn. (n, ct, nn) \<in> set env \<longrightarrow> sealed_part c priv ct nn))"
proof (induction ns arbitrary: nonces)
  case Nil
  show ?case by (simp add: yields_ret yields_def)
next
  case (Cons n ns)
  show ?case unfolding seal_each.simps
  proof (rule yields_bnd [OF kr_seal_yields])
    fix r assume r: "\<forall>ct nn. r = Some (ct, nn) \<longrightarrow> sealed_part c priv ct nn"
    show "yields (ring_of c priv) (case r of None \<Rightarrow> raise Type_Error
         | Some p \<Rightarrow> bnd (seal_each c (nonces \<circ> Suc) text me ns) (\<lambda>env. ret ((n, p) # env)))
       (\<lambda>env. map fst env = n # ns \<and> (\<forall>n ct nn. (n, ct, nn) \<in> set env \<longrightarrow> sealed_part c priv ct nn))"
    proof (cases r)
      case None
      then show ?thesis by (simp add: yields_def)
    next
      case (Some p)
      show ?thesis unfolding Some option.case
        by (rule yields_bnd [OF Cons.IH]) (use r Some in \<open>auto intro!: yields_ret\<close>)
    qed
  qed
qed

lemma everyone_nonempty: "everyone_of members me \<noteq> []"
  using everyone_set [of members me] by (metis empty_not_insert list.set(1))

definition env_sealed :: "crypto \<Rightarrow> byte list \<Rightarrow> (ustr, ustr \<times> ustr) dict \<Rightarrow> bool" where
  "env_sealed c priv env \<longleftrightarrow> env \<noteq> [] \<and> (\<forall>n ct nn. (n, ct, nn) \<in> set env \<longrightarrow> sealed_part c priv ct nn)"

lemma seal_for_members_yields:
  "yields (ring_of c priv) (seal_for_members c nonces members text me) (\<lambda>r. \<forall>env. r = Some env \<longrightarrow> env_sealed c priv env)"
proof -
  have me: "ring_of c priv (self_key c (kr\<lparr>kr_me := me\<rparr>))" if "ring_of c priv kr" for kr
  proof -
    have "ring_ok c (kr\<lparr>kr_me := me\<rparr>)" using that by (auto simp: ring_of_def ring_ok_def)
    from self_key_ok [OF this] that show ?thesis by (simp add: ring_of_def) (simp add: self_key_def)
  qed
  have each: "yields (ring_of c priv) (bnd (seal_each c nonces text me (everyone_of members me)) (\<lambda>env. ret (Some env)))
      (\<lambda>r. \<forall>env. r = Some env \<longrightarrow> env_sealed c priv env)"
    by (rule yields_bnd [OF seal_each_yields yields_ret]) (use everyone_nonempty [of members me] in \<open>auto simp: env_sealed_def\<close>)
  show ?thesis unfolding seal_for_members_def andthen_def
    by (rule yields_bnd [of _ _ "\<lambda>_. True"], simp add: yields_def me)
       (rule yields_bnd [OF any_missing_runs [unfolded yields_keeps]], use each in \<open>simp add: yields_def\<close>)
qed

lemma kr_open_runs: "runs_in (keeps (ring_of c priv)) (kr_open c user ct nn me)"
  unfolding kr_open_def by (intro ro.runs_rules yields_runs [OF kr_key_yields])

subsection \<open>What is on its way to the server\<close>

definition env_data :: "(ustr, ustr \<times> ustr) dict \<Rightarrow> (ustr, pyval) dict" where
  "env_data env = [(u ''env'', PDict (map (\<lambda>(n, ct, nn). (n, PList [PStr ct, PStr nn])) env))]"

text \<open>
  A frame that may leave: no message, or a message whose body and nonce came out of \<open>seal\<close> under a
  key derived from the client's own, or one with an empty body and only such envelopes.
\<close>

definition sealed_frame :: "crypto \<Rightarrow> byte list \<Rightarrow> frame \<Rightarrow> bool" where
  "sealed_frame c priv f \<longleftrightarrow> (f_type f = MSG \<longrightarrow>
     (\<exists>ct nn. f_body f = PStr ct \<and> f_nonce f = PStr nn \<and> f_data f = [] \<and> sealed_part c priv ct nn) \<or>
     (\<exists>env. f_body f = PStr [] \<and> f_nonce f = PNone \<and> f_data f = env_data env \<and> env_sealed c priv env))"

definition sealed_item :: "crypto \<Rightarrow> byte list \<Rightarrow> link_item \<Rightarrow> bool" where
  "sealed_item c priv item = (case item of Link_STOP \<Rightarrow> True | Link_Item f \<Rightarrow> sealed_frame c priv f)"

text \<open>The bytes of a wire are those of frames that may leave.\<close>

definition sealed_wire :: "crypto \<Rightarrow> byte list \<Rightarrow> byte list \<Rightarrow> bool" where
  "sealed_wire c priv bs \<longleftrightarrow> (\<exists>lines. bs = concat lines \<and> (\<forall>l\<in>set lines. \<exists>f. sealed_frame c priv f \<and> encode f = Inr l))"

definition client_sealed :: "crypto \<Rightarrow> byte list \<Rightarrow> 'z client_scheme \<Rightarrow> bool" where
  "client_sealed c priv s \<longleftrightarrow> (\<exists>kr. ct_ring s = Some kr \<and> ring_of c priv kr) \<and>
     list_all (sealed_item c priv) (lk_outbox s) \<and> sealed_wire c priv (lk_wire s)"

interpretation cs: world_rel "keeps (client_sealed c priv)" for c priv
  by unfold_locales (auto simp: keeps_def client_sealed_def)

lemma sealed_modify: "(\<And>s. client_sealed c priv s \<Longrightarrow> client_sealed c priv (g s)) \<Longrightarrow> runs_in (keeps (client_sealed c priv)) (modify g)"
  by (simp add: runs_in_modify keeps_def)

lemma sealed_fields:
  "ct_ring t = ct_ring s \<Longrightarrow> lk_outbox t = lk_outbox s \<Longrightarrow> lk_wire t = lk_wire s \<Longrightarrow> client_sealed c priv s \<Longrightarrow> client_sealed c priv t"
  by (simp add: client_sealed_def)

lemma sealed_wire_append: "sealed_wire c priv bs \<Longrightarrow> sealed_frame c priv f \<Longrightarrow> encode f = Inr l \<Longrightarrow> sealed_wire c priv (bs @ l)"
  unfolding sealed_wire_def
proof (elim exE conjE)
  fix lines assume "sealed_frame c priv f" "encode f = Inr l" "bs = concat lines" "\<forall>l\<in>set lines. \<exists>f. sealed_frame c priv f \<and> encode f = Inr l"
  then show "\<exists>lines. bs @ l = concat lines \<and> (\<forall>l\<in>set lines. \<exists>f. sealed_frame c priv f \<and> encode f = Inr l)"
    by (intro exI [of _ "lines @ [l]"]) auto
qed

lemma sealed_write:
  assumes "client_sealed c priv s"
  shows "client_sealed c priv (link_write ok s)"
proof (cases "lk_outbox s")
  case (Cons item rest)
  then have i: "sealed_item c priv item" "list_all (sealed_item c priv) rest" using assms by (simp_all add: client_sealed_def)
  show ?thesis
  proof (cases item)
    case (Link_Item f)
    then show ?thesis
      using assms i Cons sealed_wire_append [of c priv "lk_wire s" f]
      by (auto simp: link_write_def Let_def client_sealed_def sealed_item_def split: sum.split)
  qed (use assms i Cons in \<open>simp add: link_write_def client_sealed_def\<close>)
qed (use assms in \<open>simp add: link_write_def\<close>)

lemma sealed_put: "sealed_item c priv item \<Longrightarrow> runs_in (keeps (client_sealed c priv)) (put_nowait item)"
  by (rule keepsI) (simp add: put_nowait_def client_sealed_def)

lemma sealed_event: "runs_in (keeps (client_sealed c priv)) (on_event ev)"
  unfolding on_event_def by (auto intro!: cs.runs_rules sealed_modify elim!: sealed_fields [rotated 3] split: sum.split)

lemma sealed_lost: "runs_in (keeps (client_sealed c priv)) connection_lost"
  unfolding connection_lost_def by (auto intro!: cs.runs_rules sealed_modify sealed_event elim!: sealed_fields [rotated 3])

lemma sealed_deliver: "client_sealed c priv s \<Longrightarrow> client_sealed c priv (link_deliver f s)"
  by (auto simp: link_deliver_def Let_def elim!: sealed_fields [rotated 3])

lemma sealed_line: "runs_in (keeps (client_sealed c priv)) (link_line line)"
  unfolding link_line_def
  by (rule cs.runs_bnd [OF cs.decode_runs]) (auto intro!: cs.runs_pure sealed_modify sealed_deliver split: sum.split)

lemma sealed_read: "runs_in (keeps (client_sealed c priv)) (link_read r)"
  unfolding link_read_def read_turn_def
  by (auto intro!: cs.runs_rules sealed_modify sealed_line sealed_lost elim!: sealed_fields [rotated 3] split: option.split prod.split sum.split)

lemma not_msg: "f_type f \<noteq> MSG \<Longrightarrow> sealed_frame c priv f"
  by (simp add: sealed_frame_def)

lemma sealed_hang_up: "runs_in (keeps (client_sealed c priv)) hang_up"
  unfolding hang_up_def
  by (auto intro!: cs.runs_rules sealed_modify sealed_event sealed_put elim!: sealed_fields [rotated 3] simp: sealed_item_def)

text \<open>With only sealed frames handed to \<open>send\<close>, no thread of the connection lets anything else out.\<close>

interpretation sk: link_rel "keeps (client_sealed c priv)" "sealed_frame c priv" for c priv
proof unfold_locales
  show "keeps (client_sealed c priv) s (link_write ok s)" for s :: "'z client_scheme" and ok by (simp add: keeps_def sealed_write)
  show "runs_in (keeps (client_sealed c priv)) (put_nowait (Link_Item f))" if "sealed_frame c priv f" for f
    using that by (intro sealed_put) (simp add: sealed_item_def)
qed (auto intro: sealed_read sealed_lost sealed_hang_up not_msg simp: keeps_def elim!: sealed_fields [rotated 3])

lemmas sealed_close = sk.link_close_R
lemmas sealed_send = sk.link_send_R
lemmas sealed_io = sk.io_turn_R
lemmas sealed_meanwhile = sk.meanwhile_R

lemma sealed_new_frame:
  assumes "\<And>i t. yields (client_sealed c priv) (k \<lparr>f_type = ty, f_sender = a, f_to = b, f_body = bo, f_nonce = n, f_data = d,
       f_id = PStr i, f_ts = t, f_v = PInt PROTOCOL_VERSION\<rparr>) P"
  shows "yields (client_sealed c priv) (bnd (new_frame ty a b bo n d) k) P"
proof -
  have r: "bnd (ret x) g = g x" for x and g :: "frame \<Rightarrow> ('a client_scheme, 'b) py" by (simp add: ret_def)
  show ?thesis unfolding new_frame_def bnd_assoc r
    by (rule yields_bnd [OF cs.runs_draw(2) [unfolded yields_keeps]], rule yields_bnd [OF cs.runs_draw(3) [unfolded yields_keeps]]) (rule assms)
qed

lemma sealed_new_frame_runs:
  "(\<And>i t. runs_in (keeps (client_sealed c priv)) (k \<lparr>f_type = ty, f_sender = a, f_to = b, f_body = bo, f_nonce = n, f_data = d,
       f_id = PStr i, f_ts = t, f_v = PInt PROTOCOL_VERSION\<rparr>)) \<Longrightarrow>
   runs_in (keeps (client_sealed c priv)) (bnd (new_frame ty a b bo n d) k)"
  unfolding yields_keeps by (rule sealed_new_frame)

lemma sealed_live:
  assumes "\<And>i t. sealed_frame c priv \<lparr>f_type = ty, f_sender = PNone, f_to = to, f_body = bo, f_nonce = n, f_data = d,
       f_id = PStr i, f_ts = t, f_v = PInt PROTOCOL_VERSION\<rparr>"
  shows "runs_in (keeps (client_sealed c priv)) (live_frame ty to bo n d)"
  unfolding live_frame_def by (intro sealed_new_frame_runs cs.runs_rules sealed_send assms)

lemma sealed_tell: "ty \<noteq> MSG \<Longrightarrow> runs_in (keeps (client_sealed c priv)) (cn_tell ty to d)"
  unfolding cn_tell_def by (intro cs.runs_rules sealed_live not_msg) simp

lemma sealed_connect: "runs_in (keeps (client_sealed c priv)) (link_connect dialled ios)"
  unfolding link_connect_def
  by (auto intro!: cs.runs_rules sealed_meanwhile sealed_event sealed_modify elim!: sealed_fields [rotated 3])

lemma sealed_request: "sealed_frame c priv f \<Longrightarrow> runs_in (keeps (client_sealed c priv)) (link_request f ts ios)"
  unfolding link_request_def
  by (auto intro!: cs.runs_rules sealed_put sealed_meanwhile sealed_modify elim!: sealed_fields [rotated 3] simp: sealed_item_def)

lemma sealed_login: "runs_in (keeps (client_sealed c priv)) (link_login name pass_hash ios)"
  unfolding link_login_def link_require_def
  by (intro sealed_new_frame_runs cs.runs_rules sealed_request not_msg sealed_event sealed_modify)
     (auto elim!: sealed_fields [rotated 3] simp: start_heartbeat_def)

lemma sealed_register: "runs_in (keeps (client_sealed c priv)) (link_register name pass_hash k ios)"
  unfolding link_register_def link_require_def
  by (intro sealed_new_frame_runs cs.runs_rules sealed_request not_msg) simp_all

lemma sealed_new_link: "client_sealed c priv s \<Longrightarrow> client_sealed c priv (new_link s)"
  by (auto simp: client_sealed_def new_link_def sealed_wire_def intro: exI [of _ "[]"])

lemma sealed_session:
  "runs_in (keeps (client_sealed c priv)) (watch_turn r stopped dialled ios1 ios2)"
  "runs_in (keeps (client_sealed c priv)) (session_start reg dialled ios1 ios2 ios3)"
  "runs_in (keeps (client_sealed c priv)) session_close"
  unfolding watch_turn_def reconnect_def attempt_def session_start_def session_close_def
  by (auto intro!: cs.runs_rules sealed_connect sealed_login sealed_register sealed_close sealed_modify sealed_new_link
      elim!: sealed_fields [rotated 3] split: sum.split)

subsection \<open>Every operation of the controller\<close>

lemma sealed_on_model: "runs_in (keeps (client_sealed c priv)) (on_model g)"
  unfolding on_model_def by (auto intro!: sealed_modify elim!: sealed_fields [rotated 3])

lemma sealed_on_state: "runs_in (keeps (client_sealed c priv)) (on_state st)"
  unfolding on_state_def by (rule sealed_on_model)

lemma sealed_on_ring:
  assumes "yields (ring_of c priv) m P"
  shows "yields (client_sealed c priv) (on_ring m) P"
  unfolding yields_def
proof (intro allI impI)
  fix s :: "'z client_scheme" assume s: "client_sealed c priv s"
  then obtain kr where kr: "ct_ring s = Some kr" "ring_of c priv kr" by (auto simp: client_sealed_def)
  obtain r kr' where m: "m kr = (r, kr')" by (cases "m kr")
  then have "ring_of c priv kr'" "\<And>x. r = Inr x \<Longrightarrow> P x" using assms kr(2) by (auto simp: yields_def)
  then show "client_sealed c priv (after (on_ring m) s) \<and> (\<forall>x. outcome (on_ring m) s = Inr x \<longrightarrow> P x)"
    using s kr(1) m by (simp add: on_ring_def client_sealed_def)
qed

lemma sealed_message:
  "sealed_part c priv ct nn \<Longrightarrow> runs_in (keeps (client_sealed c priv)) (cn_message to ct (PStr nn) [])"
  "env_sealed c priv env \<Longrightarrow> runs_in (keeps (client_sealed c priv)) (cn_message to [] PNone env)"
  unfolding cn_message_def by (auto intro!: sealed_live simp: sealed_frame_def env_data_def env_sealed_def)

lemma sealed_hold: "runs_in (keeps (client_sealed c priv)) (ct_hold target text fetch)"
  unfolding ct_hold_def cn_get_key_def by (auto intro!: cs.runs_rules sealed_tell sealed_modify elim!: sealed_fields [rotated 3])

lemma sealed_seal_members:
  "yields (client_sealed c priv) (ct_seal_members c members text me) (\<lambda>r. \<forall>env. r = Some env \<longrightarrow> env_sealed c priv env)"
proof -
  have n: "runs_in (keeps (client_sealed c priv)) (modify (\<lambda>s. s\<lparr>draws := draws s + n\<rparr>))" for n
    by (auto intro!: sealed_modify elim!: sealed_fields [rotated 3])
  show ?thesis unfolding ct_seal_members_def andthen_def
    by (rule yields_bnd [OF cs.runs_pure(3) [unfolded yields_keeps]], rule yields_bnd [OF n [unfolded yields_keeps]])
       (rule sealed_on_ring [OF seal_for_members_yields])
qed

lemma sealed_send_to_room: "runs_in (keeps (client_sealed c priv)) (send_to_room c room text me)"
proof -
  have "runs_in (keeps (client_sealed c priv)) (bnd (ct_seal_members c members text me) (\<lambda>r.
       case r of None \<Rightarrow> andthen (ct_hold room text members) (ret None)
       | Some env \<Rightarrow> bnd (cn_message room [] PNone env) (\<lambda>f. ret (Some f))))" for members
    by (rule keeps_bnd [OF sealed_seal_members]) (auto intro!: cs.runs_rules sealed_hold sealed_message split: option.split)
  then show ?thesis unfolding send_to_room_def by (intro cs.runs_bnd [OF cs.runs_pure(3)] cs.runs_if cs.runs_andthen sealed_hold cs.runs_pure)
qed

lemma sealed_seal: "yields (client_sealed c priv) (ct_seal c user text me) (\<lambda>r. \<forall>ct nn. r = Some (ct, nn) \<longrightarrow> sealed_part c priv ct nn)"
  unfolding ct_seal_def by (rule yields_bnd [OF cs.runs_draw(4) [unfolded yields_keeps]]) (rule sealed_on_ring [OF kr_seal_yields])

text \<open>The one place where a message could go out as it was typed is behind the test for a keyring.\<close>

lemma sealed_ct_frame: "runs_in (keeps (client_sealed c priv)) (ct_frame c target text me)"
proof -
  have sealed: "runs_in (keeps (client_sealed c priv)) (bnd (ct_seal c target text me) (\<lambda>r.
       case r of None \<Rightarrow> andthen (ct_hold target text [target]) (ret None)
       | Some (ct, nn) \<Rightarrow> bnd (cn_message target ct (PStr nn) []) (\<lambda>f. ret (Some f))))"
    by (rule keeps_bnd [OF sealed_seal]) (auto intro!: cs.runs_rules sealed_hold sealed_message split: option.split)
  show ?thesis
  proof (rule keepsI)
    fix s :: "'z client_scheme" assume s: "client_sealed c priv s"
    then have "ct_ring s \<noteq> None" by (auto simp: client_sealed_def)
    then show "client_sealed c priv (after (ct_frame c target text me) s)"
      using keepsD [OF sealed s] keepsD [OF sealed_send_to_room s] by (auto simp: ct_frame_def)
  qed
qed

lemma sealed_open: "runs_in (keeps (client_sealed c priv)) (ct_open c peer body nonce sender)"
  unfolding ct_open_def
  by (intro cs.runs_rules yields_runs [OF sealed_on_ring [OF kr_open_runs [unfolded yields_keeps]]])

lemma sealed_remember: "runs_in (keeps (client_sealed c priv)) (on_ring (modify (kr_remember n pk)))"
proof -
  have "ring_of c priv (kr_remember n pk kr)" if "ring_of c priv kr" for kr
    using that kr_remember_ok [of c kr n pk] by (auto simp: ring_of_def kr_remember_def)
  then have "yields (ring_of c priv) (modify (kr_remember n pk)) (\<lambda>_. True)" by (simp add: yields_def)
  then show ?thesis by (rule yields_runs [OF sealed_on_ring])
qed

interpretation sc: client_rel "keeps (client_sealed c priv)" c for c priv
proof unfold_locales
  show "runs_in (keeps (client_sealed c priv)) (modify (\<lambda>s. s\<lparr>ct_held := h s\<rparr>))"
    "runs_in (keeps (client_sealed c priv)) (modify (\<lambda>s. s\<lparr>ct_awaiting := w s\<rparr>))"
    "runs_in (keeps (client_sealed c priv)) (modify (\<lambda>s. s\<lparr>ct_pending_user := p s\<rparr>))"
    "runs_in (keeps (client_sealed c priv)) (modify (\<lambda>s. s\<lparr>ct_pending_room := q s\<rparr>))" for h w p q
    by (auto intro!: sealed_modify elim!: sealed_fields [rotated 3])
qed (rule sealed_on_model | fact sealed_on_state sealed_tell sealed_ct_frame sealed_open sealed_remember)+

lemma sealed_step: "client_sealed c priv s \<Longrightarrow> client_sealed c priv (client_do c s st)"
  by (cases st)
     (auto simp: client_do_def intro!: keepsD [OF sc.runs_ct_send] keepsD [OF sc.runs_select] keepsD [OF sc.runs_on_frame]
       keepsD [OF sc.runs_on_state] keepsD [OF sealed_io] sc.runs_gestures [THEN keepsD] sc.runs_cn [THEN keepsD] sealed_session [THEN keepsD])

lemma sealed_steps: "client_sealed c priv s \<Longrightarrow> client_sealed c priv (foldl (client_do c) s steps)"
  by (induction steps arbitrary: s) (auto intro: sealed_step)

text \<open>C1: nothing leaves in the clear. Start a client with a keyring and nothing sent yet, and let the
  user, the server, the supervisor and the threads do whatever they like in any order: every
  byte the client has written to the socket belongs to a frame that is either no message at all
  or a message sealed under a key derived from the client's private key, body or envelopes; and
  so does every frame still queued.\<close>

theorem nothing_leaves_in_the_clear:
  assumes "ct_ring s = Some kr" and "ring_ok c kr" and "lk_outbox s = []" and "lk_wire s = []"
  shows "let t = foldl (client_do c) s steps in
    (\<exists>lines. lk_wire t = concat lines \<and> (\<forall>l\<in>set lines. \<exists>f. sealed_frame c (kr_private kr) f \<and> encode f = Inr l)) \<and>
    (\<forall>f. Link_Item f \<in> set (lk_outbox t) \<longrightarrow> sealed_frame c (kr_private kr) f)"
proof -
  have "client_sealed c (kr_private kr) s"
    using assms by (auto simp: client_sealed_def ring_of_def sealed_wire_def intro: exI [of _ "[]"])
  from sealed_steps [OF this, of steps] have t: "client_sealed c (kr_private kr) (foldl (client_do c) s steps)" .
  have "sealed_frame c (kr_private kr) f" if "Link_Item f \<in> set (lk_outbox (foldl (client_do c) s steps))" for f
    using t that unfolding client_sealed_def list_all_iff sealed_item_def by fastforce
  with t show ?thesis unfolding client_sealed_def sealed_wire_def Let_def by blast
qed

text \<open>Alice opens the chat with bob, says something, gets his key, and the writer runs.\<close>

theorem nothing_leaves_in_the_clear_witness:
  "let kr = sample_ring ''alice'' [];
       t = foldl (client_do toy_crypto) (sample_client (Some kr) (sample_model None) [])
         [Do_Select (u ''bob''), Do_Send (u ''hi''), Got_Frame key_of_bob, Got_Io (Io_Write True), Got_Io (Io_Write True)]
   in ring_ok toy_crypto kr \<and>
    (\<exists>lines. lk_wire t = concat lines \<and> (\<forall>l\<in>set lines. \<exists>f. sealed_frame toy_crypto (kr_private kr) f \<and> encode f = Inr l)) \<and>
    (\<forall>f. Link_Item f \<in> set (lk_outbox t) \<longrightarrow> sealed_frame toy_crypto (kr_private kr) f)"
proof -
  have "ring_ok toy_crypto (sample_ring ''alice'' [])" using sample_honest by (auto simp: honest_def)
  from nothing_leaves_in_the_clear [OF sample_client_fields(2) this sample_client_fields(5,6),
      of "sample_model None" "[]" "[Do_Select (u ''bob''), Do_Send (u ''hi''), Got_Frame key_of_bob, Got_Io (Io_Write True), Got_Io (Io_Write True)]"] this
  show ?thesis unfolding Let_def by blast
qed

end
