(* ===== verification/ClientFlow.thy ===== *)
theory ClientFlow
  imports ClientSafety
begin

section \<open>What a client does with messages\<close>

text \<open>
  The functional behaviour of the controller: text held for a key goes out when the key arrives,
  messages are filed in the right conversation, and what the receipts and the key requests
  really are.
\<close>

subsection \<open>Sending a frame while there is room\<close>

definition can_queue :: "nat \<Rightarrow> 'z session_scheme \<Rightarrow> bool" where
  "can_queue n s \<longleftrightarrow> session_can_send s \<and> length (lk_outbox s) + n \<le> LINK_OUTBOX_LIMIT"

definition next_frame :: "message_type \<Rightarrow> pyval \<Rightarrow> pyval \<Rightarrow> pyval \<Rightarrow> (ustr, pyval) dict \<Rightarrow> 'z session_scheme \<Rightarrow> frame" where
  "next_frame ty to bo n d s = \<lparr>f_type = ty, f_sender = PNone, f_to = to, f_body = bo, f_nonce = n, f_data = d,
     f_id = PStr (uuid_src s (draws s)), f_ts = clock_src s (Suc (draws s)), f_v = PInt PROTOCOL_VERSION\<rparr>"

definition queued :: "frame \<Rightarrow> 'z session_scheme \<Rightarrow> 'z session_scheme" where
  "queued f s = s\<lparr>draws := Suc (Suc (draws s)), lk_outbox := lk_outbox s @ [Link_Item f]\<rparr>"

lemma live_run:
  assumes "can_queue (Suc n) s"
  shows "live_frame ty to bo nn d s = (Inr (next_frame ty to bo nn d s), queued (next_frame ty to bo nn d s) s)"
  using assms
  by (simp add: can_queue_def live_frame_def new_frame_def op_defs bnd_def andthen_def link_send_def send_with_def put_nowait_def
      session_can_send_def link_can_send_def next_frame_def queued_def)

lemma tell_run: "can_queue (Suc n) s \<Longrightarrow> cn_tell ty to d s = (Inr (), queued (next_frame ty to PNone PNone d s) s)"
  by (simp add: cn_tell_def live_run andthen_def bnd_def)

lemma can_queue_queued: "can_queue (Suc n) s \<Longrightarrow> can_queue n (queued f s)"
  by (simp add: can_queue_def queued_def session_can_send_def link_can_send_def)

lemma queued_fields [simp]:
  "lk_outbox (queued f s) = lk_outbox s @ [Link_Item f]" "ct_model (queued f t) = ct_model t" "ct_ring (queued f t) = ct_ring t"
  "ct_held (queued f t) = ct_held t" "ct_awaiting (queued f t) = ct_awaiting t" "ct_pending_user (queued f t) = ct_pending_user t"
  "ct_pending_room (queued f t) = ct_pending_room t"
  by (simp_all add: queued_def)

text \<open>Changes of the controller's own fields do not touch the session.\<close>

lemma can_queue_client [simp]:
  "can_queue n (s\<lparr>ct_model := m\<rparr>) = can_queue n s" "can_queue n (s\<lparr>ct_ring := r\<rparr>) = can_queue n s"
  "can_queue n (s\<lparr>ct_held := h\<rparr>) = can_queue n s" "can_queue n (s\<lparr>ct_awaiting := w\<rparr>) = can_queue n s"
  "can_queue n (s\<lparr>draws := k\<rparr>) = can_queue n s"
  by (simp_all add: can_queue_def session_can_send_def link_can_send_def)

lemma on_model_run [simp]: "on_model g s = (Inr (), s\<lparr>ct_model := g (ct_model s)\<rparr>)"
  by (simp add: on_model_def)

subsection \<open>Text that waited for a key\<close>

text \<open>A frame that carries \<open>text\<close> to \<open>user\<close>, sealed under \<open>k\<close> by \<open>me\<close>.\<close>

definition carries :: "crypto \<Rightarrow> byte list \<Rightarrow> ustr \<Rightarrow> ustr \<Rightarrow> ustr \<Rightarrow> frame \<Rightarrow> bool" where
  "carries c k user me text f \<longleftrightarrow> f_type f = MSG \<and> f_to f = PStr user \<and> f_data f = [] \<and>
     (\<exists>nonce ct nn. seal c k nonce text me = Inr (ct, nn) \<and> f_body f = PStr ct \<and> f_nonce f = PStr nn)"

definition sendable :: "ustr \<Rightarrow> ustr \<Rightarrow> bool" where
  "sendable me text \<longleftrightarrow> strip text \<noteq> [] \<and> (\<exists>p. utf8_encode text = Inr p) \<and> (\<exists>a. utf8_encode me = Inr a)"

text \<open>A client about to send to \<open>user\<close>, whose key it can derive.\<close>

definition talks_to :: "crypto \<Rightarrow> byte list \<Rightarrow> ustr \<Rightarrow> ustr \<Rightarrow> 'z client_scheme \<Rightarrow> bool" where
  "talks_to c k user me s \<longleftrightarrow> active (ct_model s) = Some user \<and> \<not> room_key user \<and> ct_me s = me \<and>
     (\<exists>kr. ct_ring s = Some kr \<and> ring_ok c kr \<and> fresh_key c user kr = Inr (Some k))"

lemma fresh_key_again:
  "fresh_key c user ((ring_for c user kr)\<lparr>kr_derived := d\<rparr>) = fresh_key c user kr"
  by (simp add: fresh_key_def ring_for_def self_key_def split: option.split)

text \<open>What a send does to a client that holds the key.\<close>

lemma send_exact:
  assumes "talks_to c k user me s" and "sendable me text" and "can_queue (Suc n) s"
  shows "\<exists>ct nn r. seal c k (token_src s (draws s)) text me = Inr (ct, nn) \<and> nn = b64 (token_src s (draws s)) \<and> ring_ok c r \<and>
    fresh_key c user r = Inr (Some k) \<and>
    (let s1 = s\<lparr>draws := Suc (draws s), ct_ring := Some r\<rparr>; f = next_frame MSG (PStr user) (PStr ct) (PStr nn) [] s1 in
       ct_send c text s = (Inr (Some (my_message f me text)), (queued f s1)\<lparr>ct_model := add_message user (my_message f me text) (ct_model s)\<rparr>))"
proof -
  obtain kr where kr: "ct_ring s = Some kr" "ring_ok c kr" "fresh_key c user kr = Inr (Some k)"
    and act: "active (ct_model s) = Some user" "\<not> room_key user" "ct_me s = me" using assms(1) by (auto simp: talks_to_def)
  obtain d where d: "kr_key c user kr = (fresh_key c user kr, (ring_for c user kr)\<lparr>kr_derived := d\<rparr>)"
    "ring_ok c ((ring_for c user kr)\<lparr>kr_derived := d\<rparr>)" using kr_key_run [OF kr(2)] by blast
  let ?kr = "(ring_for c user kr)\<lparr>kr_derived := d\<rparr>"
  obtain ct nn where sl: "seal c k (token_src s (draws s)) text me = Inr (ct, nn)" "nn = b64 (token_src s (draws s))"
    using assms(2) by (auto simp: sendable_def seal_def)
  let ?s = "s\<lparr>draws := Suc (draws s), ct_ring := Some ?kr\<rparr>"
  have seal: "ct_seal c user text me s = (Inr (Some (ct, nn)), ?s)"
    using kr d sl by (simp add: ct_seal_def op_defs bnd_def on_ring_def kr_seal_def)
  have q: "can_queue (Suc n) ?s" using assms(3) by simp
  let ?f = "next_frame MSG (PStr user) (PStr ct) (PStr nn) [] ?s"
  have "ct_frame c user text me s = (Inr (Some ?f), queued ?f ?s)"
    using kr(1) act(2) seal live_run [OF q] by (simp add: ct_frame_def bnd_def cn_message_def)
  then show ?thesis
    using act assms(2) sl d(2) kr(3)
    by (intro exI [of _ ct] exI [of _ nn] exI [of _ ?kr]) (simp add: ct_send_def bnd_def andthen_def sendable_def fresh_key_again)
qed

lemma send_runs:
  assumes "talks_to c k user me s" and "sendable me text" and "can_queue (Suc n) s"
  shows "\<exists>t f. ct_send c text s = (Inr (Some (my_message f me text)), t) \<and> carries c k user me text f \<and> talks_to c k user me t \<and>
    can_queue n t \<and> lk_outbox t = lk_outbox s @ [Link_Item f] \<and> ct_held t = ct_held s \<and> ct_awaiting t = ct_awaiting s \<and>
    ct_model t = add_message user (my_message f me text) (ct_model s)"
proof -
  obtain ct nn r where sl: "seal c k (token_src s (draws s)) text me = Inr (ct, nn)"
    and r: "ring_ok c r" "fresh_key c user r = Inr (Some k)" and run: "let s1 = s\<lparr>draws := Suc (draws s), ct_ring := Some r\<rparr>;
      f = next_frame MSG (PStr user) (PStr ct) (PStr nn) [] s1 in
      ct_send c text s = (Inr (Some (my_message f me text)), (queued f s1)\<lparr>ct_model := add_message user (my_message f me text) (ct_model s)\<rparr>)"
    using send_exact [OF assms] by blast
  let ?s = "s\<lparr>draws := Suc (draws s), ct_ring := Some r\<rparr>"
  let ?f = "next_frame MSG (PStr user) (PStr ct) (PStr nn) [] ?s"
  let ?t = "(queued ?f ?s)\<lparr>ct_model := add_message user (my_message ?f me text) (ct_model s)\<rparr>"
  have "active (add_message user x m) = active m" "cm_username (add_message user x m) = cm_username m" for x m
    by (simp_all add: add_message_def Let_def set_typing_fields)
  then have "talks_to c k user me ?t"
    using assms(1) r by (auto simp: talks_to_def ct_me_def)
  moreover have "carries c k user me text ?f" using sl by (auto simp: carries_def next_frame_def)
  moreover have "can_queue n ?t" using can_queue_queued [of n ?s] assms(3) by simp
  ultimately show ?thesis using run by (intro exI [of _ ?t] exI [of _ ?f]) (simp add: Let_def)
qed

lemma send_all_runs:
  assumes "talks_to c k user me s" and "list_all (sendable me) texts" and "can_queue (length texts) s"
  shows "\<exists>t fs. for_each texts (send_waiting c) s = (Inr (), t) \<and> list_all2 (carries c k user me) texts fs \<and>
    lk_outbox t = lk_outbox s @ map Link_Item fs \<and> ct_held t = ct_held s \<and> ct_awaiting t = ct_awaiting s \<and> ct_ring t \<noteq> None \<and>
    ct_model t = foldl (\<lambda>m (f, text). add_message user (my_message f me text) m) (ct_model s) (zip fs texts)"
  using assms
proof (induction texts arbitrary: s)
  case Nil
  then show ?case by (auto simp: talks_to_def)
next
  case (Cons tx texts)
  obtain t f where t: "ct_send c tx s = (Inr (Some (my_message f me tx)), t)" "carries c k user me tx f" "talks_to c k user me t"
    "can_queue (length texts) t" "lk_outbox t = lk_outbox s @ [Link_Item f]" "ct_held t = ct_held s" "ct_awaiting t = ct_awaiting s"
    "ct_model t = add_message user (my_message f me tx) (ct_model s)"
    using send_runs [OF Cons.prems(1), of tx "length texts"] Cons.prems(2,3) by auto
  have texts: "list_all (sendable me) texts" using Cons.prems(2) by simp
  obtain t' fs where "for_each texts (send_waiting c) t = (Inr (), t')" "list_all2 (carries c k user me) texts fs"
    "lk_outbox t' = lk_outbox t @ map Link_Item fs" "ct_held t' = ct_held t" "ct_awaiting t' = ct_awaiting t" "ct_ring t' \<noteq> None"
    "ct_model t' = foldl (\<lambda>m (f, text). add_message user (my_message f me text) m) (ct_model t) (zip fs texts)"
    using Cons.IH [OF t(3) texts t(4)] by blast
  moreover have "send_waiting c tx s = (Inr (), t)" using t(1) by (simp add: send_waiting_def bnd_def)
  ultimately show ?case
    using t by (intro exI [of _ t'] exI [of _ "f # fs"]) (simp add: andthen_Inr)
qed

lemma remembered_key:
  assumes "ring_ok c kr" and "key_for c (kr_private kr) pk = Inr k"
  shows "ring_ok c (kr_remember user pk kr)" "fresh_key c user (kr_remember user pk kr) = Inr (Some k)"
  using kr_remember_ok [OF assms(1)] assms(2)
  by (blast, auto simp: fresh_key_def ring_for_def self_key_def kr_remember_def)

definition key_frame :: "frame \<Rightarrow> ustr \<Rightarrow> ustr \<Rightarrow> bool" where
  "key_frame f user pk \<longleftrightarrow> f_type f = KEY \<and> pget (f_data f) (u ''user'') = PStr user \<and> pget (f_data f) (u ''pubkey'') = PStr pk \<and>
     user \<noteq> [] \<and> pk \<noteq> []"

text \<open>What the arrival of a key does to the text that waited for it, model and all.\<close>

lemma key_releases:
  assumes "key_frame f user pk" and "ct_ring s = Some kr" and "ring_ok c kr" and "key_for c (kr_private kr) pk = Inr k"
    and "\<not> room_key user" and "dict_get (ct_held s) user = Some texts" and "texts \<noteq> []" and "list_all (sendable (ct_me s)) texts"
    and "can_queue (length texts) s" and "dict_get (ct_awaiting s) user = None" and "filter room_key (dict_keys (ct_held s)) = []"
  shows "\<exists>t fs. on_frame c f s = (Inr (), t) \<and> list_all2 (carries c k user (ct_me s)) texts fs \<and>
    lk_outbox t = lk_outbox s @ map Link_Item fs \<and> ct_held t = dict_pop (ct_held s) user \<and>
    ct_model t = (foldl (\<lambda>m (f, text). add_message user (my_message f (ct_me s) text) m) ((ct_model s)\<lparr>active := Some user\<rparr>) (zip fs texts))
      \<lparr>active := active (ct_model s)\<rparr>"
proof -
  let ?me = "ct_me s" and ?m = "(ct_model s)\<lparr>active := Some user\<rparr>"
  let ?s1 = "s\<lparr>ct_ring := Some (kr_remember user pk kr), ct_held := dict_pop (ct_held s) user, ct_model := ?m\<rparr>"
  have rem: "on_ring (modify (kr_remember user pk)) s = (Inr (), s\<lparr>ct_ring := Some (kr_remember user pk kr)\<rparr>)"
    using assms(2) by (simp add: on_ring_def)
  have "talks_to c k user ?me ?s1"
    using remembered_key [OF assms(3,4), of user] assms(5) by (simp add: talks_to_def ct_me_def)
  then obtain t fs where t: "for_each texts (send_waiting c) ?s1 = (Inr (), t)"
    "list_all2 (carries c k user ?me) texts fs" "lk_outbox t = lk_outbox s @ map Link_Item fs" "ct_held t = dict_pop (ct_held s) user"
    "ct_awaiting t = ct_awaiting s" "ct_ring t \<noteq> None"
    "ct_model t = foldl (\<lambda>m (f, text). add_message user (my_message f ?me text) m) ?m (zip fs texts)"
    using send_all_runs [of c k user ?me ?s1 texts] assms(8,9) by auto
  let ?t = "t\<lparr>ct_model := (ct_model t)\<lparr>active := active (ct_model s)\<rparr>, ct_awaiting := dict_pop (ct_awaiting t) user\<rparr>"
  have rel: "ct_release c user (s\<lparr>ct_ring := Some (kr_remember user pk kr)\<rparr>) = (Inr (), t\<lparr>ct_model := (ct_model t)\<lparr>active := active (ct_model s)\<rparr>\<rparr>)"
    using assms(6,7) t(1) by (simp add: ct_release_def finally_do_def andthen_def bnd_def rescue_def)
  have rooms: "filter room_key (dict_keys (dict_pop (ct_held s) user)) = []"
    using assms(11) by (auto simp: filter_empty_conv dict_keys_def dict_pop_def)
  have "on_frame c f s = (Inr (), ?t)"
    using assms(1,2,10) rel rooms t(4,5)
    by (simp add: on_frame_def key_frame_def in_key_def Let_def rem andthen_def bnd_def deliver_awaiting_def)
  then show ?thesis using t by (intro exI [of _ ?t] exI [of _ fs]) simp
qed

text \<open>C9: text that waited for a key is sent when the key arrives, in the order it was typed. Every
  text held for a person becomes one message frame, sealed under the key derived from the public
  key that arrived, and one message of the conversation; nothing is held for them any more, and
  the conversation on screen is the one that was on screen before.\<close>

theorem held_text_goes_out:
  assumes "key_frame f user pk" and "ct_ring s = Some kr" and "ring_ok c kr" and "key_for c (kr_private kr) pk = Inr k"
    and "\<not> room_key user" and "dict_get (ct_held s) user = Some texts" and "texts \<noteq> []" and "list_all (sendable (ct_me s)) texts"
    and "can_queue (length texts) s" and "dict_get (ct_awaiting s) user = None" and "filter room_key (dict_keys (ct_held s)) = []"
  shows "\<exists>t fs. on_frame c f s = (Inr (), t) \<and> list_all2 (carries c k user (ct_me s)) texts fs \<and>
    lk_outbox t = lk_outbox s @ map Link_Item fs \<and> dict_get (ct_held t) user = None \<and> active (ct_model t) = active (ct_model s) \<and>
    cv_messages (conv user (ct_model t)) = cv_messages (conv user (ct_model s)) @ map2 (\<lambda>f text. my_message f (ct_me s) text) fs texts"
proof -
  have "cv_messages (conv user (foldl (\<lambda>m (f, text). add_message user (my_message f (ct_me s) text) m) m0 ps)) =
      cv_messages (conv user m0) @ map (\<lambda>(f, text). my_message f (ct_me s) text) ps" for m0 ps
    by (induction ps arbitrary: m0) (auto simp: add_message_def Let_def cv_add_def my_message_def)
  then show ?thesis using key_releases [OF assms] by auto
qed

subsection \<open>Messages that arrive\<close>

lemma live_owner: "runs_in same_owner (live_frame ty to bo n d)"
  unfolding live_frame_def new_frame_def by (intro so.world_rules link_send_owner)

lemma client_fields:
  assumes "same_owner s t"
  shows "ct_model t = ct_model s" "ct_ring t = ct_ring s" "ct_held t = ct_held s" "ct_awaiting t = ct_awaiting s"
    "ct_pending_user t = ct_pending_user s" "ct_pending_room t = ct_pending_room s"
  using assms by (cases s; cases t; simp add: same_owner_def)+

text \<open>Sending a receipt never fails the caller, and is all that it does.\<close>

lemma receipt_try:
  "\<exists>t. try_receipt to ref st s = (Inr (), t) \<and> same_owner s t \<and>
     (can_queue (Suc 0) s \<longrightarrow> t = queued (next_frame RECEIPT (PStr to) PNone PNone [(u ''ref'', ref), (u ''state'', PStr (u st))] s) s)"
proof -
  have "runs_in same_owner (try_receipt to ref st)"
    unfolding try_receipt_def cn_receipt_def cn_tell_def by (intro so.runs_rules live_owner)
  then have "same_owner s (after (try_receipt to ref st) s)" by (rule runs_at)
  moreover have "outcome (try_receipt to ref st) s = Inr ()"
    by (simp add: try_receipt_def rescue_def split: prod.split sum.split)
  moreover have "can_queue (Suc 0) s \<longrightarrow> after (try_receipt to ref st) s =
      queued (next_frame RECEIPT (PStr to) PNone PNone [(u ''ref'', ref), (u ''state'', PStr (u st))] s) s"
    using tell_run [of 0 s RECEIPT] by (simp add: try_receipt_def cn_receipt_def rescue_def)
  ultimately show ?thesis by (metis prod.collapse)
qed

definition received :: "frame \<Rightarrow> ustr \<Rightarrow> pyval \<Rightarrow> chat_message" where
  "received f sender body = \<lparr>msg_id = f_id f, msg_sender = sender, msg_body = body, msg_ts = f_ts f, msg_mine = False, msg_state = u ''SENT''\<rparr>"

text \<open>The receipt that goes back for a direct message, if the connection takes it.\<close>

definition receipted :: "frame \<Rightarrow> ustr \<Rightarrow> ustr \<Rightarrow> 'z session_scheme \<Rightarrow> 'z session_scheme \<Rightarrow> bool" where
  "receipted f sender key s t \<longleftrightarrow> (if room_key key then lk_outbox t = lk_outbox s
     else can_queue (Suc 0) s \<longrightarrow> (\<exists>r. lk_outbox t = lk_outbox s @ [Link_Item r] \<and> f_type r = RECEIPT \<and> f_to r = PStr sender \<and>
       f_data r = [(u ''ref'', f_id f), (u ''state'', PStr (u ''DELIVERED''))]))"

lemma file_runs:
  fixes s :: "'z client_scheme"
  assumes "f_sender f = PStr sender" and "sender \<noteq> []" and "f_ts f \<noteq> 0"
    and "\<And>t :: 'z client_scheme. ct_ring t = ct_ring s \<Longrightarrow> \<exists>r'. plaintext c f sender t = (Inr body, t\<lparr>ct_ring := r'\<rparr>)"
  shows "\<exists>t. ct_file c f key s = (Inr (), t) \<and> ct_model t = add_message key (received f sender body) (ct_model s) \<and> receipted f sender key s t \<and>
    ct_held t = ct_held s \<and> ct_awaiting t = ct_awaiting s"
proof -
  have sn: "sender_or f x = ret sender" for x using assms(1,2) by (simp add: sender_or_def py_or_def as_str_def)
  obtain t0 where t0: "(if py_truthy (f_sender f) \<and> \<not> room_key key
        then try_receipt sender (f_id f) ''DELIVERED'' else ret ()) s = (Inr (), t0)" "same_owner s t0" "receipted f sender key s t0"
  proof (cases "room_key key")
    case True
    show ?thesis by (rule that [of s]) (simp_all add: True receipted_def so.R_refl)
  next
    case False
    obtain t where t: "try_receipt sender (f_id f) ''DELIVERED'' s = (Inr (), t)" "same_owner s t"
      "can_queue (Suc 0) s \<longrightarrow> t = queued (next_frame RECEIPT (PStr sender) PNone PNone [(u ''ref'', f_id f), (u ''state'', PStr (u ''DELIVERED''))] s) s"
      using receipt_try [of sender "f_id f" "''DELIVERED''" s] by blast
    show ?thesis
    proof (rule that [of t])
      show "receipted f sender key s t" using t(3) False by (auto simp: receipted_def next_frame_def)
    qed (use t False assms(1,2) in simp_all)
  qed
  obtain r' where p: "plaintext c f sender t0 = (Inr body, t0\<lparr>ct_ring := r'\<rparr>)" using assms(4) client_fields(2) [OF t0(2)] by blast
  let ?t = "t0\<lparr>ct_ring := r', ct_model := add_message key (received f sender body) (ct_model t0)\<rparr>"
  have "ct_file c f key s = (Inr (), ?t)"
    unfolding ct_file_def sn using t0(1) p assms(3) by (simp add: bnd_def andthen_def received_def)
  then show ?thesis using client_fields [OF t0(2)] t0(3) by (intro exI [of _ ?t]) (simp add: receipted_def)
qed

text \<open>A message is filed under its room, or else under its sender, exactly once and whatever
  state the connection is in; a direct message is receipted as DELIVERED when the connection
  takes it, a room message never is.\<close>

theorem incoming_is_filed:
  assumes "f_type f = MSG" and "f_to f = PStr to" and "f_sender f = PStr sender" and "sender \<noteq> []" and "f_ts f \<noteq> 0"
    and "ct_ring s = None \<or> f_nonce f = PNone"
  shows "let key = (if room_key to then to else sender) in
    \<exists>t. on_frame c f s = (Inr (), t) \<and>
      ct_model t = add_message key (received f sender (py_or (f_body f) (PStr []))) (ct_model s) \<and> receipted f sender key s t"
proof -
  let ?key = "if room_key to then to else sender"
  have sn: "sender_or f x = ret sender" for x using assms(3,4) by (simp add: sender_or_def py_or_def as_str_def)
  have tg: "target_of f = ret to" using assms(2) by (auto simp: target_of_def py_or_def as_str_def)
  have "room_key to \<Longrightarrow> to \<noteq> []" by (auto simp: room_key_def startswith_def u_def)
  then have ne: "?key \<noteq> []" using assms(4) by auto
  have "plaintext c f sender t = (Inr (py_or (f_body f) (PStr [])), t\<lparr>ct_ring := ct_ring t\<rparr>)" if "ct_ring t = ct_ring s" for t :: "'a client_scheme"
    using assms(6) that by (auto simp: plaintext_def)
  then obtain t where t: "ct_file c f ?key s = (Inr (), t)" "ct_model t = add_message ?key (received f sender (py_or (f_body f) (PStr []))) (ct_model s)"
    "receipted f sender ?key s t" using file_runs [OF assms(3-5), of s c "py_or (f_body f) (PStr [])" ?key] by blast
  have "\<not> (py_truthy (f_nonce f) \<and> ct_ring s \<noteq> None)" using assms(6) by auto
  then have "on_frame c f s = ct_file c f ?key s"
    using ne assms(1) by (auto simp: on_frame_def incoming_message_def tg sn bnd_def split: option.split)
  with t show ?thesis by (simp add: Let_def)
qed

subsection \<open>A first message from somebody new\<close>

lemma get_key_run: "can_queue (Suc n) s \<Longrightarrow> cn_get_key user s =
    (Inr (), queued (next_frame GET_KEY PNone PNone PNone [(u ''user'', PStr user)] s) s)"
  by (simp add: cn_get_key_def tell_run)

lemma stranger_waits:
  assumes "f_type f = MSG" and "f_to f = PStr to" and "\<not> room_key to" and "f_sender f = PStr sender" and "sender \<noteq> []"
    and "py_truthy (f_nonce f)" and "Some sender \<noteq> cm_username (ct_model s)" and "ct_ring s = Some kr" and "\<not> kr_knows sender kr"
    and "dict_get (ct_awaiting s) sender = None" and "can_queue (Suc 0) s"
  shows "on_frame c f s = (Inr (), queued (next_frame GET_KEY PNone PNone PNone [(u ''user'', PStr sender)] s)
    (s\<lparr>ct_awaiting := dict_set (ct_awaiting s) sender [f]\<rparr>))"
proof -
  have sn: "sender_or f x = ret sender" for x using assms(4,5) by (simp add: sender_or_def py_or_def as_str_def)
  have tg: "target_of f = ret to" using assms(2) by (auto simp: target_of_def py_or_def as_str_def)
  have g: "cn_get_key sender (s\<lparr>ct_awaiting := dict_set (ct_awaiting s) sender [f]\<rparr>) =
      (Inr (), queued (next_frame GET_KEY PNone PNone PNone [(u ''user'', PStr sender)] s) (s\<lparr>ct_awaiting := dict_set (ct_awaiting s) sender [f]\<rparr>))"
    using get_key_run [of 0 "s\<lparr>ct_awaiting := dict_set (ct_awaiting s) sender [f]\<rparr>"] assms(11) by (simp add: next_frame_def)
  show ?thesis
    using assms(1,3,5-10) g by (simp add: on_frame_def incoming_message_def tg sn bnd_def andthen_def)
qed

lemma honest_remember:
  assumes "honest c priv who kr"
  shows "honest c priv who (kr_remember n (public_b64 c (priv n)) kr)" "reaches n (kr_remember n (public_b64 c (priv n)) kr) \<or> n = []"
  using assms kr_remember_ok [of c kr n] by (auto simp: honest_def kr_remember_def reaches_def kr_knows_def)

lemma open_run:
  assumes "outcome (kr_open c peer body nonce sender) kr = Inr t" and "ct_ring s = Some kr"
  shows "\<exists>r'. ct_open c peer body nonce sender s = (Inr (PStr t), s\<lparr>ct_ring := r'\<rparr>)"
proof -
  obtain kr' where "kr_open c peer body nonce sender kr = (Inr t, kr')" using assms(1) by (metis prod.collapse)
  then show ?thesis using assms(2) by (auto simp: ct_open_def on_ring_def bnd_def rescue_def)
qed

text \<open>C8: a first message from somebody new is not lost and not shown as noise. Alice seals a text
  for bob, whose client has never heard of her: the client shows nothing yet, keeps the frame and
  asks for her key; when the key she published arrives, the text she typed appears in her
  conversation.\<close>

theorem first_message_is_read:
  assumes "crypto_ok c" and "honest c priv alice ka" and "reaches bob ka"
    and "kr_seal c nonce bob text alice ka = (Inr (Some (ct, nn)), ka')" and "nonce \<noteq> []"
    and "f_type f = MSG" and "f_to f = PStr bob" and "f_sender f = PStr alice" and "f_body f = PStr ct" and "f_nonce f = PStr nn" and "f_ts f \<noteq> 0"
    and "key_frame g alice (public_b64 c (priv alice))" and "\<not> room_key alice" and "\<not> room_key bob"
    and "ct_ring s = Some kb" and "honest c priv bob kb" and "\<not> kr_knows alice kb" and "cm_username (ct_model s) = Some bob" and "alice \<noteq> bob"
    and "ct_awaiting s = []" and "ct_held s = []" and "can_queue 2 s"
  shows "\<exists>t1 t2 q. on_frame c f s = (Inr (), t1) \<and> ct_model t1 = ct_model s \<and>
    lk_outbox t1 = lk_outbox s @ [Link_Item q] \<and> f_type q = GET_KEY \<and> f_data q = [(u ''user'', PStr alice)] \<and>
    on_frame c g t1 = (Inr (), t2) \<and> ct_model t2 = add_message alice (received f alice (PStr text)) (ct_model s)"
proof -
  have al: "alice \<noteq> []" "f_type g = KEY" "pget (f_data g) (u ''user'') = PStr alice"
    "pget (f_data g) (u ''pubkey'') = PStr (public_b64 c (priv alice))" "public_b64 c (priv alice) \<noteq> []"
    using assms(12) by (auto simp: key_frame_def)
  obtain k where k: "key_for c (priv alice) (public_b64 c (priv bob)) = Inr k" "seal c k nonce text alice = Inr (ct, nn)"
    using kr_seal_Some(1) [OF assms(2,4,3)] by blast
  then have "nn = b64 nonce" by (auto simp: seal_def split: sum.splits)
  then have nn: "nn \<noteq> []" using assms(5) by (cases nonce rule: b64.cases) auto
  have q1: "can_queue (Suc 0) s" using assms(22) by (simp add: can_queue_def)
  let ?q = "next_frame GET_KEY PNone PNone PNone [(u ''user'', PStr alice)] s"
  let ?t1 = "queued ?q (s\<lparr>ct_awaiting := [(alice, [f])]\<rparr>)"
  have run1: "on_frame c f s = (Inr (), ?t1)"
    using stranger_waits [OF assms(6,7,14,8) al(1) _ _ assms(15,17) _ q1, of c] assms(10,18-20) nn by simp
  let ?kr = "kr_remember alice (public_b64 c (priv alice)) kb"
  let ?t1' = "?t1\<lparr>ct_ring := Some ?kr\<rparr>"
  have "honest c priv bob ?kr" "reaches alice ?kr" using honest_remember [OF assms(16), of alice] al(1) by blast+
  from kr_open_key [OF assms(1) this k] have op: "outcome (kr_open c alice (PStr ct) (PStr nn) alice) ?kr = Inr text" .
  have pt: "\<exists>r'. plaintext c f alice t = (Inr (PStr text), t\<lparr>ct_ring := r'\<rparr>)" if "ct_ring t = Some ?kr" for t :: "'a client_scheme"
    using open_run [OF op that] assms(8-10) al(1) nn that
    by (auto simp: plaintext_def sender_or_def py_or_def as_str_def bnd_def)
  let ?t2 = "?t1'\<lparr>ct_held := [], ct_awaiting := []\<rparr>"
  obtain t2 where t2: "ct_file c f alice ?t2 = (Inr (), t2)" "ct_model t2 = add_message alice (received f alice (PStr text)) (ct_model s)"
    "ct_held t2 = []"
    using file_runs [OF assms(8) al(1) assms(11), of ?t2 c "PStr text" alice] pt assms(21) by auto
  have tg: "target_of f = ret bob" using assms(7) by (auto simp: target_of_def py_or_def as_str_def)
  have "on_frame c g ?t1 = (Inr (), t2)"
    using al assms(14,15,21) t2(1,3)
    by (simp add: on_frame_def in_key_def Let_def on_ring_def bnd_def andthen_def ct_release_def deliver_awaiting_def dict_pop_def
        tg dict_keys_def)
  then show ?thesis
    using run1 t2(2) by (intro exI [of _ ?t1] exI [of _ t2] exI [of _ ?q]) (simp add: next_frame_def)
qed

subsection \<open>Read receipts\<close>

definition read_receipt :: "chat_message \<Rightarrow> frame \<Rightarrow> bool" where
  "read_receipt msg r \<longleftrightarrow> f_type r = RECEIPT \<and> f_to r = PStr (msg_sender msg) \<and>
     f_data r = [(u ''ref'', msg_id msg), (u ''state'', PStr (u ''READ''))]"

lemma receipts_run:
  "can_queue (length msgs) s \<Longrightarrow>
   \<exists>t rs. for_each msgs (\<lambda>msg. try_receipt (msg_sender msg) (msg_id msg) ''READ'') s = (Inr (), t) \<and>
     list_all2 read_receipt msgs rs \<and> lk_outbox t = lk_outbox s @ map Link_Item rs \<and> ct_model t = ct_model s"
proof (induction msgs arbitrary: s)
  case (Cons msg msgs)
  have q: "can_queue (Suc (length msgs)) s" "can_queue (Suc 0) s" using Cons.prems by (simp_all add: can_queue_def)
  let ?r = "next_frame RECEIPT (PStr (msg_sender msg)) PNone PNone [(u ''ref'', msg_id msg), (u ''state'', PStr (u ''READ''))] s"
  have r: "try_receipt (msg_sender msg) (msg_id msg) ''READ'' s = (Inr (), queued ?r s)"
    using receipt_try [of "msg_sender msg" "msg_id msg" "''READ''" s] q(2) by blast
  obtain t rs where "for_each msgs (\<lambda>msg. try_receipt (msg_sender msg) (msg_id msg) ''READ'') (queued ?r s) = (Inr (), t)"
    "list_all2 read_receipt msgs rs" "lk_outbox t = lk_outbox (queued ?r s) @ map Link_Item rs" "ct_model t = ct_model (queued ?r s)"
    using Cons.IH [OF can_queue_queued [OF q(1)]] by blast
  moreover have "read_receipt msg ?r" by (simp add: read_receipt_def next_frame_def)
  ultimately show ?case using r by (intro exI [of _ t] exI [of _ "?r # rs"]) (simp add: andthen_Inr)
qed simp

text \<open>Opening a conversation with anything unread in it sends a READ receipt for every message the
  other side ever sent there, not only for the unread ones: one new message makes the client
  report the whole conversation again.\<close>

theorem one_unread_reports_all:
  assumes "\<not> room_key key" and "cv_unread (conv key (ct_model s)) \<noteq> 0"
    and "can_queue (length (filter (\<lambda>msg. \<not> msg_mine msg) (cv_messages (conv key (ct_model s))))) s"
  shows "\<exists>t rs. ct_select key s = (Inr (), t) \<and> lk_outbox t = lk_outbox s @ map Link_Item rs \<and>
    list_all2 read_receipt (filter (\<lambda>msg. \<not> msg_mine msg) (cv_messages (conv key (ct_model s)))) rs"
proof -
  let ?ms = "filter (\<lambda>msg. \<not> msg_mine msg) (cv_messages (conv key (ct_model s)))"
  let ?s = "s\<lparr>ct_model := select (Some key) (open_conv key (ct_model s))\<rparr>"
  have "unread_of key s = ?ms" using assms(2) by (simp add: unread_of_def)
  moreover obtain t rs where "for_each ?ms (\<lambda>msg. try_receipt (msg_sender msg) (msg_id msg) ''READ'') ?s = (Inr (), t)"
    "list_all2 read_receipt ?ms rs" "lk_outbox t = lk_outbox ?s @ map Link_Item rs"
    using receipts_run [of ?ms ?s] assms(3) by auto
  ultimately show ?thesis using assms(1) by (intro exI [of _ t] exI [of _ rs]) (simp add: ct_select_def andthen_def bnd_def)
qed

subsection \<open>A member whose key nobody asks for\<close>

text \<open>While text is held for a room, a new text to the room is held too and no key is asked for,
  whoever's keys are missing: \<open>_hold\<close> asks only when it holds the first text. The key of somebody
  who joined since is never requested, and without it nothing held for the room goes out.\<close>

theorem late_member_key_never_requested:
  assumes "ct_ring s = Some kr" and "active (ct_model s) = Some room" and "room_key room" and "strip text \<noteq> []"
    and "dict_get (ct_held s) room = Some texts"
    and "missing_keys (filter (\<lambda>n. n \<noteq> ct_me s) (room_members room (ct_model s))) kr \<noteq> []"
  shows "ct_send c text s = (Inr None, s\<lparr>ct_held := dict_set (ct_held s) room (texts @ [text])\<rparr>)"
  using assms by (simp add: ct_send_def ct_frame_def send_to_room_def ring_missing_def ct_hold_def bnd_def andthen_def)

subsection \<open>Concrete instances\<close>

lemma sample_can_queue: "n \<le> 100 \<Longrightarrow> can_queue n (sample_client kr m h)"
  by (simp add: can_queue_def sample_client_def session_can_send_def link_can_send_def mc_can_send_def LINK_OUTBOX_LIMIT_def)

lemma client_me: "ct_me (sample_client kr (sample_model act) h) = u ''alice''"
  by (simp add: ct_me_def sample_model_def u_def)

lemma b64_nonempty: "bs \<noteq> [] \<Longrightarrow> b64 bs \<noteq> []"
  by (cases bs rule: b64.cases) simp_all

lemma toy_pubkey_nonempty: "public_b64 toy_crypto p \<noteq> []"
  unfolding public_b64_def by (rule b64_nonempty) (simp add: toy_crypto_def)

lemma key_of_bob_frame: "key_frame key_of_bob (u ''bob'') (public_b64 toy_crypto (sample_private (u ''bob'')))"
  using toy_pubkey_nonempty by (simp add: key_frame_def key_of_bob_def u_def)

lemma sendable_u: "strip (u t) \<noteq> [] \<Longrightarrow> sendable (u n) (u t)"
  by (simp add: sendable_def utf8_encode_u)

lemma hi_not_blank: "strip (u ''hi'') \<noteq> []" "\<not> room_key (u ''bob'')" "\<not> room_key (u ''alice'')" "room_key (u ''#den'')" "u ''alice'' \<noteq> []" "u ''bob'' \<noteq> []"
  by (simp_all add: strip_def rstrip_by_def u_def is_space_def room_key_def startswith_def)

text \<open>Alice typed a greeting to bob before she had his key, and now it arrives.\<close>

theorem held_text_goes_out_witness:
  "\<exists>t f k. on_frame toy_crypto key_of_bob (sample_client (Some (sample_ring ''alice'' [])) (sample_model None) [(u ''bob'', [u ''hi''])]) = (Inr (), t) \<and>
     carries toy_crypto k (u ''bob'') (u ''alice'') (u ''hi'') f \<and> lk_outbox t = [Link_Item f] \<and> dict_get (ct_held t) (u ''bob'') = None"
proof -
  let ?s = "sample_client (Some (sample_ring ''alice'' [])) (sample_model None) [(u ''bob'', [u ''hi''])]"
  obtain k where k: "key_for toy_crypto (kr_private (sample_ring ''alice'' [])) (public_b64 toy_crypto (sample_private (u ''bob''))) = Inr k"
    using toy_key_for by blast
  have "ring_ok toy_crypto (sample_ring ''alice'' [])" using sample_honest by (auto simp: honest_def)
  moreover have "list_all (sendable (ct_me ?s)) [u ''hi'']" using sendable_u hi_not_blank(1) by (simp add: client_me)
  moreover have "can_queue (length [u ''hi'']) ?s" by (rule sample_can_queue) simp
  ultimately show ?thesis
    using held_text_goes_out [OF key_of_bob_frame _ _ k hi_not_blank(2), of ?s "[u ''hi'']"] hi_not_blank(2)
    by (auto simp: client_me dict_keys_def list_all2_Cons1)
qed

theorem incoming_is_filed_witness:
  "\<exists>t. on_frame toy_crypto sample_frame (sample_client None (sample_model None) []) = (Inr (), t) \<and>
     ct_model t = add_message (u ''alice'') (received sample_frame (u ''alice'') (f_body sample_frame)) (sample_model None) \<and>
     receipted sample_frame (u ''alice'') (u ''alice'') (sample_client None (sample_model None) []) t"
proof -
  have f: "f_type sample_frame = MSG" "f_to sample_frame = PStr (u ''bob'')" "f_sender sample_frame = PStr (u ''alice'')" "f_ts sample_frame \<noteq> 0"
    by (simp_all add: sample_frame_def)
  have "py_or (f_body sample_frame) (PStr []) = f_body sample_frame" by (simp add: sample_frame_def py_or_def)
  then show ?thesis
    using incoming_is_filed [OF f(1-3) hi_not_blank(5) f(4), of "sample_client None (sample_model None) []" toy_crypto] hi_not_blank(2)
    by (simp add: Let_def)
qed

definition unread_model :: chat_model where
  "unread_model = add_message (u ''bob'') (received sample_frame (u ''bob'') (PStr (u ''hi''))) (sample_model None)"

theorem one_unread_reports_all_witness:
  "\<exists>t r. ct_select (u ''bob'') (sample_client None unread_model []) = (Inr (), t) \<and> lk_outbox t = [Link_Item r] \<and>
     read_receipt (received sample_frame (u ''bob'') (PStr (u ''hi''))) r"
proof -
  let ?s = "sample_client None unread_model []"
  have c: "cv_messages (conv (u ''bob'') unread_model) = [received sample_frame (u ''bob'') (PStr (u ''hi''))]"
    "cv_unread (conv (u ''bob'') unread_model) = 1"
    by (simp_all add: unread_model_def add_message_def Let_def cv_add_def sample_model_def conv_def new_chat_model_def new_conversation_def
        received_def set_typing_fields)
  have m: "filter (\<lambda>msg. \<not> msg_mine msg) (cv_messages (conv (u ''bob'') (ct_model ?s))) = [received sample_frame (u ''bob'') (PStr (u ''hi''))]"
    by (simp add: c received_def)
  show ?thesis
    using one_unread_reports_all [OF hi_not_blank(2), of ?s] sample_can_queue [of 1] c(2)
    unfolding m by (auto simp: list_all2_Cons1)
qed

theorem late_member_key_never_requested_witness:
  "let s = sample_client (Some (sample_ring ''alice'' [])) ((sample_model (Some (u ''#den'')))\<lparr>cm_rooms := [(u ''#den'', [u ''bob''])]\<rparr>) [(u ''#den'', [u ''hi''])]
   in ct_send toy_crypto (u ''hi'') s = (Inr None, s\<lparr>ct_held := dict_set (ct_held s) (u ''#den'') ([u ''hi''] @ [u ''hi''])\<rparr>)"
  unfolding Let_def
proof (rule late_member_key_never_requested [where kr = "sample_ring ''alice'' []"])
  show "room_key (u ''#den'')" "strip (u ''hi'') \<noteq> []" by (fact hi_not_blank)+
qed (simp_all add: sample_model_def room_members_def missing_keys_def kr_knows_def sample_ring_def ct_me_def u_def sample_client_def)

definition first_contact :: "ustr \<Rightarrow> ustr \<Rightarrow> frame" where
  "first_contact ct nn = sample_frame\<lparr>f_sender := PStr (u ''bob''), f_to := PStr (u ''alice''), f_body := PStr ct, f_nonce := PStr nn\<rparr>"

text \<open>Here bob writes to alice, who does not know him.\<close>

theorem first_message_is_read_witness:
  "\<exists>ct nn kb' t1 t2. kr_seal toy_crypto [7] (u ''alice'') (u ''hi'') (u ''bob'') (sample_ring ''bob'' [''alice'']) = (Inr (Some (ct, nn)), kb') \<and>
     on_frame toy_crypto (first_contact ct nn) (sample_client (Some (sample_ring ''alice'' [])) (sample_model None) []) = (Inr (), t1) \<and>
     on_frame toy_crypto key_of_bob t1 = (Inr (), t2) \<and>
     ct_model t2 = add_message (u ''bob'') (received (first_contact ct nn) (u ''bob'') (PStr (u ''hi''))) (sample_model None)"
proof -
  let ?s = "sample_client (Some (sample_ring ''alice'' [])) (sample_model None) []"
  obtain ct nn kb' where k: "kr_seal toy_crypto [7] (u ''alice'') (u ''hi'') (u ''bob'') (sample_ring ''bob'' [''alice'']) = (Inr (Some (ct, nn)), kb')"
    using sample_seal [of "''alice''" "[''alice'']" "[7]" "''hi''" "''bob''"] by auto
  have r: "reaches (u ''alice'') (sample_ring ''bob'' [''alice''])" by (rule sample_reaches) simp_all
  have f: "f_type (first_contact ct nn) = MSG" "f_to (first_contact ct nn) = PStr (u ''alice'')" "f_sender (first_contact ct nn) = PStr (u ''bob'')"
    "f_body (first_contact ct nn) = PStr ct" "f_nonce (first_contact ct nn) = PStr nn" "f_ts (first_contact ct nn) \<noteq> 0"
    by (simp_all add: first_contact_def sample_frame_def)
  have s: "ct_ring ?s = Some (sample_ring ''alice'' [])" "\<not> kr_knows (u ''bob'') (sample_ring ''alice'' [])" "cm_username (ct_model ?s) = Some (u ''alice'')"
    "u ''bob'' \<noteq> u ''alice''" "ct_awaiting ?s = []" "ct_held ?s = []" "can_queue 2 ?s" "[7 :: byte] \<noteq> []"
    using sample_can_queue [of 2] by (simp_all add: kr_knows_def sample_ring_def sample_model_def)
  show ?thesis
    using first_message_is_read [OF toy_crypto_ok sample_honest r k s(8) f key_of_bob_frame hi_not_blank(2,3) s(1) sample_honest s(2-7)] k
    by auto
qed

end
