(* ===== verification/EndToEnd.thy ===== *)
theory EndToEnd
  imports Connections ClientFlow
begin

section \<open>From one client through the server to the other\<close>

text \<open>
  The components put together: the controller and the writer of one client, the bytes on the way
  in any pieces, the reader, the router and the writer of the server, and the reader and the
  controller of the other client.
\<close>

subsection \<open>Lines that arrive in pieces\<close>

lemma line_prefix_plain:
  assumes "good_line t" and "p @ q = line_bytes t" and "q \<noteq> []"
  shows "DELIMITER \<notin> set p"
proof -
  have "p @ butlast q = concat (map utf8_char t)"
    using assms(2,3) by (metis append_butlast_last_id append_assoc butlast_append butlast_snoc line_bytes_def)
  then show ?thesis using good_line_facts(3) [OF assms(1)] by (metis Un_iff set_append)
qed

lemma feed_part:
  assumes "good_line t" and "lb_buffer lb @ chunk @ q = line_bytes t" and "q \<noteq> []" and "length (line_bytes t) \<le> lb_max lb"
  shows "feed lb chunk = (lb\<lparr>lb_buffer := lb_buffer lb @ chunk\<rparr>, Inr [])"
proof -
  have "DELIMITER \<notin> set (lb_buffer lb @ chunk)" using line_prefix_plain [OF assms(1), of "lb_buffer lb @ chunk" q] assms(2,3) by simp
  moreover have "length (lb_buffer lb @ chunk) \<le> lb_max lb"
    using arg_cong [OF assms(2), of length] assms(4) by simp
  ultimately show ?thesis by (simp add: feed_overflow pending_def)
qed

lemma feed_last:
  assumes "good_line t" and "lb_buffer lb @ chunk = line_bytes t"
  shows "feed lb chunk = (lb\<lparr>lb_buffer := []\<rparr>, Inr [t])"
  using feed_loop_line [OF assms(1), of "[]" "[]"] assms(2) by (simp add: feed_def feed_loop.simps [of "[]"])

lemma cut_induct [consumes 3, case_names last more]:
  assumes "pre @ concat chunks = bs" and "[] \<notin> set chunks" and "chunks \<noteq> []"
    and "\<And>pre c. pre @ c = bs \<Longrightarrow> c \<noteq> [] \<Longrightarrow> P pre [c]"
    and "\<And>pre c cs. pre @ c @ concat cs = bs \<Longrightarrow> c \<noteq> [] \<Longrightarrow> concat cs \<noteq> [] \<Longrightarrow> P (pre @ c) cs \<Longrightarrow> P pre (c # cs)"
  shows "P pre chunks"
  using assms(1-3)
proof (induction chunks arbitrary: pre)
  case (Cons c cs)
  show ?case
  proof (cases "cs = []")
    case True
    then show ?thesis using Cons.prems assms(4) by simp
  next
    case False
    then have "concat cs \<noteq> []" using Cons.prems(2) by (cases cs) auto
    then show ?thesis using Cons.prems False Cons.IH [of "pre @ c"] by (intro assms(5)) auto
  qed
qed simp

text \<open>The server's reader: one line, in whatever pieces it arrives, is handled once.\<close>

definition with_buffer :: "nat \<Rightarrow> byte list \<Rightarrow> chat_server \<Rightarrow> chat_server" where
  "with_buffer sid bs s = s\<lparr>buffers := (buffers s)(sid := \<lparr>lb_buffer = bs, lb_max = MAX_LINE_BYTES\<rparr>)\<rparr>"

lemma with_buffer_simps [simp]:
  "buffers (with_buffer sid bs s) sid = \<lparr>lb_buffer = bs, lb_max = MAX_LINE_BYTES\<rparr>" "conns (with_buffer sid bs s) = conns s"
  "with_buffer sid x (with_buffer sid y s) = with_buffer sid x s"
  "(with_buffer sid y s)\<lparr>buffers := (buffers (with_buffer sid y s))(sid := \<lparr>lb_buffer = x, lb_max = MAX_LINE_BYTES\<rparr>)\<rparr> = with_buffer sid x s"
  by (simp_all add: with_buffer_def)

lemma read_loop_line:
  assumes "pre @ concat chunks = line_bytes t" and "[] \<notin> set chunks" and "chunks \<noteq> []"
    and "good_line t" and "length (line_bytes t) \<le> MAX_LINE_BYTES" and "\<not> closed (conns s sid)"
  shows "read_loop sid (map Chunk chunks) (with_buffer sid pre s) = read_line sid t (with_buffer sid [] s)"
  using assms(1-3)
proof (induction rule: cut_induct)
  case (last pre c)
  obtain r s' where r: "read_line sid t (with_buffer sid [] s) = (r, s')" by (cases "read_line sid t (with_buffer sid [] s)")
  have "feed (buffers (with_buffer sid pre s) sid) c = (\<lparr>lb_buffer = [], lb_max = MAX_LINE_BYTES\<rparr>, Inr [t])"
    using feed_last [OF assms(4)] last(1) by simp
  then show ?case using last(2) assms(6) r
    by (cases r) (simp_all add: read_chunk_def react_def bnd_def andthen_def)
next
  case (more pre c cs)
  have "feed (buffers (with_buffer sid pre s) sid) c = (\<lparr>lb_buffer = pre @ c, lb_max = MAX_LINE_BYTES\<rparr>, Inr [])"
    using feed_part [OF assms(4), of "buffers (with_buffer sid pre s) sid" c "concat cs"] more(1,3) assms(5) by simp
  then show ?case using more(2,4) assms(6)
    by (simp add: read_chunk_def react_def bnd_def andthen_def)
qed

text \<open>The same for the client's reader.\<close>

lemma meanwhile_Cons: "meanwhile (i # is) s = meanwhile is (snd (io_turn i s))"
  by (simp add: meanwhile_def andthen_def bnd_def rescue_def split: prod.split sum.split)

lemma link_hears_line:
  fixes s :: "'z link_scheme"
  assumes "pre @ concat chunks = line_bytes (frame_text g)" and "[] \<notin> set chunks" and "chunks \<noteq> []"
    and "wf_frame g" and "length (line_bytes (frame_text g)) \<le> MAX_LINE_BYTES"
    and "lk_reading s" and "f_type g \<notin> set (lk_await s)" and "f_type g \<noteq> PONG"
  shows "meanwhile (map (Io_Recv \<circ> Some) chunks) (s\<lparr>lk_buffer := \<lparr>lb_buffer = pre, lb_max = MAX_LINE_BYTES\<rparr>\<rparr>) =
    (Inr (), s\<lparr>lk_buffer := new_line_buffer MAX_LINE_BYTES, draws := Suc (draws s), lk_heard := lk_heard s @ [g]\<rparr>)"
  using assms(1-3)
proof (induction rule: cut_induct)
  case (last pre c)
  have "feed \<lparr>lb_buffer = pre, lb_max = MAX_LINE_BYTES\<rparr> c = (new_line_buffer MAX_LINE_BYTES, Inr [frame_text g])"
    using feed_last [OF frame_text_good [OF assms(4)]] last(1) by (simp add: new_line_buffer_def)
  then show ?case using last(2) assms(6-8)
    by (simp add: meanwhile_one link_read_def rescue_def read_turn_def bnd_def andthen_def link_line_def
        decode_frame_text [OF assms(4)] link_deliver_def)
next
  case (more pre c cs)
  have "feed \<lparr>lb_buffer = pre, lb_max = MAX_LINE_BYTES\<rparr> c = (\<lparr>lb_buffer = pre @ c, lb_max = MAX_LINE_BYTES\<rparr>, Inr [])"
    using feed_part [OF frame_text_good [OF assms(4)], of "\<lparr>lb_buffer = pre, lb_max = MAX_LINE_BYTES\<rparr>" c "concat cs"] more(1,3) assms(5) by simp
  then show ?case using more(2,4) assms(6)
    by (simp add: meanwhile_Cons link_read_def rescue_def read_turn_def bnd_def andthen_def)
qed

subsection \<open>The router between two connected people\<close>

definition acquainted :: "ustr \<Rightarrow> ustr \<Rightarrow> 'z database_scheme \<Rightarrow> bool" where
  "acquainted a b s \<longleftrightarrow> (a, b) \<in> fst ` set (t_contacts s) \<and> (b, a) \<in> fst ` set (t_contacts s)"

lemma note_contact_known:
  assumes "(a, b) \<in> fst ` set (t_contacts s)" and "storable a" and "storable b" and "fits_int64 (clock_src s (draws s))"
    and "has_contacts s" and "b \<noteq> []" and "\<not> is_room b"
  shows "note_contact a b s = (Inr (), s\<lparr>draws := Suc (draws s)\<rparr>)"
  using assms by (simp add: note_contact_def now_ms_def draw_def bnd_def contacts_add_def transaction_def bind_int_def)

text \<open>Both people are connected and know each other, and the server can take and pass on a frame.\<close>

definition both_connected :: "ustr \<Rightarrow> nat \<Rightarrow> ustr \<Rightarrow> nat \<Rightarrow> 'z server_scheme \<Rightarrow> bool" where
  "both_connected alice ca bob cb s \<longleftrightarrow> username (conns s ca) = PStr alice \<and> sessions_get (PStr bob) (by_name s) = Some cb \<and> ca \<noteq> cb \<and>
     \<not> closed (conns s ca) \<and> \<not> closed (conns s cb) \<and> outbox (conns s cb) = [] \<and> length (outbox (conns s ca)) < OUTBOX_LIMIT \<and>
     has_messages s \<and> has_contacts s \<and> (\<forall>n. fits_int64 (clock_src s n)) \<and> acquainted alice bob s"

definition ack_for :: "pyval \<Rightarrow> 'z world_scheme \<Rightarrow> frame" where
  "ack_for i s = \<lparr>f_type = ACK, f_sender = PNone, f_to = PNone, f_body = PNone, f_nonce = PNone, f_data = [(u ''ref'', i)],
     f_id = PStr (uuid_src s (draws s)), f_ts = clock_src s (Suc (draws s)), f_v = PInt PROTOCOL_VERSION\<rparr>"

lemma handle_online:
  assumes "both_connected alice ca bob cb s" and "alice \<noteq> []" "storable alice" "\<not> is_room alice" and "bob \<noteq> []" "storable bob" "\<not> is_room bob"
    and "f_type f = MSG" "f_to f = PStr bob" and "bind_text (f_id f) = Inr (Some i)" and "bind_text (f_body f) = Inr b"
    and "bind_text (f_nonce f) = Inr n" and "fits_int64 (f_ts f)" and "i \<notin> m_id ` set (t_messages s)"
  shows "\<exists>t ack. handle ca f s = (Inr (), t) \<and> t_messages t = t_messages s @ [stored_row i alice bob b n (f_ts f)] \<and>
    server.more t = server.more s \<and> outbox (conns t cb) = [Item (outgoing_of (PStr alice) f)] \<and>
    outbox (conns t ca) = outbox (conns s ca) @ [Item ack] \<and> f_type ack = ACK \<and> f_data ack = [(u ''ref'', f_id f)]"
proof -
  let ?out = "outgoing_of (PStr alice) f" and ?rows = "t_messages s @ [stored_row i alice bob b n (f_ts f)]"
  note c = assms(1) [unfolded both_connected_def acquainted_def]
  have rec: "record_msg ?out (pair_key alice bob) bob s = (Inr (), s\<lparr>t_messages := ?rows\<rparr>)"
    using record_msg_new [of s ?out alice bob i b n] c assms by (simp add: outgoing_of_def)
  let ?s1 = "s\<lparr>t_messages := ?rows\<rparr>" and ?s2 = "s\<lparr>t_messages := ?rows, draws := Suc (draws s)\<rparr>"
  let ?s3 = "s\<lparr>t_messages := ?rows, draws := Suc (Suc (draws s))\<rparr>"
  have n1: "note_contact alice bob ?s1 = (Inr (), ?s2)"
    using c assms by (subst note_contact_known) simp_all
  have n2: "note_contact bob alice ?s2 = (Inr (), ?s3)"
    using c assms by (subst note_contact_known) simp_all
  let ?s4 = "with_conn cb (handler_send ?out) ?s3"
  have to: "to_user ca bob ?out s = (Inr True, ?s4)"
    using c assms(2) rec n1 n2
    by (simp add: to_user_def find_session_def bnd_def andthen_def session_username_def py_or_def direct_conversation_def send_def)
  let ?t = "with_conn ca (handler_send (ack_for (f_id f) ?s4)) (?s4\<lparr>draws := Suc (Suc (draws ?s4))\<rparr>)"
  have run: "handle ca f s = (Inr (), ?t)"
    using assms(5,7-9) c to
    by (simp add: handle_def session_username_def message_def bnd_def send_data_def op_defs send_def ack_for_def)
  have "handler_send ?out (conns s cb) = (conns s cb)\<lparr>outbox := [Item ?out]\<rparr>"
    using c by (simp add: handler_send_def OUTBOX_LIMIT_def)
  then show ?thesis using run c
    by (intro exI [of _ ?t] exI [of _ "ack_for (f_id f) ?s4"]) (simp add: with_conn_def handler_send_def ack_for_def)
qed

subsection \<open>What a client writes can be read back\<close>

text \<open>What the code relies on in \<open>uuid4\<close>, \<open>time_ns\<close> and \<open>urandom\<close>.\<close>

definition sane_world :: "'z world_scheme \<Rightarrow> bool" where
  "sane_world s \<longleftrightarrow> (\<forall>n. uuid_src s n \<noteq> [] \<and> scalars (uuid_src s n) \<and> clock_src s n \<noteq> 0 \<and> fits_int64 (clock_src s n) \<and> token_src s n \<noteq> [])"

lemma nat_str_length: "n < 10 ^ Suc k \<Longrightarrow> length (nat_str n) \<le> Suc k"
proof (induction k arbitrary: n)
  case 0
  then show ?case by (simp add: nat_str.simps)
next
  case (Suc k)
  then have "n div 10 < 10 ^ Suc k" by (simp add: less_mult_imp_div_less)
  from Suc.IH [OF this] show ?case by (subst nat_str.simps) simp
qed

lemma int64_json: "fits_int64 i \<Longrightarrow> wf_json (PInt i)"
proof -
  assume "fits_int64 i"
  then have "nat \<bar>i\<bar> < 10 ^ Suc 19" by (auto simp: fits_int64_def nat_less_iff)
  from nat_str_length [OF this] show ?thesis by (simp add: max_digits_def)
qed

lemma b64_scalars: "scalars (b64 bs)"
  using b64_ascii [of bs] by (auto simp: list_all_iff is_scalar_def is_surrogate_def)

lemma scalars_storable: "scalars s \<Longrightarrow> storable s"
  by (auto simp: storable_def list_all_iff is_scalar_def)

definition plain_frame :: "frame \<Rightarrow> bool" where
  "plain_frame f \<longleftrightarrow> f_v f = PInt PROTOCOL_VERSION \<and> f_type f = MSG \<and> f_data f = [] \<and>
    (\<exists>i ct nn. f_id f = PStr i \<and> i \<noteq> [] \<and> scalars i \<and> f_body f = PStr ct \<and> scalars ct \<and> f_nonce f = PStr nn \<and> nn \<noteq> [] \<and> scalars nn) \<and>
    f_ts f \<noteq> 0 \<and> fits_int64 (f_ts f)"

lemma plain_frame_wf: "plain_frame f \<Longrightarrow> wf_json (f_sender f) \<Longrightarrow> wf_json (f_to f) \<Longrightarrow> wf_frame f"
  by (auto simp: plain_frame_def wf_frame_def int64_json simp del: wf_json.simps(3))

lemma plain_outgoing: "plain_frame f \<Longrightarrow> plain_frame (outgoing_of me f)"
  by (simp add: plain_frame_def outgoing_of_def)

subsection \<open>Each leg of the way\<close>

lemma send_writes:
  assumes "talks_to c k user me s" and "sendable me text" and "can_queue (Suc n) s" and "sane_world s"
  shows "\<exists>t f i. ct_send c text s = (Inr (Some (my_message f me text)), t) \<and> carries c k user me text f \<and> plain_frame f \<and>
    f_sender f = PNone \<and> f_id f = PStr (uuid_src s (Suc (draws s))) \<and>
    lk_outbox t = lk_outbox s @ [Link_Item f] \<and> lk_writing t = lk_writing s \<and> lk_sock_open t = lk_sock_open s \<and> lk_wire t = lk_wire s"
proof -
  obtain ct nn r where sl: "seal c k (token_src s (draws s)) text me = Inr (ct, nn)" "nn = b64 (token_src s (draws s))"
    and run: "let s1 = s\<lparr>draws := Suc (draws s), ct_ring := Some r\<rparr>;
      f = next_frame MSG (PStr user) (PStr ct) (PStr nn) [] s1 in
      ct_send c text s = (Inr (Some (my_message f me text)), (queued f s1)\<lparr>ct_model := add_message user (my_message f me text) (ct_model s)\<rparr>)"
    using send_exact [OF assms(1-3)] by blast
  let ?s = "s\<lparr>draws := Suc (draws s), ct_ring := Some r\<rparr>"
  let ?f = "next_frame MSG (PStr user) (PStr ct) (PStr nn) [] ?s"
  have "scalars ct" using sl(1) b64_scalars by (auto simp: seal_def split: sum.splits)
  then have "plain_frame ?f" using assms(4) b64_scalars b64_nonempty sl(2) by (simp add: plain_frame_def next_frame_def sane_world_def)
  moreover have "carries c k user me text ?f" using sl by (auto simp: carries_def next_frame_def)
  ultimately show ?thesis
    using run by (intro exI [of _ "(queued ?f ?s)\<lparr>ct_model := add_message user (my_message ?f me text) (ct_model s)\<rparr>"] exI [of _ ?f])
      (simp add: Let_def, simp add: queued_def next_frame_def)
qed

lemma opened_message:
  fixes s :: "'z client_scheme"
  assumes "crypto_ok c" and "honest c priv bob kb" and "reaches alice kb" and "ct_ring s = Some kb"
    and "key_for c (priv alice) (public_b64 c (priv bob)) = Inr k" and "seal c k nonce text alice = Inr (ct, nn)" and "nn \<noteq> []"
    and "f_type g = MSG" and "f_to g = PStr bob" and "f_sender g = PStr alice" and "f_body g = PStr ct" and "f_nonce g = PStr nn"
    and "f_ts g \<noteq> 0" and "alice \<noteq> []" and "\<not> room_key bob" and "cm_username (ct_model s) = Some bob"
  shows "\<exists>t. on_frame c g s = (Inr (), t) \<and> ct_model t = add_message alice (received g alice (PStr text)) (ct_model s) \<and> receipted g alice alice s t"
proof -
  have sn: "sender_or g x = ret alice" for x using assms(10,14) by (simp add: sender_or_def py_or_def as_str_def)
  have tg: "target_of g = ret bob" using assms(9) by (auto simp: target_of_def py_or_def as_str_def)
  have op: "outcome (kr_open c alice (PStr ct) (PStr nn) alice) kb = Inr text" by (rule kr_open_key [OF assms(1-3,5,6)])
  have "\<exists>r'. plaintext c g alice t = (Inr (PStr text), t\<lparr>ct_ring := r'\<rparr>)" if "ct_ring t = ct_ring s" for t :: "'z client_scheme"
    using open_run [OF op, of t] that assms(4,7,10-12,14)
    by (auto simp: plaintext_def sender_or_def py_or_def as_str_def bnd_def)
  then obtain t where t: "ct_file c g alice s = (Inr (), t)"
    "ct_model t = add_message alice (received g alice (PStr text)) (ct_model s)" "receipted g alice alice s t"
    using file_runs [OF assms(10,14,13), of s c "PStr text" alice] by blast
  have "kr_knows alice kb \<or> alice = bob" using assms(2,3) by (auto simp: honest_def reaches_def)
  then have "on_frame c g s = ct_file c g alice s"
    using assms(4,8,14-16) by (auto simp: on_frame_def incoming_message_def tg sn bnd_def)
  with t show ?thesis by simp
qed

lemma link_write_frame:
  assumes "lk_outbox s = [Link_Item f]" and "lk_writing s" and "lk_sock_open s" and "wf_frame f"
  shows "lk_wire (link_write True s) = lk_wire s @ line_bytes (frame_text f)"
  using assms by (simp add: link_write_def encode_eq)

lemma write_one_frame:
  assumes "outbox (conns s cb) = [Item g]" and "wf_frame g"
  shows "write_one cb True s = (True, snd (write_one cb True s))" "wire (snd (write_one cb True s)) cb = wire s cb @ line_bytes (frame_text g)"
  using assms by (simp_all add: write_one_def encode_eq with_conn_def)

lemma read_line_frame: "wf_frame f \<Longrightarrow> read_line sid (frame_text f) s = handle sid f (s\<lparr>draws := Suc (draws s)\<rparr>)"
  by (simp add: read_line_def bnd_def decode_frame_text)

definition ready_to_send :: "'z session_scheme \<Rightarrow> bool" where
  "ready_to_send s \<longleftrightarrow> lk_outbox s = [] \<and> session_can_send s \<and> lk_writing s \<and> lk_sock_open s \<and> sane_world s"

definition ready_to_hear :: "'z link_scheme \<Rightarrow> bool" where
  "ready_to_hear s \<longleftrightarrow> lk_reading s \<and> lk_buffer s = new_line_buffer MAX_LINE_BYTES \<and> MSG \<notin> set (lk_await s)"

text \<open>How a line may arrive: in any pieces, none of them empty, within the limit of a line.\<close>

definition chunked :: "byte list list \<Rightarrow> bool" where
  "chunked chunks \<longleftrightarrow> [] \<notin> set chunks \<and> length (concat chunks) \<le> MAX_LINE_BYTES"

lemma is_room_key: "is_room x = room_key x"
  by (simp add: room_key_def ROOM_PREFIX_def)

lemma server_relays:
  assumes "both_connected alice ca bob cb s" and "buffers s ca = new_line_buffer MAX_LINE_BYTES"
    and "alice \<noteq> []" "scalars alice" "\<not> is_room alice" and "bob \<noteq> []" "scalars bob" "\<not> is_room bob"
    and "plain_frame f" and "f_sender f = PNone" and "f_to f = PStr bob" and "f_id f = PStr i" and "i \<notin> m_id ` set (t_messages s)"
    and "concat up = line_bytes (frame_text f)" and "chunked up"
  shows "\<exists>s1. read_loop ca (map Chunk up) s = (Inr (), s1) \<and> outbox (conns s1 cb) = [Item (outgoing_of (PStr alice) f)] \<and>
    wire s1 = wire s \<and> (\<exists>ct nn. f_body f = PStr ct \<and> f_nonce f = PStr nn \<and>
      t_messages s1 = t_messages s @ [stored_row i alice bob (Some ct) (Some nn) (f_ts f)]) \<and>
    (\<exists>ack. outbox (conns s1 ca) = outbox (conns s ca) @ [Item ack] \<and> f_type ack = ACK \<and> f_data ack = [(u ''ref'', f_id f)])"
proof -
  obtain ct nn where f: "f_type f = MSG" "scalars i" "i \<noteq> []" "f_body f = PStr ct" "scalars ct" "f_nonce f = PStr nn" "scalars nn" "fits_int64 (f_ts f)"
    using assms(9,12) by (auto simp: plain_frame_def)
  have wf: "wf_frame f" using plain_frame_wf [OF assms(9)] assms(7,10,11) by simp
  have buf: "with_buffer ca [] s = s" using assms(2) by (simp add: with_buffer_def new_line_buffer_def fun_upd_idem)
  have "up \<noteq> []" using assms(14) by (auto simp: line_bytes_def)
  then have read: "read_loop ca (map Chunk up) s = handle ca f (s\<lparr>draws := Suc (draws s)\<rparr>)"
    using read_loop_line [OF _ _ _ frame_text_good [OF wf], of "[]" up s ca] assms(1,14,15)
    by (simp add: chunked_def both_connected_def buf read_line_frame [OF wf])
  let ?s = "s\<lparr>draws := Suc (draws s)\<rparr>"
  have "both_connected alice ca bob cb ?s" using assms(1) by (simp add: both_connected_def acquainted_def)
  moreover have "bind_text (f_id f) = Inr (Some i)" "bind_text (f_body f) = Inr (Some ct)" "bind_text (f_nonce f) = Inr (Some nn)"
    using f assms(12) scalars_storable by (auto simp: bind_text_PStr storable_def)
  ultimately obtain t ack where t: "handle ca f ?s = (Inr (), t)" "t_messages t = t_messages s @ [stored_row i alice bob (Some ct) (Some nn) (f_ts f)]"
    "server.more t = server.more ?s" "outbox (conns t cb) = [Item (outgoing_of (PStr alice) f)]"
    "outbox (conns t ca) = outbox (conns s ca) @ [Item ack]" "f_type ack = ACK" "f_data ack = [(u ''ref'', f_id f)]"
    using handle_online [of alice ca bob cb ?s f i "Some ct" "Some nn"] assms(3-8,11,13) f scalars_storable by auto
  have "wire t = wire s" using same_rest_fields [of ?s t] t(3) by (simp add: same_rest_def)
  then show ?thesis using read t f by auto
qed

subsection \<open>The whole way\<close>

text \<open>A client of \<open>me\<close> that holds the true key of \<open>peer\<close>.\<close>

definition has_key_of :: "crypto \<Rightarrow> (ustr \<Rightarrow> byte list) \<Rightarrow> ustr \<Rightarrow> ustr \<Rightarrow> 'z client_scheme \<Rightarrow> bool" where
  "has_key_of c priv me peer s \<longleftrightarrow> cm_username (ct_model s) = Some me \<and> (\<exists>kr. ct_ring s = Some kr \<and> honest c priv me kr \<and> reaches peer kr)"

lemma has_key_talks:
  assumes "has_key_of c priv alice bob s" and "key_for c (priv alice) (public_b64 c (priv bob)) = Inr k"
    and "active (ct_model s) = Some bob" and "\<not> room_key bob" and "alice \<noteq> []"
  shows "talks_to c k bob alice s"
proof -
  obtain kr where kr: "ct_ring s = Some kr" "honest c priv alice kr" "reaches bob kr" "cm_username (ct_model s) = Some alice"
    using assms(1) by (auto simp: has_key_of_def)
  then show ?thesis
    using honest_fresh_key [OF kr(2,3)] assms(2-5) by (auto simp: talks_to_def ct_me_def honest_def)
qed

text \<open>C2: what alice types is what bob reads. Both are connected, know each other and hold each
  other's true key. What her client writes to its socket reaches the server's reader in pieces cut
  anywhere, and what the server's writer writes to bob's socket reaches his client's reader in
  pieces cut anywhere. Then every step returns: the send, the server's handling, his reader and his
  controller; the server stores the message with her name and a body that is the sealed text; and
  exactly the text she typed is added to her conversation on his side, under the id and the time
  her client gave it.\<close>

theorem what_is_typed_is_read:
  assumes "crypto_ok c" and "key_for c (priv alice) (public_b64 c (priv bob)) = Inr k"
    and "has_key_of c priv alice bob a" and "active (ct_model a) = Some bob" and "sendable alice text" and "ready_to_send a"
    and "has_key_of c priv bob alice b" and "ready_to_hear b"
    and "both_connected alice ca bob cb s" and "buffers s ca = new_line_buffer MAX_LINE_BYTES"
    and "\<not> room_key alice" and "\<not> room_key bob" and "scalars bob" and "uuid_src a (Suc (draws a)) \<notin> m_id ` set (t_messages s)"
    and "a1 = after (ct_send c text) a" and "lk_wire (link_write True a1) = lk_wire a @ concat up" and "chunked up"
    and "s1 = after (read_loop ca (map Chunk up)) s" and "wire (snd (write_one cb True s1)) cb = wire s cb @ concat down" and "chunked down"
  shows "\<exists>f g ct nn b1 b2. ct_send c text a = (Inr (Some (my_message f alice text)), a1) \<and> read_loop ca (map Chunk up) s = (Inr (), s1) \<and>
    t_messages s1 = t_messages s @ [stored_row (uuid_src a (Suc (draws a))) alice bob (Some ct) (Some nn) (f_ts f)] \<and>
    (\<exists>nonce. seal c k nonce text alice = Inr (ct, nn)) \<and>
    meanwhile (map (Io_Recv \<circ> Some) down) b = (Inr (), b1) \<and> lk_heard b1 = lk_heard b @ [g] \<and> f_id g = f_id f \<and> f_ts g = f_ts f \<and>
    on_frame c g b1 = (Inr (), b2) \<and> ct_model b2 = add_message alice (received g alice (PStr text)) (ct_model b)"
proof -
  obtain kb where kb: "ct_ring b = Some kb" "honest c priv bob kb" "reaches alice kb" "cm_username (ct_model b) = Some bob"
    using assms(7) by (auto simp: has_key_of_def)
  have bob: "bob \<noteq> []" using assms(3) by (auto simp: has_key_of_def reaches_def)
  have alice: "alice \<noteq> []" "scalars alice" using kb(3) assms(5) by (auto simp: reaches_def sendable_def utf8_encode_def split: if_splits)
  have q: "can_queue (Suc 0) a" using assms(6) by (simp add: ready_to_send_def can_queue_def LINK_OUTBOX_LIMIT_def)
  note w = assms(6) [unfolded ready_to_send_def]
  obtain f where f: "ct_send c text a = (Inr (Some (my_message f alice text)), a1)" "carries c k bob alice text f" "plain_frame f"
    "f_sender f = PNone" "f_id f = PStr (uuid_src a (Suc (draws a)))" "lk_outbox a1 = [Link_Item f]" "lk_writing a1" "lk_sock_open a1" "lk_wire a1 = lk_wire a"
    using send_writes [OF has_key_talks [OF assms(3,2,4,12) alice(1)] assms(5) q] w assms(15) by auto
  obtain nonce ct nn where fc: "f_to f = PStr bob" "seal c k nonce text alice = Inr (ct, nn)" "f_body f = PStr ct" "f_nonce f = PStr nn"
    using f(2) by (auto simp: carries_def)
  have wf: "wf_frame f" using plain_frame_wf [OF f(3)] f(4) fc(1) assms(13) by simp
  have up: "concat up = line_bytes (frame_text f)" using link_write_frame [OF f(6-8) wf] assms(16) f(9) by simp
  let ?g = "outgoing_of (PStr alice) f"
  have rl: "read_loop ca (map Chunk up) s = (Inr (), s1)" "outbox (conns s1 cb) = [Item ?g]" "wire s1 = wire s"
    "t_messages s1 = t_messages s @ [stored_row (uuid_src a (Suc (draws a))) alice bob (Some ct) (Some nn) (f_ts f)]"
    using server_relays [OF assms(9,10) alice _ bob assms(13) _ f(3,4) fc(1) f(5) assms(14) up assms(17)] assms(11,12,18) fc(3,4) by (auto simp: is_room_key)
  have g: "plain_frame ?g" "wf_frame ?g" "f_type ?g = MSG" "f_to ?g = PStr bob" "f_sender ?g = PStr alice" "f_body ?g = PStr ct" "f_nonce ?g = PStr nn"
    using plain_outgoing [OF f(3)] plain_frame_wf [OF plain_outgoing [OF f(3), of "PStr alice"]] alice(2) assms(13) fc by (auto simp: outgoing_of_def)
  have down: "concat down = line_bytes (frame_text ?g)" using write_one_frame(2) [OF rl(2) g(2)] rl(3) assms(19) by simp
  have "down \<noteq> []" using down by (auto simp: line_bytes_def)
  let ?b = "b\<lparr>lk_buffer := new_line_buffer MAX_LINE_BYTES, draws := Suc (draws b), lk_heard := lk_heard b @ [?g]\<rparr>"
  have "b\<lparr>lk_buffer := \<lparr>lb_buffer = [], lb_max = MAX_LINE_BYTES\<rparr>\<rparr> = b"
    using assms(8) by (simp add: ready_to_hear_def new_line_buffer_def)
  then have mw: "meanwhile (map (Io_Recv \<circ> Some) down) b = (Inr (), ?b)"
    using link_hears_line [OF _ _ \<open>down \<noteq> []\<close> g(2), of "[]" b] down assms(8,20) g(3) by (simp add: chunked_def ready_to_hear_def)
  have "nn \<noteq> []" "f_ts ?g \<noteq> 0" using g(1,7) by (auto simp: plain_frame_def)
  then obtain b2 where "on_frame c ?g ?b = (Inr (), b2)" "ct_model b2 = add_message alice (received ?g alice (PStr text)) (ct_model ?b)"
    using opened_message [OF assms(1) kb(2,3) _ assms(2) fc(2) _ g(3-7) _ alice(1) assms(12), of ?b] kb by auto
  then show ?thesis using f(1) rl mw fc(2) by (intro exI [of _ f] exI [of _ ?g] exI [of _ ct] exI [of _ nn] exI [of _ ?b] exI [of _ b2]) (auto simp: outgoing_of_def)
qed

subsection \<open>A line that outgrows its reader\<close>

lemma deaf_link: "\<not> lk_reading s \<Longrightarrow> meanwhile (map (Io_Recv \<circ> Some) cs) s = (Inr (), s)"
  by (induction cs) (simp_all add: meanwhile_Cons link_read_def, simp add: meanwhile_def)

lemma line_too_long_ends_reader:
  fixes s :: "'z link_scheme"
  assumes "good_line t" and "pre @ concat cs @ q = line_bytes t" and "q \<noteq> []" and "[] \<notin> set cs"
    and "length pre \<le> MAX_LINE_BYTES" and "MAX_LINE_BYTES < length (pre @ concat cs)"
    and "lk_reading s" and "\<not> lk_closing s" and "link_state s = ONLINE"
  shows "\<exists>t. meanwhile (map (Io_Recv \<circ> Some) cs) (s\<lparr>lk_buffer := \<lparr>lb_buffer = pre, lb_max = MAX_LINE_BYTES\<rparr>\<rparr>) = (Inr (), t) \<and>
    \<not> lk_reading t \<and> lk_heard t = lk_heard s \<and> link_state t = RETRYING"
  using assms(2,4-6)
proof (induction cs arbitrary: pre)
  case (Cons c cs)
  let ?lb = "\<lparr>lb_buffer = pre, lb_max = MAX_LINE_BYTES\<rparr>"
  have "DELIMITER \<notin> set (pre @ c)" using line_prefix_plain [OF assms(1), of "pre @ c" "concat cs @ q"] Cons.prems(1) assms(3) by simp
  then have f: "feed ?lb c = (if MAX_LINE_BYTES < length (pre @ c) then (?lb\<lparr>lb_buffer := []\<rparr>, Inl (Line_Too_Long MAX_LINE_BYTES))
      else (?lb\<lparr>lb_buffer := pre @ c\<rparr>, Inr []))" by (simp add: feed_overflow pending_def)
  have ne: "c \<noteq> []" using Cons.prems(2) by auto
  show ?case
  proof (cases "MAX_LINE_BYTES < length (pre @ c)")
    case True
    have "link_read (Some c) (s\<lparr>lk_buffer := ?lb\<rparr>) = (Inr (), s\<lparr>lk_buffer := \<lparr>lb_buffer = [], lb_max = MAX_LINE_BYTES\<rparr>, lk_reading := False,
        lk_machine := move RETRYING (lk_machine s), lk_ready := True\<rparr>)"
      using True f ne assms(7-9)
      by (simp add: link_read_def rescue_def read_turn_def bnd_def andthen_def connection_lost_def mc_is_closed_def link_state_def mc_allows_def
          on_event_run mc_transition_def transitions_def)
    then show ?thesis by (simp add: meanwhile_Cons deaf_link [unfolded comp_def] link_state_def)
  next
    case False
    then have "link_read (Some c) (s\<lparr>lk_buffer := ?lb\<rparr>) = (Inr (), s\<lparr>lk_buffer := \<lparr>lb_buffer = pre @ c, lb_max = MAX_LINE_BYTES\<rparr>\<rparr>)"
      using f ne assms(7) by (simp add: link_read_def rescue_def read_turn_def bnd_def andthen_def)
    then show ?thesis using Cons.IH [of "pre @ c"] Cons.prems False by (simp add: meanwhile_Cons)
  qed
qed simp

text \<open>The limit of a line is the same for both ends, but what the server passes on is longer than
  what it was given: it adds the sender. A frame just short enough for the server is relayed and
  acknowledged, and ends the connection of the person it is for.\<close>

theorem relayed_but_refused:
  fixes b :: "'z link_scheme"
  assumes "both_connected alice ca bob cb s" and "buffers s ca = new_line_buffer MAX_LINE_BYTES"
    and "alice \<noteq> []" "scalars alice" "\<not> is_room alice" and "bob \<noteq> []" "scalars bob" "\<not> is_room bob"
    and "plain_frame f" and "f_sender f = PNone" and "f_to f = PStr bob" and "f_id f = PStr i" and "i \<notin> m_id ` set (t_messages s)"
    and "concat up = line_bytes (frame_text f)" and "chunked up"
    and "concat down @ rest = line_bytes (frame_text (outgoing_of (PStr alice) f))" and "rest \<noteq> []" and "[] \<notin> set down"
    and "MAX_LINE_BYTES < length (concat down)" and "ready_to_hear b" and "\<not> lk_closing b" and "link_state b = ONLINE"
  shows "\<exists>s1 b1. read_loop ca (map Chunk up) s = (Inr (), s1) \<and> outbox (conns s1 cb) = [Item (outgoing_of (PStr alice) f)] \<and>
    (\<exists>ack. outbox (conns s1 ca) = outbox (conns s ca) @ [Item ack] \<and> f_type ack = ACK \<and> f_data ack = [(u ''ref'', f_id f)]) \<and>
    meanwhile (map (Io_Recv \<circ> Some) down) b = (Inr (), b1) \<and> \<not> lk_reading b1 \<and> lk_heard b1 = lk_heard b \<and> link_state b1 = RETRYING"
proof -
  let ?g = "outgoing_of (PStr alice) f"
  have "wf_frame ?g"
    using plain_frame_wf [OF plain_outgoing [OF assms(9), of "PStr alice"]] assms(4,7,11) by (simp add: outgoing_of_def)
  note good = frame_text_good [OF this]
  have "b\<lparr>lk_buffer := \<lparr>lb_buffer = [], lb_max = MAX_LINE_BYTES\<rparr>\<rparr> = b"
    using assms(20) by (simp add: ready_to_hear_def new_line_buffer_def)
  then have "\<exists>b1. meanwhile (map (Io_Recv \<circ> Some) down) b = (Inr (), b1) \<and> \<not> lk_reading b1 \<and> lk_heard b1 = lk_heard b \<and> link_state b1 = RETRYING"
    using line_too_long_ends_reader [OF good, of "[]" down rest b] assms(16-22) by (simp add: ready_to_hear_def)
  then show ?thesis using server_relays [OF assms(1-15)] by blast
qed

subsection \<open>Concrete instances\<close>

definition relay_server :: chat_server where
  "relay_server = (accept (accept (start_server (empty_db\<lparr>t_contacts := [((u ''alice'', u ''bob''), 1), ((u ''bob'', u ''alice''), 2)]\<rparr>))))
     \<lparr>clock_src := \<lambda>_. 7, by_name := [(PStr (u ''alice''), 0), (PStr (u ''bob''), 1)],
      conns := (\<lambda>_. new_handler)(0 := new_handler\<lparr>username := PStr (u ''alice'')\<rparr>, 1 := new_handler\<lparr>username := PStr (u ''bob'')\<rparr>)\<rparr>"

definition relay_alice :: client where
  "relay_alice = (sample_client (Some (sample_ring ''alice'' [''bob''])) (sample_model (Some (u ''bob''))) [])\<lparr>clock_src := \<lambda>_. 7\<rparr>"

definition relay_bob :: client where
  "relay_bob = sample_client (Some (sample_ring ''bob'' [''alice''])) (new_chat_model\<lparr>cm_username := Some (u ''bob'')\<rparr>) []"

lemma nat_str_scalars: "scalars (nat_str n)"
  using nat_str_digits [of n] by (auto simp: list_all_iff is_digit_def is_scalar_def is_surrogate_def)

lemma relay_clients:
  "has_key_of toy_crypto sample_private (u ''alice'') (u ''bob'') relay_alice" "has_key_of toy_crypto sample_private (u ''bob'') (u ''alice'') relay_bob"
  "active (ct_model relay_alice) = Some (u ''bob'')" "ready_to_send relay_alice" "ready_to_hear relay_bob" "lk_wire relay_alice = []" "draws relay_alice = 0"
  "uuid_src relay_alice = nat_str"
  using sample_honest [of "''alice''" "[''bob'']"] sample_honest [of "''bob''" "[''alice'']"]
    sample_reaches [of "''alice''" "[''alice'']" "''bob''"] sample_reaches [of "''bob''" "[''bob'']" "''alice''"]
  by (simp_all add: has_key_of_def relay_alice_def relay_bob_def sample_model_def ready_to_send_def ready_to_hear_def sane_world_def
      session_can_send_def link_can_send_def mc_can_send_def fits_int64_def sample_client_def nat_str_scalars)

lemma relay_connected: "both_connected (u ''alice'') 0 (u ''bob'') 1 relay_server" "buffers relay_server 0 = new_line_buffer MAX_LINE_BYTES"
  "t_messages relay_server = []" "wire relay_server 1 = []"
  by (simp_all add: both_connected_def acquainted_def relay_server_def accept_def start_server_def empty_db_def new_handler_def sessions_get_def OUTBOX_LIMIT_def fits_int64_def)

text \<open>The frame alice's client writes, and the one bob's gets.\<close>

definition relay_frame :: frame where
  "relay_frame = \<lparr>f_type = MSG, f_sender = PNone, f_to = PStr (u ''bob''), f_body = PStr (u ''aGk=''), f_nonce = PStr (u ''AA==''), f_data = [],
     f_id = PStr (u ''1''), f_ts = 7, f_v = PInt PROTOCOL_VERSION\<rparr>"

lemma relay_frame_plain: "plain_frame relay_frame" "wf_frame relay_frame" "wf_frame (outgoing_of (PStr (u ''alice'')) relay_frame)"
proof -
  show p: "plain_frame relay_frame" by (simp add: plain_frame_def relay_frame_def fits_int64_def)
  show "wf_frame relay_frame" by (rule plain_frame_wf [OF p]) (simp_all add: relay_frame_def)
  show "wf_frame (outgoing_of (PStr (u ''alice'')) relay_frame)"
    by (rule plain_frame_wf [OF plain_outgoing [OF p]]) (simp_all add: outgoing_of_def relay_frame_def)
qed

lemma relay_lengths:
  "9 < length (line_bytes (frame_text relay_frame))" "length (line_bytes (frame_text relay_frame)) \<le> 4096"
  "length (line_bytes (frame_text (outgoing_of (PStr (u ''alice'')) relay_frame))) \<le> 4096"
  by (simp_all add: line_bytes_def frame_text_def relay_frame_def outgoing_of_def head_fields_def opt_field_def dumps_str_def
      esc_char_def u_def type_name_def PROTOCOL_VERSION_def int_str_def nat_str.simps utf8_char_def)

lemma relay_sends:
  "\<exists>t. ct_send toy_crypto (u ''hi'') relay_alice = (Inr (Some (my_message relay_frame (u ''alice'') (u ''hi''))), t) \<and>
     lk_wire (link_write True t) = line_bytes (frame_text relay_frame)"
proof -
  obtain k where k: "key_for toy_crypto (sample_private (u ''alice'')) (public_b64 toy_crypto (sample_private (u ''bob''))) = Inr k"
    using toy_key_for by blast
  note t = has_key_talks [OF relay_clients(1) k relay_clients(3) hi_not_blank(2,5)]
  have q: "can_queue (Suc 0) relay_alice" using relay_clients(4) by (simp add: ready_to_send_def can_queue_def LINK_OUTBOX_LIMIT_def)
  have sl: "seal toy_crypto k [byte_of 0] (u ''hi'') (u ''alice'') = Inr (u ''aGk='', u ''AA=='')"
    by (simp add: seal_def utf8_encode_u toy_crypto_def) (simp add: u_def utf8_char_def byte_of_def b64_char_def)
  have tok: "token_src relay_alice (draws relay_alice) = [byte_of 0]" by (simp add: relay_alice_def sample_client_def)
  have fr: "next_frame MSG (PStr (u ''bob'')) (PStr (u ''aGk='')) (PStr (u ''AA=='')) [] (relay_alice\<lparr>draws := Suc (draws relay_alice), ct_ring := r\<rparr>) = relay_frame" for r
    by (simp add: next_frame_def relay_frame_def relay_alice_def sample_client_def nat_str.simps) (simp add: u_def)
  obtain r where r: "ct_send toy_crypto (u ''hi'') relay_alice = (Inr (Some (my_message relay_frame (u ''alice'') (u ''hi''))),
      (queued relay_frame (relay_alice\<lparr>draws := Suc (draws relay_alice), ct_ring := Some r\<rparr>))\<lparr>ct_model := add_message (u ''bob'') (my_message relay_frame (u ''alice'') (u ''hi'')) (ct_model relay_alice)\<rparr>)"
    using send_exact [OF t sendable_u [OF hi_not_blank(1)] q] sl fr unfolding tok by (auto simp: Let_def)
  show ?thesis
    using relay_clients(4) by (subst r) (simp add: ready_to_send_def queued_def relay_clients(6) link_write_frame [OF _ _ _ relay_frame_plain(2)])
qed

theorem what_is_typed_is_read_witness:
  "\<exists>g up down a1 s1 b1 b2. ct_send toy_crypto (u ''hi'') relay_alice = (Inr (Some (my_message relay_frame (u ''alice'') (u ''hi''))), a1) \<and>
    lk_wire (link_write True a1) = concat up \<and> read_loop 0 (map Chunk up) relay_server = (Inr (), s1) \<and>
    wire (snd (write_one 1 True s1)) 1 = concat down \<and> meanwhile (map (Io_Recv \<circ> Some) down) relay_bob = (Inr (), b1) \<and>
    on_frame toy_crypto g b1 = (Inr (), b2) \<and> ct_model b2 = add_message (u ''alice'') (received g (u ''alice'') (PStr (u ''hi''))) (ct_model relay_bob)"
proof -
  let ?up = "[take 9 (line_bytes (frame_text relay_frame)), drop 9 (line_bytes (frame_text relay_frame))]"
  let ?g = "outgoing_of (PStr (u ''alice'')) relay_frame"
  let ?down = "[line_bytes (frame_text ?g)]"
  obtain k where k: "key_for toy_crypto (sample_private (u ''alice'')) (public_b64 toy_crypto (sample_private (u ''bob''))) = Inr k"
    using toy_key_for by blast
  obtain a1 where a1: "ct_send toy_crypto (u ''hi'') relay_alice = (Inr (Some (my_message relay_frame (u ''alice'') (u ''hi''))), a1)"
    "lk_wire (link_write True a1) = line_bytes (frame_text relay_frame)" using relay_sends by blast
  have ne: "line_bytes x \<noteq> []" for x by (simp add: line_bytes_def)
  have cut: "chunked ?up" "chunked ?down" using relay_lengths ne by (auto simp: chunked_def MAX_LINE_BYTES_def dest: sym)
  let ?s1 = "after (read_loop 0 (map Chunk ?up)) relay_server"
  have "outbox (conns ?s1 1) = [Item ?g]" "wire ?s1 = wire relay_server"
    using server_relays [OF relay_connected(1,2) _ _ _ _ _ _ relay_frame_plain(1), of "u ''1''" ?up] cut(1) hi_not_blank relay_connected(3)
    by (auto simp: is_room_key relay_frame_def)
  then have down: "wire (snd (write_one 1 True ?s1)) 1 = wire relay_server 1 @ concat ?down"
    using write_one_frame(2) [OF _ relay_frame_plain(3)] by simp
  have id: "uuid_src relay_alice (Suc (draws relay_alice)) \<notin> m_id ` set (t_messages relay_server)" by (simp add: relay_connected(3))
  have up: "lk_wire (link_write True a1) = lk_wire relay_alice @ concat ?up" using a1(2) relay_clients(6) by simp
  have "a1 = after (ct_send toy_crypto (u ''hi'')) relay_alice" using a1(1) by simp
  note run = what_is_typed_is_read [OF toy_crypto_ok k relay_clients(1,3) sendable_u [OF hi_not_blank(1)] relay_clients(4,2,5) relay_connected(1,2) hi_not_blank(3,2) scalars_u(1) id this up cut(1) refl down cut(2)]
  have "concat ?up = lk_wire (link_write True a1)" "concat ?down = wire (snd (write_one 1 True ?s1)) 1" using a1(2) down relay_connected(4) by simp_all
  with run a1(1) show ?thesis by metis
qed

definition long_frame :: "nat \<Rightarrow> frame" where
  "long_frame n = relay_frame\<lparr>f_body := PStr (replicate n 97)\<rparr>"

lemma esc_replicate: "concat (map g (replicate n x)) = concat (replicate n (g x))"
  by (simp add: map_replicate_const)

lemma long_length: "length (line_bytes (frame_text (long_frame n))) = n + 69" "length (line_bytes (frame_text (outgoing_of (PStr (u ''alice'')) (long_frame n)))) = n + 84"
  by (simp_all add: line_bytes_def frame_text_def relay_frame_def long_frame_def outgoing_of_def head_fields_def opt_field_def dumps_str_def
      esc_char_def u_def type_name_def PROTOCOL_VERSION_def int_str_def nat_str.simps utf8_char_def esc_replicate length_concat sum_list_replicate)

lemma long_frame_plain: "plain_frame (long_frame n)"
  using relay_frame_plain(1) by (auto simp: plain_frame_def long_frame_def relay_frame_def is_scalar_def is_surrogate_def list_all_iff)

theorem relayed_but_refused_witness:
  "\<exists>up down s1 b1. concat up = line_bytes (frame_text (long_frame 1048500)) \<and> read_loop 0 (map Chunk up) relay_server = (Inr (), s1) \<and>
     outbox (conns s1 1) = [Item (outgoing_of (PStr (u ''alice'')) (long_frame 1048500))] \<and>
     meanwhile (map (Io_Recv \<circ> Some) down) relay_bob = (Inr (), b1) \<and> link_state b1 = RETRYING"
proof -
  let ?f = "long_frame 1048500"
  let ?bs = "line_bytes (frame_text ?f)" and ?g = "line_bytes (frame_text (outgoing_of (PStr (u ''alice'')) ?f))"
  have len: "length ?bs = 1048569" "length ?g = 1048584" using long_length [of 1048500] by simp_all
  then have up: "chunked [?bs]" and ne: "?g \<noteq> []" by (auto simp: chunked_def MAX_LINE_BYTES_def)
  have down: "concat [take 1048580 ?g] @ drop 1048580 ?g = ?g" "drop 1048580 ?g \<noteq> []" "[] \<notin> set [take 1048580 ?g]" "MAX_LINE_BYTES < length (concat [take 1048580 ?g])"
    using len(2) ne by (auto simp: MAX_LINE_BYTES_def)
  have b: "\<not> lk_closing relay_bob" "link_state relay_bob = ONLINE" by (simp_all add: relay_bob_def sample_client_def link_state_def)
  have f: "f_sender ?f = PNone" "f_to ?f = PStr (u ''bob'')" "f_id ?f = PStr (u ''1'')" by (simp_all add: long_frame_def relay_frame_def)
  have c: "concat [?bs] = ?bs" by simp
  show ?thesis
    using relayed_but_refused [OF relay_connected(1,2) hi_not_blank(5) scalars_u(1) _ hi_not_blank(6) scalars_u(1) _ long_frame_plain f _ c up down relay_clients(5) b]
      hi_not_blank(2,3) relay_connected(3) c by (fastforce simp: is_room_key)
qed

end
