(* ===== verification/View.thy ===== *)
theory View
  imports ClientFlow
begin

section \<open>What the views share\<close>

text \<open>
  Both views keep their own state beside the client they show. Whatever the controller does, it does
  not touch that state; and what a view hears about the connection is the state the model is in.
\<close>

text \<open>The number the view subscribes under.\<close>

definition view_id :: nat where
  "view_id = 1"

subsection \<open>What changes neither the view nor the model\<close>

definition same_screen :: "'z client_scheme \<Rightarrow> 'z client_scheme \<Rightarrow> bool" where
  "same_screen s t \<longleftrightarrow> client.more t = client.more s \<and> ct_model t = ct_model s"

interpretation sn: world_rel same_screen
  by unfold_locales (auto simp: same_screen_def)

lemma screen_modify: "(\<And>s. client.more (g s) = client.more s \<and> ct_model (g s) = ct_model s) \<Longrightarrow> runs_in same_screen (modify g)"
  by (simp add: runs_in_modify same_screen_def)

lemma owner_screen:
  fixes m :: "('z client_scheme, 'a) py"
  assumes "runs_in same_owner m"
  shows "runs_in same_screen m"
proof -
  have "same_screen s t" if "same_owner s t" for s t :: "'z client_scheme"
    using that by (cases s; cases t) (simp add: same_owner_def same_screen_def)
  then show ?thesis using assms by (simp add: runs_in_def)
qed

lemma screen_ring: "runs_in same_screen (on_ring m)"
  by (simp add: runs_in_def same_screen_def on_ring_def split: option.split prod.split)

lemma screen_tell: "runs_in same_screen (cn_tell ty to d)"
  unfolding cn_tell_def by (intro owner_screen so.runs_rules live_owner)

lemma screen_ct_frame: "runs_in same_screen (ct_frame c target text me)"
proof -
  have live: "runs_in same_screen (live_frame ty to bo n d)" for ty to bo n d by (rule owner_screen [OF live_owner])
  have "runs_in same_screen (modify (\<lambda>s. s\<lparr>draws := draws s + n\<rparr>))" "runs_in same_screen (modify (\<lambda>s. s\<lparr>ct_held := h s\<rparr>))" for n h
    by (auto intro!: screen_modify)
  then show ?thesis
    unfolding ct_frame_def send_to_room_def ct_seal_members_def ct_seal_def ct_hold_def cn_get_key_def cn_message_def
    by (auto intro!: sn.world_rules screen_ring screen_tell live)
qed

lemma screen_open: "runs_in same_screen (ct_open c peer body nonce sender)"
  unfolding ct_open_def by (intro sn.runs_rules screen_ring)

lemma screen_fields:
  "runs_in same_screen (modify (\<lambda>s. s\<lparr>ct_held := h s\<rparr>))" "runs_in same_screen (modify (\<lambda>s. s\<lparr>ct_awaiting := w s\<rparr>))"
  "runs_in same_screen (modify (\<lambda>s. s\<lparr>ct_pending_user := p s\<rparr>))" "runs_in same_screen (modify (\<lambda>s. s\<lparr>ct_pending_room := q s\<rparr>))"
  by (auto intro!: screen_modify)

lemmas screen_rules = screen_tell screen_ct_frame screen_open screen_ring screen_fields

lemma screen_weaken: "runs_in same_screen m \<Longrightarrow> (\<And>s t. same_screen s t \<Longrightarrow> R s t) \<Longrightarrow> runs_in R m"
  by (simp add: runs_in_def)

subsection \<open>The controller does not touch the view\<close>

definition same_view :: "'z client_scheme \<Rightarrow> 'z client_scheme \<Rightarrow> bool" where
  "same_view s t \<longleftrightarrow> client.more t = client.more s"

lemma view_screen: "runs_in same_screen m \<Longrightarrow> runs_in same_view m"
  by (rule screen_weaken) (simp_all add: same_screen_def same_view_def)

interpretation vw: client_rel same_view c for c
  by unfold_locales
     (auto simp: same_view_def on_model_def on_state_def runs_in_modify intro!: view_screen screen_rules)

subsection \<open>The view hears of every change of the connection\<close>

definition conn_step :: "ustr \<Rightarrow> event \<Rightarrow> ustr" where
  "conn_step st ev = (case ev of ConnectionStateChanged x \<Rightarrow> x | _ \<Rightarrow> st)"

definition tracks :: "'z client_scheme \<Rightarrow> 'z client_scheme \<Rightarrow> bool" where
  "tracks s t \<longleftrightarrow> listeners (ct_model t) = listeners (ct_model s) \<and>
     (\<exists>evs. heard view_id (ct_model t) = heard view_id (ct_model s) @ evs \<and>
       (count_list (listeners (ct_model s)) view_id = 1 \<longrightarrow> foldl conn_step (connection_state (ct_model s)) evs = connection_state (ct_model t)))"

lemma tracks_screen: "runs_in same_screen m \<Longrightarrow> runs_in tracks m"
  by (rule screen_weaken) (simp_all add: same_screen_def tracks_def)

lemma conn_steady: "list_all (\<lambda>ev. \<not> is_connection ev) evs \<Longrightarrow> foldl conn_step st evs = st"
proof (induction evs arbitrary: st)
  case (Cons ev evs)
  then show ?case by (cases ev) (simp_all add: conn_step_def)
qed simp

lemma tracks_steady: "steady (ct_model s) m \<Longrightarrow> tracks s (s\<lparr>ct_model := m\<rparr>)"
proof -
  assume "steady (ct_model s) m"
  then obtain es where es: "delivered m = delivered (ct_model s) @ es" "list_all (\<lambda>(_, ev, _). \<not> is_connection ev) es"
    and m: "connection_state m = connection_state (ct_model s)" "listeners m = listeners (ct_model s)" by (auto simp: steady_def)
  let ?evs = "map (fst \<circ> snd) (filter (\<lambda>(k, _). k = view_id) es)"
  have "list_all (\<lambda>ev. \<not> is_connection ev) ?evs" using es(2) by (auto simp: list_all_iff)
  then show ?thesis
    using es(1) m by (auto simp: tracks_def heard_def calls_to_def conn_steady intro!: exI [of _ ?evs])
qed

lemma tracks_trans: "tracks s t \<Longrightarrow> tracks t w \<Longrightarrow> tracks s w"
proof -
  assume "tracks s t" and "tracks t w"
  then obtain es fs where "heard view_id (ct_model t) = heard view_id (ct_model s) @ es" "heard view_id (ct_model w) = heard view_id (ct_model t) @ fs"
    "count_list (listeners (ct_model s)) view_id = 1 \<longrightarrow> foldl conn_step (connection_state (ct_model s)) es = connection_state (ct_model t)"
    "count_list (listeners (ct_model t)) view_id = 1 \<longrightarrow> foldl conn_step (connection_state (ct_model t)) fs = connection_state (ct_model w)"
    "listeners (ct_model t) = listeners (ct_model s)" "listeners (ct_model w) = listeners (ct_model s)" by (auto simp: tracks_def)
  then show ?thesis by (auto simp: tracks_def intro!: exI [of _ "es @ fs"])
qed

lemma tracks_state: "tracks s (s\<lparr>ct_model := set_connection_state st (ct_model s)\<rparr>)"
proof (cases "st = connection_state (ct_model s)")
  case True
  then show ?thesis by (simp add: set_connection_state_def tracks_def)
next
  case False
  let ?m = "(ct_model s)\<lparr>connection_state := st\<rparr>"
  have "\<exists>n. heard view_id (emit ev ?m) = heard view_id (ct_model s) @ replicate n ev" for ev
    by (rule exI [of _ "length (filter (\<lambda>k. k = view_id) (listeners (ct_model s)))"])
       (simp add: heard_def calls_to_def emit_def filter_map comp_def map_replicate_const)
  moreover have "heard view_id (emit ev ?m) = heard view_id (ct_model s) @ [ev]" if "count_list (listeners (ct_model s)) view_id = 1" for ev
    using heard_emit [of ?m view_id ev] heard_same [of ?m "ct_model s" view_id] that by simp
  ultimately show ?thesis
    using False by (fastforce simp: set_connection_state_def tracks_def conn_step_def)
qed

interpretation tr: client_rel tracks c for c
proof unfold_locales
  show "tracks s s" for s by (simp add: tracks_def)
  show "tracks s t \<Longrightarrow> tracks t w \<Longrightarrow> tracks s w" for s t w by (rule tracks_trans)
  show "tracks s (s\<lparr>draws := n\<rparr>)" for s n by (simp add: tracks_def)
  show "(\<And>m. steady m (g m)) \<Longrightarrow> runs_in tracks (on_model g)" for g by (simp add: on_model_def runs_in_modify tracks_steady)
  show "runs_in tracks (on_state st)" for st by (simp add: on_state_def on_model_def runs_in_modify tracks_state)
qed (auto intro!: tracks_screen screen_rules)

end
