(* ===== verification/Screen.thy ===== *)
theory Screen
  imports ChatModel
begin

section \<open>What the window shows\<close>

text \<open>
  The rendering half of \<open>im/client/view/tk/app.py\<close> and the state of the widgets it paints
  (\<open>widgets.py\<close>): the rows of the conversation list, the transcript with its notices, the header, the
  composer and the strip. What a widget shows is a value; pixels, fonts and colours are left out.
  \<open>str.lower\<close>, \<open>str.upper\<close> and the formatting of a time are parameters; a time that \<open>datetime\<close> cannot
  represent makes the renderer raise and is not covered.
\<close>

subsection \<open>Widgets\<close>

record toolkit =
  tk_lower :: "ustr \<Rightarrow> ustr"
  tk_upper :: "ustr \<Rightarrow> ustr"
  strftime :: "int \<Rightarrow> ustr"

record row =
  row_key :: ustr
  row_preview :: ustr
  row_time :: ustr
  row_unread :: nat
  row_status :: "bool option"
  row_selected :: bool

datatype notice = Notice ustr | Notice_Exc exn

datatype header = Nothing_Selected | Header ustr "bool option" ustr

record screen =
  sc_rows :: "row list"
  sc_unread :: nat
  sc_shown :: "chat_message list"
  sc_empty :: ustr
  sc_notices :: "notice list"
  sc_header :: header
  sc_enabled :: bool
  sc_strip :: ustr

definition new_screen :: screen where
  "new_screen = \<lparr>sc_rows = [], sc_unread = 0, sc_shown = [], sc_empty = [], sc_notices = [], sc_header = Nothing_Selected,
     sc_enabled = False, sc_strip = []\<rparr>"

text \<open>\<open>Transcript.show\<close> and \<open>Transcript.notice\<close>.\<close>

definition show_messages :: "chat_message list \<Rightarrow> ustr \<Rightarrow> screen \<Rightarrow> screen" where
  "show_messages messages empty_text sc = sc\<lparr>sc_shown := messages, sc_empty := empty_text, sc_notices := []\<rparr>"

definition notice :: "notice \<Rightarrow> screen \<Rightarrow> screen" where
  "notice n sc = sc\<lparr>sc_notices := sc_notices sc @ [n]\<rparr>"

definition clock :: "toolkit \<Rightarrow> int \<Rightarrow> ustr" where
  "clock p ts = (if ts = 0 then [] else strftime p ts)"

subsection \<open>Drawing from the model\<close>

definition row_of :: "toolkit \<Rightarrow> 'z chat_content_scheme \<Rightarrow> ustr \<Rightarrow> row" where
  "row_of p m key =
     (let cv = conv key m; last = cv_last cv in
      \<lparr>row_key = key,
       row_preview = (case last of None \<Rightarrow> [] | Some msg \<Rightarrow> (if msg_mine msg then u ''You: '' else []) @ py_str (msg_body msg)),
       row_time = (case last of None \<Rightarrow> [] | Some msg \<Rightarrow> clock p (msg_ts msg)),
       row_unread = cv_unread cv,
       row_status = (if startswith key (u ''#'') then None else Some (is_online key m)),
       row_selected = (Some key = active m)\<rparr>)"

definition refresh_list :: "toolkit \<Rightarrow> 'z chat_content_scheme \<Rightarrow> screen \<Rightarrow> screen" where
  "refresh_list p m sc = sc\<lparr>sc_rows := map (row_of p m) (keys (tk_lower p) m), sc_unread := unread_total m\<rparr>"

definition subtitle :: "ustr \<Rightarrow> 'z chat_content_scheme \<Rightarrow> ustr" where
  "subtitle key m =
     (if typing_in key m \<noteq> [] then join (u '', '') (typing_in key m) @ u '' is typing'' @ [8230]
      else if startswith key (u ''#'') then nat_str (length (room_members key m)) @ u '' members''
      else if is_online key m then u ''Online'' else u ''Offline'')"

definition draw_header :: "'z chat_content_scheme \<Rightarrow> screen \<Rightarrow> screen" where
  "draw_header m sc = sc\<lparr>sc_header := (case active m of None \<Rightarrow> Nothing_Selected
     | Some key \<Rightarrow> Header key (if startswith key (u ''#'') then None else Some (is_online key m)) (subtitle key m))\<rparr>"

definition redraw :: "'z chat_content_scheme \<Rightarrow> screen \<Rightarrow> screen" where
  "redraw m sc = (let sc1 = draw_header m sc in case active m of
       None \<Rightarrow> show_messages [] (u ''No messages yet'') sc1
     | Some key \<Rightarrow> show_messages (cv_messages (conv key m)) (u ''Say hi to '' @ key) sc1)"

text \<open>To get at the messages to draw, \<open>_redraw\<close> asks the model for the conversation on screen, which
  makes it when there is none.\<close>

definition redrawn :: "chat_content \<Rightarrow> chat_content" where
  "redrawn m = (case active m of None \<Rightarrow> m | Some key \<Rightarrow> open_conv key m)"

definition STRIP :: "(ustr, ustr) dict" where
  "STRIP = [(u ''CONNECTING'', u ''Connecting'' @ [8230]), (u ''AUTHENTICATING'', u ''Signing in'' @ [8230]),
     (u ''RETRYING'', u ''Reconnecting'' @ [8230] @ u '' messages you send now will wait''),
     (u ''CLOSED'', u ''Disconnected. Nothing will be sent or received.''), (u ''DISCONNECTED'', u ''Not connected.'')]"

definition set_composer :: "bool \<Rightarrow> screen \<Rightarrow> screen" where
  "set_composer enabled sc = sc\<lparr>sc_enabled := enabled\<rparr>"

definition strip_text :: "toolkit \<Rightarrow> ustr \<Rightarrow> ustr" where
  "strip_text p st = (case dict_get STRIP (tk_upper p st) of None \<Rightarrow> [] | Some t \<Rightarrow> t)"

definition show_state :: "toolkit \<Rightarrow> ustr \<Rightarrow> screen \<Rightarrow> screen" where
  "show_state p st sc = sc\<lparr>sc_strip := strip_text p st\<rparr>"

fun render :: "toolkit \<Rightarrow> screen \<Rightarrow> event \<times> chat_content \<Rightarrow> screen" where
  "render p sc (MessageAdded key msg, m) =
     (if Some key = active m then refresh_list p (redrawn m) (redraw m sc) else refresh_list p m sc)"
| "render p sc (ReceiptChanged key i st, m) = (if Some key = active m then redraw m sc else sc)"
| "render p sc (ConversationSelected key, m) = refresh_list p (redrawn m) (redraw m sc)"
| "render p sc (HistoryLoaded key n, m) = refresh_list p (redrawn m) (redraw m sc)"
| "render p sc (UnreadChanged key n, m) = refresh_list p m sc"
| "render p sc (RoomMembersChanged room members, m) = refresh_list p m sc"
| "render p sc (RosterReplaced users, m) = refresh_list p m sc"
| "render p sc (PresenceChanged user online, m) =
     notice (Notice (user @ u '' is '' @ (if online then u ''online'' else u ''offline''))) (draw_header m (refresh_list p m sc))"
| "render p sc (TypingChanged key users, m) = draw_header m sc"
| "render p sc (ConnectionStateChanged st, m) = show_state p st (set_composer (st = u ''ONLINE'') sc)"
| "render p sc (ContactsChanged names, m) = refresh_list p m sc"
| "render p sc (ErrorRaised code msg, m) = notice (Notice (code @ u '': '' @ msg)) sc"
| "render p sc (IdentityEstablished name, m) = sc"

subsection \<open>What is drawn is what the model holds\<close>

text \<open>The list, the number of unread messages above it and the messages of the transcript.\<close>

definition rows :: "toolkit \<Rightarrow> 'z chat_content_scheme \<Rightarrow> row list" where
  "rows p m = map (row_of p m) (keys (tk_lower p) m)"

definition shown :: "'z chat_content_scheme \<Rightarrow> chat_message list" where
  "shown m = (case active m of None \<Rightarrow> [] | Some key \<Rightarrow> cv_messages (conv key m))"

definition drawn :: "toolkit \<Rightarrow> 'z chat_content_scheme \<Rightarrow> screen \<Rightarrow> bool" where
  "drawn p m sc \<longleftrightarrow> sc_rows sc = rows p m \<and> sc_unread sc = unread_total m \<and> sc_shown sc = shown m"

text \<open>What is on screen is on file.\<close>

definition on_file :: "'z chat_content_scheme \<Rightarrow> bool" where
  "on_file m \<longleftrightarrow> (case active m of None \<Rightarrow> True | Some key \<Rightarrow> dict_get (conversations m) key \<noteq> None)"

text \<open>All of it is read from three fields.\<close>

definition looks :: "'z chat_content_scheme \<Rightarrow> (ustr, conversation) dict \<times> (ustr, bool) dict \<times> ustr option" where
  "looks m = (conversations m, roster m, active m)"

lemma looks_parts:
  "looks m = looks m' \<Longrightarrow> conv k m = conv k m'" "looks m = looks m' \<Longrightarrow> is_online k m = is_online k m'"
  "looks m = looks m' \<Longrightarrow> keys lower m = keys lower m'" "looks m = looks m' \<Longrightarrow> unread_total m = unread_total m'"
  "looks m = looks m' \<Longrightarrow> active m = active m'" "looks m = looks m' \<Longrightarrow> conversations m = conversations m'"
  by (simp_all add: looks_def conv_def is_online_def keys_def unread_total_def)

lemma rows_cong: "looks m = looks m' \<Longrightarrow> rows p m = rows p m'"
  by (simp add: rows_def row_of_def looks_parts [of m m'])

lemma shown_cong: "looks m = looks m' \<Longrightarrow> shown m = shown m'"
  using looks_parts [of m m'] by (simp add: shown_def split: option.split)

lemma drawn_cong: "looks m = looks m' \<Longrightarrow> drawn p m = drawn p m'"
  using rows_cong [of m m'] shown_cong [of m m'] looks_parts(4) [of m m'] by (simp add: drawn_def fun_eq_iff)

lemma on_file_cong: "looks m = looks m' \<Longrightarrow> on_file m = on_file m'"
  using looks_parts(5,6) [of m m'] by (simp add: on_file_def split: option.split)

lemma looks_simps [simp]:
  "looks (chat_content.truncate m) = looks m" "looks (emit ev n) = looks n" "looks (m\<lparr>cm_typing := t\<rparr>) = looks m"
  "looks (m\<lparr>contacts := cs\<rparr>) = looks m" "looks (m\<lparr>cm_rooms := rs\<rparr>) = looks m" "looks (m\<lparr>cm_username := nm\<rparr>) = looks m"
  "looks (m\<lparr>connection_state := st\<rparr>) = looks m" "looks (n\<lparr>listeners := ls\<rparr>) = looks n" "looks (set_typing k w b n) = looks n"
  by (simp_all add: looks_def chat_content.defs set_typing_fields)

lemma draw_header_parts [simp]: "sc_rows (draw_header m sc) = sc_rows sc" "sc_unread (draw_header m sc) = sc_unread sc" "sc_shown (draw_header m sc) = sc_shown sc"
  by (simp_all add: draw_header_def)

lemma notice_parts [simp]: "sc_rows (notice n sc) = sc_rows sc" "sc_unread (notice n sc) = sc_unread sc" "sc_shown (notice n sc) = sc_shown sc"
  by (simp_all add: notice_def)

lemma refresh_parts [simp]: "sc_rows (refresh_list p m sc) = rows p m" "sc_unread (refresh_list p m sc) = unread_total m" "sc_shown (refresh_list p m sc) = sc_shown sc"
  by (simp_all add: refresh_list_def rows_def)

lemma redraw_parts [simp]: "sc_rows (redraw m sc) = sc_rows sc" "sc_unread (redraw m sc) = sc_unread sc" "sc_shown (redraw m sc) = shown m"
  by (simp_all add: redraw_def show_messages_def shown_def Let_def split: option.split)

lemma on_file_redrawn: "on_file m \<Longrightarrow> redrawn m = m"
  by (auto simp: on_file_def redrawn_def open_conv_def split: option.splits)

lemma drawn_refresh: "drawn p m (refresh_list p m sc) \<longleftrightarrow> sc_shown sc = shown m"
  by (simp add: drawn_def)

lemma drawn_redraw: "drawn p m (refresh_list p m (redraw m sc))"
  by (simp add: drawn_def)

text \<open>
  A listener that is subscribed once and renders every event, from a screen with \<open>P\<close> to one with
  \<open>Q\<close>, while the model goes from \<open>m\<close> to \<open>m'\<close>.
\<close>

definition leads :: "nat \<Rightarrow> toolkit \<Rightarrow> chat_model \<Rightarrow> (screen \<Rightarrow> bool) \<Rightarrow> chat_model \<Rightarrow> (screen \<Rightarrow> bool) \<Rightarrow> bool" where
  "leads l p m P m' Q \<longleftrightarrow> count_list (listeners m') l = count_list (listeners m) l \<and>
     (\<exists>evs. calls_to l m' = calls_to l m @ evs \<and> (\<forall>sc. P sc \<longrightarrow> Q (foldl (render p) sc evs)))"

lemma leads_silent: "delivered m' = delivered m \<Longrightarrow> listeners m' = listeners m \<Longrightarrow> (\<And>sc. P sc \<Longrightarrow> Q sc) \<Longrightarrow> leads l p m P m' Q"
  unfolding leads_def calls_to_def by (intro conjI exI [of _ "[]"]) simp_all

lemma leads_trans: "leads l p m P m1 Q \<Longrightarrow> leads l p m1 Q m2 R \<Longrightarrow> leads l p m P m2 R"
  unfolding leads_def by (metis append.assoc foldl_append)

lemma leads_emit:
  assumes "count_list (listeners m) l = 1" and "\<And>sc. P sc \<Longrightarrow> Q (render p sc (ev, chat_content.truncate m))"
  shows "leads l p m P (emit ev m) Q"
  using assms calls_to_emit [OF assms(1), of ev] by (simp add: leads_def)

lemma leads_change:
  assumes "count_list (listeners m) l = 1" and "delivered m1 = delivered m" and "listeners m1 = listeners m"
    and "\<And>sc. P sc \<Longrightarrow> Q (render p sc (ev, chat_content.truncate m1))"
  shows "leads l p m P (emit ev m1) Q"
  by (rule leads_trans [OF leads_silent [of m1 m P P] leads_emit]) (use assms in simp_all)

text \<open>A call after which the screen is as the model again.\<close>

abbreviation "keeps_drawn l p m m' \<equiv> leads l p m (drawn p m) m' (drawn p m') \<and> (on_file m \<longrightarrow> on_file m')"

lemma leads_typing:
  assumes "count_list (listeners m) l = 1"
  shows "leads l p m (drawn p x) (set_typing k w b m) (drawn p x)"
proof -
  have "leads l p m (drawn p x) (emit (TypingChanged k ns) (m\<lparr>cm_typing := t\<rparr>)) (drawn p x)" for ns t
    by (rule leads_change [OF assms]) (simp_all add: drawn_def)
  moreover have "leads l p m (drawn p x) (m\<lparr>cm_typing := t\<rparr>) (drawn p x)" for t by (rule leads_silent) simp_all
  ultimately show ?thesis by (simp add: set_typing_def Let_def)
qed

lemma keeps_refl: "keeps_drawn l p m m"
  by (simp add: leads_silent)

text \<open>Events that refresh the list, and events that touch neither the list nor the transcript.\<close>

lemma keeps_refresh:
  assumes "count_list (listeners m) l = 1" and "delivered m1 = delivered m" and "listeners m1 = listeners m"
    and "shown m1 = shown m" and "on_file m \<Longrightarrow> on_file m1"
    and "\<And>sc. \<exists>f. (\<forall>x. drawn p m1 (f x) = drawn p m1 x) \<and> render p sc (ev, chat_content.truncate m1) = f (refresh_list p (chat_content.truncate m1) sc)"
  shows "keeps_drawn l p m (emit ev m1)"
proof -
  let ?t = "chat_content.truncate m1"
  have t: "rows p ?t = rows p m1" "unread_total ?t = unread_total m1" by (rule rows_cong, simp, rule looks_parts(4), simp)
  have "drawn p m1 (render p sc (ev, ?t))" if "drawn p m sc" for sc
  proof -
    obtain f where f: "\<forall>x. drawn p m1 (f x) = drawn p m1 x" "render p sc (ev, ?t) = f (refresh_list p ?t sc)" using assms(6) by blast
    show ?thesis using that assms(4) t by (simp add: f) (simp add: drawn_def)
  qed
  then have "leads l p m (drawn p m) (emit ev m1) (drawn p m1)" by (intro leads_change assms)
  then show ?thesis using assms(5) drawn_cong [of "emit ev m1" m1 p] on_file_cong [of "emit ev m1" m1] by simp
qed

lemma keeps_still:
  assumes "count_list (listeners m) l = 1" and "delivered m1 = delivered m" and "listeners m1 = listeners m"
    and "looks m1 = looks m" and "\<And>sc (x :: chat_model). drawn p x (render p sc (ev, chat_content.truncate m1)) = drawn p x sc"
  shows "keeps_drawn l p m (emit ev m1)"
proof -
  have "leads l p m (drawn p m) (emit ev m1) (drawn p m)" using assms(5) by (intro leads_change assms) blast
  then show ?thesis using assms(4) drawn_cong [of "emit ev m1" m p] on_file_cong [of "emit ev m1" m] by simp
qed

lemma keeps_redraw:
  assumes "count_list (listeners m) l = 1" and "delivered m1 = delivered m" and "listeners m1 = listeners m" and "on_file m1"
    and "\<And>sc. render p sc (ev, chat_content.truncate m1) = refresh_list p (redrawn (chat_content.truncate m1)) (redraw (chat_content.truncate m1) sc)"
  shows "leads l p m P (emit ev m1) (drawn p (emit ev m1)) \<and> on_file (emit ev m1)"
proof -
  let ?t = "chat_content.truncate m1"
  have "redrawn ?t = ?t" using on_file_cong [of ?t m1] assms(4) by (simp add: on_file_redrawn)
  then have "drawn p (emit ev m1) (render p sc (ev, ?t))" for sc
    using assms(5) drawn_redraw [of p ?t] drawn_cong [of "emit ev m1" ?t p] by simp
  then have "leads l p m P (emit ev m1) (drawn p (emit ev m1))" by (intro leads_change assms)
  then show ?thesis using assms(4) on_file_cong [of "emit ev m1" m1] by simp
qed

lemma drawn_still [simp]: "drawn p m (notice n sc) = drawn p m sc" "drawn p m (draw_header x sc) = drawn p m sc"
  "drawn p m (show_state q st sc) = drawn p m sc" "drawn p m (set_composer b sc) = drawn p m sc"
  by (simp_all add: drawn_def show_state_def set_composer_def)

lemma shown_keeps: "active m' = active m \<Longrightarrow> conversations m' = conversations m \<Longrightarrow> shown m' = shown m"
  by (simp add: shown_def conv_def split: option.split)

lemma keeps_roster:
  assumes "count_list (listeners m) l = 1" and "delivered m1 = delivered m" and "listeners m1 = listeners m"
    and "active m1 = active m" and "conversations m1 = conversations m"
    and "ev \<in> range RosterReplaced \<union> range ContactsChanged \<union> range (case_prod PresenceChanged)"
  shows "keeps_drawn l p m (emit ev m1)"
proof (rule keeps_refresh [OF assms(1-3) shown_keeps [OF assms(4,5)]])
  show "on_file m \<Longrightarrow> on_file m1" using assms(4,5) by (simp add: on_file_def split: option.splits)
  show "\<exists>f. (\<forall>x. drawn p m1 (f x) = drawn p m1 x) \<and>
      render p sc (ev, chat_content.truncate m1) = f (refresh_list p (chat_content.truncate m1) sc)" for sc
  proof (cases "ev \<in> range RosterReplaced \<union> range ContactsChanged")
    case True
    then show ?thesis by (intro exI [of _ id]) auto
  next
    case False
    then obtain x b where ev: "ev = PresenceChanged x b" using assms(6) by auto
    let ?f = "\<lambda>sc. notice (Notice (x @ u '' is '' @ (if b then u ''online'' else u ''offline''))) (draw_header (chat_content.truncate m1) sc)"
    show ?thesis by (intro exI [of _ ?f]) (simp add: ev)
  qed
qed

lemma keeps_members: "count_list (listeners m) l = 1 \<Longrightarrow> keeps_drawn l p m (set_room_members r ms m)"
proof (cases "dict_get (cm_rooms m) r = Some (sort ms)")
  case True
  then show ?thesis by (simp add: set_room_members_def keeps_refl)
next
  case False
  let ?m1 = "open_conv r (m\<lparr>cm_rooms := dict_set (cm_rooms m) r (sort ms)\<rparr>)"
  assume "count_list (listeners m) l = 1"
  then have "keeps_drawn l p m (emit (RoomMembersChanged r (sort ms)) ?m1)"
  proof (rule keeps_refresh)
    show "delivered ?m1 = delivered m" "listeners ?m1 = listeners m" by simp_all
    show "shown ?m1 = shown m" by (simp add: shown_def split: option.split)
    show "on_file m \<Longrightarrow> on_file ?m1" by (auto simp: on_file_def open_conv_def split: option.split)
    show "\<exists>f. (\<forall>x. drawn p ?m1 (f x) = drawn p ?m1 x) \<and>
      render p sc (RoomMembersChanged r (sort ms), chat_content.truncate ?m1) = f (refresh_list p (chat_content.truncate ?m1) sc)" for sc
      by (intro exI [of _ id]) simp
  qed
  with False show ?thesis by (simp add: set_room_members_def Let_def)
qed

lemma on_file_put: "on_file m \<Longrightarrow> on_file (put_conv k cv m)"
  by (auto simp: on_file_def split: option.split)

lemma keeps_history: "count_list (listeners m) l = 1 \<Longrightarrow> on_file m \<Longrightarrow> keeps_drawn l p m (load_history k msgs m)"
  using keeps_redraw [of m l "put_conv k ((conv k m)\<lparr>cv_messages := msgs\<rparr>) m" p "HistoryLoaded k (length msgs)" "drawn p m"]
  by (simp add: load_history_def on_file_put)

text \<open>A receipt changes what the transcript shows of a message, not its row.\<close>

lemma receive_parts:
  "receive i st msgs = Some msgs' \<Longrightarrow>
   map (\<lambda>msg. (msg_body msg, msg_mine msg, msg_ts msg)) msgs' = map (\<lambda>msg. (msg_body msg, msg_mine msg, msg_ts msg)) msgs"
  by (induction msgs arbitrary: msgs') (auto split: if_splits)

lemma receive_last:
  assumes "receive i st msgs = Some msgs'"
  shows "msgs \<noteq> []" "msgs' \<noteq> []" "msg_body (last msgs') = msg_body (last msgs)" "msg_mine (last msgs') = msg_mine (last msgs)"
    "msg_ts (last msgs') = msg_ts (last msgs)"
proof -
  show "msgs \<noteq> []" using assms by auto
  then show "msgs' \<noteq> []" using receive_length [OF assms] by auto
  with receive_parts [OF assms] \<open>msgs \<noteq> []\<close> show "msg_body (last msgs') = msg_body (last msgs)" "msg_mine (last msgs') = msg_mine (last msgs)"
    "msg_ts (last msgs') = msg_ts (last msgs)" by (metis (no_types, lifting) last_map prod.inject)+
qed

lemma rows_receipt:
  assumes "dict_get (conversations m) k = Some cv" and "receive i st (cv_messages cv) = Some msgs"
  shows "rows p (put_conv k (cv\<lparr>cv_messages := msgs\<rparr>) m) = rows p m"
proof -
  have "k \<in> set (map fst (conversations m))" using assms(1) by (metis dict_get_None_iff option.distinct(1))
  then have "dict_keys (dict_set (conversations m) k x) = dict_keys (conversations m)" for x by (simp add: dict_keys_def dict_keys_set)
  moreover have "row_of p (put_conv k (cv\<lparr>cv_messages := msgs\<rparr>) m) key = row_of p m key" for key
    using assms(1) receive_last [OF assms(2)]
    by (simp add: row_of_def Let_def conv_def is_online_def put_conv_def cv_last_def)
  ultimately show ?thesis by (simp add: rows_def keys_def)
qed

lemma map_dict_set: "dict_get d k = Some v \<Longrightarrow> f w = f v \<Longrightarrow> map (f \<circ> snd) (dict_set d k w) = map (f \<circ> snd) d"
  by (induction d k w rule: dict_set.induct) (auto split: if_splits)

lemma keeps_receipt:
  assumes "count_list (listeners m) l = 1"
  shows "keeps_drawn l p m (set_receipt k i st m)"
proof (cases "\<exists>cv msgs. dict_get (conversations m) k = Some cv \<and> receive i st (cv_messages cv) = Some msgs")
  case True
  then obtain cv msgs where cv: "dict_get (conversations m) k = Some cv" "receive i st (cv_messages cv) = Some msgs" by blast
  let ?m1 = "put_conv k (cv\<lparr>cv_messages := msgs\<rparr>) m" and ?ev = "ReceiptChanged k i st"
  let ?t = "chat_content.truncate ?m1"
  have t: "shown ?t = shown ?m1" "active ?t = active m" using looks_parts(5) [of ?t ?m1] by (auto intro: shown_cong)
  have u: "unread_total ?m1 = unread_total m" using map_dict_set [OF cv(1), of cv_unread] by (simp add: unread_total_def)
  have s: "shown ?m1 = shown m" if "active m \<noteq> Some k" using that by (auto simp: shown_def split: option.split)
  have "drawn p ?m1 (render p sc (?ev, ?t))" if "drawn p m sc" for sc
    using that t u s rows_receipt [OF cv, of p] by (auto simp: drawn_def)
  then have "leads l p m (drawn p m) (emit ?ev ?m1) (drawn p ?m1)" by (intro leads_change assms) simp_all
  moreover have "set_receipt k i st m = emit ?ev ?m1" using cv by (simp add: set_receipt_def)
  ultimately show ?thesis
    using drawn_cong [of "emit ?ev ?m1" ?m1 p] on_file_cong [of "emit ?ev ?m1" ?m1] on_file_put [of m] by simp
next
  case False
  then have "set_receipt k i st m = m" by (auto simp: set_receipt_def split: option.split)
  then show ?thesis by (simp add: leads_silent)
qed

lemma looks_put_same: "looks (put_conv k (conv k m) m) = looks (open_conv k m)"
  by (auto simp: looks_def put_conv_def open_conv_def conv_def dict_set_same split: option.split)

lemma on_file_open: "active m = Some k \<Longrightarrow> on_file (open_conv k m)"
  by (auto simp: on_file_def open_conv_def)

text \<open>Selecting draws everything anew, whatever was on the screen before.\<close>

lemma select_draws:
  assumes "count_list (listeners m) l = 1"
  shows "leads l p m P (select key m) (drawn p (select key m)) \<and> on_file (select key m)"
proof (cases key)
  case None
  have "on_file (m\<lparr>active := None\<rparr>)" by (simp add: on_file_def)
  then show ?thesis using keeps_redraw [OF assms, of "m\<lparr>active := None\<rparr>" p "ConversationSelected None" P] by (simp add: None select_def)
next
  case (Some k)
  let ?m0 = "m\<lparr>active := Some k\<rparr>"
  let ?m1 = "emit (ConversationSelected (Some k)) ?m0" and ?t = "chat_content.truncate ?m0"
  have sel: "select key m = (let (changed, cv) = cv_mark_read (conv k ?m1) in
      if changed then emit (UnreadChanged k 0) (put_conv k cv ?m1) else put_conv k cv ?m1)"
    by (simp add: Some select_def Let_def split: prod.split)
  have r: "looks (redrawn ?t) = looks (open_conv k ?m1)"
    using looks_parts(5,6) [of ?t ?m1] by (simp add: redrawn_def looks_def open_conv_def chat_content.defs)
  have "shown (redrawn ?t) = shown ?t" by (simp add: redrawn_def shown_def split: option.split)
  then have "drawn p (redrawn ?t) (refresh_list p (redrawn ?t) (redraw ?t sc))" for sc by (simp add: drawn_def)
  then have l1: "leads l p m P ?m1 (drawn p (open_conv k ?m1))" 
    using drawn_cong [OF r, of p] by (intro leads_change assms) simp_all
  have c1: "count_list (listeners ?m1) l = 1" using assms by simp
  have of1: "on_file (put_conv k cv ?m1)" for cv by (simp add: on_file_def)
  show ?thesis
  proof (cases "cv_unread (conv k ?m1) = 0")
    case True
    let ?m2 = "put_conv k (conv k ?m1) ?m1"
    have "leads l p ?m1 (drawn p (open_conv k ?m1)) ?m2 (drawn p ?m2)"
      using drawn_cong [OF looks_put_same [of k ?m1], of p] by (intro leads_silent) simp_all
    from leads_trans [OF l1 this] show ?thesis using True of1 by (simp add: sel cv_mark_read_def)
  next
    case False
    let ?m2 = "put_conv k ((conv k ?m1)\<lparr>cv_unread := 0\<rparr>) ?m1"
    have f: "on_file ?m1" using False by (auto simp: on_file_def conv_def new_conversation_def split: option.splits)
    then have o: "open_conv k ?m1 = ?m1" by (auto simp: on_file_def open_conv_def)
    have "keeps_drawn l p ?m1 (emit (UnreadChanged k 0) ?m2)"
      by (rule keeps_refresh [OF c1]) (auto simp: shown_def of1 intro: exI [of _ id])
    then show ?thesis using leads_trans [OF l1 [unfolded o]] False f by (simp add: sel cv_mark_read_def)
  qed
qed

lemma keeps_add:
  assumes "count_list (listeners m) l = 1" and "on_file m"
  shows "keeps_drawn l p m (add_message k msg m)"
proof -
  let ?cv = "cv_add msg (Some k = active m) (conv k m)"
  let ?m1 = "put_conv k ?cv m" and ?ev = "MessageAdded k msg"
  let ?m2 = "if \<not> msg_mine msg then set_typing k (msg_sender msg) False ?m1 else ?m1"
  let ?t = "chat_content.truncate ?m2"
  have c1: "count_list (listeners ?m1) l = 1" using assms(1) by simp
  then have c2: "count_list (listeners ?m2) l = 1" by (simp add: set_typing_fields)
  have lk: "looks ?t = looks ?m1" "looks (emit ?ev ?m2) = looks ?m1" by simp_all
  have l1: "leads l p m (drawn p m) ?m1 (drawn p m)" by (rule leads_silent) simp_all
  have l2: "leads l p ?m1 (drawn p m) ?m2 (drawn p m)" using leads_typing [OF c1, where x = m] by (simp add: leads_silent)
  have f: "redrawn ?t = ?t" using on_file_put [OF assms(2), of k ?cv] on_file_cong [OF lk(1)] by (simp add: on_file_redrawn)
  have a: "active ?t = active m" using looks_parts(5) [OF lk(1)] by simp
  have "shown ?m1 = shown m" if "active m \<noteq> Some k" using that by (auto simp: shown_def split: option.split)
  then have "drawn p ?t (render p sc (?ev, ?t))" if "drawn p m sc" for sc
    using that f a shown_cong [OF lk(1)] drawn_redraw [of p ?t sc] by (auto simp: drawn_def)
  then have l3: "leads l p ?m2 (drawn p m) (emit ?ev ?m2) (drawn p (emit ?ev ?m2))"
    using drawn_cong [of ?t "emit ?ev ?m2" p] by (intro leads_emit c2) simp
  have l123: "leads l p m (drawn p m) (emit ?ev ?m2) (drawn p (emit ?ev ?m2))" by (rule leads_trans [OF leads_trans [OF l1 l2] l3])
  have of3: "on_file (emit ?ev ?m2)" using on_file_cong [OF lk(2)] on_file_put [OF assms(2)] by simp
  have "keeps_drawn l p (emit ?ev ?m2) (emit (UnreadChanged k n) (emit ?ev ?m2))" for n
    by (rule keeps_refresh) (use c2 in \<open>auto intro: exI [of _ id]\<close>)
  with l123 of3 show ?thesis by (auto simp: add_message_def Let_def intro: leads_trans)
qed

lemma keeps_call:
  assumes "count_list (listeners m) l = 1" and "on_file m" and "evented call"
  shows "keeps_drawn l p m (model_do m call)"
proof (cases call)
  case (Set_Identity n)
  show ?thesis unfolding Set_Identity model_do.simps set_identity_def by (rule keeps_still [OF assms(1)]) simp_all
next
  case (Set_Connection_State st)
  have "keeps_drawn l p m (emit (ConnectionStateChanged st) (m\<lparr>connection_state := st\<rparr>))"
    by (rule keeps_still [OF assms(1)]) simp_all
  then show ?thesis by (simp add: Set_Connection_State set_connection_state_def leads_silent)
next
  case (Replace_Roster us)
  show ?thesis unfolding Replace_Roster model_do.simps replace_roster_def Let_def by (rule keeps_roster [OF assms(1)]) simp_all
next
  case (Replace_Contacts es)
  have "keeps_drawn l p m (emit (ContactsChanged ns) (m\<lparr>contacts := d, roster := r\<rparr>))" for ns d r
    by (rule keeps_roster [OF assms(1)]) simp_all
  then show ?thesis by (simp add: Replace_Contacts replace_contacts_def take_contacts_def leads_silent split: sum.split)
next
  case (Set_Presence n b)
  let ?m = "if dict_get (contacts m) n \<noteq> None then m\<lparr>contacts := dict_set (contacts m) n b\<rparr> else m"
  have "keeps_drawn l p m ?m" using drawn_cong [of ?m m p] on_file_cong [of ?m m] by (simp add: leads_silent)
  moreover have "keeps_drawn l p m (emit (PresenceChanged n b) (?m\<lparr>roster := r\<rparr>))" for r
    by (rule keeps_roster [OF assms(1)]) (auto intro!: image_eqI [of _ "case_prod PresenceChanged" "(n, b)"])
  ultimately show ?thesis by (simp add: Set_Presence set_presence_def Let_def split del: if_split split: if_split)
next
  case (Set_Typing k w b)
  let ?m = "set_typing k w b m"
  show ?thesis using leads_typing [OF assms(1), where x = m] drawn_cong [of ?m m p] on_file_cong [of ?m m] by (simp add: Set_Typing)
next
  case (Raise_Error c msg)
  show ?thesis unfolding Raise_Error model_do.simps raise_error_def by (rule keeps_still [OF assms(1)]) simp_all
qed (use assms in \<open>simp_all add: select_draws keeps_add keeps_history keeps_receipt keeps_members\<close>)

lemma keeps_calls:
  assumes "count_list (listeners m) l = 1" and "on_file m" and "list_all evented calls"
  shows "keeps_drawn l p m (foldl model_do m calls)"
  using assms
proof (induction calls arbitrary: m)
  case Nil
  then show ?case by (simp add: leads_silent)
next
  case (Cons call calls)
  have k: "keeps_drawn l p m (model_do m call)" using Cons.prems by (intro keeps_call) simp_all
  then have "count_list (listeners (model_do m call)) l = 1" "on_file (model_do m call)" using Cons.prems(1,2) by (simp_all add: leads_def)
  with Cons.IH [of "model_do m call"] Cons.prems(3) k show ?case by (auto intro: leads_trans)
qed

end
