(* ===== verification/RoomDialog.thy ===== *)
theory RoomDialog
  imports Router
begin

section \<open>The dialog for rooms\<close>

text \<open>
  \<open>im/client/view/tk/room_dialog.py\<close>: the form that starts a room and adds people to one. What the
  widgets hold is the record \<open>room_dialog\<close>, what the user does to them is \<open>dialog_act\<close>; sizes, fonts and
  colours are left out. \<open>online\<close> is the function the caller passes.
\<close>

subsection \<open>Names\<close>

definition MAX_NAME :: nat where
  "MAX_NAME = 31"

definition VISIBLE_ROWS :: nat where
  "VISIBLE_ROWS = 7"

text \<open>\<open>s.lstrip("#")\<close>\<close>

definition lstrip_hash :: "ustr \<Rightarrow> ustr" where
  "lstrip_hash s = dropWhile (\<lambda>ch. ch = 35) s"

definition name_problem :: "ustr \<Rightarrow> ustr option" where
  "name_problem name =
     (if name = [] then Some (u ''A room needs a name.'')
      else if list_ex is_space name then Some (u ''A room name cannot contain spaces. Try study-group.'')
      else if length (lstrip_hash name) > MAX_NAME then Some (u ''A room name is at most '' @ nat_str MAX_NAME @ u '' characters.'')
      else if lstrip_hash name = [] then Some (u ''A room needs a name after the #.'')
      else None)"

text \<open>\<open>TkView._hashed\<close>\<close>

definition hashed :: "ustr \<Rightarrow> ustr" where
  "hashed room = (if startswith (strip room) (u ''#'') then strip room else u ''#'' @ strip room)"

subsection \<open>State\<close>

record room_dialog =
  rd_name :: ustr
  rd_fixed :: "ustr option"
  rd_already :: "ustr list"
  rd_checks :: "(ustr, bool) dict"
  rd_rows :: "(ustr \<times> bool) list"
  rd_scrolls :: bool
  rd_hint :: ustr
  rd_typed :: ustr
  rd_complaint :: ustr
  rd_button :: ustr
  rd_open :: bool
  rd_result :: "(ustr \<times> ustr list) option"

text \<open>\<open>_row\<close>: a box that is not ticked, and a dot that says whether they are online.\<close>

definition check_row :: "(ustr \<Rightarrow> bool) \<Rightarrow> room_dialog \<Rightarrow> ustr \<Rightarrow> room_dialog" where
  "check_row online d name = d\<lparr>rd_checks := dict_set (rd_checks d) name False, rd_rows := rd_rows d @ [(name, online name)]\<rparr>"

definition member_list :: "(ustr \<Rightarrow> bool) \<Rightarrow> ustr list \<Rightarrow> room_dialog \<Rightarrow> room_dialog" where
  "member_list online contacts d = foldl (check_row online) (d\<lparr>rd_scrolls := length contacts > VISIBLE_ROWS\<rparr>) contacts"

definition build_dialog :: "(ustr \<Rightarrow> bool) \<Rightarrow> ustr list \<Rightarrow> room_dialog \<Rightarrow> room_dialog" where
  "build_dialog online contacts d =
     (let d1 = d\<lparr>rd_name := lstrip_hash (case rd_fixed d of None \<Rightarrow> [] | Some r \<Rightarrow> r)\<rparr>;
          selectable = filter (\<lambda>n. n \<notin> set (rd_already d)) contacts
      in if selectable \<noteq> [] then member_list online selectable d1
         else d1\<lparr>rd_hint := (if rd_already d \<noteq> [] then u ''Everyone you know is already in this room.''
             else u ''Nobody else has been seen online yet.'' @ [10] @ u ''You can still make the room and add people later.'')\<rparr>)"

definition new_room_dialog :: "(ustr \<Rightarrow> bool) \<Rightarrow> ustr list \<Rightarrow> ustr option \<Rightarrow> ustr list \<Rightarrow> room_dialog" where
  "new_room_dialog online contacts room already =
     build_dialog online contacts
       \<lparr>rd_name = [], rd_fixed = room, rd_already = already, rd_checks = [], rd_rows = [], rd_scrolls = False, rd_hint = [],
        rd_typed = [], rd_complaint = [], rd_button = (if room \<noteq> None then u ''Add'' else u ''Create''), rd_open = True, rd_result = None\<rparr>"

subsection \<open>Answers\<close>

definition typed_names :: "ustr \<Rightarrow> ustr list" where
  "typed_names s = map strip (split_by (\<lambda>ch. ch = 44) (map (\<lambda>ch. if ch = 59 then 44 else ch) s))"

definition pick_name :: "ustr list \<Rightarrow> ustr list \<Rightarrow> ustr \<Rightarrow> ustr list" where
  "pick_name already picked name = (if name \<noteq> [] \<and> name \<notin> set picked \<and> name \<notin> set already then picked @ [name] else picked)"

definition selected :: "room_dialog \<Rightarrow> ustr list" where
  "selected d = foldl (pick_name (rd_already d)) (map fst (filter snd (rd_checks d))) (typed_names (rd_typed d))"

definition accept_dialog :: "room_dialog \<Rightarrow> room_dialog" where
  "accept_dialog d = (case name_problem (strip (rd_name d)) of
       Some problem \<Rightarrow> d\<lparr>rd_complaint := problem\<rparr>
     | None \<Rightarrow> d\<lparr>rd_result := Some (strip (rd_name d), selected d), rd_open := False\<rparr>)"

definition cancel_dialog :: "room_dialog \<Rightarrow> room_dialog" where
  "cancel_dialog d = d\<lparr>rd_result := None, rd_open := False\<rparr>"

definition toggle :: "ustr \<Rightarrow> room_dialog \<Rightarrow> room_dialog" where
  "toggle name d = (case dict_get (rd_checks d) name of None \<Rightarrow> d
     | Some b \<Rightarrow> d\<lparr>rd_checks := dict_set (rd_checks d) name (\<not> b)\<rparr>)"

text \<open>
  A click beside the box runs the binding of the row. A click on the box or on the name runs the same
  binding and then what a \<open>Checkbutton\<close> does by itself when it is clicked; the space bar only does
  the latter. The entry for the name is read-only when the room is given.
\<close>

datatype dialog_act = Type_Name ustr | Type_Members ustr | Click_Row ustr | Click_Check ustr | Space_Bar ustr | Accept | Cancel

definition dialog_do :: "room_dialog \<Rightarrow> dialog_act \<Rightarrow> room_dialog" where
  "dialog_do d act = (if \<not> rd_open d then d else case act of
       Type_Name s \<Rightarrow> if rd_fixed d = None then d\<lparr>rd_name := s\<rparr> else d
     | Type_Members s \<Rightarrow> d\<lparr>rd_typed := s\<rparr>
     | Click_Row name \<Rightarrow> toggle name d
     | Click_Check name \<Rightarrow> toggle name (toggle name d)
     | Space_Bar name \<Rightarrow> toggle name d
     | Accept \<Rightarrow> accept_dialog d
     | Cancel \<Rightarrow> cancel_dialog d)"

text \<open>\<open>ask_room\<close>: the dialog is open until it is accepted or cancelled.\<close>

definition ask_room :: "(ustr \<Rightarrow> bool) \<Rightarrow> ustr list \<Rightarrow> ustr option \<Rightarrow> ustr list \<Rightarrow> dialog_act list \<Rightarrow> (ustr \<times> ustr list) option" where
  "ask_room online contacts room already acts = rd_result (foldl dialog_do (new_room_dialog online contacts room already) acts)"

subsection \<open>Where it opens\<close>

text \<open>\<open>_centre_on\<close>, with the sizes and the places Tk reports; \<open>bar\<close> is what is left free for a task bar.\<close>

definition centre_on :: "int \<Rightarrow> int \<times> int \<Rightarrow> int \<times> int \<Rightarrow> int \<times> int \<Rightarrow> int \<times> int \<Rightarrow> int \<times> int" where
  "centre_on bar origin master extent scr =
     (let x = fst origin + (fst master - fst extent) div 2;
          y = snd origin + (snd master - snd extent) div 3;
          limit_x = fst scr - fst extent;
          limit_y = snd scr - snd extent - bar
      in (max 0 (min x limit_x), max 0 (min y limit_y)))"

subsection \<open>What the dialog answers\<close>

text \<open>Facts that hold of a dialog from the time it is built.\<close>

definition dialog_ok :: "ustr option \<Rightarrow> ustr list \<Rightarrow> ustr list \<Rightarrow> room_dialog \<Rightarrow> bool" where
  "dialog_ok room contacts already d \<longleftrightarrow> rd_fixed d = room \<and> rd_already d = already \<and>
     dict_wf (rd_checks d) \<and> set (dict_keys (rd_checks d)) = set contacts - set already \<and>
     (room \<noteq> None \<longrightarrow> rd_name d = lstrip_hash (the room)) \<and>
     (rd_open d \<longrightarrow> rd_result d = None) \<and>
     (case rd_result d of None \<Rightarrow> True
      | Some (name, members) \<Rightarrow> name_problem name = None \<and> name = strip (rd_name d) \<and> members = selected d)"

lemma check_rows:
  "rd_name (foldl (check_row online) d ns) = rd_name d" "rd_fixed (foldl (check_row online) d ns) = rd_fixed d"
  "rd_already (foldl (check_row online) d ns) = rd_already d" "rd_result (foldl (check_row online) d ns) = rd_result d"
  "rd_open (foldl (check_row online) d ns) = rd_open d" "rd_typed (foldl (check_row online) d ns) = rd_typed d"
  "dict_wf (rd_checks d) \<Longrightarrow> dict_wf (rd_checks (foldl (check_row online) d ns))"
  "fst ` set (rd_checks (foldl (check_row online) d ns)) = fst ` set (rd_checks d) \<union> set ns"
  by (induction ns arbitrary: d) (simp_all add: check_row_def dict_set_keys)

lemma new_dialog_ok: "dialog_ok room contacts already (new_room_dialog online contacts room already)"
proof -
  have "filter (\<lambda>n. n \<notin> set already) contacts = [] \<Longrightarrow> set contacts - set already = {}" by (auto simp: filter_empty_conv)
  then show ?thesis
    by (simp add: dialog_ok_def new_room_dialog_def build_dialog_def member_list_def Let_def check_rows dict_keys_def) auto
qed

lemma toggle_fields [simp]:
  "rd_name (toggle n d) = rd_name d" "rd_fixed (toggle n d) = rd_fixed d" "rd_already (toggle n d) = rd_already d"
  "rd_result (toggle n d) = rd_result d" "rd_open (toggle n d) = rd_open d" "rd_typed (toggle n d) = rd_typed d"
  by (simp_all add: toggle_def split: option.split)

lemma toggle_keys: "dict_keys (rd_checks (toggle n d)) = dict_keys (rd_checks d)"
  by (auto simp: toggle_def dict_keys_def dict_keys_set dict_get_None_iff split: option.split dest: dict_get_Some_mem)

lemma toggle_twice: "toggle n (toggle n d) = d"
  by (auto simp: toggle_def dict_set_twice dict_set_same split: option.split)

lemma toggle_ok: "dialog_ok room contacts already d \<Longrightarrow> rd_open d \<Longrightarrow> dialog_ok room contacts already (toggle n d)"
  using toggle_keys [of n d] by (simp add: dialog_ok_def dict_keys_def)

lemma dialog_do_ok: "dialog_ok room contacts already d \<Longrightarrow> dialog_ok room contacts already (dialog_do d act)"
proof (cases "rd_open d")
  case True
  assume ok: "dialog_ok room contacts already d"
  show ?thesis
  proof (cases act)
    case Accept
    then show ?thesis using ok True by (auto simp: dialog_do_def accept_dialog_def dialog_ok_def selected_def split: option.split)
  qed (use ok True in \<open>simp_all add: dialog_do_def toggle_twice toggle_ok\<close>, auto simp: dialog_ok_def cancel_dialog_def)
qed (simp add: dialog_do_def)

lemma dialog_acts_ok: "dialog_ok room contacts already d \<Longrightarrow> dialog_ok room contacts already (foldl dialog_do d acts)"
  by (induction acts arbitrary: d) (auto intro: dialog_do_ok)

lemma picked_in_order:
  "foldl (pick_name already) picked ns =
     picked @ rev (remdups (rev (filter (\<lambda>n. n \<noteq> [] \<and> n \<notin> set picked \<and> n \<notin> set already) ns)))"
  by (induction ns rule: rev_induct) (auto simp: pick_name_def)

text \<open>The parts of an answer: how the room is called, who is ticked and who else was typed in.\<close>

definition called :: "ustr option \<Rightarrow> room_dialog \<Rightarrow> ustr" where
  "called room d = strip (case room of None \<Rightarrow> rd_name d | Some r \<Rightarrow> lstrip_hash r)"

definition ticked :: "room_dialog \<Rightarrow> ustr list" where
  "ticked d = map fst (filter snd (rd_checks d))"

definition typed_in :: "ustr list \<Rightarrow> room_dialog \<Rightarrow> ustr list" where
  "typed_in already d = filter (\<lambda>n. n \<noteq> [] \<and> n \<notin> set (ticked d) \<and> n \<notin> set already) (typed_names (rd_typed d))"

lemma answer_parts:
  assumes "dialog_ok room contacts already d"
  shows "strip (rd_name d) = called room d" "selected d = ticked d @ rev (remdups (rev (typed_in already d)))"
    "distinct (ticked d)" "set (ticked d) \<subseteq> set contacts - set already"
proof -
  show "strip (rd_name d) = called room d" using assms by (cases room) (simp_all add: dialog_ok_def called_def)
  show "selected d = ticked d @ rev (remdups (rev (typed_in already d)))"
    using assms by (simp add: dialog_ok_def selected_def ticked_def typed_in_def picked_in_order)
  show "distinct (ticked d)" using assms by (simp add: dialog_ok_def ticked_def distinct_map_filter)
  show "set (ticked d) \<subseteq> set contacts - set already" using assms by (auto simp: dialog_ok_def ticked_def dict_keys_def)
qed

lemma dialog_result:
  assumes "dialog_ok room contacts already d"
  shows "case rd_result d of None \<Rightarrow> True | Some r \<Rightarrow> r = (called room d, selected d) \<and> name_problem (called room d) = None \<and> \<not> rd_open d"
  using assms answer_parts(1) [OF assms] by (auto simp: dialog_ok_def split: option.splits)

lemma dialog_ends:
  assumes "dialog_ok room contacts already d"
  shows "rd_result (dialog_do d Accept) = (if \<not> rd_open d then rd_result d else if name_problem (called room d) = None then Some (called room d, selected d) else None)"
    "rd_result (dialog_do d Cancel) = (if \<not> rd_open d then rd_result d else None)"
  using assms answer_parts(1) [OF assms]
  by (auto simp: dialog_ok_def dialog_do_def accept_dialog_def cancel_dialog_def split: option.split)

text \<open>C34: what the dialog answers is a usable name, the room's when the room was given, and everybody
  who is ticked, in the order of the list, followed by everybody who was typed in, in the order they were
  typed, each once, less the empty names and those who are in the room already. Accepting an open
  dialog answers unless there is a problem with the name, cancelling it answers nothing, and once it is
  closed the answer stays.\<close>

theorem dialog_answer:
  "let ask = ask_room online contacts room already;
       d = foldl dialog_do (new_room_dialog online contacts room already) acts;
       answer = (called room d, ticked d @ rev (remdups (rev (typed_in already d))))
   in distinct (ticked d) \<and> set (ticked d) \<subseteq> set contacts - set already \<and>
      (case ask acts of None \<Rightarrow> True | Some r \<Rightarrow> r = answer \<and> name_problem (called room d) = None \<and> \<not> rd_open d) \<and>
      ask (acts @ [Accept]) = (if \<not> rd_open d then ask acts else if name_problem (called room d) = None then Some answer else None) \<and>
      ask (acts @ [Cancel]) = (if \<not> rd_open d then ask acts else None)"
proof -
  let ?d = "foldl dialog_do (new_room_dialog online contacts room already) acts"
  have ok: "dialog_ok room contacts already ?d" by (intro dialog_acts_ok new_dialog_ok)
  show ?thesis
    using answer_parts(3,4) [OF ok] dialog_result [OF ok] dialog_ends [OF ok]
    unfolding Let_def ask_room_def foldl_append foldl.simps answer_parts(2) [OF ok] by simp
qed

subsection \<open>The rule for names\<close>

text \<open>C33: The dialog checks the rule the server has. For every name that does not begin with two
  hashes, the dialog finds no problem with the stripped name if and only if the server takes the room
  that the client then asks for.\<close>

theorem dialog_rule_is_the_servers:
  assumes "\<not> startswith (strip name) (u ''##'')" and "pget (f_data f) (u ''room'') = PStr (hashed name)"
  shows "name_problem (strip name) = None \<longleftrightarrow> outcome (room_name sid f) s = Inr (Some (hashed name))"
proof -
  let ?n = "strip name" and ?h = "hashed name"
  have no: "outcome (andthen m (ret None)) s \<noteq> Inr (Some x)" for m and x :: ustr
    by (simp add: andthen_def bnd_def split: prod.split sum.split)
  have "startswith ?h (u ''#'')" by (simp add: hashed_def startswith_def u_def)
  then have h: "outcome (room_name sid f) s = Inr (Some ?h) \<longleftrightarrow> 2 \<le> length ?h \<and> length ?h \<le> 32 \<and> \<not> list_ex is_space ?h"
    using no by (auto simp: room_name_def Let_def assms(2) ROOM_PREFIX_def not_less)
  have sp: "\<not> is_space 35" by (simp add: is_space_def)
  consider "?n = []" | s where "?n = 35 # s" "s = [] \<or> hd s \<noteq> 35" | s ch where "?n = ch # s" "ch \<noteq> 35"
    using assms(1) by (cases ?n; cases "tl ?n") (auto simp: startswith_def u_def)
  then show ?thesis
  proof cases
    case 1
    then show ?thesis unfolding h by (simp add: name_problem_def hashed_def startswith_def u_def)
  next
    case (2 s)
    then show ?thesis unfolding h
      by (cases s) (auto simp: name_problem_def hashed_def startswith_def u_def sp lstrip_hash_def MAX_NAME_def)
  next
    case (3 s ch)
    then show ?thesis unfolding h
      by (auto simp: name_problem_def hashed_def startswith_def u_def sp lstrip_hash_def MAX_NAME_def)
  qed
qed

text \<open>A room called lunch.\<close>

theorem dialog_rule_is_the_servers_witness:
  "name_problem (strip (u '' lunch '')) = None \<and>
   (\<forall>s :: server. outcome (room_name 1 (sample_frame\<lparr>f_data := [(u ''room'', PStr (u ''#lunch''))]\<rparr>)) s = Inr (Some (u ''#lunch'')))"
proof -
  let ?f = "sample_frame\<lparr>f_data := [(u ''room'', PStr (u ''#lunch''))]\<rparr>"
  have n: "strip (u '' lunch '') = u ''lunch''" by (simp add: strip_def rstrip_by_def u_def is_space_def)
  have h: "hashed (u '' lunch '') = u ''#lunch''" unfolding hashed_def n by (simp add: startswith_def u_def)
  have p: "name_problem (strip (u '' lunch '')) = None"
    unfolding n by (simp add: name_problem_def u_def is_space_def lstrip_hash_def MAX_NAME_def)
  have "\<not> startswith (strip (u '' lunch '')) (u ''##'')" unfolding n by (simp add: startswith_def u_def)
  moreover have "pget (f_data ?f) (u ''room'') = PStr (hashed (u '' lunch ''))" unfolding h by (simp add: pget_def)
  ultimately show ?thesis using dialog_rule_is_the_servers [of "u '' lunch ''" ?f 1] p unfolding h by blast
qed

text \<open>
  With two hashes in front the two rules differ both ways: the dialog takes a name of 31 letters
  behind two hashes, which the server refuses, and refuses two bare hashes, which the server takes.
\<close>

definition two_hashes :: "ustr \<Rightarrow> frame" where
  "two_hashes rest = sample_frame\<lparr>f_data := [(u ''room'', PStr (u ''##'' @ rest))]\<rparr>"

lemma two_hashes_differ:
  "name_problem (u ''##'' @ replicate 31 97) = None \<and> outcome (room_name sid (two_hashes (replicate 31 97))) s \<noteq> Inr (Some (u ''##'' @ replicate 31 97)) \<and>
   name_problem (u ''##'') \<noteq> None \<and> outcome (room_name sid (two_hashes [])) s = Inr (Some (u ''##''))"
proof -
  have "is_space 35 = False" "is_space 97 = False" by (simp_all add: is_space_def)
  then show ?thesis
    by (simp add: name_problem_def lstrip_hash_def MAX_NAME_def u_def two_hashes_def room_name_def Let_def pget_def startswith_def ROOM_PREFIX_def
        andthen_def bnd_def list_ex_iff eval_nat_numeral split: prod.split sum.split)
qed

text \<open>A click on somebody's name ticks nobody: the row's own binding toggles the box and the box
  toggles itself, so that the dialog is as it was.\<close>

theorem click_ticks_nobody: "dialog_do d (Click_Check name) = d"
  by (simp add: dialog_do_def toggle_twice)

text \<open>A dialog that fits on the screen opens on it, clear of the task bar, wherever its parent is.\<close>

theorem dialog_on_screen:
  assumes "fst extent \<le> fst scr" and "snd extent + bar \<le> snd scr" and "0 \<le> bar"
  shows "let (x, y) = centre_on bar origin master extent scr in
    0 \<le> x \<and> 0 \<le> y \<and> x + fst extent \<le> fst scr \<and> y + snd extent + bar \<le> snd scr"
  using assms by (auto simp: centre_on_def Let_def)

theorem dialog_on_screen_witness:
  "centre_on 48 (900, 500) (1060, 680) (330, 520) (1366, 768) = (1036, 200)"
  using dialog_on_screen [of "(330, 520)" "(1366, 768)" 48 "(900, 500)" "(1060, 680)"] by (simp add: centre_on_def Let_def)

end
