(* ===== verification/TkView.thy ===== *)
theory TkView
  imports View Screen RoomDialog
begin

section \<open>The Tk view\<close>

text \<open>
  \<open>im/client/view/tk/app.py\<close>: the queue that the connection's threads feed, the timer that drains it,
  and what every click and key does. \<open>Screen\<close> has what the window shows; here the model's events are
  rendered onto it as the controller runs. Everything happens on the main thread, one callback at a
  time; a callback that raises ends in an error box.
\<close>

subsection \<open>State\<close>

datatype tk_item = Tk_Frame frame | Tk_State ustr

datatype box = Info ustr | Oops exn

text \<open>The windows that stay open beside the main one: the hits of a search and the contacts.\<close>

datatype popup = Hits "ustr list" "ustr list" | Contacts_Window "ustr list" "ustr list"

record tk_view = client +
  tk_inbox :: "tk_item list"
  tk_polling :: bool
  tk_entry :: ustr
  tk_timer :: "nat option"
  tk_after :: "nat list"
  tk_next :: nat
  tk_announced :: bool
  tk_boxes :: "box list"
  tk_popups :: "popup list"
  tk_screen :: screen

text \<open>\<open>tk_timer\<close> is \<open>_typing_after\<close>, the handle of a timer; \<open>tk_after\<close> are the timers that \<open>after\<close> set for
  \<open>_stop_typing\<close> and that have neither run out nor been cancelled, oldest first, and \<open>tk_next\<close> is the
  handle of the next one.\<close>

definition new_tk_view :: "'z tk_view_scheme \<Rightarrow> 'z tk_view_scheme" where
  "new_tk_view s = s\<lparr>ct_model := subscribe view_id (ct_model s), tk_inbox := [], tk_polling := False, tk_entry := [], tk_timer := None,
     tk_after := [], tk_next := 0, tk_announced := False, tk_boxes := [], tk_popups := [], tk_screen := new_screen\<rparr>"

definition tk_post :: "tk_item \<Rightarrow> 'z tk_view_scheme \<Rightarrow> 'z tk_view_scheme" where
  "tk_post item s = s\<lparr>tk_inbox := tk_inbox s @ [item]\<rparr>"

definition show_box :: "box \<Rightarrow> ('z tk_view_scheme, unit) py" where
  "show_box b = modify (\<lambda>s. s\<lparr>tk_boxes := tk_boxes s @ [b]\<rparr>)"

definition on_screen :: "(screen \<Rightarrow> screen) \<Rightarrow> ('z tk_view_scheme, unit) py" where
  "on_screen g = modify (\<lambda>s. s\<lparr>tk_screen := g (tk_screen s)\<rparr>)"

text \<open>A call of the controller. The window is a listener of the model: it renders every event on the
  way, and keeps what it rendered when the call raises.\<close>

definition watched :: "toolkit \<Rightarrow> ('z tk_view_scheme, 'a) py \<Rightarrow> ('z tk_view_scheme, 'a) py" where
  "watched p m s = (case m s of (r, t) \<Rightarrow>
     (r, t\<lparr>tk_screen := foldl (render p) (tk_screen t) (drop (length (calls_to view_id (ct_model s))) (calls_to view_id (ct_model t)))\<rparr>))"

text \<open>\<open>report_callback_exception\<close> is \<open>_on_callback_error\<close>.\<close>

definition callback :: "('z tk_view_scheme, unit) py \<Rightarrow> ('z tk_view_scheme, unit) py" where
  "callback m = rescue m (\<lambda>e. show_box (Oops e))"

subsection \<open>The loop\<close>

definition tk_run :: "toolkit \<Rightarrow> ('z tk_view_scheme, unit) py" where
  "tk_run p = modify (\<lambda>s. s\<lparr>tk_polling := True, tk_screen := redraw (ct_model s) (refresh_list p (ct_model s) (tk_screen s))\<rparr>)"

definition tk_dispatch :: "crypto \<Rightarrow> toolkit \<Rightarrow> tk_item \<Rightarrow> ('z tk_view_scheme, unit) py" where
  "tk_dispatch c p item = watched p (case item of Tk_Frame f \<Rightarrow> on_frame c f | Tk_State st \<Rightarrow> on_state st)"

definition poll_one :: "crypto \<Rightarrow> toolkit \<Rightarrow> tk_item \<Rightarrow> ('z tk_view_scheme, unit) py" where
  "poll_one c p item = andthen (modify (\<lambda>s. s\<lparr>tk_inbox := tl (tk_inbox s)\<rparr>))
     (rescue (tk_dispatch c p item) (\<lambda>e. on_screen (notice (Notice_Exc e))))"

definition drain :: "crypto \<Rightarrow> toolkit \<Rightarrow> ('z tk_view_scheme, unit) py" where
  "drain c p = bnd (gets tk_inbox) (\<lambda>items. for_each items (poll_one c p))"

definition poll :: "crypto \<Rightarrow> toolkit \<Rightarrow> ('z tk_view_scheme, unit) py" where
  "poll c p = andthen (modify (\<lambda>s. s\<lparr>tk_polling := False\<rparr>)) (andthen (drain c p) (modify (\<lambda>s. s\<lparr>tk_polling := True\<rparr>)))"

definition tk_stop :: "('z tk_view_scheme, unit) py" where
  "tk_stop = modify (\<lambda>s. s\<lparr>ct_model := unsubscribe view_id (ct_model s)\<rparr>)"

subsection \<open>The composer\<close>

text \<open>\<open>after_cancel\<close> of the handle in hand, if there is one, and \<open>after\<close>, whose handle is kept.\<close>

definition cancel_timer :: "'z tk_view_scheme \<Rightarrow> 'z tk_view_scheme" where
  "cancel_timer s = (case tk_timer s of None \<Rightarrow> s | Some h \<Rightarrow> s\<lparr>tk_after := filter (\<lambda>k. k \<noteq> h) (tk_after s)\<rparr>)"

definition set_timer :: "'z tk_view_scheme \<Rightarrow> 'z tk_view_scheme" where
  "set_timer s = s\<lparr>tk_timer := Some (tk_next s), tk_after := tk_after s @ [tk_next s], tk_next := Suc (tk_next s)\<rparr>"

definition stop_typing :: "toolkit \<Rightarrow> ('z tk_view_scheme, unit) py" where
  "stop_typing p = andthen (modify (\<lambda>s. (cancel_timer s)\<lparr>tk_timer := None\<rparr>))
     (bnd (gets tk_announced) (\<lambda>announced. if announced
        then andthen (modify (\<lambda>s. s\<lparr>tk_announced := False\<rparr>)) (watched p (ct_typing False)) else ret ()))"

definition on_key :: "toolkit \<Rightarrow> ('z tk_view_scheme, unit) py" where
  "on_key p = bnd (gets (\<lambda>s. active (ct_model s))) (\<lambda>act. if act = None then ret ()
     else andthen (bnd (gets tk_announced) (\<lambda>announced. if announced then ret ()
            else andthen (modify (\<lambda>s. s\<lparr>tk_announced := True\<rparr>)) (watched p (ct_typing True))))
          (modify (\<lambda>s. set_timer (cancel_timer s))))"

text \<open>An entry that is disabled ignores what would change it.\<close>

definition set_entry :: "ustr \<Rightarrow> ('z tk_view_scheme, unit) py" where
  "set_entry t = modify (\<lambda>s. if sc_enabled (tk_screen s) then s\<lparr>tk_entry := t\<rparr> else s)"

definition not_sent :: notice where
  "not_sent = Notice (u ''not sent '' @ [8212] @ u '' pick a conversation first'')"

definition on_send :: "crypto \<Rightarrow> toolkit \<Rightarrow> ('z tk_view_scheme, unit) py" where
  "on_send c p = bnd (gets (\<lambda>s. strip (tk_entry s))) (\<lambda>typed. if typed = [] then ret ()
     else andthen (set_entry [])
         (andthen (stop_typing p)
         (bnd (watched p (ct_send c typed)) (\<lambda>r. if r = None then on_screen (notice not_sent) else ret ()))))"

text \<open>\<open>PillButton._click\<close> on the send button, which \<open>_set_composer\<close> enables together with the entry.\<close>

definition click_send :: "crypto \<Rightarrow> toolkit \<Rightarrow> ('z tk_view_scheme, unit) py" where
  "click_send c p = bnd (gets (\<lambda>s. sc_enabled (tk_screen s))) (\<lambda>enabled. if enabled then on_send c p else ret ())"

subsection \<open>Menus and windows\<close>

text \<open>What the user answers to a question is \<open>None\<close> when it is cancelled.\<close>

definition new_message :: "toolkit \<Rightarrow> ustr option \<Rightarrow> ('z tk_view_scheme, unit) py" where
  "new_message p who = (case who of None \<Rightarrow> ret ()
     | Some n \<Rightarrow> if strip n = [] then ret () else watched p (open_conversation (strip n)))"

definition room_menu :: "toolkit \<Rightarrow> dialog_act list \<Rightarrow> ('z tk_view_scheme, unit) py" where
  "room_menu p acts = bnd (gets ct_model) (\<lambda>m.
     case ask_room (\<lambda>n. is_online n m) (contact_names (tk_lower p) m) None [] acts of None \<Rightarrow> ret ()
     | Some (name, members) \<Rightarrow> watched p (open_room (hashed name) members))"

definition invite_menu :: "toolkit \<Rightarrow> dialog_act list \<Rightarrow> ('z tk_view_scheme, unit) py" where
  "invite_menu p acts = bnd (gets ct_model) (\<lambda>m.
     case (case active m of None \<Rightarrow> None | Some room \<Rightarrow> if room_key room then Some room else None) of
       None \<Rightarrow> show_box (Info (u ''Open a room first. People are added to rooms, not to direct messages.''))
     | Some room \<Rightarrow>
       (case ask_room (\<lambda>n. is_online n m) (contact_names (tk_lower p) m) (Some room) (room_members room m) acts of None \<Rightarrow> ret ()
        | Some (_, members) \<Rightarrow> if members = [] then ret () else watched p (cn_invite room members)))"

text \<open>One line of \<open>_show_hits\<close>. A hit has a text body.\<close>

definition hit_line :: "(ustr \<Rightarrow> ustr) \<Rightarrow> ustr \<Rightarrow> ustr \<times> chat_message \<Rightarrow> ustr" where
  "hit_line casefold query hit = fst hit @ u ''  --  '' @ (if msg_mine (snd hit) then u ''you'' else msg_sender (snd hit)) @ u '':  '' @
     snippet casefold query 60 (py_str (msg_body (snd hit)))"

definition open_popup :: "popup \<Rightarrow> ('z tk_view_scheme, unit) py" where
  "open_popup w = modify (\<lambda>s. s\<lparr>tk_popups := tk_popups s @ [w]\<rparr>)"

definition search_box :: "(ustr \<Rightarrow> ustr) \<Rightarrow> ustr option \<Rightarrow> ('z tk_view_scheme, unit) py" where
  "search_box casefold query = (case query of None \<Rightarrow> ret ()
     | Some q \<Rightarrow> if strip q = [] then ret ()
       else bnd (gets (\<lambda>s. search casefold q 100 (ct_model s))) (\<lambda>r. bnd (lift r) (\<lambda>hits.
         if hits = [] then show_box (Info (u ''Nothing loaded here contains '' @ repr_str (strip q) @ u ''.'' @ [10, 10] @
           u ''Only messages this client has loaded can be searched -- the server stores ciphertext it cannot read. Open a conversation and scroll back to load more.''))
         else open_popup (Hits (map fst hits) (map (hit_line casefold (strip q)) hits)))))"

definition contact_line :: "'z chat_content_scheme \<Rightarrow> ustr \<Rightarrow> ustr" where
  "contact_line m name = u '' '' @ (if is_online name m then [9679] else [9675]) @ u ''  '' @ name"

definition show_contacts :: "toolkit \<Rightarrow> ('z tk_view_scheme, unit) py" where
  "show_contacts p = bnd (gets ct_model) (\<lambda>m. let names = contact_names (tk_lower p) m in
     open_popup (Contacts_Window names (if names \<noteq> [] then map (contact_line m) names
       else [u ''  Nobody yet. Add somebody below, or message them.''])))"

fun popup_keys :: "popup \<Rightarrow> ustr list" where
  "popup_keys (Hits ks ls) = ks"
| "popup_keys (Contacts_Window ks ls) = ks"

fun popup_lines :: "popup \<Rightarrow> ustr list" where
  "popup_lines (Hits ks ls) = ls"
| "popup_lines (Contacts_Window ks ls) = ls"

definition close_popup :: "nat \<Rightarrow> ('z tk_view_scheme, unit) py" where
  "close_popup i = modify (\<lambda>s. s\<lparr>tk_popups := take i (tk_popups s) @ drop (Suc i) (tk_popups s)\<rparr>)"

text \<open>\<open>open_selected\<close> of both windows: \<open>line\<close> is what \<open>curselection\<close> says. The list of contacts has a
  line that stands for nobody when there are none.\<close>

definition pick_line :: "toolkit \<Rightarrow> nat \<Rightarrow> nat option \<Rightarrow> ('z tk_view_scheme, unit) py" where
  "pick_line p i line = bnd (gets tk_popups) (\<lambda>ws. if length ws \<le> i then ret () else case line of None \<Rightarrow> ret ()
     | Some n \<Rightarrow> if n < length (popup_keys (ws ! i))
         then andthen (watched p (ct_select (popup_keys (ws ! i) ! n))) (close_popup i) else ret ())"

definition add_in_contacts :: "toolkit \<Rightarrow> nat \<Rightarrow> ustr \<Rightarrow> ('z tk_view_scheme, unit) py" where
  "add_in_contacts p i name = (if strip name = [] then ret ()
     else andthen (watched p (open_conversation (strip name))) (close_popup i))"

definition show_settings :: "('z tk_view_scheme, unit) py" where
  "show_settings = bnd (gets ct_model) (\<lambda>m. show_box (Info (
     u ''Signed in as '' @ (case cm_username m of None \<Rightarrow> u ''None'' | Some n \<Rightarrow> n) @ [10] @
     u ''Connection: '' @ connection_state m @ [10] @
     u ''Conversations: '' @ nat_str (length (conversations m)) @ [10] @
     u ''Rooms: '' @ (if my_rooms m = [] then u ''none'' else join (u '', '') (my_rooms m)) @ [10] @
     u ''Unread: '' @ nat_str (unread_total m))))"

subsection \<open>Everything that can happen to the window\<close>

datatype tk_step =
    Posted tk_item | Poll_Timer | Key_Pressed ustr | Return_Pressed | Send_Clicked | Idle_Timer | Row_Clicked ustr
  | New_Message "ustr option" | Room_Menu "dialog_act list" | Invite_Menu "dialog_act list" | Search_For "ustr option"
  | Contacts_Opened | Line_Picked nat "nat option" | Contact_Typed nat ustr | Popup_Closed nat | Settings_Opened | Network "io list"
  | Watch rat bool bool "io list" "io list"

text \<open>
  A key runs \<open>_on_key\<close> first and then changes the text of the entry, to \<open>t\<close>, if that is enabled. A
  timer runs only when it was set; of several for \<open>_stop_typing\<close>, the oldest runs out first.
\<close>

definition tk_step_do :: "crypto \<Rightarrow> toolkit \<Rightarrow> (ustr \<Rightarrow> ustr) \<Rightarrow> tk_step \<Rightarrow> ('z tk_view_scheme, unit) py" where
  "tk_step_do c p casefold st = (case st of
       Posted item \<Rightarrow> modify (tk_post item)
     | Poll_Timer \<Rightarrow> bnd (gets tk_polling) (\<lambda>b. if b then poll c p else ret ())
     | Key_Pressed t \<Rightarrow> andthen (callback (on_key p)) (set_entry t)
     | Return_Pressed \<Rightarrow> callback (on_send c p)
     | Send_Clicked \<Rightarrow> callback (click_send c p)
     | Idle_Timer \<Rightarrow> bnd (gets tk_after) (\<lambda>hs. case hs of [] \<Rightarrow> ret ()
         | _ # rest \<Rightarrow> andthen (modify (\<lambda>s. s\<lparr>tk_after := rest\<rparr>)) (callback (stop_typing p)))
     | Row_Clicked key \<Rightarrow> callback (watched p (ct_select key))
     | New_Message who \<Rightarrow> callback (new_message p who)
     | Room_Menu acts \<Rightarrow> callback (room_menu p acts)
     | Invite_Menu acts \<Rightarrow> callback (invite_menu p acts)
     | Search_For q \<Rightarrow> callback (search_box casefold q)
     | Contacts_Opened \<Rightarrow> callback (show_contacts p)
     | Line_Picked i n \<Rightarrow> callback (pick_line p i n)
     | Contact_Typed i n \<Rightarrow> callback (add_in_contacts p i n)
     | Popup_Closed i \<Rightarrow> close_popup i
     | Settings_Opened \<Rightarrow> callback show_settings
     | Network ios \<Rightarrow> meanwhile ios
     | Watch r stopped dialled ios1 ios2 \<Rightarrow> andthen (watch_turn r stopped dialled ios1 ios2) (ret ()))"

definition tk_do :: "crypto \<Rightarrow> toolkit \<Rightarrow> (ustr \<Rightarrow> ustr) \<Rightarrow> 'z tk_view_scheme \<Rightarrow> tk_step \<Rightarrow> 'z tk_view_scheme" where
  "tk_do c p casefold s st = after (tk_step_do c p casefold st) s"

subsection \<open>Invariants of the window\<close>

text \<open>
  An invariant \<open>I\<close> of what the model holds and the window shows. It is kept by everything that can
  happen to the window if it does not mind notices and is kept by the calls of the controller that
  the window makes; \<open>good\<close> says which items of the queue are covered.
\<close>

locale window_inv =
  fixes I :: "'z tk_view_scheme \<Rightarrow> bool" and good :: "tk_item \<Rightarrow> bool" and c :: crypto and p :: toolkit
  assumes I_own: "ct_model t = ct_model s \<Longrightarrow> tk_screen t = tk_screen s \<Longrightarrow> I t = I s"
    and I_notice: "I (s\<lparr>tk_screen := notice n (tk_screen s)\<rparr>) = I s"
    and I_typing: "runs_in (keeps I) (watched p (ct_typing b))"
    and I_send: "runs_in (keeps I) (watched p (ct_send c txt))"
    and I_select: "runs_in (keeps I) (watched p (ct_select key))"
    and I_conversation: "runs_in (keeps I) (watched p (open_conversation name))"
    and I_room: "runs_in (keeps I) (watched p (open_room room members))"
    and I_invite: "runs_in (keeps I) (watched p (cn_invite room members))"
    and I_item: "good item \<Longrightarrow> runs_in (keeps I) (tk_dispatch c p item)"

definition inbox_ok :: "('z tk_view_scheme \<Rightarrow> bool) \<Rightarrow> (tk_item \<Rightarrow> bool) \<Rightarrow> 'z tk_view_scheme \<Rightarrow> bool" where
  "inbox_ok I good s \<longleftrightarrow> I s \<and> list_all good (tk_inbox s)"

lemma same_view_inbox: "same_view s t \<Longrightarrow> tk_inbox t = tk_inbox s" for s t :: "'z tk_view_scheme"
  by (cases s; cases t) (simp add: same_view_def)

lemma same_screen_parts: "same_screen s t \<Longrightarrow> ct_model t = ct_model s" "same_screen s t \<Longrightarrow> tk_screen t = tk_screen s"
  "same_screen s t \<Longrightarrow> tk_inbox t = tk_inbox s" for s t :: "'z tk_view_scheme"
  by (cases s; cases t; simp add: same_screen_def)+

lemma watched_inbox:
  fixes m :: "('z tk_view_scheme, 'a) py"
  assumes "runs_in same_view m" and "runs_in (keeps I) (watched p m)"
  shows "runs_in (keeps (inbox_ok I good)) (watched p m)"
proof (rule keepsI)
  fix s :: "'z tk_view_scheme"
  assume ok: "inbox_ok I good s"
  have "same_view s (after m s)" by (rule runs_at [OF assms(1)])
  then have "tk_inbox (after (watched p m) s) = tk_inbox s" using same_view_inbox [of s "after m s"]
    by (cases "m s") (simp add: watched_def)
  moreover have "I (after (watched p m) s)" using ok keepsD [OF assms(2)] by (simp add: inbox_ok_def)
  ultimately show "inbox_ok I good (after (watched p m) s)" using ok by (simp add: inbox_ok_def)
qed

lemma screen_watch: "runs_in same_screen (watch_turn r stopped dialled ios1 ios2)"
proof -
  have "runs_in same_screen (modify (\<lambda>s. s\<lparr>se_has := b\<rparr>))" "runs_in same_screen (modify (\<lambda>s. s\<lparr>se_backoff := bo\<rparr>))"
    "runs_in same_screen (modify new_link)"
    "runs_in same_screen (modify (\<lambda>s. s\<lparr>se_has := b, se_reconnects := Suc (se_reconnects s), se_backoff := bo_reset (se_backoff s)\<rparr>))" for b bo
    by (auto intro!: screen_modify simp: new_link_def)
  then show ?thesis
    unfolding watch_turn_def reconnect_def attempt_def
    by (auto intro!: sn.runs_rules owner_screen [OF link_close_owner] owner_screen [OF link_connect_owner] owner_screen [OF link_login_owner]
        split: sum.split)
qed

context window_inv
begin

abbreviation "K \<equiv> keeps (inbox_ok I good)"

lemma K_run: "run_rel K"
  by unfold_locales (auto simp: keeps_def)

lemmas K_rules = run_rel.runs_rules [OF K_run]

lemma K_screen: "runs_in same_screen m \<Longrightarrow> runs_in K m"
proof (rule keepsI)
  fix s :: "'z tk_view_scheme"
  assume "runs_in same_screen m" and ok: "inbox_ok I good s"
  then have m: "same_screen s (after m s)" by (simp add: runs_at)
  have "I (after m s) = I s" by (rule I_own) (use same_screen_parts [OF m] in auto)
  then show "inbox_ok I good (after m s)" using ok same_screen_parts(3) [OF m] by (simp add: inbox_ok_def)
qed

lemma K_own:
  assumes "\<And>s. ct_model (g s) = ct_model s \<and> tk_screen (g s) = tk_screen s \<and> tk_inbox (g s) = tk_inbox s"
  shows "runs_in K (modify g)"
proof -
  have "I (g s) = I s" for s by (rule I_own) (use assms in auto)
  then show ?thesis using assms by (simp add: runs_in_modify keeps_def inbox_ok_def)
qed

lemma K_notice: "runs_in K (on_screen (notice n))"
  using I_notice by (simp add: on_screen_def runs_in_modify keeps_def inbox_ok_def)

lemma K_watched:
  "runs_in K (watched p (ct_typing b))" "runs_in K (watched p (ct_send c txt))" "runs_in K (watched p (ct_select key))"
  "runs_in K (watched p (open_conversation name))" "runs_in K (watched p (open_room room members))" "runs_in K (watched p (cn_invite room members))"
  by (intro watched_inbox vw.runs_gestures vw.runs_ct_send vw.runs_select vw.runs_cn I_typing I_send I_select I_conversation I_room I_invite)+

lemma K_box: "runs_in K (show_box b)"
  unfolding show_box_def by (intro K_own) simp

lemma K_popups: "runs_in K (open_popup w)" "runs_in K (close_popup i)"
  unfolding open_popup_def close_popup_def by (intro K_own, simp)+

lemma K_callback: "runs_in K m \<Longrightarrow> runs_in K (callback m)"
  unfolding callback_def by (intro K_rules K_box)

lemma K_entry: "runs_in K (set_entry t)"
  unfolding set_entry_def by (intro K_own) simp

lemma K_timer: "runs_in K (modify (\<lambda>s. (cancel_timer s)\<lparr>tk_timer := h\<rparr>))" "runs_in K (modify (\<lambda>s. set_timer (cancel_timer s)))"
  "runs_in K (modify (\<lambda>s. s\<lparr>tk_after := hs\<rparr>))"
  by (intro K_own, simp add: cancel_timer_def set_timer_def split: option.split)+

lemma K_typing: "runs_in K (stop_typing p)" "runs_in K (on_key p)"
  unfolding stop_typing_def on_key_def by (intro K_rules K_watched K_timer K_own; simp)+

lemma K_on_send: "runs_in K (on_send c p)"
  unfolding on_send_def by (intro K_rules K_watched K_typing K_entry K_notice)

lemma K_item:
  assumes "good item"
  shows "runs_in K (poll_one c p item)"
proof -
  have "runs_in same_view (case item of Tk_Frame f \<Rightarrow> on_frame c f | Tk_State st \<Rightarrow> on_state st)"
    by (cases item) (auto intro: vw.runs_on_frame vw.runs_on_state)
  then have "runs_in K (tk_dispatch c p item)"
    using I_item [OF assms] unfolding tk_dispatch_def by (rule watched_inbox)
  moreover have "I (s\<lparr>tk_inbox := tl (tk_inbox s)\<rparr>) = I s" for s by (rule I_own) simp_all
  then have "runs_in K (modify (\<lambda>s. s\<lparr>tk_inbox := tl (tk_inbox s)\<rparr>))"
    by (simp add: runs_in_modify keeps_def inbox_ok_def list_all_iff) (metis list.sel(2) list.set_sel(2))
  ultimately show ?thesis unfolding poll_one_def by (intro K_rules K_notice)
qed

lemma K_poll: "runs_in K (poll c p)"
proof -
  have "runs_in K (drain c p)"
  proof (rule keepsI)
    fix s assume ok: "inbox_ok I good s"
    have "runs_in K (for_each (tk_inbox s) (poll_one c p))"
      using ok by (intro run_rel.runs_for_each [OF K_run] K_item) (simp add: inbox_ok_def list_all_iff)
    then show "inbox_ok I good (after (drain c p) s)" using keepsD ok by (simp add: drain_def bnd_def)
  qed
  then show ?thesis unfolding poll_def by (intro K_rules K_own) simp_all
qed

lemma K_menus:
  "runs_in K (click_send c p)" "runs_in K (new_message p who)" "runs_in K (room_menu p acts)" "runs_in K (invite_menu p acts)"
  "runs_in K (search_box casefold q)" "runs_in K (show_contacts p)" "runs_in K (pick_line p i n)" "runs_in K (add_in_contacts p i name)"
  "runs_in K show_settings"
  unfolding click_send_def new_message_def room_menu_def invite_menu_def search_box_def show_contacts_def Let_def pick_line_def
    add_in_contacts_def show_settings_def
  by (auto intro!: K_rules K_watched K_on_send K_box K_popups split: option.split)

lemma K_step: "(\<And>item. st = Posted item \<Longrightarrow> good item) \<Longrightarrow> runs_in K (tk_step_do c p casefold st)"
proof (cases st)
  case (Posted item)
  assume "\<And>item. st = Posted item \<Longrightarrow> good item"
  moreover have "I (tk_post item s) = I s" for s by (rule I_own) (simp_all add: tk_post_def)
  ultimately show ?thesis by (simp add: Posted tk_step_do_def runs_in_modify keeps_def inbox_ok_def) (simp add: tk_post_def)
next
  case (Watch r stopped dialled ios1 ios2)
  show ?thesis unfolding Watch tk_step_do_def tk_step.case by (intro K_rules K_screen screen_watch)
next
  case Idle_Timer
  show ?thesis unfolding Idle_Timer tk_step_do_def tk_step.case
    by (rule run_rel.runs_bnd [OF K_run run_rel.runs_pure(3) [OF K_run]]) (auto intro!: K_rules K_callback K_typing K_timer split: list.split)
qed (auto simp: tk_step_do_def intro!: K_callback K_menus K_rules K_watched K_poll K_typing K_on_send K_entry K_popups K_screen [OF owner_screen [OF meanwhile_owner]])

end

subsection \<open>The composer and the strip follow the connection\<close>

definition follows :: "toolkit \<Rightarrow> ustr \<Rightarrow> screen \<Rightarrow> bool" where
  "follows p st sc \<longleftrightarrow> (sc_enabled sc \<longleftrightarrow> st = u ''ONLINE'') \<and> (sc_strip sc = strip_text p st \<or> st = u ''DISCONNECTED'' \<and> sc_strip sc = [])"

lemma follows_still [simp]:
  "follows p st (notice n sc) = follows p st sc" "follows p st (draw_header m sc) = follows p st sc"
  "follows p st (refresh_list q m sc) = follows p st sc" "follows p st (redraw m sc) = follows p st sc"
  by (simp_all add: follows_def notice_def draw_header_def refresh_list_def redraw_def show_messages_def Let_def split: option.split)

lemma follows_render: "follows p st sc \<Longrightarrow> follows p (conn_step st ev) (render p sc (ev, m))"
proof -
  have "follows p x (show_state p x (set_composer (x = u ''ONLINE'') sc))" for x
    by (simp add: follows_def show_state_def set_composer_def strip_text_def)
  then show "follows p st sc \<Longrightarrow> ?thesis" by (cases ev) (simp_all add: conn_step_def)
qed

lemma follows_renders: "follows p st sc \<Longrightarrow> follows p (foldl conn_step st (map fst evs)) (foldl (render p) sc evs)"
  by (induction evs arbitrary: st sc) (auto simp: follows_render)

definition composer_ok :: "toolkit \<Rightarrow> 'z tk_view_scheme \<Rightarrow> bool" where
  "composer_ok p s \<longleftrightarrow> count_list (listeners (ct_model s)) view_id = 1 \<and> follows p (connection_state (ct_model s)) (tk_screen s)"

lemma same_view_screen: "same_view s t \<Longrightarrow> tk_screen t = tk_screen s" for s t :: "'z tk_view_scheme"
  by (cases s; cases t) (simp add: same_view_def)

lemma watched_composer:
  fixes m :: "('z tk_view_scheme, 'a) py"
  assumes "runs_in same_view m" and "runs_in tracks m"
  shows "runs_in (keeps (composer_ok p)) (watched p m)"
proof (rule keepsI)
  fix s :: "'z tk_view_scheme"
  assume ok: "composer_ok p s"
  let ?t = "after m s"
  let ?new = "drop (length (calls_to view_id (ct_model s))) (calls_to view_id (ct_model ?t))"
  have tr: "tracks s ?t" by (rule runs_at [OF assms(2)])
  then obtain evs where evs: "heard view_id (ct_model ?t) = heard view_id (ct_model s) @ evs"
    "foldl conn_step (connection_state (ct_model s)) evs = connection_state (ct_model ?t)"
    using ok by (auto simp: tracks_def composer_ok_def)
  have "map fst ?new = evs" using evs(1) unfolding heard_def by (metis append_eq_conv_conj drop_map length_map)
  then have "follows p (connection_state (ct_model ?t)) (foldl (render p) (tk_screen ?t) ?new)"
    using follows_renders [of p "connection_state (ct_model s)" "tk_screen s" ?new] evs(2) ok same_view_screen [OF runs_at [OF assms(1), of s]]
    by (simp add: composer_ok_def)
  moreover have "count_list (listeners (ct_model ?t)) view_id = 1" using tr ok by (simp add: tracks_def composer_ok_def)
  ultimately show "composer_ok p (after (watched p m) s)" by (cases "m s") (simp add: watched_def composer_ok_def)
qed

interpretation cp: window_inv "composer_ok p" "\<lambda>_. True" c p for c p
proof unfold_locales
  show "runs_in (keeps (composer_ok p)) (tk_dispatch c p item)" for item
    unfolding tk_dispatch_def
    by (rule watched_composer) (cases item, auto intro: vw.runs_on_frame vw.runs_on_state tr.runs_on_frame tr.runs_on_state)+
qed (auto simp: composer_ok_def intro!: watched_composer vw.runs_gestures vw.runs_ct_send vw.runs_select vw.runs_cn
    tr.runs_gestures tr.runs_ct_send tr.runs_select tr.runs_cn)

lemma tk_steps_keep:
  assumes "window_inv I good c p" and "I s" and "list_all good (tk_inbox s)" and "list_all (\<lambda>st. case st of Posted item \<Rightarrow> good item | _ \<Rightarrow> True) steps"
  shows "I (foldl (tk_do c p casefold) s steps)"
proof -
  have "inbox_ok I good (foldl (tk_do c p casefold) s steps)" if "inbox_ok I good s" using that assms(4)
  proof (induction steps arbitrary: s)
    case (Cons st steps)
    have "runs_in (keeps (inbox_ok I good)) (tk_step_do c p casefold st)"
      using Cons.prems(2) by (intro window_inv.K_step [OF assms(1)]) auto
    then have "inbox_ok I good (tk_do c p casefold s st)" using Cons.prems(1) by (simp add: tk_do_def keepsD)
    then show ?case using Cons by simp
  qed simp
  then show ?thesis using assms(2,3) by (simp add: inbox_ok_def)
qed

text \<open>A window that was just opened on a model nobody has connected yet.\<close>

definition opened :: "toolkit \<Rightarrow> 'z tk_view_scheme \<Rightarrow> 'z tk_view_scheme" where
  "opened p s = after (tk_run p) (new_tk_view s)"

lemma opened_composer:
  assumes "connection_state (ct_model s) = u ''DISCONNECTED''" and "view_id \<notin> set (listeners (ct_model s))"
  shows "composer_ok p (opened p s)"
  using assms by (simp add: opened_def tk_run_def new_tk_view_def composer_ok_def subscribe_def) (simp add: follows_def new_screen_def u_def)

text \<open>The composer is live in exactly one connection state. Whatever frames and states arrive and
  whatever the user clicks and types, the entry and the send button are enabled if and only if the
  model says \<open>ONLINE\<close>, and the strip shows the text that belongs to the model's state (it is still
  empty until the state first changes).\<close>

theorem composer_follows_connection:
  assumes "connection_state (ct_model s) = u ''DISCONNECTED''" and "view_id \<notin> set (listeners (ct_model s))"
  shows "let t = foldl (tk_do c p casefold) (opened p s) steps; st = connection_state (ct_model t) in
    (sc_enabled (tk_screen t) \<longleftrightarrow> st = u ''ONLINE'') \<and>
    (sc_strip (tk_screen t) = strip_text p st \<or> st = u ''DISCONNECTED'' \<and> sc_strip (tk_screen t) = [])"
proof -
  have "list_all (\<lambda>_. True) (tk_inbox (opened p s))" by (simp add: list_all_iff)
  then have "composer_ok p (foldl (tk_do c p casefold) (opened p s) steps)"
    by (rule tk_steps_keep [OF cp.window_inv_axioms opened_composer [OF assms]]) (simp add: list_all_iff split: tk_step.split)
  then show ?thesis by (simp add: composer_ok_def follows_def Let_def)
qed

end
