(* ===== verification/Window.thy ===== *)
theory Window
  imports TkView
begin

section \<open>What the window shows is what the model holds\<close>

text \<open>
  The client's half of \<open>Screen\<close>: every gesture and every frame except a public key leaves the list and
  the transcript of the window as the model has them. A public key is the exception, because text
  that waited for it goes out as if its addressee were on screen.
\<close>

subsection \<open>The controller and the screen\<close>

definition draws_again :: "toolkit \<Rightarrow> 'z client_scheme \<Rightarrow> 'z client_scheme \<Rightarrow> bool" where
  "draws_again p s t \<longleftrightarrow> (count_list (listeners (ct_model s)) view_id = 1 \<and> on_file (ct_model s) \<longrightarrow>
     keeps_drawn view_id p (ct_model s) (ct_model t))"

lemma draws_screen: "runs_in same_screen m \<Longrightarrow> runs_in (draws_again p) m"
  by (rule screen_weaken) (simp_all add: same_screen_def draws_again_def keeps_refl)

lemma leads_count: "leads l p m P m' Q \<Longrightarrow> count_list (listeners m') l = count_list (listeners m) l"
  by (simp add: leads_def)

lemma draws_trans: "draws_again p s t \<Longrightarrow> draws_again p t w \<Longrightarrow> draws_again p s w"
  unfolding draws_again_def by (auto dest: leads_count intro: leads_trans)

interpretation da: world_rel "draws_again p" for p
proof unfold_locales
  show "draws_again p s s" for s by (simp add: draws_again_def keeps_refl)
  show "draws_again p s t \<Longrightarrow> draws_again p t w \<Longrightarrow> draws_again p s w" for s t w by (rule draws_trans)
  show "draws_again p s (s\<lparr>draws := n\<rparr>)" for s n by (simp add: draws_again_def keeps_refl)
qed

lemma draws_select: "runs_in (draws_again p) (ct_select key)"
proof -
  let ?g = "\<lambda>m. select (Some key) (open_conv key m)"
  have two: "andthen (on_model (open_conv key)) (andthen (on_model (select (Some key))) k) = andthen (on_model ?g) k" for k :: "('z client_scheme, unit) py"
    by (rule ext) (simp add: andthen_def bnd_def)
  have "keeps_drawn view_id p m (?g m)" if "count_list (listeners m) view_id = 1" for m
  proof -
    have "leads view_id p m (drawn p m) (open_conv key m) (\<lambda>_. True)" by (rule leads_silent) simp_all
    moreover have "count_list (listeners (open_conv key m)) view_id = 1" using that by simp
    ultimately show ?thesis using select_draws [of "open_conv key m" view_id p "\<lambda>_. True" "Some key"] by (auto intro: leads_trans)
  qed
  then have "runs_in (draws_again p) (on_model ?g)" by (simp add: on_model_def runs_in_modify draws_again_def)
  moreover have "runs_in (draws_again p) (try_receipt a v t)" for a v t
    unfolding try_receipt_def cn_receipt_def by (intro da.runs_rules draws_screen screen_tell)
  ultimately show ?thesis unfolding ct_select_def two by (intro da.runs_rules)
qed

interpretation dr: call_rel "draws_again p" c for p c
proof unfold_locales
  show "runs_in (draws_again p) (on_model (\<lambda>m. model_do m call))" if "evented call" for call
    using keeps_call [OF _ _ that] by (auto simp: on_model_def runs_in_modify draws_again_def)
qed (intro draws_select draws_screen screen_rules)+

subsection \<open>The window\<close>

definition screen_ok :: "toolkit \<Rightarrow> 'z tk_view_scheme \<Rightarrow> bool" where
  "screen_ok p s \<longleftrightarrow> count_list (listeners (ct_model s)) view_id = 1 \<and> on_file (ct_model s) \<and> drawn p (ct_model s) (tk_screen s)"

definition no_key :: "tk_item \<Rightarrow> bool" where
  "no_key item = (case item of Tk_Frame f \<Rightarrow> f_type f \<noteq> KEY | Tk_State st \<Rightarrow> True)"

lemma watched_drawn:
  fixes m :: "('z tk_view_scheme, 'a) py"
  assumes "runs_in same_view m" and "runs_in (draws_again p) m"
  shows "runs_in (keeps (screen_ok p)) (watched p m)"
proof (rule keepsI)
  fix s :: "'z tk_view_scheme"
  assume ok: "screen_ok p s"
  let ?t = "after m s"
  have "draws_again p s ?t" by (rule runs_at [OF assms(2)])
  then have k: "keeps_drawn view_id p (ct_model s) (ct_model ?t)" using ok by (simp add: draws_again_def screen_ok_def)
  then obtain evs where evs: "calls_to view_id (ct_model ?t) = calls_to view_id (ct_model s) @ evs"
    "drawn p (ct_model ?t) (foldl (render p) (tk_screen s) evs)" using ok by (auto simp: leads_def screen_ok_def)
  have "tk_screen ?t = tk_screen s" by (rule same_view_screen [OF runs_at [OF assms(1)]])
  then show "screen_ok p (after (watched p m) s)"
    using evs k ok by (cases "m s") (simp add: watched_def screen_ok_def leads_def)
qed

interpretation sk: window_inv "screen_ok p" no_key c p for c p
proof unfold_locales
  show "runs_in (keeps (screen_ok p)) (tk_dispatch c p item)" if "no_key item" for item
    unfolding tk_dispatch_def
    by (rule watched_drawn) (use that in \<open>cases item, auto simp: no_key_def intro: vw.runs_on_frame vw.runs_on_state dr.runs_most_frames dr.runs_on_state\<close>)+
qed (auto simp: screen_ok_def intro!: watched_drawn vw.runs_gestures vw.runs_ct_send vw.runs_select vw.runs_cn
    dr.runs_gestures dr.runs_ct_send dr.runs_select dr.runs_cn)

lemma opened_drawn:
  assumes "on_file (ct_model s)" and "view_id \<notin> set (listeners (ct_model s))"
  shows "screen_ok p (opened p s)"
proof -
  let ?m = "subscribe view_id (ct_model s)"
  have "on_file ?m" using assms(1) on_file_cong [of ?m "ct_model s"] by (simp add: subscribe_def)
  moreover have "count_list (listeners ?m) view_id = 1" using assms(2) by (simp add: subscribe_def)
  ultimately show ?thesis by (simp add: screen_ok_def opened_def tk_run_def new_tk_view_def) (simp add: drawn_def)
qed

text \<open>C11: What is on screen is what the model holds. In every state the window reaches, through any
  frames that are no public keys, any changes of the connection and anything the user does, the list
  has one row for each conversation of the model in the model's order, with its last message, its time,
  its unread count and its presence; the number above the list is the model's total; and the transcript
  has the messages of the conversation on screen.\<close>

theorem window_shows_the_model:
  assumes "on_file (ct_model s)" and "view_id \<notin> set (listeners (ct_model s))"
    and "list_all (\<lambda>st. case st of Posted item \<Rightarrow> no_key item | _ \<Rightarrow> True) steps"
  shows "let t = foldl (tk_do c p casefold) (opened p s) steps; m = ct_model t in
    sc_rows (tk_screen t) = map (row_of p m) (keys (tk_lower p) m) \<and> sc_unread (tk_screen t) = unread_total m \<and>
    sc_shown (tk_screen t) = (case active m of None \<Rightarrow> [] | Some key \<Rightarrow> cv_messages (conv key m))"
proof -
  have "list_all no_key (tk_inbox (opened p s))" by (simp add: opened_def tk_run_def new_tk_view_def)
  then have "screen_ok p (foldl (tk_do c p casefold) (opened p s) steps)"
    using assms(3) by (rule tk_steps_keep [OF sk.window_inv_axioms opened_drawn [OF assms(1,2)]])
  then show ?thesis by (simp add: screen_ok_def drawn_def rows_def shown_def Let_def)
qed

subsection \<open>The loop does not die\<close>

lemma poll_one_runs: "outcome (poll_one c p item) s = Inr ()"
  by (simp add: poll_one_def on_screen_def rescue_def split: prod.split sum.split)

lemma poll_one_inbox:
  fixes s :: "'z tk_view_scheme"
  shows "tk_inbox (after (poll_one c p item) s) = tl (tk_inbox s)"
proof -
  let ?s = "s\<lparr>tk_inbox := tl (tk_inbox s)\<rparr>"
  have "runs_in same_view (case item of Tk_Frame f \<Rightarrow> on_frame c f | Tk_State st \<Rightarrow> on_state st)"
    by (cases item) (auto intro: vw.runs_on_frame vw.runs_on_state)
  from same_view_inbox [OF runs_at [OF this, of ?s]] show ?thesis
    by (cases "(case item of Tk_Frame f \<Rightarrow> on_frame c f | Tk_State st \<Rightarrow> on_state st) ?s")
       (auto simp: poll_one_def tk_dispatch_def watched_def rescue_def on_screen_def split: sum.split)
qed

lemma polls_run:
  "tk_inbox s = items @ rest \<Longrightarrow> \<exists>t. for_each items (poll_one c p) s = (Inr (), t) \<and> tk_inbox t = rest"
proof (induction items arbitrary: s)
  case (Cons item items)
  obtain t where t: "poll_one c p item s = (Inr (), t)" using poll_one_runs [of c p item s] by (cases "poll_one c p item s") auto
  then have "tk_inbox t = items @ rest" using poll_one_inbox [of c p item s] Cons.prems by simp
  with Cons.IH t show ?case by (simp add: andthen_Inr)
qed simp

text \<open>The window does not die either. Whatever is in the queue, one run of the poll timer takes
  all of it, raises nothing, and sets the timer again.\<close>

theorem poll_takes_everything: "\<exists>t. poll c p s = (Inr (), t) \<and> tk_inbox t = [] \<and> tk_polling t"
proof -
  let ?s = "s\<lparr>tk_polling := False\<rparr>"
  obtain t where "for_each (tk_inbox s) (poll_one c p) ?s = (Inr (), t)" "tk_inbox t = []"
    using polls_run [of ?s "tk_inbox s" "[]" c p] by auto
  then show ?thesis by (simp add: poll_def drain_def andthen_def bnd_def)
qed

subsection \<open>Where the window and the model part\<close>

lemma add_mine: "msg_mine msg \<Longrightarrow> add_message k msg m = emit (MessageAdded k msg) (put_conv k (cv_add msg (Some k = active m) (conv k m)) m)"
  by (simp add: add_message_def Let_def cv_add_def)

definition heads :: "ustr \<Rightarrow> screen \<Rightarrow> bool" where
  "heads key sc \<longleftrightarrow> (\<exists>st sub. sc_header sc = Header key st sub)"

lemma add_draws:
  assumes "count_list (listeners m) l = 1" and "active m = Some k" and "msg_mine msg"
  shows "leads l p m P (add_message k msg m) (\<lambda>sc. drawn p (add_message k msg m) sc \<and> heads k sc)"
proof -
  let ?m1 = "put_conv k (cv_add msg (Some k = active m) (conv k m)) m"
  let ?t = "chat_content.truncate ?m1" and ?ev = "MessageAdded k msg"
  have "on_file ?m1" using assms(2) by (simp add: on_file_def)
  then have r: "redrawn ?t = ?t" using on_file_cong [of ?t ?m1] by (simp add: on_file_redrawn)
  have a: "active ?t = Some k" using looks_parts(5) [of ?t ?m1] assms(2) by simp
  have "drawn p (emit ?ev ?m1) (render p sc (?ev, ?t))" for sc
    using drawn_redraw [of p ?t sc] drawn_cong [of ?t "emit ?ev ?m1" p] r a by simp
  moreover have "heads k (render p sc (?ev, ?t))" for sc
    using a by (simp add: heads_def refresh_list_def redraw_def show_messages_def draw_header_def Let_def)
  ultimately show ?thesis unfolding add_mine [OF assms(3)] by (intro leads_change assms) simp_all
qed

lemma adds_draw:
  assumes "count_list (listeners m) l = 1" and "active m = Some k" and "list_all msg_mine msgs" and "msgs \<noteq> []"
  shows "leads l p m P (foldl (\<lambda>m msg. add_message k msg m) m msgs) (\<lambda>sc. drawn p (foldl (\<lambda>m msg. add_message k msg m) m msgs) sc \<and> heads k sc)"
  using assms
proof (induction msgs arbitrary: m P)
  case (Cons msg msgs)
  let ?m = "add_message k msg m"
  have "leads l p m P ?m (\<lambda>sc. drawn p ?m sc \<and> heads k sc)" using Cons.prems by (intro add_draws) simp_all
  moreover have "count_list (listeners ?m) l = 1" "active ?m = Some k"
    using Cons.prems by (simp_all add: add_message_def Let_def set_typing_fields)
  ultimately show ?case
    using Cons.IH [of ?m "\<lambda>sc. drawn p ?m sc \<and> heads k sc"] Cons.prems(3) by (cases "msgs = []") (auto intro: leads_trans)
qed simp

text \<open>A key can put another conversation on the screen. When the key of somebody arrives for whom
  text waited, while a different conversation is open, the text goes out, the header names the
  addressee and the transcript shows their messages; but the model still has the other conversation on
  screen, and that is where the next text that is typed will go.\<close>

theorem key_shows_another_conversation:
  assumes "count_list (listeners (ct_model s)) view_id = 1" and "active (ct_model s) = Some other"
    and "key_frame f user pk" and "ct_ring s = Some kr" and "ring_ok c kr" and "key_for c (kr_private kr) pk = Inr k"
    and "\<not> room_key user" and "dict_get (ct_held s) user = Some texts" and "texts \<noteq> []" and "list_all (sendable (ct_me s)) texts"
    and "can_queue (length texts) s" and "dict_get (ct_awaiting s) user = None" and "filter room_key (dict_keys (ct_held s)) = []"
  shows "\<exists>t. tk_dispatch c p (Tk_Frame f) s = (Inr (), t) \<and> active (ct_model t) = Some other \<and> heads user (tk_screen t) \<and>
    sc_shown (tk_screen t) = cv_messages (conv user (ct_model t))"
proof -
  let ?m = "(ct_model s)\<lparr>active := Some user\<rparr>"
  obtain t fs where t: "on_frame c f s = (Inr (), t)" "list_all2 (carries c k user (ct_me s)) texts fs"
    "ct_model t = (foldl (\<lambda>m (f, text). add_message user (my_message f (ct_me s) text) m) ?m (zip fs texts))\<lparr>active := active (ct_model s)\<rparr>"
    using key_releases [OF assms(3-13)] by blast
  define msgs where "msgs = map (\<lambda>(f, text). my_message f (ct_me s) text) (zip fs texts)"
  let ?m' = "foldl (\<lambda>m msg. add_message user msg m) ?m msgs"
  have m': "ct_model t = ?m'\<lparr>active := Some other\<rparr>" using t(3) assms(2) by (simp add: msgs_def foldl_map case_prod_unfold)
  have mine: "list_all msg_mine msgs" "msgs \<noteq> []"
    using t(2) assms(9) list_all2_lengthD [OF t(2)] by (auto simp: msgs_def list_all_iff my_message_def)
  have "active ?m' = Some user" by (induction msgs rule: rev_induct) (simp_all add: add_message_def Let_def set_typing_fields)
  then have sh: "shown ?m' = cv_messages (conv user ?m')" by (simp add: shown_def)
  have "leads view_id p ?m (\<lambda>_. True) ?m' (\<lambda>sc. drawn p ?m' sc \<and> heads user sc)"
    using assms(1) mine by (intro adds_draw) simp_all
  then obtain evs where evs: "calls_to view_id ?m' = calls_to view_id ?m @ evs"
    "drawn p ?m' (foldl (render p) (tk_screen t) evs)" "heads user (foldl (render p) (tk_screen t) evs)" by (auto simp: leads_def)
  have same: "calls_to view_id (n\<lparr>active := a\<rparr>) = calls_to view_id n" for n a by (simp add: calls_to_def)
  have "tk_dispatch c p (Tk_Frame f) s = (Inr (), t\<lparr>tk_screen := foldl (render p) (tk_screen t) evs\<rparr>)"
    using t(1) evs(1) by (simp add: tk_dispatch_def watched_def m' same)
  then show ?thesis using evs(2,3) sh by (simp add: m' drawn_def)
qed

text \<open>The header does not follow the room. When the members of the room on screen change, the
  list is drawn again but the header is not: it keeps the number of members it was drawn with.\<close>

theorem member_count_goes_stale:
  assumes "count_list (listeners m) l = 1" and "active m = Some room" and "startswith room (u ''#'')" and "typing_in room m = []"
    and "length ms \<noteq> length (room_members room m)" and "sc_header sc = sc_header (draw_header m sc)"
  shows "let m' = set_room_members room ms m; sc' = foldl (render p) sc (drop (length (calls_to l m)) (calls_to l m')) in
    length (room_members room m') = length ms \<and> sc_header sc' = Header room None (nat_str (length (room_members room m)) @ u '' members'')"
proof -
  let ?m1 = "open_conv room (m\<lparr>cm_rooms := dict_set (cm_rooms m) room (sort ms)\<rparr>)" and ?ev = "RoomMembersChanged room (sort ms)"
  have "dict_get (cm_rooms m) room \<noteq> Some (sort ms)" using assms(5) by (auto simp: room_members_def)
  then have m': "set_room_members room ms m = emit ?ev ?m1" by (simp add: set_room_members_def Let_def)
  have "calls_to l (emit ?ev ?m1) = calls_to l ?m1 @ [(?ev, chat_content.truncate ?m1)]" by (rule calls_to_emit) (simp add: assms(1))
  moreover have "calls_to l ?m1 = calls_to l m" by (simp add: calls_to_def)
  ultimately have "drop (length (calls_to l m)) (calls_to l (emit ?ev ?m1)) = [(?ev, chat_content.truncate ?m1)]" by simp
  moreover have "room_members room (emit ?ev ?m1) = sort ms" by (simp add: room_members_def)
  ultimately show ?thesis
    using assms(2,3,4,6) by (simp add: m' Let_def refresh_list_def) (simp add: draw_header_def subtitle_def)
qed

end
