(* ===== verification/Composer.thy ===== *)
theory Composer
  imports Window
begin

section \<open>Typing and sending from the window\<close>

text \<open>
  What the keys pressed in the composer put on the wire, on every path: while the connection is up,
  when another conversation is opened meanwhile, when the connection is down, and when the key of the
  addressee is missing.
\<close>

subsection \<open>Calls that do not touch the model\<close>

lemma watched_quiet:
  fixes s :: "'z tk_view_scheme"
  assumes "m s = (r, t)" and "ct_model t = ct_model s"
  shows "watched p m s = (r, t)"
  using assms by (simp add: watched_def)

lemma queued_tk [simp]:
  "tk_inbox (queued f s) = tk_inbox s" "tk_entry (queued f s) = tk_entry s" "tk_timer (queued f s) = tk_timer s"
  "tk_after (queued f s) = tk_after s" "tk_next (queued f s) = tk_next s" "tk_announced (queued f s) = tk_announced s"
  "tk_boxes (queued f s) = tk_boxes s" "tk_screen (queued f s) = tk_screen s" "tk_popups (queued f s) = tk_popups s"
  by (simp_all add: queued_def)

lemma can_queue_tk [simp]:
  "can_queue n (s\<lparr>tk_entry := a\<rparr>) = can_queue n s" "can_queue n (s\<lparr>tk_timer := h\<rparr>) = can_queue n s" "can_queue n (s\<lparr>tk_announced := b\<rparr>) = can_queue n s"
  "can_queue n (s\<lparr>tk_after := hs\<rparr>) = can_queue n s" "can_queue n (s\<lparr>tk_next := i\<rparr>) = can_queue n s"
  "can_queue n (s\<lparr>tk_screen := sc\<rparr>) = can_queue n s"
  by (simp_all add: can_queue_def session_can_send_def link_can_send_def)

definition typing_frame :: "ustr \<Rightarrow> bool \<Rightarrow> frame \<Rightarrow> bool" where
  "typing_frame key on f \<longleftrightarrow> f_type f = TYPING \<and> f_to f = PStr key \<and> f_data f = [(u ''on'', PBool on)]"

lemma typing_run:
  fixes s :: "'z tk_view_scheme"
  assumes "active (ct_model s) = Some key" and "can_queue (Suc n) s"
  shows "\<exists>f. watched p (ct_typing on) s = (Inr (), queued f s) \<and> typing_frame key on f"
proof -
  let ?f = "next_frame TYPING (PStr key) PNone PNone [(u ''on'', PBool on)] s"
  have "ct_typing on s = (Inr (), queued ?f s)" using assms tell_run [OF assms(2)] by (simp add: ct_typing_def cn_typing_def)
  then have "watched p (ct_typing on) s = (Inr (), queued ?f s)" by (rule watched_quiet) simp
  then show ?thesis by (intro exI [of _ ?f]) (simp add: typing_frame_def next_frame_def)
qed

subsection \<open>The timer\<close>

text \<open>A timer is pending if and only if its handle is in hand, and never more than one.\<close>

definition timer_ok :: "'z tk_view_scheme \<Rightarrow> bool" where
  "timer_ok s \<longleftrightarrow> tk_after s = (case tk_timer s of None \<Rightarrow> [] | Some h \<Rightarrow> [h])"

definition rearmed :: "'z tk_view_scheme \<Rightarrow> 'z tk_view_scheme" where
  "rearmed s = set_timer (cancel_timer s)"

definition disarmed :: "'z tk_view_scheme \<Rightarrow> 'z tk_view_scheme" where
  "disarmed s = (cancel_timer s)\<lparr>tk_timer := None\<rparr>"

lemma rearmed_fields [simp]:
  "lk_outbox (rearmed s) = lk_outbox s" "tk_announced (rearmed s) = tk_announced s" "ct_model (rearmed s) = ct_model s"
  "tk_screen (rearmed s) = tk_screen s" "tk_boxes (rearmed s) = tk_boxes s" "tk_entry (rearmed s) = tk_entry s"
  "can_queue n (rearmed s) = can_queue n s" "session_can_send (rearmed s) = session_can_send s"
  "timer_ok s \<Longrightarrow> timer_ok (rearmed s)" "tk_after (rearmed s) \<noteq> []"
  by (simp_all add: rearmed_def set_timer_def cancel_timer_def timer_ok_def can_queue_def session_can_send_def link_can_send_def split: option.split)

lemma disarmed_fields [simp]:
  "lk_outbox (disarmed s) = lk_outbox s" "tk_announced (disarmed s) = tk_announced s" "ct_model (disarmed s) = ct_model s"
  "tk_screen (disarmed s) = tk_screen s" "tk_boxes (disarmed s) = tk_boxes s" "tk_entry (disarmed s) = tk_entry s"
  "ct_ring (disarmed s) = ct_ring s" "ct_held (disarmed s) = ct_held s"
  "can_queue n (disarmed s) = can_queue n s" "session_can_send (disarmed s) = session_can_send s" "tk_timer (disarmed s) = None"
  "timer_ok s \<Longrightarrow> tk_after (disarmed s) = []"
  by (simp_all add: disarmed_def cancel_timer_def timer_ok_def can_queue_def session_can_send_def link_can_send_def split: option.split)

interpretation tm: run_rel "keeps timer_ok"
  by unfold_locales (auto simp: keeps_def)

lemma timer_own: "(\<And>s. tk_timer (g s) = tk_timer s \<and> tk_after (g s) = tk_after s) \<Longrightarrow> runs_in (keeps timer_ok) (modify g)"
  by (simp add: runs_in_modify keeps_def timer_ok_def)

lemma timer_view: "same_view s t \<Longrightarrow> timer_ok t = timer_ok s" for s t :: "'z tk_view_scheme"
  by (cases s; cases t) (simp add: same_view_def timer_ok_def)

lemma timer_watched:
  fixes m :: "('z tk_view_scheme, 'a) py"
  assumes "runs_in same_view m"
  shows "runs_in (keeps timer_ok) (watched p m)"
proof (rule keepsI)
  fix s :: "'z tk_view_scheme" assume "timer_ok s"
  then have "timer_ok (after m s)" using timer_view [OF runs_at [OF assms]] by blast
  then show "timer_ok (after (watched p m) s)" by (cases "m s") (simp add: watched_def timer_ok_def)
qed

lemma timer_callback: "runs_in (keeps timer_ok) m \<Longrightarrow> runs_in (keeps timer_ok) (callback m)"
  unfolding callback_def show_box_def by (intro tm.runs_rules timer_own) simp_all

lemma timer_moves:
  "runs_in (keeps timer_ok) (stop_typing p :: ('z tk_view_scheme, unit) py)" "runs_in (keeps timer_ok) (on_key p :: ('z tk_view_scheme, unit) py)"
proof -
  have d: "timer_ok (disarmed s)" if "timer_ok s" for s :: "'z tk_view_scheme" using that by (simp add: timer_ok_def)
  have s: "runs_in (keeps timer_ok) (modify (\<lambda>s :: 'z tk_view_scheme. (cancel_timer s)\<lparr>tk_timer := None\<rparr>))"
    using d by (simp add: runs_in_modify keeps_def disarmed_def)
  have r: "timer_ok (rearmed s)" if "timer_ok s" for s :: "'z tk_view_scheme" using that by (rule rearmed_fields(9))
  have k: "runs_in (keeps timer_ok) (modify (\<lambda>s :: 'z tk_view_scheme. set_timer (cancel_timer s)))"
    using r by (simp add: runs_in_modify keeps_def rearmed_def)
  show "runs_in (keeps timer_ok) (stop_typing p :: ('z tk_view_scheme, unit) py)" "runs_in (keeps timer_ok) (on_key p :: ('z tk_view_scheme, unit) py)"
    unfolding stop_typing_def on_key_def by (intro tm.runs_rules s k timer_own timer_watched vw.runs_gestures; simp)+
qed

subsection \<open>Keys\<close>

text \<open>What a key and the timer do, as functions of the state, while frames can be sent.\<close>

definition entered :: "ustr \<Rightarrow> 'z tk_view_scheme \<Rightarrow> 'z tk_view_scheme" where
  "entered t s = (if sc_enabled (tk_screen s) then s\<lparr>tk_entry := t\<rparr> else s)"

lemma entered_fields [simp]:
  "lk_outbox (entered t s) = lk_outbox s" "tk_timer (entered t s) = tk_timer s" "tk_after (entered t s) = tk_after s" "tk_announced (entered t s) = tk_announced s"
  "ct_model (entered t s) = ct_model s" "tk_screen (entered t s) = tk_screen s" "can_queue n (entered t s) = can_queue n s"
  "tk_boxes (entered t s) = tk_boxes s" "session_can_send (entered t s) = session_can_send s" "timer_ok (entered t s) = timer_ok s"
  by (simp_all add: entered_def session_can_send_def link_can_send_def timer_ok_def)

lemma timer_ok_fields [simp]:
  "timer_ok (queued f s) = timer_ok s" "timer_ok (s\<lparr>tk_announced := b\<rparr>) = timer_ok s" "timer_ok (s\<lparr>ct_model := m, tk_screen := sc\<rparr>) = timer_ok s"
  by (simp_all add: timer_ok_def)

lemma first_key:
  assumes "active (ct_model s) = Some key" and "\<not> tk_announced s" and "can_queue (Suc n) s"
  shows "\<exists>f. tk_do c p cf s (Key_Pressed t) = entered t (rearmed (queued f (s\<lparr>tk_announced := True\<rparr>))) \<and> typing_frame key True f"
proof -
  let ?s = "s\<lparr>tk_announced := True\<rparr>"
  have "active (ct_model ?s) = Some key" "can_queue (Suc n) ?s" using assms by simp_all
  from typing_run [OF this, of p True] obtain f where f: "watched p (ct_typing True) ?s = (Inr (), queued f ?s)" "typing_frame key True f" by blast
  have "on_key p s = (Inr (), rearmed (queued f ?s))" using assms(1,2) f(1) by (simp add: on_key_def andthen_def bnd_def rearmed_def)
  then show ?thesis
    using f(2) by (intro exI [of _ f]) (simp add: tk_do_def tk_step_do_def callback_def rescue_Inr andthen_Inr set_entry_def entered_def)
qed

lemma later_key:
  assumes "active (ct_model s) = Some key" and "tk_announced s"
  shows "tk_do c p cf s (Key_Pressed t) = entered t (rearmed s)"
proof -
  have "on_key p s = (Inr (), rearmed s)" using assms by (simp add: on_key_def andthen_def bnd_def rearmed_def)
  then show ?thesis by (simp add: tk_do_def tk_step_do_def callback_def rescue_Inr andthen_Inr set_entry_def entered_def)
qed

lemma later_keys:
  assumes "active (ct_model s) = Some key" and "tk_announced s" and "timer_ok s" and "tk_after s \<noteq> []"
  shows "let t = foldl (tk_do c p cf) s (map Key_Pressed ts) in
    ct_model t = ct_model s \<and> lk_outbox t = lk_outbox s \<and> tk_announced t \<and> timer_ok t \<and> tk_after t \<noteq> [] \<and>
    can_queue n t = can_queue n s \<and> tk_boxes t = tk_boxes s"
  using assms
proof (induction ts arbitrary: s)
  case (Cons t ts)
  let ?s = "entered t (rearmed s)"
  have "tk_do c p cf s (Key_Pressed t) = ?s" using later_key Cons.prems(1,2) by blast
  then show ?case using Cons.IH [of ?s] Cons.prems by (simp add: Let_def)
qed simp

text \<open>The state after the only timer ran out, without the frame.\<close>

lemma idle_run:
  assumes "active (ct_model s) = Some key" and "tk_announced s" and "timer_ok s" and "tk_after s \<noteq> []" and "can_queue (Suc n) s"
  shows "\<exists>f. tk_do c p cf s Idle_Timer = queued f (s\<lparr>tk_after := [], tk_timer := None, tk_announced := False\<rparr>) \<and> typing_frame key False f"
proof -
  let ?s = "s\<lparr>tk_after := [], tk_timer := None, tk_announced := False\<rparr>"
  obtain h where h: "tk_timer s = Some h" "tk_after s = [h]" using assms(3,4) by (auto simp: timer_ok_def split: option.splits)
  have "active (ct_model ?s) = Some key" "can_queue (Suc n) ?s" using assms by simp_all
  from typing_run [OF this, of p False] obtain f where f: "watched p (ct_typing False) ?s = (Inr (), queued f ?s)" "typing_frame key False f" by blast
  have "stop_typing p (s\<lparr>tk_after := []\<rparr>) = (Inr (), queued f ?s)"
    using assms(2) f(1) h by (simp add: stop_typing_def cancel_timer_def)
  then show ?thesis using f(2) h by (intro exI [of _ f]) (simp add: tk_do_def tk_step_do_def callback_def rescue_Inr andthen_def bnd_def)
qed

lemma timer_idle: "runs_in (keeps timer_ok) (tk_step_do c p cf Idle_Timer :: ('z tk_view_scheme, unit) py)"
proof (rule keepsI)
  fix s :: "'z tk_view_scheme" assume ok: "timer_ok s"
  show "timer_ok (after (tk_step_do c p cf Idle_Timer) s)"
  proof (cases "tk_timer s")
    case None
    then show ?thesis using ok by (simp add: timer_ok_def tk_step_do_def)
  next
    case (Some h)
    have t: "timer_ok (s\<lparr>tk_after := [], tk_timer := None\<rparr>)" by (simp add: timer_ok_def)
    have "callback (stop_typing p) (s\<lparr>tk_after := []\<rparr>) = callback (stop_typing p) (s\<lparr>tk_after := [], tk_timer := None\<rparr>)"
      using Some by (simp add: callback_def rescue_def stop_typing_def cancel_timer_def)
    moreover have "after (tk_step_do c p cf Idle_Timer) s = after (callback (stop_typing p)) (s\<lparr>tk_after := []\<rparr>)"
      using Some ok by (simp add: timer_ok_def tk_step_do_def)
    ultimately show ?thesis using keepsD [OF timer_callback [OF timer_moves(1)] t] by metis
  qed
qed

lemma timer_screen: "runs_in same_screen m \<Longrightarrow> runs_in (keeps timer_ok) m" for m :: "('z tk_view_scheme, 'a) py"
proof (rule keepsI)
  fix s :: "'z tk_view_scheme" assume m: "runs_in same_screen m" and ok: "timer_ok s"
  have "same_screen s (after m s)" by (rule runs_at [OF m])
  then have "same_view s (after m s)" by (simp add: same_screen_def same_view_def)
  then show "timer_ok (after m s)" using timer_view ok by blast
qed

lemma timer_parts:
  "runs_in (keeps timer_ok) (set_entry t)" "runs_in (keeps timer_ok) (on_screen g)" "runs_in (keeps timer_ok) (show_box x)"
  "runs_in (keeps timer_ok) (open_popup w)" "runs_in (keeps timer_ok) (close_popup i)" "runs_in (keeps timer_ok) (modify (tk_post item))"
  unfolding set_entry_def on_screen_def show_box_def open_popup_def close_popup_def by (intro timer_own, simp add: tk_post_def)+

lemmas timer_rules = tm.runs_rules timer_parts timer_moves timer_watched vw.runs_gestures vw.runs_ct_send vw.runs_select vw.runs_cn

lemma timer_on_send: "runs_in (keeps timer_ok) (on_send c p)"
  unfolding on_send_def by (intro timer_rules)

lemma timer_poll: "runs_in (keeps timer_ok) (poll c p)"
proof -
  have "runs_in (keeps timer_ok) (poll_one c p item)" for item
  proof -
    have "runs_in same_view (case item of Tk_Frame f \<Rightarrow> on_frame c f | Tk_State st \<Rightarrow> on_state st)"
      by (cases item) (auto intro: vw.runs_on_frame vw.runs_on_state)
    then show ?thesis unfolding poll_one_def tk_dispatch_def by (intro timer_rules timer_own) simp_all
  qed
  then show ?thesis unfolding poll_def drain_def by (intro timer_rules timer_own) simp_all
qed

lemma timer_menus:
  "runs_in (keeps timer_ok) (click_send c p)" "runs_in (keeps timer_ok) (new_message p who)" "runs_in (keeps timer_ok) (room_menu p acts)"
  "runs_in (keeps timer_ok) (invite_menu p acts)" "runs_in (keeps timer_ok) (search_box cf q)" "runs_in (keeps timer_ok) (show_contacts p)"
  "runs_in (keeps timer_ok) (pick_line p i n)" "runs_in (keeps timer_ok) (add_in_contacts p i name)" "runs_in (keeps timer_ok) show_settings"
  unfolding click_send_def new_message_def room_menu_def invite_menu_def search_box_def show_contacts_def Let_def pick_line_def
    add_in_contacts_def show_settings_def
  by (auto intro!: timer_rules timer_on_send split: option.split)

lemma timer_step: "runs_in (keeps timer_ok) (tk_step_do c p cf st :: ('z tk_view_scheme, unit) py)"
proof (cases st)
  case Idle_Timer
  then show ?thesis by (simp only: timer_idle)
next
  case (Watch r stopped dialled ios1 ios2)
  show ?thesis unfolding Watch tk_step_do_def tk_step.case by (intro tm.runs_rules timer_screen screen_watch)
qed (auto simp: tk_step_do_def intro!: timer_callback timer_menus timer_rules timer_poll timer_on_send timer_screen [OF owner_screen [OF meanwhile_owner]])

lemma timer_steps: "timer_ok s \<Longrightarrow> timer_ok (tk_do c p cf s st)"
  unfolding tk_do_def by (rule keepsD [OF timer_step])

text \<open>C37: Typing is announced once and ended once. However many keys are pressed in a conversation
  before they go quiet, there is one timer pending, not one per key; the other end is told exactly once
  that the user is typing and, when the timer runs out, exactly once that they stopped; and afterwards no
  timer is pending and the window is ready to announce again. That a timer is pending exactly when
  its handle is in hand, and never two, is kept by everything that can happen to the window.\<close>

theorem typing_announced_once:
  assumes "timer_ok s"
  shows "timer_ok (tk_do c p cf s st) \<and>
    (active (ct_model s) = Some key \<and> \<not> tk_announced s \<and> can_queue 2 s \<and> ts \<noteq> [] \<longrightarrow>
     (let mid = foldl (tk_do c p cf) s (map Key_Pressed ts); t = foldl (tk_do c p cf) s (map Key_Pressed ts @ [Idle_Timer]) in
      length (tk_after mid) = 1 \<and>
      (\<exists>f g. lk_outbox mid = lk_outbox s @ [Link_Item f] \<and> lk_outbox t = lk_outbox s @ [Link_Item f, Link_Item g] \<and>
         typing_frame key True f \<and> typing_frame key False g \<and>
         \<not> tk_announced t \<and> tk_timer t = None \<and> tk_after t = [] \<and> tk_boxes t = tk_boxes s)))"
proof (intro conjI impI)
  show "timer_ok (tk_do c p cf s st)" using assms by (rule timer_steps)
next
  assume a: "active (ct_model s) = Some key \<and> \<not> tk_announced s \<and> can_queue 2 s \<and> ts \<noteq> []"
  obtain y ys where ts: "ts = y # ys" using a by (cases ts) auto
  obtain f where f: "tk_do c p cf s (Key_Pressed y) = entered y (rearmed (queued f (s\<lparr>tk_announced := True\<rparr>)))" "typing_frame key True f"
    using first_key [of s key "Suc 0" c p cf y] a by (auto simp: numeral_2_eq_2)
  let ?s1 = "tk_do c p cf s (Key_Pressed y)"
  let ?s2 = "foldl (tk_do c p cf) ?s1 (map Key_Pressed ys)"
  have q: "can_queue (Suc 0) ?s1" using can_queue_queued [of "Suc 0" "s\<lparr>tk_announced := True\<rparr>" f] a unfolding f(1) by (simp add: numeral_2_eq_2)
  have s1: "active (ct_model ?s1) = Some key" "tk_announced ?s1" "timer_ok ?s1" "tk_after ?s1 \<noteq> []"
    "lk_outbox ?s1 = lk_outbox s @ [Link_Item f]" "tk_boxes ?s1 = tk_boxes s"
    unfolding f(1) using a assms by simp_all
  from later_keys [OF s1(1-4), of c p cf ys "Suc 0"]
  have s2: "active (ct_model ?s2) = Some key" "tk_announced ?s2" "timer_ok ?s2" "tk_after ?s2 \<noteq> []" "can_queue (Suc 0) ?s2"
    "lk_outbox ?s2 = lk_outbox s @ [Link_Item f]" "tk_boxes ?s2 = tk_boxes s" using q s1 by (simp_all add: Let_def)
  have one: "length (tk_after ?s2) = 1" using s2(3,4) by (auto simp: timer_ok_def split: option.splits)
  obtain g where "tk_do c p cf ?s2 Idle_Timer = queued g (?s2\<lparr>tk_after := [], tk_timer := None, tk_announced := False\<rparr>)" "typing_frame key False g"
    using idle_run [OF s2(1-5)] by blast
  then show "let mid = foldl (tk_do c p cf) s (map Key_Pressed ts); t = foldl (tk_do c p cf) s (map Key_Pressed ts @ [Idle_Timer]) in
      length (tk_after mid) = 1 \<and>
      (\<exists>f g. lk_outbox mid = lk_outbox s @ [Link_Item f] \<and> lk_outbox t = lk_outbox s @ [Link_Item f, Link_Item g] \<and>
         typing_frame key True f \<and> typing_frame key False g \<and>
         \<not> tk_announced t \<and> tk_timer t = None \<and> tk_after t = [] \<and> tk_boxes t = tk_boxes s)"
    using s2 f(2) one by (auto simp: ts Let_def)
qed

subsection \<open>Opening another conversation while typing\<close>

lemma select_run:
  assumes "cv_unread (conv key (ct_model s)) = 0"
  shows "ct_select key s = (Inr (), s\<lparr>ct_model := select (Some key) (open_conv key (ct_model s))\<rparr>)"
  using assms by (simp add: ct_select_def unread_of_def bnd_def andthen_def)

lemma row_clicked:
  fixes s :: "'z tk_view_scheme"
  assumes "cv_unread (conv key (ct_model s)) = 0"
  shows "\<exists>sc. tk_do c p cf s (Row_Clicked key) = s\<lparr>ct_model := select (Some key) (open_conv key (ct_model s)), tk_screen := sc\<rparr>"
  using select_run [OF assms] by (simp add: tk_do_def tk_step_do_def callback_def rescue_def watched_def) blast

lemma active_select [simp]: "active (select key m) = key"
  by (simp add: select_def Let_def split: option.split prod.split)

text \<open>Opening another conversation while typing leaves the first one typing for ever. The timer
  tells whoever is on screen when it runs out that the user stopped, which is no longer the
  conversation that was told that the user is typing.\<close>

theorem typing_ends_in_the_wrong_place:
  assumes "active (ct_model s) = Some key" and "\<not> tk_announced s" and "can_queue 2 s" and "cv_unread (conv other (ct_model s)) = 0"
    and "timer_ok s"
  shows "let t = foldl (tk_do c p cf) s [Key_Pressed x, Row_Clicked other, Idle_Timer] in
    \<exists>f g. lk_outbox t = lk_outbox s @ [Link_Item f, Link_Item g] \<and> typing_frame key True f \<and> typing_frame other False g \<and> \<not> tk_announced t"
proof -
  obtain f where f: "tk_do c p cf s (Key_Pressed x) = entered x (rearmed (queued f (s\<lparr>tk_announced := True\<rparr>)))" "typing_frame key True f"
    using first_key [OF assms(1,2) assms(3) [unfolded numeral_2_eq_2], of c p cf x] by blast
  let ?s1 = "tk_do c p cf s (Key_Pressed x)"
  have q1: "can_queue (Suc 0) ?s1" using can_queue_queued [of "Suc 0" "s\<lparr>tk_announced := True\<rparr>" f] assms(3) unfolding f(1) by (simp add: numeral_2_eq_2)
  have "cv_unread (conv other (ct_model ?s1)) = 0" unfolding f(1) using assms(4) by simp
  from row_clicked [OF this] obtain sc where sc: "tk_do c p cf ?s1 (Row_Clicked other) =
      ?s1\<lparr>ct_model := select (Some other) (open_conv other (ct_model ?s1)), tk_screen := sc\<rparr>" by blast
  let ?s2 = "tk_do c p cf ?s1 (Row_Clicked other)"
  have s2: "active (ct_model ?s2) = Some other" "tk_announced ?s2" "timer_ok ?s2" "tk_after ?s2 \<noteq> []" "can_queue (Suc 0) ?s2"
    "lk_outbox ?s2 = lk_outbox s @ [Link_Item f]"
    unfolding sc using q1 assms(5) by (simp_all add: f(1))
  obtain g where "tk_do c p cf ?s2 Idle_Timer = queued g (?s2\<lparr>tk_after := [], tk_timer := None, tk_announced := False\<rparr>)" "typing_frame other False g"
    using idle_run [OF s2(1-5)] by blast
  then show ?thesis using s2 f(2) by (auto simp: Let_def)
qed

subsection \<open>Typing while the connection is down\<close>

lemma typing_offline:
  fixes s :: "'z tk_view_scheme"
  assumes "active (ct_model s) = Some key" and "\<not> session_can_send s"
  shows "watched p (ct_typing on) s = (Inl Not_Connected, s)"
proof (rule watched_quiet)
  show "ct_typing on s = (Inl Not_Connected, s)"
    using assms by (simp add: ct_typing_def cn_typing_def cn_tell_def live_frame_def andthen_def bnd_def)
qed simp

text \<open>Keys pressed while the connection is down come to nothing but error boxes. The first key
  and the timer after the next one each end in one that says \<open>NotConnected\<close>; nothing is sent, and the
  text of the composer, which is disabled, does not change.\<close>

theorem typing_offline_complains:
  assumes "active (ct_model s) = Some key" and "\<not> tk_announced s" and "\<not> session_can_send s" and "\<not> sc_enabled (tk_screen s)"
    and "timer_ok s"
  shows "let t = foldl (tk_do c p cf) s [Key_Pressed x, Key_Pressed y, Idle_Timer] in
    tk_boxes t = tk_boxes s @ [Oops Not_Connected, Oops Not_Connected] \<and> lk_outbox t = lk_outbox s \<and> tk_entry t = tk_entry s \<and> \<not> tk_announced t"
proof -
  let ?box = "\<lambda>s. s\<lparr>tk_boxes := tk_boxes s @ [Oops Not_Connected]\<rparr>"
  let ?s1 = "?box (s\<lparr>tk_announced := True\<rparr>)" 
  let ?s2 = "rearmed ?s1"
  have a: "watched p (ct_typing True) (s\<lparr>tk_announced := True\<rparr>) = (Inl Not_Connected, s\<lparr>tk_announced := True\<rparr>)"
    by (rule typing_offline) (use assms in \<open>simp_all add: session_can_send_def link_can_send_def\<close>)
  have "on_key p s = (Inl Not_Connected, s\<lparr>tk_announced := True\<rparr>)" using assms(1,2) a by (simp add: on_key_def andthen_def bnd_def)
  then have 1: "tk_do c p cf s (Key_Pressed x) = ?s1"
    using assms(4) by (simp add: tk_do_def tk_step_do_def callback_def rescue_Inl show_box_def set_entry_def andthen_def bnd_def)
  have 2: "tk_do c p cf ?s1 (Key_Pressed y) = ?s2" using later_key [of ?s1 key c p cf y] assms(1,4) by (simp add: entered_def)
  have "timer_ok ?s1" using assms(5) by (simp add: timer_ok_def)
  then have "timer_ok ?s2" "tk_after ?s2 \<noteq> []" by simp_all
  then obtain h where h: "tk_timer ?s2 = Some h" "tk_after ?s2 = [h]" by (auto simp: timer_ok_def split: option.splits)
  let ?s3 = "?s2\<lparr>tk_after := [], tk_timer := None, tk_announced := False\<rparr>"
  have b: "watched p (ct_typing False) ?s3 = (Inl Not_Connected, ?s3)"
  proof (rule typing_offline)
    show "\<not> session_can_send ?s3" using assms(3) rearmed_fields(8) [of ?s1] by (simp add: session_can_send_def link_can_send_def)
  qed (use assms(1) in simp)
  have "stop_typing p (?s2\<lparr>tk_after := []\<rparr>) = (Inl Not_Connected, ?s3)" using b h by (simp add: stop_typing_def cancel_timer_def)
  then have 3: "tk_do c p cf ?s2 Idle_Timer = ?box ?s3" using h by (simp add: tk_do_def tk_step_do_def callback_def rescue_Inl show_box_def andthen_def bnd_def)
  show ?thesis unfolding foldl.simps Let_def 1 2 3 by simp
qed

subsection \<open>Return\<close>

text \<open>\<open>_on_send\<close> up to the call of the controller.\<close>

definition cleared :: "'z tk_view_scheme \<Rightarrow> 'z tk_view_scheme" where
  "cleared s = disarmed (if sc_enabled (tk_screen s) then s\<lparr>tk_entry := []\<rparr> else s)"

definition send_typed :: "crypto \<Rightarrow> toolkit \<Rightarrow> ustr \<Rightarrow> ('z tk_view_scheme, unit) py" where
  "send_typed c p typed = bnd (watched p (ct_send c typed)) (\<lambda>r. if r = None then on_screen (notice not_sent) else ret ())"

lemma cleared_fields [simp]:
  "ct_model (cleared s) = ct_model s" "ct_ring (cleared s) = ct_ring s" "ct_held (cleared s) = ct_held s" "lk_outbox (cleared s) = lk_outbox s"
  "tk_screen (cleared s) = tk_screen s" "tk_boxes (cleared s) = tk_boxes s" "can_queue n (cleared s) = can_queue n s" "ct_me (cleared s) = ct_me s"
  "talks_to c k user me (cleared s) = talks_to c k user me s" "tk_announced (cleared s) = tk_announced s" "tk_timer (cleared s) = None"
  by (simp_all add: cleared_def ct_me_def talks_to_def)

lemma cleared_after: "timer_ok s \<Longrightarrow> tk_after (cleared s) = []"
  by (simp add: cleared_def timer_ok_def)

lemma cancel_announced [simp]: "tk_announced (cancel_timer s) = tk_announced s"
  by (simp add: cancel_timer_def split: option.split)

lemma return_until_stop:
  "strip (tk_entry s) \<noteq> [] \<Longrightarrow> on_send c p s = andthen (if tk_announced s
      then andthen (modify (\<lambda>s. s\<lparr>tk_announced := False\<rparr>)) (watched p (ct_typing False)) else ret ()) (send_typed c p (strip (tk_entry s))) (cleared s)"
  by (simp add: on_send_def stop_typing_def set_entry_def cleared_def disarmed_def send_typed_def andthen_def bnd_def)

lemma return_run:
  assumes "strip (tk_entry s) \<noteq> []" and "\<not> tk_announced s"
  shows "on_send c p s = send_typed c p (strip (tk_entry s)) (cleared s)"
  using return_until_stop [OF assms(1), of c p] assms(2) by (simp add: andthen_def bnd_def)

text \<open>When typing was announced, the end of it is sent first.\<close>

definition quieted :: "frame \<Rightarrow> 'z tk_view_scheme \<Rightarrow> 'z tk_view_scheme" where
  "quieted g s = queued g ((cleared s)\<lparr>tk_announced := False\<rparr>)"

lemma return_quiets:
  assumes "strip (tk_entry s) \<noteq> []" and "tk_announced s" and "active (ct_model s) = Some user" and "can_queue (Suc n) s"
  shows "\<exists>g. on_send c p s = send_typed c p (strip (tk_entry s)) (quieted g s) \<and> typing_frame user False g"
proof -
  let ?s = "(cleared s)\<lparr>tk_announced := False\<rparr>"
  have "active (ct_model ?s) = Some user" "can_queue (Suc n) ?s" using assms(3,4) by simp_all
  from typing_run [OF this] obtain g where "watched p (ct_typing False) ?s = (Inr (), queued g ?s)" "typing_frame user False g" by blast
  then show ?thesis using return_until_stop [OF assms(1), of c p] assms(2) by (auto simp: quieted_def andthen_def bnd_def)
qed

lemma cleared_entry: "sc_enabled (tk_screen s) \<Longrightarrow> tk_entry (cleared s) = []"
  by (simp add: cleared_def)

lemma same_view_own: "same_view s t \<Longrightarrow> tk_entry t = tk_entry s" "same_view s t \<Longrightarrow> tk_boxes t = tk_boxes s"
  "same_view s t \<Longrightarrow> tk_announced t = tk_announced s" "same_view s t \<Longrightarrow> tk_timer t = tk_timer s" "same_view s t \<Longrightarrow> tk_after t = tk_after s"
  for s t :: "'z tk_view_scheme"
  by (cases s; cases t; simp add: same_view_def)+

lemma shown_add: "active m = Some k \<Longrightarrow> shown (add_message k msg m) = shown m @ [msg]"
  by (simp add: shown_def add_message_def Let_def set_typing_fields cv_add_def)

lemma typed_goes_out:
  fixes s :: "'z tk_view_scheme"
  assumes "screen_ok p s" and "talks_to c k user me s" and "sendable me txt" and "can_queue (Suc n) s"
  shows "\<exists>t f. send_typed c p txt s = (Inr (), t) \<and> carries c k user me txt f \<and> lk_outbox t = lk_outbox s @ [Link_Item f] \<and>
    sc_shown (tk_screen t) = sc_shown (tk_screen s) @ [my_message f me txt] \<and> tk_entry t = tk_entry s \<and> tk_boxes t = tk_boxes s \<and>
    tk_announced t = tk_announced s \<and> tk_timer t = tk_timer s \<and> tk_after t = tk_after s"
proof -
  obtain t f where t: "ct_send c txt s = (Inr (Some (my_message f me txt)), t)" "carries c k user me txt f"
    "lk_outbox t = lk_outbox s @ [Link_Item f]" "ct_model t = add_message user (my_message f me txt) (ct_model s)"
    using send_runs [OF assms(2-4)] by auto
  have v: "same_view s t" using runs_at [OF vw.runs_ct_send [of c "txt"], of s] t(1) by simp
  have act: "active (ct_model s) = Some user" using assms(2) by (simp add: talks_to_def)
  obtain evs where evs: "calls_to view_id (ct_model t) = calls_to view_id (ct_model s) @ evs"
    "drawn p (ct_model t) (foldl (render p) (tk_screen s) evs)"
    using keeps_add [of "ct_model s" view_id p user "my_message f me txt"] assms(1) unfolding t(4) screen_ok_def by (auto simp: leads_def)
  let ?t = "t\<lparr>tk_screen := foldl (render p) (tk_screen s) evs\<rparr>"
  have "watched p (ct_send c txt) s = (Inr (Some (my_message f me txt)), ?t)"
    using t(1) evs(1) same_view_screen [OF v] by (simp add: watched_def)
  then have "send_typed c p txt s = (Inr (), ?t)" by (simp add: send_typed_def bnd_def)
  moreover have "sc_shown (tk_screen ?t) = sc_shown (tk_screen s) @ [my_message f me txt]"
    using evs(2) shown_add [OF act] assms(1) unfolding t(4) by (simp add: drawn_def screen_ok_def)
  ultimately show ?thesis using t(2,3) same_view_own [OF v] by (intro exI [of _ ?t] exI [of _ f]) simp
qed

lemma quieted_fields [simp]:
  "ct_model (quieted g s) = ct_model s" "lk_outbox (quieted g s) = lk_outbox s @ [Link_Item g]" "tk_screen (quieted g s) = tk_screen s"
  "tk_boxes (quieted g s) = tk_boxes s" "tk_entry (quieted g s) = tk_entry (cleared s)" "tk_timer (quieted g s) = None"
  "tk_after (quieted g s) = tk_after (cleared s)" "\<not> tk_announced (quieted g s)" "talks_to c k user me (quieted g s) = talks_to c k user me s"
  "screen_ok p (quieted g s) = screen_ok p s" "screen_ok p (cleared s) = screen_ok p s"
  by (simp_all add: quieted_def talks_to_def ct_me_def screen_ok_def)

text \<open>C31: Pressing Return sends what was typed. While the addressee's key is known and frames can be
  sent, the composer is emptied, a frame with the text sealed for the addressee is queued, the message is
  the last one of the transcript, and no error box appears. When typing was announced, which it is from
  the first key until the keys go quiet, the frame that says it stopped is queued just before the
  message; when it was not, the message is the only frame. Afterwards typing is not announced and no
  timer is pending.\<close>

theorem return_sends:
  assumes "screen_ok p s" and "sc_enabled (tk_screen s)" and "timer_ok s"
    and "talks_to c k user me s" and "sendable me (strip (tk_entry s))" and "can_queue (if tk_announced s then 2 else 1) s"
  shows "let t = tk_do c p cf s Return_Pressed; txt = strip (tk_entry s) in
    \<exists>f. tk_entry t = [] \<and> carries c k user me txt f \<and>
      (if tk_announced s then \<exists>g. typing_frame user False g \<and> lk_outbox t = lk_outbox s @ [Link_Item g, Link_Item f]
       else lk_outbox t = lk_outbox s @ [Link_Item f]) \<and>
      sc_shown (tk_screen t) = sc_shown (tk_screen s) @ [my_message f me txt] \<and> tk_boxes t = tk_boxes s \<and>
      \<not> tk_announced t \<and> tk_timer t = None \<and> tk_after t = []"
proof -
  let ?txt = "strip (tk_entry s)"
  have "strip [] = []" by (simp add: strip_def rstrip_by_def)
  then have ne: "?txt \<noteq> []" using assms(5) by (auto simp: sendable_def)
  have done_by: "tk_do c p cf s Return_Pressed = t" if "on_send c p s = (Inr (), t)" for t
    using that by (simp add: tk_do_def tk_step_do_def callback_def rescue_Inr)
  note own = cleared_entry [OF assms(2)] cleared_after [OF assms(3)]
  show ?thesis
  proof (cases "tk_announced s")
    case False
    then have q: "can_queue (Suc 0) (cleared s)" using assms(6) by simp
    obtain t f where t: "send_typed c p ?txt (cleared s) = (Inr (), t)" "carries c k user me ?txt f" "lk_outbox t = lk_outbox s @ [Link_Item f]"
      "sc_shown (tk_screen t) = sc_shown (tk_screen s) @ [my_message f me ?txt]" "tk_entry t = []" "tk_boxes t = tk_boxes s"
      "\<not> tk_announced t" "tk_timer t = None" "tk_after t = []"
      using typed_goes_out [OF _ _ assms(5) q, of p c k user] assms(1,4) own False by auto
    have "tk_do c p cf s Return_Pressed = t" using return_run [OF ne False] t(1) by (intro done_by) simp
    then show ?thesis using t False by (auto simp: Let_def)
  next
    case True
    have act: "active (ct_model s) = Some user" using assms(4) by (simp add: talks_to_def)
    have q2: "can_queue (Suc (Suc 0)) s" using assms(6) True by (simp add: numeral_2_eq_2)
    obtain g where g: "on_send c p s = send_typed c p ?txt (quieted g s)" "typing_frame user False g"
      using return_quiets [OF ne True act q2] by blast
    have q: "can_queue (Suc 0) (quieted g s)" using can_queue_queued [of "Suc 0" "(cleared s)\<lparr>tk_announced := False\<rparr>" g] q2 by (simp add: quieted_def)
    obtain t f where t: "send_typed c p ?txt (quieted g s) = (Inr (), t)" "carries c k user me ?txt f"
      "lk_outbox t = lk_outbox s @ [Link_Item g, Link_Item f]"
      "sc_shown (tk_screen t) = sc_shown (tk_screen s) @ [my_message f me ?txt]" "tk_entry t = []" "tk_boxes t = tk_boxes s"
      "\<not> tk_announced t" "tk_timer t = None" "tk_after t = []"
      using typed_goes_out [OF _ _ assms(5) q, of p c k user] assms(1,4) own by auto
    have "tk_do c p cf s Return_Pressed = t" using g(1) t(1) by (intro done_by) simp
    then show ?thesis using t g(2) True by (auto simp: Let_def)
  qed
qed

lemma held_run:
  assumes "active (ct_model s) = Some user" and "\<not> room_key user" and "ct_ring s = Some kr" and "ring_ok c kr" and "fresh_key c user kr = Inr None"
    and "strip txt \<noteq> []" and "dict_get (ct_held s) user = None" and "can_queue (Suc n) s"
  shows "\<exists>t f. ct_send c txt s = (Inr None, t) \<and> dict_get (ct_held t) user = Some [txt] \<and> ct_model t = ct_model s \<and>
    lk_outbox t = lk_outbox s @ [Link_Item f] \<and> f_type f = GET_KEY"
proof -
  obtain r where r: "kr_key c user kr = (Inr None, r)" using kr_key_run [OF assms(4), of user] assms(5) by auto
  let ?s = "s\<lparr>draws := Suc (draws s), ct_ring := Some r, ct_held := dict_set (ct_held s) user [txt]\<rparr>"
  have "can_queue (Suc n) ?s" using assms(8) by simp
  note q = tell_run [OF this, of GET_KEY PNone "[(u ''user'', PStr user)]"]
  have sl: "ct_seal c user txt (ct_me s) s = (Inr None, s\<lparr>draws := Suc (draws s), ct_ring := Some r\<rparr>)"
    using assms(3) r by (simp add: ct_seal_def op_defs bnd_def on_ring_def kr_seal_def)
  let ?f = "next_frame GET_KEY PNone PNone PNone [(u ''user'', PStr user)] ?s"
  have "ct_send c txt s = (Inr None, queued ?f ?s)"
    using sl assms(1,2,3,6,7) q by (simp add: ct_send_def ct_frame_def bnd_def andthen_def ct_hold_def cn_get_key_def)
  then show ?thesis by (intro exI [of _ "queued ?f ?s"] exI [of _ ?f]) (simp add: next_frame_def)
qed

text \<open>Text that waits for a key is announced as not sent. The first text for somebody whose key is
  missing is kept, and the key is asked for; but the notice below the transcript says that it was not
  sent and that a conversation has to be picked first, although one is on screen.\<close>

theorem held_text_reads_as_not_sent:
  assumes "strip (tk_entry s) \<noteq> []" and "strip (strip (tk_entry s)) \<noteq> []" and "\<not> tk_announced s"
    and "active (ct_model s) = Some user" and "\<not> room_key user" and "ct_ring s = Some kr" and "ring_ok c kr" and "fresh_key c user kr = Inr None"
    and "dict_get (ct_held s) user = None" and "can_queue (Suc n) s"
  shows "let t = tk_do c p cf s Return_Pressed in
    dict_get (ct_held t) user = Some [strip (tk_entry s)] \<and> active (ct_model t) = Some user \<and>
    sc_notices (tk_screen t) = sc_notices (tk_screen s) @ [not_sent] \<and> (\<exists>f. lk_outbox t = lk_outbox s @ [Link_Item f] \<and> f_type f = GET_KEY)"
proof -
  let ?s = "cleared s"
  obtain t f where t: "ct_send c (strip (tk_entry s)) ?s = (Inr None, t)" "dict_get (ct_held t) user = Some [strip (tk_entry s)]"
    "ct_model t = ct_model s" "lk_outbox t = lk_outbox s @ [Link_Item f]" "f_type f = GET_KEY"
    using held_run [of ?s user kr c "strip (tk_entry s)" n] assms by auto
  have v: "same_view ?s t" using runs_at [OF vw.runs_ct_send [of c "strip (tk_entry s)"], of ?s] t(1) by simp
  have "watched p (ct_send c (strip (tk_entry s))) ?s = (Inr None, t)"
    using watched_quiet [where m = "ct_send c (strip (tk_entry s))" and s = ?s] t(1,3) by simp
  then have "on_send c p s = (Inr (), t\<lparr>tk_screen := notice not_sent (tk_screen t)\<rparr>)"
    using return_run [OF assms(1,3)] by (simp add: send_typed_def bnd_def on_screen_def)
  then show ?thesis
    using t assms(4) same_view_screen [OF v] by (simp add: Let_def tk_do_def tk_step_do_def callback_def rescue_Inr) (simp add: notice_def)
qed

subsection \<open>Concrete instances\<close>

definition sample_tk :: "keyring option \<Rightarrow> chat_model \<Rightarrow> (ustr, ustr list) dict \<Rightarrow> ustr \<Rightarrow> screen \<Rightarrow> tk_view" where
  "sample_tk kr m held entry sc = client.extend (sample_client kr m held) (tk_view.fields [] True entry None [] 0 False [] [] sc)"

lemmas sample_tk_defs = sample_tk_def sample_client_def client.extend_def tk_view.fields_def

lemma sample_tk_fields [simp]:
  "ct_model (sample_tk kr m h en sc) = m" "ct_ring (sample_tk kr m h en sc) = kr" "ct_held (sample_tk kr m h en sc) = h"
  "ct_awaiting (sample_tk kr m h en sc) = []" "lk_outbox (sample_tk kr m h en sc) = []" "tk_entry (sample_tk kr m h en sc) = en"
  "tk_announced (sample_tk kr m h en sc) = False" "tk_screen (sample_tk kr m h en sc) = sc" "tk_boxes (sample_tk kr m h en sc) = []"
  "timer_ok (sample_tk kr m h en sc)"
  by (simp_all add: sample_tk_defs timer_ok_def)

lemma sample_tk_queue: "n \<le> 10 \<Longrightarrow> can_queue n (sample_tk kr m h en sc)"
  by (simp add: can_queue_def sample_tk_defs session_can_send_def link_can_send_def mc_can_send_def LINK_OUTBOX_LIMIT_def)

definition plain_kit :: toolkit where
  "plain_kit = \<lparr>tk_lower = id, tk_upper = id, strftime = (\<lambda>_. u ''12:00'')\<rparr>"

theorem composer_follows_connection_witness:
  "sc_enabled (tk_screen (foldl (tk_do toy_crypto plain_kit id) (opened plain_kit (sample_tk None new_chat_model [] [] new_screen))
     [Posted (Tk_State (u ''ONLINE'')), Poll_Timer]))"
proof -
  let ?s = "sample_tk None new_chat_model [] [] new_screen"
  let ?t = "foldl (tk_do toy_crypto plain_kit id) (opened plain_kit ?s) [Posted (Tk_State (u ''ONLINE'')), Poll_Timer]"
  have "connection_state (ct_model ?s) = u ''DISCONNECTED''" "view_id \<notin> set (listeners (ct_model ?s))" by (simp_all add: new_chat_model_def)
  from composer_follows_connection [OF this, of toy_crypto plain_kit id "[Posted (Tk_State (u ''ONLINE'')), Poll_Timer]"]
  have "sc_enabled (tk_screen ?t) \<longleftrightarrow> connection_state (ct_model ?t) = u ''ONLINE''" unfolding Let_def by blast
  moreover have "connection_state (ct_model ?t) = u ''ONLINE''"
    by (simp add: tk_do_def tk_step_do_def tk_post_def opened_def tk_run_def new_tk_view_def poll_def drain_def poll_one_def
        tk_dispatch_def watched_def on_state_def set_connection_state_def rescue_def andthen_def bnd_def new_chat_model_def subscribe_def)
  ultimately show ?thesis by blast
qed

text \<open>Alice hears from herself on another machine and opens the conversation.\<close>

theorem window_shows_the_model_witness:
  "let t = foldl (tk_do toy_crypto plain_kit id) (opened plain_kit (sample_tk None (sample_model None) [] [] new_screen))
        [Posted (Tk_Frame sample_frame), Poll_Timer, Row_Clicked (u ''alice'')]; m = ct_model t in
    f_type sample_frame = MSG \<and>
    sc_rows (tk_screen t) = map (row_of plain_kit m) (keys (tk_lower plain_kit) m) \<and> sc_unread (tk_screen t) = unread_total m \<and>
    sc_shown (tk_screen t) = (case active m of None \<Rightarrow> [] | Some key \<Rightarrow> cv_messages (conv key m))"
proof -
  let ?s = "sample_tk None (sample_model None) [] [] new_screen"
  let ?steps = "[Posted (Tk_Frame sample_frame), Poll_Timer, Row_Clicked (u ''alice'')]"
  have f: "f_type sample_frame = MSG" by (simp add: sample_frame_def)
  have "on_file (ct_model ?s)" "view_id \<notin> set (listeners (ct_model ?s))" by (simp_all add: on_file_def sample_model_def new_chat_model_def)
  moreover have "list_all (\<lambda>st. case st of Posted item \<Rightarrow> no_key item | _ \<Rightarrow> True) ?steps" by (simp add: no_key_def f)
  ultimately show ?thesis using window_shows_the_model [of ?s ?steps toy_crypto plain_kit id] f unfolding Let_def by blast
qed

theorem typing_announced_once_witness:
  "\<exists>f g. lk_outbox (foldl (tk_do toy_crypto plain_kit id) (sample_tk None (sample_model (Some (u ''bob''))) [] [] new_screen)
      [Key_Pressed (u ''h''), Key_Pressed (u ''hi''), Idle_Timer]) = [Link_Item f, Link_Item g] \<and>
    typing_frame (u ''bob'') True f \<and> typing_frame (u ''bob'') False g"
  using typing_announced_once [of "sample_tk None (sample_model (Some (u ''bob''))) [] [] new_screen" toy_crypto plain_kit id Poll_Timer
      "u ''bob''" "[u ''h'', u ''hi'']"] sample_tk_queue [of 2]
  by (simp add: sample_model_def Let_def) blast

theorem typing_ends_in_the_wrong_place_witness:
  "\<exists>f g. lk_outbox (foldl (tk_do toy_crypto plain_kit id) (sample_tk None (sample_model (Some (u ''bob''))) [] [] new_screen)
      [Key_Pressed (u ''h''), Row_Clicked (u ''carol''), Idle_Timer]) = [Link_Item f, Link_Item g] \<and>
    typing_frame (u ''bob'') True f \<and> typing_frame (u ''carol'') False g"
  using typing_ends_in_the_wrong_place [of "sample_tk None (sample_model (Some (u ''bob''))) [] [] new_screen" "u ''bob''" "u ''carol''" toy_crypto plain_kit id "u ''h''"]
    sample_tk_queue [of 2]
  by (simp add: sample_model_def Let_def conv_def new_chat_model_def new_conversation_def) blast

theorem typing_offline_complains_witness:
  "tk_boxes (foldl (tk_do toy_crypto plain_kit id) ((sample_tk None (sample_model (Some (u ''bob''))) [] [] new_screen)\<lparr>se_has := False\<rparr>)
      [Key_Pressed (u ''h''), Key_Pressed (u ''hi''), Idle_Timer]) = [Oops Not_Connected, Oops Not_Connected]"
proof -
  let ?s = "(sample_tk None (sample_model (Some (u ''bob''))) [] [] new_screen)\<lparr>se_has := False\<rparr>"
  have "active (ct_model ?s) = Some (u ''bob'')" "\<not> tk_announced ?s" "\<not> session_can_send ?s" "\<not> sc_enabled (tk_screen ?s)" "timer_ok ?s"
    by (simp_all add: sample_model_def session_can_send_def new_screen_def) (simp add: sample_tk_defs timer_ok_def)
  from typing_offline_complains [OF this, of toy_crypto plain_kit id "u ''h''" "u ''hi''"] show ?thesis by (simp add: Let_def)
qed

lemma sample_ring_ok: "ring_ok toy_crypto (sample_ring who known)"
  using sample_honest by (auto simp: honest_def)

lemma sample_bob_key: "\<exists>k. fresh_key toy_crypto (u ''bob'') (sample_ring ''alice'' [''bob'']) = Inr (Some k)"
  using honest_fresh_key [OF sample_honest sample_reaches [of "''bob''" "[''bob'']"], of "''alice''"]
    toy_key_for [of "sample_private (u ''alice'')" "sample_private (u ''bob'')"] by auto

lemma sample_no_key: "fresh_key toy_crypto (u ''bob'') (sample_ring ''alice'' []) = Inr None"
  by (simp add: fresh_key_def ring_for_def self_key_def sample_ring_def u_def)

definition live_screen :: "chat_model \<Rightarrow> screen" where
  "live_screen m = set_composer True (redraw m (refresh_list plain_kit m new_screen))"

definition talking_model :: chat_model where
  "talking_model = subscribe view_id (select (Some (u ''bob'')) (sample_model None))"

lemma talking_model_ok:
  "active talking_model = Some (u ''bob'')" "count_list (listeners talking_model) view_id = 1" "on_file talking_model" "cm_username talking_model = Some (u ''alice'')"
  by (simp_all add: talking_model_def subscribe_def select_def sample_model_def new_chat_model_def Let_def cv_mark_read_def conv_def new_conversation_def
      on_file_def emit_def put_conv_def)

lemma live_screen_ok: "drawn plain_kit m (live_screen m)" "sc_enabled (live_screen m)"
  by (simp_all add: live_screen_def) (simp_all add: drawn_def set_composer_def)

lemma strip_hi: "strip (u '' hi '') = u ''hi''"
  by (simp add: strip_def rstrip_by_def u_def is_space_def)

text \<open>Alice has just typed, so typing is announced and the timer is running.\<close>

theorem return_sends_witness:
  "\<exists>f g k. let t = tk_do toy_crypto plain_kit id ((sample_tk (Some (sample_ring ''alice'' [''bob''])) talking_model [] (u '' hi '') (live_screen talking_model))
        \<lparr>tk_announced := True, tk_timer := Some 7, tk_after := [7]\<rparr>) Return_Pressed in
    tk_entry t = [] \<and> lk_outbox t = [Link_Item g, Link_Item f] \<and> typing_frame (u ''bob'') False g \<and>
    carries toy_crypto k (u ''bob'') (u ''alice'') (u ''hi'') f \<and> last (sc_shown (tk_screen t)) = my_message f (u ''alice'') (u ''hi'') \<and> tk_after t = []"
proof -
  let ?s0 = "sample_tk (Some (sample_ring ''alice'' [''bob''])) talking_model [] (u '' hi '') (live_screen talking_model)"
  let ?s = "?s0\<lparr>tk_announced := True, tk_timer := Some 7, tk_after := [7]\<rparr>"
  obtain k where k: "fresh_key toy_crypto (u ''bob'') (sample_ring ''alice'' [''bob'']) = Inr (Some k)" using sample_bob_key by blast
  have ok: "screen_ok plain_kit ?s" "sc_enabled (tk_screen ?s)" "timer_ok ?s"
    using talking_model_ok live_screen_ok by (simp_all add: screen_ok_def timer_ok_def)
  moreover have "talks_to toy_crypto k (u ''bob'') (u ''alice'') ?s"
    using talking_model_ok k sample_ring_ok hi_not_blank(2,5) by (simp add: talks_to_def ct_me_def)
  moreover have "sendable (u ''alice'') (strip (tk_entry ?s))" using sendable_u [OF hi_not_blank(1)] by (simp add: strip_hi)
  moreover have "can_queue (if tk_announced ?s then 2 else 1) ?s" using sample_tk_queue [of 2] by simp
  ultimately obtain f g where "tk_entry (tk_do toy_crypto plain_kit id ?s Return_Pressed) = []"
    "carries toy_crypto k (u ''bob'') (u ''alice'') (u ''hi'') f" "typing_frame (u ''bob'') False g"
    "lk_outbox (tk_do toy_crypto plain_kit id ?s Return_Pressed) = [Link_Item g, Link_Item f]"
    "sc_shown (tk_screen (tk_do toy_crypto plain_kit id ?s Return_Pressed)) = sc_shown (tk_screen ?s) @ [my_message f (u ''alice'') (u ''hi'')]"
    "tk_after (tk_do toy_crypto plain_kit id ?s Return_Pressed) = []"
    using return_sends [of plain_kit ?s toy_crypto k "u ''bob''" "u ''alice''" id] unfolding Let_def by (auto simp: strip_hi)
  then show ?thesis unfolding Let_def by (intro exI [of _ f] exI [of _ g] exI [of _ k]) simp
qed

theorem held_text_reads_as_not_sent_witness:
  "let t = tk_do toy_crypto plain_kit id (sample_tk (Some (sample_ring ''alice'' [])) talking_model [] (u '' hi '') (live_screen talking_model)) Return_Pressed in
    dict_get (ct_held t) (u ''bob'') = Some [u ''hi''] \<and> last (sc_notices (tk_screen t)) = not_sent"
  using held_text_reads_as_not_sent [of "sample_tk (Some (sample_ring ''alice'' [])) talking_model [] (u '' hi '') (live_screen talking_model)"
      "u ''bob''" "sample_ring ''alice'' []" toy_crypto 0 plain_kit id] talking_model_ok sample_no_key sample_ring_ok hi_not_blank sample_tk_queue [of 1]
  by (simp add: strip_hi Let_def)

text \<open>Alice is reading carol when bob's key arrives.\<close>

theorem key_shows_another_conversation_witness:
  "\<exists>t. tk_dispatch toy_crypto plain_kit (Tk_Frame key_of_bob)
      (sample_tk (Some (sample_ring ''alice'' [])) (select (Some (u ''carol'')) talking_model) [(u ''bob'', [u ''hi''])] [] new_screen) = (Inr (), t) \<and>
    active (ct_model t) = Some (u ''carol'') \<and> heads (u ''bob'') (tk_screen t) \<and> sc_shown (tk_screen t) = cv_messages (conv (u ''bob'') (ct_model t))"
proof -
  let ?m = "select (Some (u ''carol'')) talking_model"
  let ?s = "sample_tk (Some (sample_ring ''alice'' [])) ?m [(u ''bob'', [u ''hi''])] [] new_screen"
  obtain k where k: "key_for toy_crypto (kr_private (sample_ring ''alice'' [])) (public_b64 toy_crypto (sample_private (u ''bob''))) = Inr k"
    using toy_key_for by blast
  have m: "listeners ?m = listeners talking_model" "cm_username ?m = Some (u ''alice'')"
    using talking_model_ok by (simp_all add: select_def Let_def split: prod.split)
  then have me: "ct_me ?s = u ''alice''" using hi_not_blank(5) by (simp add: ct_me_def)
  have "list_all (sendable (ct_me ?s)) [u ''hi'']" using sendable_u [OF hi_not_blank(1)] by (simp add: me)
  then show ?thesis
    using key_shows_another_conversation [OF _ _ key_of_bob_frame _ sample_ring_ok k hi_not_blank(2), of ?s "u ''carol''" "[u ''hi'']" plain_kit]
      talking_model_ok m sample_tk_queue [of 1] hi_not_blank(2) by (simp add: dict_keys_def)
qed

text \<open>Bob joins the room alice was alone in.\<close>

theorem member_count_goes_stale_witness:
  "let m = talking_model\<lparr>active := Some (u ''#den''), cm_rooms := [(u ''#den'', [u ''alice''])]\<rparr>;
       m' = set_room_members (u ''#den'') [u ''bob'', u ''alice''] m;
       sc' = foldl (render plain_kit) (draw_header m new_screen) (drop (length (calls_to view_id m)) (calls_to view_id m'))
   in length (room_members (u ''#den'') m') = 2 \<and> sc_header sc' = Header (u ''#den'') None (u ''1 members'')"
proof -
  let ?m = "talking_model\<lparr>active := Some (u ''#den''), cm_rooms := [(u ''#den'', [u ''alice''])]\<rparr>"
  have "typing_in (u ''#den'') ?m = []" "room_members (u ''#den'') ?m = [u ''alice'']" "startswith (u ''#den'') (u ''#'')"
    by (simp_all add: typing_in_def room_members_def talking_model_def subscribe_def select_def sample_model_def new_chat_model_def Let_def
        emit_def put_conv_def startswith_def u_def split: prod.split)
  then show ?thesis
    using member_count_goes_stale [of ?m view_id "u ''#den''" "[u ''bob'', u ''alice'']" "draw_header ?m new_screen" plain_kit] talking_model_ok
    by (simp add: Let_def nat_str.simps u_def) (simp add: draw_header_def)
qed

end
