(* ===== verification/Startup.thy ===== *)
theory Startup
  imports Composer
begin

section \<open>Starting the client\<close>

text \<open>
  \<open>main\<close> of \<open>im/client/__main__.py\<close> with the Tk view, from the point where the session, the controller and the
  view exist: the model is new, the view subscribes, the session logs in, and the handshake is replayed
  through the controller before the window opens. What is printed is left out.
\<close>

definition conn_name :: "conn_state \<Rightarrow> ustr" where
  "conn_name st = (case st of DISCONNECTED \<Rightarrow> u ''DISCONNECTED'' | CONNECTING \<Rightarrow> u ''CONNECTING'' | AUTHENTICATING \<Rightarrow> u ''AUTHENTICATING''
     | ONLINE \<Rightarrow> u ''ONLINE'' | RETRYING \<Rightarrow> u ''RETRYING'' | CLOSED \<Rightarrow> u ''CLOSED'')"

text \<open>Only \<open>ConnectionError\<close> is caught; \<open>NotConnected\<close> and a timeout are not.\<close>

definition start_session :: "bool \<Rightarrow> bool \<Rightarrow> io list \<Rightarrow> io list \<Rightarrow> io list \<Rightarrow> ('z session_scheme, frame option) py" where
  "start_session reg dialled ios1 ios2 ios3 =
     rescue (bnd (session_start reg dialled ios1 ios2 ios3) (\<lambda>reply. ret (Some reply)))
       (\<lambda>e. if e = Connection_Error then ret None else raise e)"

definition replay :: "crypto \<Rightarrow> toolkit \<Rightarrow> frame \<Rightarrow> ('z tk_view_scheme, unit) py" where
  "replay c p reply = andthen (watched p (on_frame c reply)) (bnd (gets session_state) (\<lambda>st. watched p (on_state (conn_name st))))"

text \<open>\<open>view.run()\<close>: what happens until the window is closed is \<open>steps\<close>.\<close>

definition main_loop :: "crypto \<Rightarrow> toolkit \<Rightarrow> (ustr \<Rightarrow> ustr) \<Rightarrow> tk_step list \<Rightarrow> ('z tk_view_scheme, unit) py" where
  "main_loop c p cf steps = andthen (tk_run p) (andthen (modify (\<lambda>s. foldl (tk_do c p cf) s steps)) tk_stop)"

definition client_main :: "crypto \<Rightarrow> toolkit \<Rightarrow> (ustr \<Rightarrow> ustr) \<Rightarrow> bool \<Rightarrow> bool \<Rightarrow> io list \<Rightarrow> io list \<Rightarrow> io list \<Rightarrow> tk_step list \<Rightarrow>
    ('z tk_view_scheme, nat) py" where
  "client_main c p cf reg dialled ios1 ios2 ios3 steps =
     andthen (modify new_tk_view)
     (bnd (start_session reg dialled ios1 ios2 ios3) (\<lambda>r. case r of None \<Rightarrow> ret 1
      | Some reply \<Rightarrow> if f_type reply = ERROR then ret 1
        else andthen (finally_do (andthen (replay c p reply) (main_loop c p cf steps)) session_close) (ret 0)))"

subsection \<open>The window comes up live\<close>

lemma register_owner: "runs_in same_owner (link_register name pass_hash pubkey ios)"
  unfolding link_register_def link_require_def link_request_def new_frame_def
  by (intro so.world_rules put_nowait_owner meanwhile_owner owner_modify) simp_all

lemma screen_start: "runs_in same_screen (session_start reg dialled ios1 ios2 ios3)"
proof -
  have "runs_in same_screen (modify new_link)"
    "runs_in same_screen (modify (\<lambda>s. s\<lparr>se_has := True, se_backoff := bo_reset (se_backoff s), se_supervised := True\<rparr>))"
    by (auto intro!: screen_modify simp: new_link_def)
  then show ?thesis
    unfolding session_start_def
    by (auto intro!: sn.runs_rules owner_screen [OF link_close_owner] owner_screen [OF link_connect_owner] owner_screen [OF link_login_owner]
        owner_screen [OF register_owner] split: option.split)
qed

lemma on_state_model: "watched p (on_state st) s = (Inr (), t) \<Longrightarrow> connection_state (ct_model t) = st"
  by (auto simp: watched_def on_state_def set_connection_state_def)

lemma on_state_runs: "\<exists>t. watched p (on_state st) s = (Inr (), t)"
  by (simp add: watched_def on_state_def)

lemma run_keeps: "runs_in (keeps (composer_ok p)) (tk_run p)" "runs_in (keeps (screen_ok p)) (tk_run p)"
  by (simp_all add: tk_run_def runs_in_modify keeps_def composer_ok_def screen_ok_def) (simp add: drawn_def)

text \<open>C12: The client comes up usable. When the login succeeded and the link is still up, replaying the
  handshake and opening the window leaves the composer enabled, the poll timer set, and the list and the
  transcript as the model has them; and whatever happens afterwards, the composer goes on following
  the connection.\<close>

theorem client_starts_live:
  assumes "ct_model s = new_chat_model" and "session_start reg dialled ios1 ios2 ios3 (new_tk_view s) = (Inr reply, s1)"
    and "f_type reply = LOGIN_OK" and "outcome (on_frame c reply) s1 = Inr ()" and "session_state (after (on_frame c reply) s1) = ONLINE"
  shows "\<exists>t. andthen (replay c p reply) (tk_run p) s1 = (Inr (), t) \<and> sc_enabled (tk_screen t) \<and> tk_polling t \<and> drawn p (ct_model t) (tk_screen t) \<and>
    (let t' = foldl (tk_do c p cf) t steps in sc_enabled (tk_screen t') \<longleftrightarrow> connection_state (ct_model t') = u ''ONLINE'')"
proof -
  let ?s0 = "new_tk_view s"
  have "same_screen ?s0 s1" using runs_at [OF screen_start, of ?s0] assms(2) by (metis snd_conv)
  note sc = same_screen_parts [OF this]
  have s1: "composer_ok p s1" "screen_ok p s1"
    unfolding composer_ok_def screen_ok_def sc(1,2) new_tk_view_def
    by (simp_all add: assms(1) subscribe_def new_chat_model_def follows_def new_screen_def on_file_def drawn_def rows_def keys_def dict_keys_def shown_def unread_total_def)
  have k: "no_key (Tk_Frame reply)" using assms(3) by (simp add: no_key_def)
  define s2 where "s2 = after (watched p (on_frame c reply)) s1"
  have w: "watched p (on_frame c reply) s1 = (Inr (), s2)" using assms(4) by (cases "on_frame c reply s1") (simp add: s2_def watched_def)
  have s2: "composer_ok p s2" "screen_ok p s2"
    using keepsD [OF cp.I_item [where item = "Tk_Frame reply" and p = p and c = c]] keepsD [OF sk.I_item [OF k, where p = p and c = c]] s1 by (simp_all add: s2_def tk_dispatch_def)
  have on: "session_state s2 = ONLINE"
    using assms(5) by (cases "on_frame c reply s1") (auto simp: s2_def watched_def session_state_def link_state_def split: if_splits)
  obtain s3 where s3: "watched p (on_state (u ''ONLINE'')) s2 = (Inr (), s3)" using on_state_runs by blast
  have ok3: "composer_ok p s3" "screen_ok p s3"
    using keepsD [OF cp.I_item [where item = "Tk_State (u ''ONLINE'')" and p = p and c = c], of s2] keepsD [OF sk.I_item [where item = "Tk_State (u ''ONLINE'')" and p = p and c = c], of s2] s2 s3
    by (simp_all add: tk_dispatch_def no_key_def)
  define t where "t = after (tk_run p) s3"
  have "replay c p reply s1 = (Inr (), s3)" using w on s3 by (simp add: replay_def andthen_Inr conn_name_def)
  then have run: "andthen (replay c p reply) (tk_run p) s1 = (Inr (), t)" by (simp add: andthen_Inr t_def tk_run_def)
  have ok: "composer_ok p t" "screen_ok p t" using keepsD [OF run_keeps(1) ok3(1)] keepsD [OF run_keeps(2) ok3(2)] by (simp_all add: t_def)
  have "connection_state (ct_model t) = u ''ONLINE''" using on_state_model [OF s3] by (simp add: t_def tk_run_def)
  then have live: "sc_enabled (tk_screen t)" using ok(1) by (simp add: composer_ok_def follows_def)
  have "composer_ok p (foldl (tk_do c p cf) t steps)"
    by (rule tk_steps_keep [OF cp.window_inv_axioms ok(1)]) (simp_all add: list_all_iff split: tk_step.split)
  then show ?thesis using run live ok(2) by (simp add: composer_ok_def follows_def screen_ok_def t_def tk_run_def Let_def)
qed

subsection \<open>Coming back\<close>

text \<open>Coming back refreshes nothing. When the link was lost and the session logs in again, the answer to
  the login, which has who is online and the contacts, reaches neither the listener of the frames nor
  the model: whoever left while the link was down stays online on screen.\<close>

theorem reconnect_discards_roster:
  fixes s :: "'z client_scheme"
  assumes "wf_frame g" and "encode g = Inr bs" and "f_type g = LOGIN_OK"
  shows "\<exists>t. attempt True [] [Io_Recv (Some bs)] (new_link s) = (Inr (), t) \<and> session_can_send t \<and> lk_heard t = lk_heard s \<and> ct_model t = ct_model s"
proof -
  have h: "lk_heard (dialled_link s) = lk_heard s" by (simp add: dialled_link_def new_link_def)
  obtain t where t: "link_login (se_user s) (se_pass s) [Io_Recv (Some bs)] (dialled_link s) = (Inr g, t)" "link_state t = ONLINE" "lk_heard t = lk_heard s"
    using login_reply_run [OF dialled_handshaking [of s] assms(1,2), where name = "se_user s" and pass_hash = "se_pass s"] assms(3) h by auto
  note a = attempt_dialled [OF t(1)]
  have "ct_model t = ct_model s" using a(2) by (cases s; cases t) (simp add: same_owner_def)
  then show ?thesis
    using a(1,3) assms(3) t(2,3) by (simp add: settle_def session_can_send_def link_can_send_def link_ok_def link_state_def mc_can_send_def)
qed

subsection \<open>Concrete instances\<close>

lemma start_run:
  assumes "wf_frame g" and "encode g = Inr bs" and "f_type g = LOGIN_OK"
  shows "\<exists>t. session_start False True [] [] [Io_Recv (Some bs)] s = (Inr g, t) \<and> se_has t \<and> link_state t = ONLINE"
proof -
  have u: "se_user (dialled_link s) = se_user s" "se_pass (dialled_link s) = se_pass s" by (simp_all add: dialled_link_def new_link_def)
  obtain t where "link_login (se_user s) (se_pass s) [Io_Recv (Some bs)] (dialled_link s) = (Inr g, t)" "link_state t = ONLINE"
    using login_reply_run [OF dialled_handshaking [of s] assms(1,2), where name = "se_user s" and pass_hash = "se_pass s"] assms(3) by auto
  then show ?thesis
    using assms(3) by (simp add: session_start_def andthen_def bnd_def link_connect_run u link_state_def)
qed

theorem client_starts_live_witness:
  "\<exists>bs s1 t. session_start False True [] [] [Io_Recv (Some bs)] (new_tk_view (sample_tk None new_chat_model [] [] new_screen)) = (Inr login_ok_frame, s1) \<and>
     andthen (replay toy_crypto plain_kit login_ok_frame) (tk_run plain_kit) s1 = (Inr (), t) \<and> sc_enabled (tk_screen t)"
proof -
  let ?s = "sample_tk None new_chat_model [] [] new_screen"
  let ?bs = "projr (encode login_ok_frame)"
  have e: "encode login_ok_frame = Inr ?bs" using encode_eq [OF login_ok_frame_wf] by simp
  have f: "f_type login_ok_frame = LOGIN_OK" by (simp add: login_ok_frame_def)
  obtain s1 where s1: "session_start False True [] [] [Io_Recv (Some ?bs)] (new_tk_view ?s) = (Inr login_ok_frame, s1)" "se_has s1" "link_state s1 = ONLINE"
    using start_run [OF login_ok_frame_wf e f, of "new_tk_view ?s"] by blast
  have "on_frame toy_crypto login_ok_frame s1 = (Inr (), s1\<lparr>ct_model := with_contacts [] (replace_roster [] (ct_model s1))\<rparr>)"
    by (simp add: on_frame_def f logged_in_def Let_def login_ok_frame_def sample_frame_def pget_def data_list_def py_or_def py_iter_def
        andthen_def bnd_def ct_contacts_def replace_contacts_def u_def)
  then have "outcome (on_frame toy_crypto login_ok_frame) s1 = Inr ()" "session_state (after (on_frame toy_crypto login_ok_frame) s1) = ONLINE"
    using s1(2,3) by (simp_all add: session_state_def link_state_def)
  from client_starts_live [OF _ s1(1) f this, of plain_kit id "[]"] s1(1) show ?thesis by auto
qed

end
