(* ===== verification/Console.thy ===== *)
theory Console
  imports View
begin

section \<open>The console view\<close>

text \<open>
  \<open>im/client/view/console.py\<close>: the queue that the reader thread, the state listener and the keyboard
  feed, the loop that drains it, what a typed line does, and \<open>_render\<close>, which prints the model's events
  as they are emitted. What is printed is the list \<open>con_out\<close>; \<open>con_tty\<close> is the terminal, which may
  refuse to print something (a character it cannot encode, a pipe that is closed) with an exception.
  The lines that events print are taken to be accepted. \<open>str.lower\<close> is the parameter \<open>lower\<close>.

  \<open>/leave\<close> of the room on screen calls \<open>select(None)\<close>, which files a conversation under the key
  \<open>None\<close>. Keys of the model are strings; \<open>con_none\<close> says that this one is there too.
\<close>

subsection \<open>State\<close>

datatype printed = Line ustr | Failure exn | Prompt ustr

datatype inbox_item = In_Frame frame | In_State ustr | In_Input ustr | In_Stop

record console = client +
  con_inbox :: "inbox_item list"
  con_running :: bool
  con_none :: bool
  con_out :: "printed list"
  con_tty :: "printed \<Rightarrow> exn option"

text \<open>\<open>__init__\<close>; the terminal is the environment's.\<close>

definition new_console :: "'z console_scheme \<Rightarrow> 'z console_scheme" where
  "new_console s = s\<lparr>ct_model := subscribe view_id (ct_model s), con_inbox := [], con_running := False, con_none := False, con_out := []\<rparr>"

definition post :: "inbox_item \<Rightarrow> 'z console_scheme \<Rightarrow> 'z console_scheme" where
  "post item s = s\<lparr>con_inbox := con_inbox s @ [item]\<rparr>"

text \<open>\<open>print\<close>.\<close>

definition print_out :: "printed \<Rightarrow> ('z console_scheme, unit) py" where
  "print_out p = bnd (gets con_tty) (\<lambda>tty. case tty p of Some e \<Rightarrow> raise e
     | None \<Rightarrow> modify (\<lambda>s. s\<lparr>con_out := con_out s @ [p]\<rparr>))"

definition say :: "ustr \<Rightarrow> ('z console_scheme, unit) py" where
  "say l = print_out (Line l)"

definition prompt_of :: "'z console_scheme \<Rightarrow> ustr" where
  "prompt_of s = (case active (ct_model s) of None \<Rightarrow> u ''nobody'' | Some k \<Rightarrow> if k = [] then u ''nobody'' else k)"

definition prompt :: "('z console_scheme, unit) py" where
  "prompt = bnd (gets prompt_of) (\<lambda>k. print_out (Prompt k))"

definition banner :: "('z console_scheme, unit) py" where
  "banner = bnd (gets (\<lambda>s. cm_username (ct_model s))) (\<lambda>me.
     say (10 # u ''  logged in as '' @ (case me of None \<Rightarrow> u ''None'' | Some n \<Rightarrow> n) @ u ''. /help for commands.''))"

subsection \<open>What a typed line does\<close>

definition HELP :: ustr where
  "HELP = join [10] (map u ['''',
     ''  /to <user|#room>   talk to someone, e.g. /to bob'',
     ''  /who               who is online'',
     ''  /history           fetch this conversation's scrollback from the server'',
     ''  /chats             conversations, with unread counts'',
     '''',
     ''  /create #room      make a room and join it'',
     ''  /join #room        join a room somebody else made'',
     ''  /leave #room       leave a room'',
     ''  /rooms             rooms you are in'',
     ''  /members           who is in the room on screen'',
     ''  /typing on|off     announce that you are composing'',
     '''',
     ''  /help              this'',
     ''  /quit              leave'',
     '''',
     ''  anything else is sent to the conversation on screen'',
     ''''])"

subsection \<open>Rendering\<close>

definition tick :: "ustr \<Rightarrow> ustr" where
  "tick st = (if st = u ''SENT'' then [32, 10003] else if st = u ''DELIVERED'' then [32, 10003, 10003]
     else if st = u ''READ'' then [32, 10003, 10003] @ u '' read'' else [])"

definition msg_line :: "chat_message \<Rightarrow> ustr" where
  "msg_line msg = (if msg_mine msg then u ''you'' else msg_sender msg) @ u '': '' @ py_str (msg_body msg) @
     (if msg_mine msg then tick (msg_state msg) else [])"

text \<open>The lines that one event prints, given the model at that moment. A line that starts with a line
  break is printed so.\<close>

fun con_render :: "(ustr \<Rightarrow> ustr) \<Rightarrow> event \<times> chat_content \<Rightarrow> ustr list" where
  "con_render lower (MessageAdded key msg, m) =
     (if Some key = active m then [[10] @ u ''  '' @ msg_line msg]
      else [[10] @ u ''  ['' @ key @ u ''] '' @ msg_sender msg @ u '': '' @ py_str (msg_body msg) @
        u ''   ('' @ nat_str (cv_unread (conv key m)) @ u '' unread)''])"
| "con_render lower (HistoryLoaded key n, m) =
     ([10] @ u ''  -- '' @ nat_str n @ u '' message(s) in '' @ key @ u '' --'') # map (\<lambda>msg. u ''  '' @ msg_line msg) (cv_messages (conv key m))"
| "con_render lower (ReceiptChanged key i st, m) = (if Some key = active m then [[10] @ u ''  * your message was '' @ lower st] else [])"
| "con_render lower (TypingChanged key users, m) =
     (if users \<noteq> [] \<and> Some key = active m
      then [[10] @ u ''  ... '' @ join (u '', '') users @ u '' '' @ (if length users = 1 then u ''is'' else u ''are'') @ u '' typing''] else [])"
| "con_render lower (RoomMembersChanged room members, m) =
     [[10] @ u ''  * '' @ room @ u '': '' @ (if members = [] then u ''nobody'' else join (u '', '') members)]"
| "con_render lower (PresenceChanged user online, m) = [[10] @ u ''  * '' @ user @ u '' is '' @ (if online then u ''online'' else u ''offline'')]"
| "con_render lower (ConversationSelected key, m) =
     [[10] @ u ''  -- now talking to '' @ (case key of None \<Rightarrow> u ''None'' | Some k \<Rightarrow> k) @ u '' --'']"
| "con_render lower (ConnectionStateChanged st, m) = [[10] @ u ''  * connection '' @ st]"
| "con_render lower (ErrorRaised code msg, m) = [[10] @ u ''  ! '' @ code @ u '': '' @ msg]"
| "con_render lower (RosterReplaced users, m) = (if users = [] then [] else [[10] @ u ''  * online: '' @ join (u '', '') users])"
| "con_render lower (UnreadChanged key n, m) = []"
| "con_render lower (ContactsChanged names, m) = []"
| "con_render lower (IdentityEstablished name, m) = []"

text \<open>A call of the controller, with the model's events printed on the way.\<close>

definition echoed :: "(ustr \<Rightarrow> ustr) \<Rightarrow> ('z console_scheme, 'a) py \<Rightarrow> ('z console_scheme, 'a) py" where
  "echoed lower m s = (case m s of (r, t) \<Rightarrow>
     (r, t\<lparr>con_out := con_out t @ map Line (concat (map (con_render lower)
            (drop (length (calls_to view_id (ct_model s))) (calls_to view_id (ct_model t)))))\<rparr>))"

subsection \<open>Commands\<close>

definition or_else :: "string \<Rightarrow> ustr list \<Rightarrow> ustr" where
  "or_else none names = (if names = [] then u none else join (u '', '') names)"

text \<open>\<open>controller.select(None)\<close>: the model is asked for the conversation \<open>None\<close> and told to select
  nothing, and then \<open>None\<close> has no \<open>startswith\<close>.\<close>

definition select_nothing :: "(ustr \<Rightarrow> ustr) \<Rightarrow> ('z console_scheme, unit) py" where
  "select_nothing lower = andthen (modify (\<lambda>s. s\<lparr>con_none := True\<rparr>)) (andthen (echoed lower (on_model (select None))) (raise Attribute_Error))"

definition room_command :: "(ustr \<Rightarrow> ustr) \<Rightarrow> ustr \<Rightarrow> ustr \<Rightarrow> ('z console_scheme, unit) py" where
  "room_command lower command room =
     (if room = [] then say (u ''  ! usage: '' @ command @ u '' #roomname'')
      else if \<not> room_key room then say (u ''  ! a room name starts with # -- try /join #general'')
      else if command = u ''/create'' then cn_create_room room []
      else if command = u ''/join'' then cn_join room
      else andthen (cn_leave room)
        (bnd (gets (\<lambda>s. active (ct_model s) = Some room)) (\<lambda>shown. if shown then select_nothing lower else ret ())))"

definition list_members :: "('z console_scheme, unit) py" where
  "list_members = bnd (gets ct_model) (\<lambda>m. case active m of
       None \<Rightarrow> say (u ''  ! not in a room -- /to #general first'')
     | Some room \<Rightarrow> if \<not> room_key room then say (u ''  ! not in a room -- /to #general first'')
       else say (u ''  '' @ room @ u '': '' @ or_else ''(nobody)'' (room_members room m)))"

definition ask_history :: "('z console_scheme, unit) py" where
  "ask_history = bnd (request_history None 50) (\<lambda>sent. if sent then ret () else say (u ''  ! nobody selected -- try /to bob''))"

text \<open>A key \<open>None\<close> among the conversations has no \<open>startswith\<close> either.\<close>

definition chats :: "(ustr \<Rightarrow> ustr) \<Rightarrow> ('z console_scheme, unit) py" where
  "chats lower = bnd (gets con_none) (\<lambda>none. if none then raise Attribute_Error
     else bnd (gets ct_model) (\<lambda>m.
       if keys lower m = [] then say (u ''  (no conversations yet)'')
       else for_each (keys lower m) (\<lambda>k. say (u ''  '' @ (if Some k = active m then u ''*'' else u '' '') @ u '' '' @ k @ u ''  '' @
         nat_str (cv_len (conv k m)) @ u '' messages'' @
         (if cv_unread (conv k m) = 0 then [] else u ''  ('' @ nat_str (cv_unread (conv k m)) @ u '' unread)'')))))"

definition typed :: "crypto \<Rightarrow> (ustr \<Rightarrow> ustr) \<Rightarrow> ustr \<Rightarrow> ('z console_scheme, unit) py" where
  "typed c lower line =
     (let text = strip line;
          command = takeWhile (\<lambda>ch. ch \<noteq> 32) text;
          argument = strip (drop (Suc (length command)) text) in
      if text = [] then ret ()
      else if \<not> startswith text (u ''/'') then
        bnd (gets (\<lambda>s. active (ct_model s))) (\<lambda>act.
          if act = None then say (u ''  ! nobody selected -- try /to bob'')
          else bnd (echoed lower (ct_send c text)) (\<lambda>r. if r = None then say (u ''  ! not sent'') else ret ()))
      else if command \<in> {u ''/quit'', u ''/exit''} then modify (\<lambda>s. s\<lparr>con_running := False\<rparr>)
      else if command = u ''/help'' then say HELP
      else if command = u ''/who'' then bnd (gets (\<lambda>s. online_users (ct_model s))) (\<lambda>ns. say (u ''  online: '' @ or_else ''(nobody else)'' ns))
      else if command = u ''/to'' then
        (if argument \<noteq> [] then echoed lower (ct_select argument) else say (u ''  ! usage: /to <user|#room>''))
      else if command = u ''/history'' then ask_history
      else if command = u ''/chats'' then chats lower
      else if command \<in> {u ''/create'', u ''/join'', u ''/leave''} then room_command lower command argument
      else if command = u ''/rooms'' then
        bnd (gets (\<lambda>s. my_rooms (ct_model s))) (\<lambda>rs. say (u ''  rooms: '' @ or_else ''(none -- try /create #general)'' rs))
      else if command = u ''/members'' then list_members
      else if command = u ''/typing'' then ct_typing (argument \<noteq> u ''off'')
      else say (u ''  ! unknown command '' @ command @ u '' -- try /help''))"

subsection \<open>The loop\<close>

definition dispatch :: "crypto \<Rightarrow> (ustr \<Rightarrow> ustr) \<Rightarrow> inbox_item \<Rightarrow> ('z console_scheme, unit) py" where
  "dispatch c lower item = (case item of
       In_Frame f \<Rightarrow> echoed lower (on_frame c f)
     | In_State st \<Rightarrow> echoed lower (on_state st)
     | In_Input line \<Rightarrow> typed c lower line
     | In_Stop \<Rightarrow> ret ())"

text \<open>One turn of the loop of \<open>run\<close>; \<open>False\<close> leaves it. The queue is not empty.\<close>

definition run_turn :: "crypto \<Rightarrow> (ustr \<Rightarrow> ustr) \<Rightarrow> ('z console_scheme, bool) py" where
  "run_turn c lower = bnd (gets con_inbox) (\<lambda>inbox. case inbox of [] \<Rightarrow> ret True
     | item # rest \<Rightarrow>
       andthen (modify (\<lambda>s. s\<lparr>con_inbox := rest\<rparr>))
       (if item = In_Stop then ret False
        else andthen (rescue (dispatch c lower item) (\<lambda>e. print_out (Failure e)))
            (andthen prompt (gets con_running))))"

text \<open>\<open>run\<close> until it ends or waits on an empty queue; the items still to come are posted one by one.\<close>

fun run_loop :: "crypto \<Rightarrow> (ustr \<Rightarrow> ustr) \<Rightarrow> inbox_item list \<Rightarrow> ('z console_scheme, unit) py" where
  "run_loop c lower [] = ret ()"
| "run_loop c lower (item # items) = andthen (modify (post item)) (bnd (run_turn c lower) (\<lambda>go.
     if go then run_loop c lower items else modify (\<lambda>s. s\<lparr>ct_model := unsubscribe view_id (ct_model s)\<rparr>)))"

definition console_run :: "crypto \<Rightarrow> (ustr \<Rightarrow> ustr) \<Rightarrow> inbox_item list \<Rightarrow> ('z console_scheme, unit) py" where
  "console_run c lower items = andthen (modify (\<lambda>s. s\<lparr>con_running := True\<rparr>)) (andthen banner (andthen prompt (run_loop c lower items)))"

subsection \<open>A view must not die\<close>

text \<open>A line that is no \<open>/quit\<close>.\<close>

definition stays :: "inbox_item \<Rightarrow> bool" where
  "stays item = (case item of In_Stop \<Rightarrow> False
     | In_Input line \<Rightarrow> takeWhile (\<lambda>ch. ch \<noteq> 32) (strip line) \<notin> {u ''/quit'', u ''/exit''} | _ \<Rightarrow> True)"

definition view_part :: "'z console_scheme \<Rightarrow> inbox_item list \<times> bool \<times> (printed \<Rightarrow> exn option)" where
  "view_part s = (con_inbox s, con_running s, con_tty s)"

definition view_kept :: "'z console_scheme \<Rightarrow> 'z console_scheme \<Rightarrow> bool" where
  "view_kept s t \<longleftrightarrow> view_part t = view_part s \<and> length (filter (\<lambda>p. \<exists>k. p = Prompt k) (con_out t)) = length (filter (\<lambda>p. \<exists>k. p = Prompt k) (con_out s))"

interpretation vk: world_rel view_kept
  by unfold_locales (auto simp: view_kept_def view_part_def)

lemma kept_view:
  fixes m :: "('z console_scheme, 'a) py"
  assumes "runs_in same_view m"
  shows "runs_in view_kept m"
proof -
  have "view_kept s t" if "same_view s t" for s t :: "'z console_scheme"
    using that by (cases s; cases t) (simp add: same_view_def view_kept_def view_part_def)
  then show ?thesis using assms by (simp add: runs_in_def)
qed

lemma kept_echoed:
  fixes m :: "('z console_scheme, 'a) py"
  assumes "runs_in same_view m"
  shows "runs_in view_kept (echoed lower m)"
  unfolding runs_in_def
proof
  fix s :: "'z console_scheme"
  have "view_kept s (after m s)" by (rule runs_at [OF kept_view [OF assms]])
  then show "view_kept s (after (echoed lower m) s)"
    by (cases "m s") (simp add: echoed_def view_kept_def view_part_def filter_empty_conv)
qed

lemma kept_print: "(\<And>k. p \<noteq> Prompt k) \<Longrightarrow> runs_in view_kept (print_out p)"
  by (simp add: runs_in_def print_out_def view_kept_def view_part_def split: option.split)

lemma kept_say: "runs_in view_kept (say l)"
  unfolding say_def by (rule kept_print) simp

lemma kept_none: "runs_in view_kept (select_nothing lower)"
proof -
  have "runs_in view_kept (echoed lower (on_model (select None)))" by (intro kept_echoed vw.runs_on_model steady_calls)
  then show ?thesis
    unfolding select_nothing_def by (intro vk.runs_rules) (simp add: runs_in_modify view_kept_def view_part_def)
qed

lemma kept_room_command: "runs_in view_kept (room_command lower command room)"
  unfolding room_command_def by (intro vk.runs_rules kept_say kept_none kept_view vw.runs_cn)

lemma kept_typed:
  assumes "stays (In_Input line)"
  shows "runs_in view_kept (typed c lower line)"
proof -
  have "takeWhile (\<lambda>ch. ch \<noteq> 32) (strip line) \<in> {u ''/quit'', u ''/exit''} \<longleftrightarrow> False" using assms by (simp add: stays_def)
  then show ?thesis unfolding typed_def Let_def list_members_def ask_history_def chats_def
    by (simp only: if_False) (intro vk.runs_rules kept_say kept_room_command kept_echoed kept_view vw.runs_ct_send vw.runs_select vw.runs_gestures)
qed

lemma kept_dispatch: "stays item \<Longrightarrow> runs_in view_kept (dispatch c lower item)"
  by (cases item) (auto simp: dispatch_def stays_def [of In_Stop] intro: kept_typed kept_echoed vw.runs_on_frame vw.runs_on_state)

definition prompts :: "'z console_scheme \<Rightarrow> nat" where
  "prompts s = length (filter (\<lambda>p. \<exists>k. p = Prompt k) (con_out s))"

definition report :: "(exn + unit) \<Rightarrow> printed list" where
  "report r = (case r of Inl e \<Rightarrow> [Failure e] | Inr _ \<Rightarrow> [])"

lemma posted: "con_inbox s = [] \<Longrightarrow> (post item s)\<lparr>con_inbox := []\<rparr> = s"
  by (simp add: post_def)

text \<open>What one turn makes of an item, up to the prompt.\<close>

lemma turn_until_prompt:
  assumes "stays item" and "con_inbox s = []" and "\<forall>e. con_tty s (Failure e) = None" and "dispatch c lower item s = (r, t)"
  shows "run_turn c lower (post item s) = andthen prompt (gets con_running) (t\<lparr>con_out := con_out t @ report r\<rparr>)" "view_kept s t"
proof -
  show k: "view_kept s t" by (rule runs_inD [OF kept_dispatch [OF assms(1)] assms(4)])
  then have tty: "\<forall>e. con_tty t (Failure e) = None" using assms(3) by (simp add: view_kept_def view_part_def)
  have m: "rescue (dispatch c lower item) (\<lambda>e. print_out (Failure e)) s = (Inr (), t\<lparr>con_out := con_out t @ report r\<rparr>)"
    using assms(4) tty by (cases r) (simp_all add: rescue_def print_out_def report_def)
  have i: "con_inbox (post item s) = [item]" "item \<noteq> In_Stop" using assms(1,2) by (auto simp: post_def stays_def)
  show "run_turn c lower (post item s) = andthen prompt (gets con_running) (t\<lparr>con_out := con_out t @ report r\<rparr>)"
    unfolding run_turn_def bnd_simps i(1) list.case andthen_simps using m i(2) posted [OF assms(2)] by (simp add: andthen_Inr)
qed

lemma turn_runs:
  assumes "stays item" and "con_inbox s = []" and "con_running s" and "\<forall>p. con_tty s p = None" and "dispatch c lower item s = (r, t)"
    and "t' = t\<lparr>con_out := con_out t @ report r @ [Prompt (prompt_of t)]\<rparr>"
  shows "run_turn c lower (post item s) = (Inr True, t')" "con_inbox t' = []" "con_running t'" "\<forall>p. con_tty t' p = None"
    "prompts t' = Suc (prompts s)"
proof -
  have "\<forall>e. con_tty s (Failure e) = None" using assms(4) by blast
  note k = turn_until_prompt [OF assms(1,2) this assms(5)]
  then have f: "con_inbox t = []" "con_running t" "\<forall>p. con_tty t p = None" "prompts t = prompts s"
    using assms(2-4) by (simp_all add: view_kept_def view_part_def prompts_def)
  have "prompt_of (t\<lparr>con_out := con_out t @ report r\<rparr>) = prompt_of t" by (simp add: prompt_of_def)
  then show "run_turn c lower (post item s) = (Inr True, t')"
    using k(1) f assms(6) by (simp add: prompt_def print_out_def andthen_def bnd_def)
  show "con_inbox t' = []" "con_running t'" "\<forall>p. con_tty t' p = None" using f assms(6) by simp_all
  show "prompts t' = Suc (prompts s)" using f(4) assms(6) by (cases r) (simp_all add: prompts_def report_def)
qed

lemma loop_runs:
  assumes "list_all stays items" and "con_inbox s = []" and "con_running s" and "\<forall>p. con_tty s p = None"
  shows "\<exists>t. run_loop c lower items s = (Inr (), t) \<and> con_running t \<and> con_inbox t = [] \<and> (\<forall>p. con_tty t p = None) \<and>
    prompts t = prompts s + length items \<and> (\<forall>more. run_loop c lower (items @ more) s = run_loop c lower more t)"
  using assms
proof (induction items arbitrary: s)
  case (Cons item items)
  obtain r t where d: "dispatch c lower item s = (r, t)" by (cases "dispatch c lower item s")
  have item: "stays item" "list_all stays items" using Cons.prems(1) by simp_all
  note turn = turn_runs [OF item(1) Cons.prems(2-4) d refl]
  let ?t = "t\<lparr>con_out := con_out t @ report r @ [Prompt (prompt_of t)]\<rparr>"
  have step: "run_loop c lower (item # rest) s = run_loop c lower rest ?t" for rest
    using turn(1) by (simp add: bnd_def)
  show ?case
    using Cons.IH [OF item(2) turn(2-4)] turn(5) unfolding append_Cons step by auto
qed simp

text \<open>C23: the console does not die. On a terminal that prints what it is given, whatever frames and states
  arrive and whatever is typed, short of \<open>/quit\<close>, \<open>/exit\<close> or the end of the input, the loop takes every
  item and is still running. What it does to each is what handling that item does; if that ended with
  an exception, the exception is printed; and then the prompt is printed, with the name of the
  conversation on screen.\<close>

theorem console_never_dies:
  assumes "list_all stays items" and "con_inbox s = []" and "con_running s" and "\<forall>p. con_tty s p = None"
  shows "(\<exists>t. run_loop c lower items s = (Inr (), t) \<and> con_running t \<and> con_inbox t = [] \<and> prompts t = prompts s + length items) \<and>
    (\<forall>pre item rest. items = pre @ item # rest \<longrightarrow>
      (\<exists>s1 r t1. run_loop c lower pre s = (Inr (), s1) \<and> dispatch c lower item s1 = (r, t1) \<and>
        run_loop c lower (pre @ [item]) s = (Inr (), t1\<lparr>con_out := con_out t1 @
          (case r of Inl e \<Rightarrow> [Failure e] | Inr _ \<Rightarrow> []) @ [Prompt (prompt_of t1)]\<rparr>)))"
proof (intro conjI allI impI)
  show "\<exists>t. run_loop c lower items s = (Inr (), t) \<and> con_running t \<and> con_inbox t = [] \<and> prompts t = prompts s + length items"
    using loop_runs [OF assms] by blast
next
  fix pre item rest assume i: "items = pre @ item # rest"
  then have l: "list_all stays pre" "stays item" using assms(1) by simp_all
  obtain s1 where s1: "run_loop c lower pre s = (Inr (), s1)" "con_running s1" "con_inbox s1 = []" "\<forall>p. con_tty s1 p = None"
    "\<forall>more. run_loop c lower (pre @ more) s = run_loop c lower more s1" using loop_runs [OF l(1) assms(2-4)] by blast
  obtain r t1 where d: "dispatch c lower item s1 = (r, t1)" by (cases "dispatch c lower item s1")
  show "\<exists>s1 r t1. run_loop c lower pre s = (Inr (), s1) \<and> dispatch c lower item s1 = (r, t1) \<and>
        run_loop c lower (pre @ [item]) s = (Inr (), t1\<lparr>con_out := con_out t1 @
          (case r of Inl e \<Rightarrow> [Failure e] | Inr _ \<Rightarrow> []) @ [Prompt (prompt_of t1)]\<rparr>)"
    using s1(1) d turn_runs(1) [OF l(2) s1(3,2,4) d refl] s1(5) by (simp add: bnd_def report_def)
qed

text \<open>The prompt is printed outside the \<open>try\<close> of \<open>run\<close>. A terminal that refuses it, because it cannot encode
  the name of the conversation on screen, ends the loop with that exception, in the middle of the
  input and with the view still subscribed.\<close>

theorem refused_prompt_ends_console:
  assumes "stays item" and "con_inbox s = []" and "\<forall>x. con_tty s (Failure x) = None"
    and "dispatch c lower item s = (r, t)" and "con_tty s (Prompt (prompt_of t)) = Some e"
  shows "outcome (run_loop c lower (item # items)) s = Inl e \<and> ct_model (after (run_loop c lower (item # items)) s) = ct_model t"
proof -
  note k = turn_until_prompt [OF assms(1-4)]
  have "con_tty t (Prompt (prompt_of t)) = Some e" using k(2) assms(5) by (simp add: view_kept_def view_part_def)
  then show ?thesis using k(1) by (simp add: bnd_def andthen_def prompt_def print_out_def prompt_of_def)
qed

subsection \<open>Leaving the room on screen\<close>

text \<open>Leaving the room that is on screen sends the request, but then fails with an
  \<open>AttributeError\<close>, because the controller's \<open>select\<close> takes only names; and from then on \<open>/chats\<close>
  fails every time, because a conversation without a name is left behind in the model.\<close>

theorem leaving_breaks_chats:
  assumes "room_key room" and "active (ct_model s) = Some room" and "can_queue (Suc 0) s"
  shows "\<exists>t. room_command lower (u ''/leave'') room s = (Inl Attribute_Error, t) \<and> active (ct_model t) = None \<and>
    (\<exists>f. lk_outbox t = lk_outbox s @ [Link_Item f] \<and> f_type f = LEAVE) \<and>
    chats lower t = (Inl Attribute_Error, t)"
proof -
  have "room \<noteq> []" using assms(1) by (auto simp: room_key_def startswith_def u_def)
  moreover have "active (select None m) = None" for m by (simp add: select_def)
  ultimately show ?thesis
    using assms tell_run [OF assms(3)]
    by (simp add: room_command_def cn_leave_def andthen_def bnd_def select_nothing_def echoed_def chats_def next_frame_def)
qed

subsection \<open>Concrete instances\<close>

definition sample_console :: "chat_model \<Rightarrow> console" where
  "sample_console m = client.extend (sample_client None m []) (console.fields [] True False [] (\<lambda>_. None))"

lemmas sample_console_defs = sample_console_def sample_client_def client.extend_def console.fields_def

definition sample_items :: "inbox_item list" where
  "sample_items = [In_Frame sample_frame, In_Input (u ''/chats'')]"

text \<open>After \<open>/leave\<close> of the room on screen; and on a terminal that prints ASCII only.\<close>

definition broken_console :: "chat_model \<Rightarrow> console" where
  "broken_console m = (sample_console m)\<lparr>con_none := True\<rparr>"

definition ascii_console :: "chat_model \<Rightarrow> console" where
  "ascii_console m = (sample_console m)\<lparr>con_tty := (\<lambda>p. case p of Prompt k \<Rightarrow> if list_all (\<lambda>ch. ch < 128) k then None else Some Unicode_Encode_Error | _ \<Rightarrow> None)\<rparr>"

lemma none_stays: "runs_in same_view m \<Longrightarrow> con_none (after m s) = con_none s" for s :: "'z console_scheme" and m :: "('z console_scheme, 'a) py"
proof -
  assume "runs_in same_view m"
  then have "same_view s (after m s)" by (rule runs_at)
  then show ?thesis by (cases s; cases "after m s") (simp add: same_view_def)
qed

lemma broken_frame: "con_none (after (run_loop c lower [In_Frame f]) (broken_console m))"
proof -
  let ?s = "broken_console m"
  obtain r t where d: "dispatch c lower (In_Frame f) ?s = (r, t)" by (cases "dispatch c lower (In_Frame f) ?s")
  have i: "stays (In_Frame f)" "con_inbox ?s = []" "con_running ?s" "\<forall>p. con_tty ?s p = None"
    by (simp_all add: stays_def broken_console_def sample_console_defs)
  have "con_none (after (on_frame c f) ?s) = con_none ?s" by (rule none_stays [OF vw.runs_on_frame])
  then have "con_none t" using d by (cases "on_frame c f ?s") (auto simp: dispatch_def echoed_def broken_console_def)
  then show ?thesis using turn_runs(1) [OF i d refl] by (simp add: bnd_def)
qed

text \<open>\<open>/chats\<close> fails here, because a conversation without a name was left behind, and the failure is reported.\<close>

theorem console_never_dies_witness:
  "(\<exists>t. run_loop toy_crypto id sample_items (broken_console (sample_model None)) = (Inr (), t) \<and> con_running t \<and>
      prompts t = prompts (broken_console (sample_model None)) + 2) \<and>
   (\<exists>s1 t1. run_loop toy_crypto id [In_Frame sample_frame] (broken_console (sample_model None)) = (Inr (), s1) \<and>
      run_loop toy_crypto id sample_items (broken_console (sample_model None)) =
        (Inr (), t1\<lparr>con_out := con_out t1 @ [Failure Attribute_Error, Prompt (prompt_of t1)]\<rparr>))"
proof -
  let ?s = "broken_console (sample_model None)"
  have l: "list_all stays sample_items" by (simp add: sample_items_def stays_def u_def strip_def rstrip_by_def is_space_def)
  have i: "con_inbox ?s = []" "con_running ?s" "\<forall>p. con_tty ?s p = None"
    by (simp_all add: broken_console_def sample_console_defs)
  note dies = console_never_dies [OF l i, of toy_crypto id]
  have "sample_items = [In_Frame sample_frame] @ In_Input (u ''/chats'') # []" by (simp add: sample_items_def)
  then obtain s1 r t1 where s1: "run_loop toy_crypto id [In_Frame sample_frame] ?s = (Inr (), s1)"
    "dispatch toy_crypto id (In_Input (u ''/chats'')) s1 = (r, t1)"
    "run_loop toy_crypto id ([In_Frame sample_frame] @ [In_Input (u ''/chats'')]) ?s =
      (Inr (), t1\<lparr>con_out := con_out t1 @ (case r of Inl e \<Rightarrow> [Failure e] | Inr _ \<Rightarrow> []) @ [Prompt (prompt_of t1)]\<rparr>)"
    using dies by blast
  have none: "con_none s1" using broken_frame [of toy_crypto id sample_frame "sample_model None"] unfolding s1(1) by simp
  have "dispatch toy_crypto id (In_Input (u ''/chats'')) s1 = (Inl Attribute_Error, s1)"
    using none by (simp add: dispatch_def typed_def Let_def u_def strip_def rstrip_by_def is_space_def startswith_def chats_def bnd_def)
  then have "r = Inl Attribute_Error" using s1(2) by simp
  then show ?thesis using dies s1(1,3) by (auto simp: sample_items_def)
qed

theorem refused_prompt_ends_console_witness:
  "outcome (run_loop toy_crypto id [In_State (u ''RETRYING''), In_Input (u ''hello'')]) (ascii_console (sample_model (Some [233]))) =
     Inl Unicode_Encode_Error"
proof -
  let ?s = "ascii_console (sample_model (Some [233]))"
  obtain r t where d: "dispatch toy_crypto id (In_State (u ''RETRYING'')) ?s = (r, t)" by (cases "dispatch toy_crypto id (In_State (u ''RETRYING'')) ?s")
  have s: "stays (In_State (u ''RETRYING''))" "con_inbox ?s = []" "\<forall>x. con_tty ?s (Failure x) = None"
    by (simp_all add: stays_def ascii_console_def sample_console_defs)
  have "prompt_of t = [233]" using d
    by (auto simp: dispatch_def echoed_def on_state_def on_model_def set_connection_state_def prompt_of_def ascii_console_def sample_console_defs sample_model_def)
  then have "con_tty ?s (Prompt (prompt_of t)) = Some Unicode_Encode_Error" by (simp add: ascii_console_def)
  from refused_prompt_ends_console [OF s d this] show ?thesis by blast
qed

theorem leaving_breaks_chats_witness:
  "\<exists>t. room_command id (u ''/leave'') (u ''#den'') (sample_console (sample_model (Some (u ''#den'')))) = (Inl Attribute_Error, t) \<and>
     chats id t = (Inl Attribute_Error, t)"
proof -
  let ?s = "sample_console (sample_model (Some (u ''#den'')))"
  have "active (ct_model ?s) = Some (u ''#den'')" by (simp add: sample_console_defs sample_model_def)
  moreover have "can_queue (Suc 0) ?s"
    by (simp add: can_queue_def sample_console_defs session_can_send_def link_can_send_def mc_can_send_def LINK_OUTBOX_LIMIT_def)
  ultimately show ?thesis using leaving_breaks_chats [OF hi_not_blank(4), of ?s id] by blast
qed

end
