(* ===== verification/Entry.thy ===== *)
theory Entry
  imports Startup Console Connections
begin

section \<open>The entry points\<close>

text \<open>
  \<open>im/client/__main__.py\<close>, \<open>im/server/__main__.py\<close> and \<open>im/crypto/tls.py\<close>: who the client is, the two views it can
  run, the server's life from one start to the next, and the files TLS is set up from. Arguments are
  taken as parsed. The file system is a dictionary from paths to contents. SHA-256, the issuing of
  certificates and whether a certificate belongs to a key are parameters.
\<close>

subsection \<open>Who the client is\<close>

definition hex :: "byte list \<Rightarrow> ustr" where
  "hex bs = concat (map (\<lambda>b. [hex_digit (unat b div 16), hex_digit (unat b mod 16)]) bs)"

definition hash_password :: "(byte list \<Rightarrow> byte list) \<Rightarrow> ustr \<Rightarrow> exn + ustr" where
  "hash_password sha256 password = (case utf8_encode password of Inl e \<Rightarrow> Inl e | Inr bs \<Rightarrow> Inr (hex (sha256 bs)))"

record args =
  a_user :: "ustr option"
  a_password :: "ustr option"
  a_register :: bool
  a_keyfile :: "ustr option"
  a_plaintext :: bool

text \<open>\<open>args.x or ...\<close>: an option that is missing or empty is asked for or given its default.\<close>

definition given :: "ustr option \<Rightarrow> ustr \<Rightarrow> ustr" where
  "given opt other = (case opt of None \<Rightarrow> other | Some v \<Rightarrow> if v = [] then other else v)"

definition keyfile :: "args \<Rightarrow> ustr \<Rightarrow> ustr" where
  "keyfile a name = given (a_keyfile a) (u ''keys/'' @ name @ u ''.key'')"

text \<open>The first half of \<open>main\<close>: \<open>name\<close> and \<open>pw\<close> are what is typed when asked, \<open>fresh\<close> is the key that is
  generated if there is none on file.\<close>

definition identify :: "(byte list \<Rightarrow> byte list) \<Rightarrow> byte list \<Rightarrow> args \<Rightarrow> ustr \<Rightarrow> ustr \<Rightarrow> ((ustr, byte list) dict, ustr \<times> ustr \<times> keyring option) py" where
  "identify sha256 fresh a name pw =
     (let me = given (a_user a) (strip name); password = given (a_password a) pw in
      bnd (lift (hash_password sha256 password)) (\<lambda>digest.
      if a_plaintext a then ret (me, digest, None)
      else bnd (load_or_create fresh (keyfile a me)) (\<lambda>private. ret (me, digest, Some (new_keyring private [])))))"

text \<open>The session, the model and the controller, new.\<close>

definition new_client :: "crypto \<Rightarrow> ustr \<times> ustr \<times> keyring option \<Rightarrow> 'z client_scheme \<Rightarrow> 'z client_scheme" where
  "new_client c who s = (case who of (me, digest, ring) \<Rightarrow>
     s\<lparr>se_user := me, se_pass := digest, se_pubkey := map_option (\<lambda>kr. public_b64 c (kr_private kr)) ring,
       se_has := False, se_stopped := False, se_supervised := False, se_reconnects := 0, se_backoff := new_backoff,
       ct_model := new_chat_model, ct_ring := ring, ct_held := [], ct_awaiting := [], ct_pending_user := None, ct_pending_room := None\<rparr>)"

subsection \<open>The client with the console\<close>

definition con_replay :: "crypto \<Rightarrow> (ustr \<Rightarrow> ustr) \<Rightarrow> frame \<Rightarrow> ('z console_scheme, unit) py" where
  "con_replay c lower reply =
     andthen (echoed lower (on_frame c reply)) (bnd (gets session_state) (\<lambda>st. echoed lower (on_state (conn_name st))))"

text \<open>\<open>items\<close> is what the other threads post while the view runs: frames, states and lines typed.\<close>

definition console_main :: "crypto \<Rightarrow> (ustr \<Rightarrow> ustr) \<Rightarrow> bool \<Rightarrow> bool \<Rightarrow> io list \<Rightarrow> io list \<Rightarrow> io list \<Rightarrow> inbox_item list \<Rightarrow>
    ('z console_scheme, nat) py" where
  "console_main c lower reg dialled ios1 ios2 ios3 items =
     andthen (modify new_console)
     (bnd (start_session reg dialled ios1 ios2 ios3) (\<lambda>r. case r of None \<Rightarrow> ret 1
      | Some reply \<Rightarrow> if f_type reply = ERROR then ret 1
        else andthen (finally_do (andthen (con_replay c lower reply) (console_run c lower items)) session_close) (ret 0)))"

subsection \<open>Certificates\<close>

text \<open>\<open>issue\<close> makes a self-signed certificate for a name, and its key.\<close>

definition generate_self_signed :: "(ustr \<Rightarrow> byte list \<times> byte list) \<Rightarrow> ustr \<Rightarrow> ustr \<Rightarrow> ustr \<Rightarrow> ((ustr, byte list) dict, unit) py" where
  "generate_self_signed issue cert_path key_path name = bnd (gets (\<lambda>fs. (dict_get fs cert_path, dict_get fs key_path))) (\<lambda>(cert, key).
     if cert \<noteq> None \<and> key \<noteq> None then ret ()
     else andthen (modify (\<lambda>fs. dict_set fs cert_path (fst (issue name))))
         (modify (\<lambda>fs. dict_set fs key_path (snd (issue name)))))"

text \<open>A context: the oldest version of TLS that is spoken, the certificate that is shown, the ones that
  are trusted beside the system's if the system's are, and whether the peer's name is checked.\<close>

record tls_context =
  cx_minimum :: "nat \<times> nat"
  cx_chain :: "byte list option"
  cx_system :: bool
  cx_trusted :: "byte list list"
  cx_verified :: bool

text \<open>A missing file, and a key that is not the certificate's, make the call raise: \<open>None\<close>.\<close>

definition server_context :: "(byte list \<Rightarrow> byte list \<Rightarrow> bool) \<Rightarrow> ustr \<Rightarrow> ustr \<Rightarrow> (ustr, byte list) dict \<Rightarrow> tls_context option" where
  "server_context belongs cert_path key_path fs = (case (dict_get fs cert_path, dict_get fs key_path) of
       (Some cert, Some key) \<Rightarrow> if belongs cert key
         then Some \<lparr>cx_minimum = (1, 2), cx_chain = Some cert, cx_system = False, cx_trusted = [], cx_verified = False\<rparr> else None
     | _ \<Rightarrow> None)"

definition client_context :: "ustr option \<Rightarrow> (ustr, byte list) dict \<Rightarrow> tls_context option" where
  "client_context cert_path fs = (let cx = \<lparr>cx_minimum = (1, 2), cx_chain = None, cx_system = True, cx_trusted = [], cx_verified = True\<rparr> in
     case cert_path of None \<Rightarrow> Some cx
     | Some path \<Rightarrow> (case dict_get fs path of None \<Rightarrow> None | Some cert \<Rightarrow> Some (cx\<lparr>cx_trusted := [cert]\<rparr>)))"

subsection \<open>The server's life\<close>

text \<open>\<open>main\<close> of the server: whatever the threads did until the interrupt, then \<open>shutdown\<close>.\<close>

definition served :: "'z database_scheme \<Rightarrow> chat_server \<Rightarrow> bool" where
  "served d t \<longleftrightarrow> (\<exists>s. reachable d s \<and> t = shutdown s)"

text \<open>A server that is started again on the same file, any number of times.\<close>

inductive lifetimes :: "'z database_scheme \<Rightarrow> chat_server \<Rightarrow> bool" for d where
  First: "served d t \<Longrightarrow> lifetimes d t"
| Again: "lifetimes d s \<Longrightarrow> served s t \<Longrightarrow> lifetimes d t"

subsection \<open>A restart keeps the identity\<close>

lemma identify_again:
  assumes "identify sha256 fresh a name pw fs = (Inr (me, digest, Some kr), fs1)" and "length fresh = 32"
  shows "identify sha256 fresh2 a name pw fs1 = (Inr (me, digest, Some kr), fs1)" "kr = new_keyring (kr_private kr) []"
proof -
  let ?me = "given (a_user a) (strip name)"
  obtain d where d: "hash_password sha256 (given (a_password a) pw) = Inr d"
    using assms(1) by (cases "hash_password sha256 (given (a_password a) pw)") (auto simp: identify_def Let_def bnd_def)
  have pl: "\<not> a_plaintext a" using assms(1) d by (auto simp: identify_def Let_def)
  obtain r fs2 where l: "load_or_create fresh (keyfile a ?me) fs = (r, fs2)" by (cases "load_or_create fresh (keyfile a ?me) fs")
  then obtain k where k: "r = Inr k" "me = ?me" "digest = d" "kr = new_keyring k []" "fs2 = fs1"
    using assms(1) d pl by (cases r) (auto simp: identify_def Let_def bnd_def)
  then have "load_or_create fresh2 (keyfile a ?me) fs1 = (Inr k, fs1)" using key_survives_restart [OF _ assms(2)] l by simp
  then show "identify sha256 fresh2 a name pw fs1 = (Inr (me, digest, Some kr), fs1)"
    using d pl k by (simp add: identify_def Let_def bnd_def)
  show "kr = new_keyring (kr_private kr) []" using k(4) by (simp add: new_keyring_def)
qed

lemma new_ring_honest: "honest c priv who (new_keyring (priv who) [])"
  by (simp add: honest_def new_keyring_ok) (simp add: new_keyring_def)

text \<open>C39: a restart keeps the identity. Started again on the same files, the client publishes the key it
  published before, whatever key would be generated then; and what somebody sealed for it during
  the first run opens to the text that was typed, once the second run has their public key.\<close>

theorem restart_reads_old_messages:
  assumes "crypto_ok c" and "identify sha256 fresh a name pw fs = (Inr (me, digest, Some kr), fs1)" and "length fresh = 32"
    and "priv me = kr_private kr" and "honest c priv bob kb" and "reaches me kb" and "bob \<noteq> []"
    and "kr_seal c nonce me text bob kb = (Inr (Some (ct, nn)), kb')"
  shows "\<exists>kr2. identify sha256 fresh2 a name pw fs1 = (Inr (me, digest, Some kr2), fs1) \<and>
    se_pubkey (new_client c (me, digest, Some kr2) s) = Some (public_b64 c (priv me)) \<and>
    outcome (kr_open c bob (PStr ct) (PStr nn) bob) (kr_remember bob (public_b64 c (priv bob)) kr2) = Inr text"
proof -
  note i = identify_again [OF assms(2,3)]
  have h: "honest c priv me kr" using new_ring_honest [of c priv me] i(2) assms(4) by simp
  note r = honest_remember [OF h, of bob]
  obtain k where "key_for c (priv bob) (public_b64 c (priv me)) = Inr k" "seal c k nonce text bob = Inr (ct, nn)"
    using kr_seal_Some(1) [OF assms(5,8,6)] by blast
  then have "outcome (kr_open c bob (PStr ct) (PStr nn) bob) (kr_remember bob (public_b64 c (priv bob)) kr) = Inr text"
    using kr_open_key [OF assms(1) r(1)] r(2) assms(7) by blast
  then show ?thesis using i(1) assms(4) by (intro exI [of _ kr]) (simp add: new_client_def)
qed

subsection \<open>The session is closed in the end\<close>

lemma session_close_stops: "se_stopped (after session_close s) \<and> \<not> se_has (after session_close s)"
proof -
  let ?s = "s\<lparr>se_stopped := True, se_has := False\<rparr>"
  have "same_owner ?s (after link_close ?s)" by (rule runs_at [OF link_close_owner])
  then have "se_stopped (after link_close ?s) \<and> \<not> se_has (after link_close ?s)"
    by (cases s; cases "after link_close ?s") (simp add: same_owner_def)
  then show ?thesis by (simp add: session_close_def)
qed

lemma finally_after: "\<exists>s'. after (andthen (finally_do m fin) k) s = after (andthen fin k) s' \<or> after (andthen (finally_do m fin) k) s = after fin s'"
proof (cases "m s")
  case (Pair r s')
  then show ?thesis
    by (cases r; cases "fin s'"; cases "fst (fin s')")
      (auto simp: finally_do_def andthen_def bnd_def rescue_def intro!: exI [of _ s'])
qed

lemma closes_session: "let t = after (andthen (finally_do m session_close) (ret x)) s in se_stopped t \<and> \<not> se_has t"
proof -
  have "after (andthen session_close (ret x)) s' = after session_close s'" for s'
    by (cases "session_close s'"; cases "fst (session_close s')") (auto simp: andthen_def bnd_def)
  then show ?thesis using finally_after [of m session_close "ret x" s] session_close_stops unfolding Let_def by metis
qed

text \<open>The client always hangs up. Once the login was accepted, the session is closed and stopped
  when \<open>main\<close> ends, with the window or the console, however the view ended: told to quit, or by an
  exception that leaves the replay of the handshake.\<close>

theorem main_always_closes:
  fixes s1 :: tk_view and s2 :: console
  assumes "start_session reg dialled ios1 ios2 ios3 (new_tk_view s1) = (Inr (Some reply1), t1)" and "f_type reply1 \<noteq> ERROR"
    and "start_session reg dialled ios1 ios2 ios3 (new_console s2) = (Inr (Some reply2), t2)" and "f_type reply2 \<noteq> ERROR"
  shows "(let t = after (client_main c p cf reg dialled ios1 ios2 ios3 steps) s1 in se_stopped t \<and> \<not> session_can_send t) \<and>
    (let t = after (console_main c lower reg dialled ios1 ios2 ios3 items) s2 in se_stopped t \<and> \<not> session_can_send t)"
proof -
  have "client_main c p cf reg dialled ios1 ios2 ios3 steps s1 =
      andthen (finally_do (andthen (replay c p reply1) (main_loop c p cf steps)) session_close) (ret 0) t1"
    using assms(1,2) by (simp add: client_main_def bnd_def)
  moreover have "console_main c lower reg dialled ios1 ios2 ios3 items s2 =
      andthen (finally_do (andthen (con_replay c lower reply2) (console_run c lower items)) session_close) (ret 0) t2"
    using assms(3,4) by (simp add: console_main_def bnd_def)
  ultimately show ?thesis
    using closes_session [of "andthen (replay c p reply1) (main_loop c p cf steps)" "0::nat" t1]
      closes_session [of "andthen (con_replay c lower reply2) (console_run c lower items)" "0::nat" t2]
    by (simp only: Let_def session_can_send_def simp_thms)
qed

subsection \<open>Restarting the server\<close>

text \<open>A restart loses nothing. However often the server is stopped and started again on the same
  database, the tables keep their keys, nobody is online at the start, the next start finds every account,
  room, message, contact and every queued message, and the connections of before are closed.\<close>

theorem restart_loses_nothing:
  assumes "db_inv d" and "lifetimes d t"
  shows "db_inv t \<and> \<not> running t \<and> (\<forall>c<next_conn t. closed (conns t c)) \<and>
    (let s = start_server t in by_name s = [] \<and> t_users s = t_users t \<and> t_rooms s = t_rooms t \<and> t_members s = t_members t \<and>
      t_messages s = t_messages t \<and> t_pending s = t_pending t \<and> t_contacts s = t_contacts t)"
  using assms(2)
proof induction
  case (First t)
  then obtain s where s: "reachable d s" "t = shutdown s" by (auto simp: served_def)
  then have "server_ok t" using reachable_ok [OF s(1) assms(1)] shutdown_ok by simp
  then show ?case using s(2) by (auto simp: server_ok_def shutdown_def start_server_def)
next
  case (Again s t)
  then obtain r where r: "reachable s r" "t = shutdown r" by (auto simp: served_def)
  then have "server_ok t" using reachable_ok [OF r(1)] Again.IH shutdown_ok by simp
  then show ?case using r(2) by (auto simp: server_ok_def shutdown_def start_server_def)
qed

subsection \<open>TLS is set up from matching files\<close>

text \<open>The development certificate works. If the files are there already and belong together,
  or one of them is missing, then afterwards the server can load them, a client that is given the
  certificate trusts it and goes on checking the server's name, and a later start changes nothing.\<close>

theorem certificate_is_usable:
  assumes "cert_path \<noteq> key_path" and "\<And>n. belongs (fst (issue n)) (snd (issue n))"
    and "\<And>cert key. dict_get fs cert_path = Some cert \<Longrightarrow> dict_get fs key_path = Some key \<Longrightarrow> belongs cert key"
  shows "\<exists>fs' cert scx ccx. generate_self_signed issue cert_path key_path name fs = (Inr (), fs') \<and>
    server_context belongs cert_path key_path fs' = Some scx \<and> cx_chain scx = Some cert \<and>
    client_context (Some cert_path) fs' = Some ccx \<and> cx_trusted ccx = [cert] \<and> cx_verified ccx \<and>
    generate_self_signed issue' cert_path key_path name' fs' = (Inr (), fs')"
proof (cases "dict_get fs cert_path \<noteq> None \<and> dict_get fs key_path \<noteq> None")
  case True
  then show ?thesis using assms(3) by (auto simp: generate_self_signed_def server_context_def client_context_def Let_def)
next
  case False
  then show ?thesis
    using assms(1,2) by (auto simp: generate_self_signed_def server_context_def client_context_def Let_def andthen_def bnd_def dict_get_set)
qed

subsection \<open>Concrete instances\<close>

text \<open>A name of 32 letters, whose sample key is therefore of the length of a real one; nothing is on file.\<close>

definition long_name :: string where
  "long_name = replicate 32 CHR ''a''"

definition sample_args :: args where
  "sample_args = \<lparr>a_user = Some (u long_name), a_password = Some (u ''pw''), a_register = False, a_keyfile = None, a_plaintext = False\<rparr>"

lemma sample_identify:
  "identify id (sample_private (u long_name)) sample_args [] [] [] =
     (Inr (u long_name, hex [112, 119], Some (new_keyring (sample_private (u long_name)) [])),
      [(u ''keys/'' @ u long_name @ u ''.key'', sample_private (u long_name))])"
proof -
  have "u long_name \<noteq> []" by (simp add: u_def long_name_def)
  moreover have "utf8_encode (u ''pw'') = Inr [112, 119]" by (simp add: utf8_encode_def utf8_char_def is_scalar_def is_surrogate_def byte_of_def u_def)
  ultimately show ?thesis
    by (simp add: identify_def Let_def sample_args_def given_def hash_password_def keyfile_def load_or_create_def save_key_def bnd_def andthen_def)
qed

theorem restart_reads_old_messages_witness:
  "\<exists>ct nn kr2 fs1. outcome (kr_seal toy_crypto [7] (u long_name) (u ''hi'') (u ''bob'')) (sample_ring ''bob'' [long_name]) = Inr (Some (ct, nn)) \<and>
     identify id [] sample_args [] [] fs1 = (Inr (u long_name, hex [112, 119], Some kr2), fs1) \<and>
     outcome (kr_open toy_crypto (u ''bob'') (PStr ct) (PStr nn) (u ''bob''))
       (kr_remember (u ''bob'') (public_b64 toy_crypto (sample_private (u ''bob''))) kr2) = Inr (u ''hi'')"
proof -
  have n: "long_name \<noteq> []" "length (sample_private (u long_name)) = 32" by (simp_all add: long_name_def sample_private_def u_def)
  obtain ct nn kb where k: "kr_seal toy_crypto [7] (u long_name) (u ''hi'') (u ''bob'') (sample_ring ''bob'' [long_name]) = (Inr (Some (ct, nn)), kb)"
    using sample_seal [of long_name "[long_name]" "[7]" "''hi''" "''bob''"] n(1) by auto
  have r: "reaches (u long_name) (sample_ring ''bob'' [long_name])" using n(1) by (intro sample_reaches) simp_all
  have p: "sample_private (u long_name) = kr_private (new_keyring (sample_private (u long_name)) [])" by (simp add: new_keyring_def)
  from restart_reads_old_messages [OF toy_crypto_ok sample_identify n(2) p sample_honest r hi_not_blank(6) k, of "[]" "sample_client None new_chat_model []"]
  show ?thesis using k by (metis fst_conv)
qed

theorem main_always_closes_witness:
  "\<exists>bs t1 t2. start_session False True [] [] [Io_Recv (Some bs)] (new_tk_view (sample_tk None new_chat_model [] [] new_screen)) = (Inr (Some login_ok_frame), t1) \<and>
     start_session False True [] [] [Io_Recv (Some bs)] (new_console (sample_console new_chat_model)) = (Inr (Some login_ok_frame), t2) \<and>
     se_stopped (after (client_main toy_crypto plain_kit id False True [] [] [Io_Recv (Some bs)] []) (sample_tk None new_chat_model [] [] new_screen)) \<and>
     se_stopped (after (console_main toy_crypto id False True [] [] [Io_Recv (Some bs)] []) (sample_console new_chat_model))"
proof -
  let ?bs = "projr (encode login_ok_frame)" and ?s1 = "sample_tk None new_chat_model [] [] new_screen" and ?s2 = "sample_console new_chat_model"
  have e: "encode login_ok_frame = Inr ?bs" using encode_eq [OF login_ok_frame_wf] by simp
  have f: "f_type login_ok_frame = LOGIN_OK" by (simp add: login_ok_frame_def)
  obtain t1 where t1: "start_session False True [] [] [Io_Recv (Some ?bs)] (new_tk_view ?s1) = (Inr (Some login_ok_frame), t1)"
    using start_run [OF login_ok_frame_wf e f, of "new_tk_view ?s1"] by (auto simp: start_session_def bnd_def rescue_def)
  obtain t2 where t2: "start_session False True [] [] [Io_Recv (Some ?bs)] (new_console ?s2) = (Inr (Some login_ok_frame), t2)"
    using start_run [OF login_ok_frame_wf e f, of "new_console ?s2"] by (auto simp: start_session_def bnd_def rescue_def)
  from main_always_closes [OF t1 _ t2, of toy_crypto plain_kit id "[]" id "[]"] t1 t2 f show ?thesis by (auto simp: Let_def)
qed

end
