(* ===== verification/Look.thy ===== *)
theory Look
  imports Screen
begin

section \<open>What is painted\<close>

text \<open>
  The parts of \<open>im/client/view/tk/theme.py\<close>, \<open>widgets.py\<close> and \<open>backdrop.py\<close> that decide what is painted: the
  initials and the colour of an avatar, the corners of a bubble, the preview and the badge of a row, the
  texts of the transcript from top to bottom, and the cache of backgrounds. Lengths are numbers of
  pixels; fonts, the measuring of text and the pixels of the background are left out.
\<close>

subsection \<open>Avatars and shapes\<close>

definition AVATAR_COLOURS :: "string list" where
  "AVATAR_COLOURS = [''#FF8347'', ''#F7A072'', ''#E8A87C'', ''#C38D9E'', ''#7FB685'', ''#6C9BCF'', ''#B79ced'']"

text \<open>\<open>name.encode()\<close> raises on a lone surrogate.\<close>

definition avatar_colour :: "ustr \<Rightarrow> exn + string" where
  "avatar_colour name = (case utf8_encode name of Inl e \<Rightarrow> Inl e
     | Inr bs \<Rightarrow> Inr (AVATAR_COLOURS ! (sum_list (map unat bs) mod length AVATAR_COLOURS)))"

definition initials :: "toolkit \<Rightarrow> ustr \<Rightarrow> ustr" where
  "initials p name =
     (let cleaned = strip (dropWhile (\<lambda>ch. ch = 35) name) in
      if cleaned = [] then u ''?''
      else let parts = split_words cleaned in
        if 2 \<le> length parts then tk_upper p ([hd (parts ! 0)] @ [hd (parts ! 1)])
        else tk_upper p (take 2 cleaned))"

definition rounded_rect :: "rat \<Rightarrow> rat \<Rightarrow> rat \<Rightarrow> rat \<Rightarrow> rat \<Rightarrow> (rat \<times> rat) list" where
  "rounded_rect x1 y1 x2 y2 radius =
     (let r = min (min radius (\<bar>x2 - x1\<bar> / 2)) (\<bar>y2 - y1\<bar> / 2) in
      [(x1 + r, y1), (x2 - r, y1), (x2, y1), (x2, y1 + r), (x2, y2 - r), (x2, y2), (x2 - r, y2), (x1 + r, y2), (x1, y2),
       (x1, y2 - r), (x1, y1 + r), (x1, y1)])"

subsection \<open>Rows\<close>

text \<open>\<open>ConversationRow._draw\<close>: \<open>room\<close> characters of the preview fit in a row of width \<open>w\<close>; \<open>px130\<close> and \<open>px64\<close>
  are \<open>t.px(130)\<close> and \<open>t.px(6.4)\<close> on this display.\<close>

definition preview_room :: "int \<Rightarrow> int \<Rightarrow> int \<Rightarrow> nat" where
  "preview_room px130 px64 w = nat (max 6 \<lfloor>of_int (w - px130) / (of_int px64 :: rat)\<rfloor>)"

definition fit_preview :: "nat \<Rightarrow> ustr \<Rightarrow> ustr" where
  "fit_preview room preview = (if length preview > room then take (room - 1) preview @ [8230] else preview)"

definition badge :: "nat \<Rightarrow> ustr" where
  "badge n = (if n > 99 then u ''99+'' else nat_str n)"

subsection \<open>The transcript\<close>

text \<open>A bubble has the initials of whoever wrote it, unless it is one's own, its text and its time and ticks.\<close>

datatype painted = Divider ustr | Bubble "ustr option" ustr ustr | Small ustr | Small_Exc exn

definition ticks :: "ustr \<Rightarrow> ustr" where
  "ticks st = (if st = u ''SENT'' then [10003] else if st \<in> {u ''DELIVERED'', u ''READ''} then [10003, 10003] else [])"

definition meta :: "toolkit \<Rightarrow> chat_message \<Rightarrow> ustr" where
  "meta p msg = strip (clock p (msg_ts msg) @ u ''  '' @ (if msg_mine msg then ticks (msg_state msg) else []))"

definition avatar :: "toolkit \<Rightarrow> chat_message \<Rightarrow> ustr option" where
  "avatar p msg = (if msg_mine msg then None else Some (initials p (msg_sender msg)))"

text \<open>The loop of \<open>redraw\<close>; \<open>day\<close> is \<open>_day\<close>, which is empty for a message without a time.\<close>

fun paint_messages :: "(int \<Rightarrow> ustr) \<Rightarrow> toolkit \<Rightarrow> ustr \<Rightarrow> chat_message list \<Rightarrow> painted list" where
  "paint_messages day p last_day [] = []"
| "paint_messages day p last_day (msg # msgs) =
     (let d = day (msg_ts msg); new = (d \<noteq> [] \<and> d \<noteq> last_day) in
      (if new then [Divider d] else []) @ [Bubble (avatar p msg) (py_str (msg_body msg)) (meta p msg)] @
      paint_messages day p (if new then d else last_day) msgs)"

definition paint_notice :: "notice \<Rightarrow> painted" where
  "paint_notice n = (case n of Notice t \<Rightarrow> Small t | Notice_Exc e \<Rightarrow> Small_Exc e)"

definition paint :: "(int \<Rightarrow> ustr) \<Rightarrow> toolkit \<Rightarrow> screen \<Rightarrow> painted list" where
  "paint day p sc =
     (if sc_shown sc = [] \<and> sc_notices sc = []
      then [Small (if sc_empty sc = [] then u ''No messages yet'' else sc_empty sc),
            Small (u ''Say something -- it is encrypted before it leaves this machine.'')]
      else paint_messages day p [] (sc_shown sc) @ map paint_notice (sc_notices sc))"

subsection \<open>The background\<close>

definition QUANTUM :: int where
  "QUANTUM = 40"

definition quantised :: "int \<Rightarrow> int" where
  "quantised w = max QUANTUM ((w div QUANTUM + 1) * QUANTUM)"

text \<open>\<open>pixels\<close> paints the bitmap of a size; the cache is the module's \<open>_cache\<close>.\<close>

definition backdrop :: "(int \<times> int \<Rightarrow> 'img) \<Rightarrow> int \<Rightarrow> int \<Rightarrow> (int \<times> int, 'img) dict \<Rightarrow> 'img option \<times> (int \<times> int, 'img) dict" where
  "backdrop pixels w h cache =
     (if w < 40 \<or> h < 40 then (None, cache)
      else let key = (quantised w, quantised h);
               cache1 = (if dict_get cache key \<noteq> None then cache
                 else dict_set (if length cache > 6 then [] else cache) key (pixels key))
        in (dict_get cache1 key, cache1))"

subsection \<open>Shapes and rows\<close>

lemma rounded_rect_inside:
  assumes "x1 \<le> x2" and "y1 \<le> y2" and "0 \<le> radius" and "(x, y) \<in> set (rounded_rect x1 y1 x2 y2 radius)"
  shows "x1 \<le> x \<and> x \<le> x2 \<and> y1 \<le> y \<and> y \<le> y2"
proof -
  let ?r = "min (min radius (\<bar>x2 - x1\<bar> / 2)) (\<bar>y2 - y1\<bar> / 2)"
  have "0 \<le> ?r" "x1 + ?r \<le> x2" "y1 + ?r \<le> y2" using assms(1-3) by (auto simp: min_def field_simps)
  then show ?thesis using assms(1,2,4) unfolding rounded_rect_def Let_def by auto
qed

lemma avatar_colour_palette: "utf8_encode name = Inr bs \<Longrightarrow> \<exists>col. avatar_colour name = Inr col \<and> col \<in> set AVATAR_COLOURS"
proof -
  have "0 < length AVATAR_COLOURS" by (simp add: AVATAR_COLOURS_def)
  then show "utf8_encode name = Inr bs \<Longrightarrow> ?thesis" by (simp add: avatar_colour_def)
qed

lemma initials_nonempty:
  assumes "\<And>s. s \<noteq> [] \<Longrightarrow> tk_upper p s \<noteq> []"
  shows "initials p name \<noteq> []"
  using assms by (auto simp: initials_def Let_def u_def)

lemma fit_preview_fits: "0 < room \<Longrightarrow> length (fit_preview room preview) \<le> room \<and> (length preview \<le> room \<longrightarrow> fit_preview room preview = preview)"
  by (auto simp: fit_preview_def)

lemma badge_short: "length (badge n) \<le> 3"
proof (cases "n > 99")
  case False
  then have "nat_str n = (if n < 10 then [n + 48] else [n div 10 + 48, n mod 10 + 48])"
    by (subst nat_str.simps) (auto simp: nat_str.simps)
  then show ?thesis using False by (simp add: badge_def)
qed (simp add: badge_def u_def)

subsection \<open>The transcript shows every message under its day\<close>

fun bubbles :: "painted list \<Rightarrow> (ustr option \<times> ustr \<times> ustr) list" where
  "bubbles [] = []"
| "bubbles (Bubble who body mt # ps) = (who, body, mt) # bubbles ps"
| "bubbles (_ # ps) = bubbles ps"

text \<open>The day each bubble is under: the text of the last divider above it.\<close>

fun days :: "ustr \<Rightarrow> painted list \<Rightarrow> ustr list" where
  "days d [] = []"
| "days d (Divider d' # ps) = days d' ps"
| "days d (Bubble who body mt # ps) = d # days d ps"
| "days d (_ # ps) = days d ps"

lemma bubbles_append: "bubbles (ps @ qs) = bubbles ps @ bubbles qs"
  by (induction ps rule: bubbles.induct) auto

lemma bubbles_notices: "bubbles (map paint_notice ns) = []" "days d (map paint_notice ns) = []"
  by (induction ns) (auto simp: paint_notice_def split: notice.split)

lemma days_append: "days d (paint_messages day p d ms @ map paint_notice ns) = days d (paint_messages day p d ms)"
  by (induction ms arbitrary: d) (auto simp: bubbles_notices Let_def)

lemma paint_bubbles: "bubbles (paint_messages day p d ms) = map (\<lambda>msg. (avatar p msg, py_str (msg_body msg), meta p msg)) ms"
  by (induction ms arbitrary: d) (auto simp: Let_def)

lemma paint_days: "length (days d (paint_messages day p d ms)) = length ms \<and>
   (\<forall>i<length ms. day (msg_ts (ms ! i)) \<noteq> [] \<longrightarrow> days d (paint_messages day p d ms) ! i = day (msg_ts (ms ! i)))"
proof (induction ms arbitrary: d)
  case (Cons msg ms)
  show ?case using Cons.IH [of d] Cons.IH [of "day (msg_ts msg)"]
    by (auto simp: Let_def nth_Cons split: nat.split)
qed simp

text \<open>Two dividers never stand for the same day in a row.\<close>

lemma paint_no_repeat: "d \<noteq> [] \<Longrightarrow> Divider d \<noteq> hd (paint_messages day p d ms) \<or> ms = []"
  by (cases ms) (auto simp: Let_def)

text \<open>The transcript is the conversation. From top to bottom there is one bubble for each message,
  in the order of the conversation, with the initials of whoever wrote it, its text, its time and its
  ticks; and every message that has a time stands under a divider with its own day.\<close>

theorem transcript_is_the_conversation:
  assumes "sc_shown sc \<noteq> []"
  shows "bubbles (paint day p sc) = map (\<lambda>msg. (avatar p msg, py_str (msg_body msg), meta p msg)) (sc_shown sc) \<and>
    length (days [] (paint day p sc)) = length (sc_shown sc) \<and>
    (\<forall>i<length (sc_shown sc). day (msg_ts (sc_shown sc ! i)) \<noteq> [] \<longrightarrow> days [] (paint day p sc) ! i = day (msg_ts (sc_shown sc ! i)))"
  using assms paint_days [of "[]" day p "sc_shown sc"]
  by (simp add: paint_def bubbles_append paint_bubbles bubbles_notices days_append)

text \<open>Bob wrote yesterday and alice answered today.\<close>

definition sample_day :: "int \<Rightarrow> ustr" where
  "sample_day ts = (if ts = 0 then [] else if ts < 10 then u ''Yesterday'' else u ''Today'')"

theorem transcript_is_the_conversation_witness:
  "let p = \<lparr>tk_lower = id, tk_upper = id, strftime = (\<lambda>_. u ''12:00'')\<rparr>;
       msgs = [\<lparr>msg_id = PStr (u ''1''), msg_sender = u ''bob'', msg_body = PStr (u ''hi''), msg_ts = 5, msg_mine = False, msg_state = u ''SENT''\<rparr>,
               \<lparr>msg_id = PStr (u ''2''), msg_sender = u ''alice'', msg_body = PStr (u ''yes''), msg_ts = 12, msg_mine = True, msg_state = u ''READ''\<rparr>];
       sc = new_screen\<lparr>sc_shown := msgs\<rparr>
   in length (bubbles (paint sample_day p sc)) = 2 \<and> days [] (paint sample_day p sc) = [u ''Yesterday'', u ''Today'']"
proof -
  let ?p = "\<lparr>tk_lower = id, tk_upper = id, strftime = (\<lambda>_. u ''12:00'')\<rparr>"
  let ?msgs = "[\<lparr>msg_id = PStr (u ''1''), msg_sender = u ''bob'', msg_body = PStr (u ''hi''), msg_ts = 5, msg_mine = False, msg_state = u ''SENT''\<rparr>,
               \<lparr>msg_id = PStr (u ''2''), msg_sender = u ''alice'', msg_body = PStr (u ''yes''), msg_ts = 12, msg_mine = True, msg_state = u ''READ''\<rparr>]"
  let ?sc = "new_screen\<lparr>sc_shown := ?msgs\<rparr>"
  have ne: "sc_shown ?sc \<noteq> []" by simp
  note t = transcript_is_the_conversation [OF ne, of sample_day ?p]
  have l: "length (days [] (paint sample_day ?p ?sc)) = 2" using t by simp
  have d: "sample_day 5 = u ''Yesterday''" "sample_day 12 = u ''Today''" "u ''Yesterday'' \<noteq> []" "u ''Today'' \<noteq> []"
    by (simp_all add: sample_day_def u_def)
  have "days [] (paint sample_day ?p ?sc) ! 0 = u ''Yesterday''" using t d by (auto dest: spec [of _ 0])
  moreover have "days [] (paint sample_day ?p ?sc) ! 1 = u ''Today''" using t d by (auto dest: spec [of _ 1])
  ultimately have "days [] (paint sample_day ?p ?sc) = [u ''Yesterday'', u ''Today'']" using l by (intro nth_equalityI) (auto simp: less_2_cases_iff)
  then show ?thesis using t unfolding Let_def by simp
qed

text \<open>A message that was read is painted like one that was only delivered.\<close>

lemma read_looks_delivered: "paint_messages day p d (map (\<lambda>msg. if msg_state msg = u ''READ'' then msg\<lparr>msg_state := u ''DELIVERED''\<rparr> else msg) ms) = paint_messages day p d ms"
  by (induction ms arbitrary: d) (auto simp: Let_def meta_def ticks_def avatar_def)

subsection \<open>The cache of backgrounds\<close>

definition cache_ok :: "(int \<times> int \<Rightarrow> 'img) \<Rightarrow> (int \<times> int, 'img) dict \<Rightarrow> bool" where
  "cache_ok pixels cache \<longleftrightarrow> length cache \<le> 7 \<and> (\<forall>(key, img)\<in>set cache. img = pixels key)"

lemma quantised_covers: "w < quantised w \<and> quantised w \<le> max 40 (w + 40) \<and> 40 dvd quantised w"
  by (auto simp: quantised_def QUANTUM_def max_def)

lemma backdrop_ok:
  assumes "cache_ok pixels cache"
  shows "cache_ok pixels (snd (backdrop pixels w h cache)) \<and>
    fst (backdrop pixels w h cache) = (if w < 40 \<or> h < 40 then None else Some (pixels (quantised w, quantised h)))"
proof -
  let ?k = "(quantised w, quantised h)"
  have hit: "dict_get cache ?k = Some v \<Longrightarrow> v = pixels ?k" for v using assms by (auto simp: cache_ok_def dest: dict_get_Some_mem)
  let ?base = "if length cache > 6 then [] else cache"
  have "cache_ok pixels (dict_set ?base ?k (pixels ?k))" if "dict_get cache ?k = None"
    using assms that [unfolded dict_get_None_iff, THEN dict_set_new] by (auto simp: cache_ok_def)
  then show ?thesis using assms hit by (auto simp: backdrop_def Let_def)
qed

text \<open>The cache of backgrounds stays small and never lies. Through any sequence of sizes it holds at
  most seven images, and what it returns for a pane is the image painted for the rounded size, which
  is larger than the pane by at most forty pixels.\<close>

theorem backdrop_cache_bounded:
  "let cache = foldl (\<lambda>cache (w, h). snd (backdrop pixels w h cache)) [] sizes in
     length cache \<le> 7 \<and> fst (backdrop pixels w h cache) = (if w < 40 \<or> h < 40 then None else Some (pixels (quantised w, quantised h))) \<and>
     w < quantised w \<and> (40 \<le> w \<longrightarrow> quantised w \<le> w + 40)"
proof -
  have "cache_ok pixels (foldl (\<lambda>cache (w, h). snd (backdrop pixels w h cache)) cache sizes)" if "cache_ok pixels cache" for cache
    using that by (induction sizes arbitrary: cache) (auto simp: backdrop_ok)
  moreover have "cache_ok pixels []" by (simp add: cache_ok_def)
  ultimately have "cache_ok pixels (foldl (\<lambda>cache (w, h). snd (backdrop pixels w h cache)) [] sizes)" by blast
  with backdrop_ok [OF this, of w h] quantised_covers [of w] show ?thesis by (auto simp: cache_ok_def Let_def)
qed

end
