(* ===== verification/Canvas.thy ===== *)
theory Canvas
  imports Look
begin

section \<open>Drawing\<close>

text \<open>
  The type scale, the shapes and the small widgets of \<open>im/client/view/tk/theme.py\<close> and \<open>widgets.py\<close>, and what \<open>app.py\<close> draws itself: what is
  put on a canvas is a list of items, with their coordinates, texts and colours. Lengths are rational
  numbers, as the code has them before Tk rounds them to pixels; \<open>scale\<close> is \<open>theme.SCALE\<close>.
\<close>

subsection \<open>Scaling\<close>

text \<open>\<open>int(round(x))\<close>: halves go to the even neighbour.\<close>

definition round_even :: "rat \<Rightarrow> int" where
  "round_even x = (let n = \<lfloor>x\<rfloor>; d = x - of_int n in
     if d < 1 / 2 then n else if 1 / 2 < d then n + 1 else if even n then n else n + 1)"

definition px :: "rat \<Rightarrow> rat \<Rightarrow> int" where
  "px scale v = round_even (v * scale)"

text \<open>What Windows answers is the argument: whether each of the two calls that declare awareness
  succeeds, and the resolution, if it can be asked for.\<close>

definition crisp_scale :: "bool \<Rightarrow> bool \<Rightarrow> bool \<Rightarrow> nat option \<Rightarrow> rat \<Rightarrow> rat" where
  "crisp_scale windows aware older dpi scale =
     (if \<not> windows then scale
      else if \<not> aware \<and> \<not> older then scale
      else case dpi of None \<Rightarrow> scale | Some d \<Rightarrow> max 1 (of_nat d / 96))"

type_synonym font = "int \<times> string"

definition font :: "rat \<Rightarrow> rat \<Rightarrow> string \<Rightarrow> font" where
  "font scale points weight = (- px scale points, weight)"

definition H2 :: "rat \<Rightarrow> font" where "H2 scale = font scale 13 ''bold''"
definition BODY :: "rat \<Rightarrow> font" where "BODY scale = font scale 11 ''normal''"
definition BODY_BOLD :: "rat \<Rightarrow> font" where "BODY_BOLD scale = font scale 11 ''bold''"
definition SMALL :: "rat \<Rightarrow> font" where "SMALL scale = font scale 10 ''normal''"
definition TINY :: "rat \<Rightarrow> font" where "TINY scale = font scale 9 ''normal''"
definition BADGE :: "rat \<Rightarrow> font" where "BADGE scale = font scale 9 ''bold''"

definition ORANGE :: string where "ORANGE = ''#FF8347''"
definition ORANGE_DEEP :: string where "ORANGE_DEEP = ''#FF8A00''"
definition PEACH :: string where "PEACH = ''#FFE5B4''"
definition CREAM :: string where "CREAM = ''#FFF7E6''"
definition BROWN :: string where "BROWN = ''#5C3D1E''"
definition WHITE :: string where "WHITE = ''#FFFFFF''"
definition HOVER :: string where "HOVER = ''#FFF3DF''"
definition SELECTED :: string where "SELECTED = ''#FFE8C8''"
definition MUTED :: string where "MUTED = ''#A08B6E''"
definition HAIRLINE :: string where "HAIRLINE = ''#F2E4CE''"
definition ONLINE_COLOUR :: string where "ONLINE_COLOUR = ''#4CAF50''"
definition OFFLINE_COLOUR :: string where "OFFLINE_COLOUR = ''#C9BBA5''"

subsection \<open>Items\<close>

text \<open>A text has its place, its anchor, its colour, its font and the width it is wrapped at. A picture
  is the background painted for a size.\<close>

datatype item =
    Oval rat rat rat rat string
  | Polygon "(rat \<times> rat) list" string
  | Label rat rat ustr string string font "int option"
  | Rule rat rat rat rat string
  | Picture "int \<times> int"

definition circle :: "rat \<Rightarrow> rat \<Rightarrow> rat \<Rightarrow> string \<Rightarrow> item" where
  "circle x y r fill = Oval (x - r) (y - r) (x + r) (y + r) fill"

definition plate :: "rat \<Rightarrow> rat \<Rightarrow> rat \<Rightarrow> rat \<Rightarrow> rat \<Rightarrow> string \<Rightarrow> item" where
  "plate x1 y1 x2 y2 radius fill = Polygon (rounded_rect x1 y1 x2 y2 radius) fill"

text \<open>\<open>draw_avatar\<close>: nothing is drawn for a name that cannot be encoded.\<close>

definition draw_avatar :: "toolkit \<Rightarrow> rat \<Rightarrow> rat \<Rightarrow> ustr \<Rightarrow> rat \<Rightarrow> string option \<Rightarrow> exn + item list" where
  "draw_avatar p x y name radius status =
     (case avatar_colour name of Inl e \<Rightarrow> Inl e
      | Inr colour \<Rightarrow> Inr ([circle x y radius colour,
            Label x y (initials p name) ''center'' WHITE (\<lfloor>radius * 72 / 100\<rfloor>, ''bold'') None] @
          (case status of None \<Rightarrow> []
           | Some st \<Rightarrow> let dot = radius * 34 / 100 in
             [Oval (x + radius - dot * 14 / 10) (y + radius - dot * 14 / 10) (x + radius + dot * 6 / 10) (y + radius + dot * 6 / 10) st])))"

fun item_text :: "item \<Rightarrow> ustr list" where
  "item_text (Label x y t a c f w) = [t]"
| "item_text _ = []"

text \<open>The texts of a canvas, in the order they were drawn.\<close>

definition texts :: "item list \<Rightarrow> ustr list" where
  "texts items = concat (map item_text items)"

lemma texts_simps [simp]:
  "texts [] = []" "texts (i # is) = item_text i @ texts is" "texts (is @ js) = texts is @ texts js"
  by (simp_all add: texts_def)

lemma shape_text [simp]: "item_text (circle x y r c) = []" "item_text (plate x1 y1 x2 y2 r c) = []"
  by (simp_all add: circle_def plate_def)

lemma avatar_texts: "draw_avatar p x y name r st = Inr items \<Longrightarrow> texts items = [initials p name]"
  by (auto simp: draw_avatar_def Let_def split: sum.splits option.splits)

lemma avatar_drawn: "scalars name \<Longrightarrow> \<exists>items. draw_avatar p x y name r st = Inr items"
  by (simp add: draw_avatar_def avatar_colour_def utf8_encode_def)

subsection \<open>Buttons and rows\<close>

text \<open>Each widget clears its canvas and draws itself anew, unless it has not been laid out yet.
  \<open>w\<close> and \<open>h\<close> are the size Tk gave it.\<close>

definition put :: "item list \<Rightarrow> (item list, unit) py" where
  "put items = modify (\<lambda>canvas. canvas @ items)"

definition clear :: "(item list, unit) py" where
  "clear = modify (\<lambda>_. [])"

definition draw_pill :: "ustr \<Rightarrow> string \<Rightarrow> string \<Rightarrow> rat \<Rightarrow> font \<Rightarrow> bool \<Rightarrow> int \<Rightarrow> int \<Rightarrow> (item list, unit) py" where
  "draw_pill label fill colour radius f enabled w h = andthen clear (if w < 2 then ret () else
     put [plate 1 1 (of_int w - 1) (of_int h - 1) radius (if enabled then fill else OFFLINE_COLOUR),
       Label (of_int w / 2) (of_int h / 2) label ''center'' colour f None])"

definition draw_nav :: "rat \<Rightarrow> ustr \<Rightarrow> ustr \<Rightarrow> bool \<Rightarrow> bool \<Rightarrow> nat \<Rightarrow> int \<Rightarrow> int \<Rightarrow> (item list, unit) py" where
  "draw_nav scale icon label sel hover unread w h = andthen clear (if w < 2 then ret () else
     let ww = of_int w; hh = of_int h; colour = (if sel then ORANGE_DEEP else BROWN) in
     put ((if sel then [plate 4 3 (ww - 4) (hh - 3) 10 SELECTED] else if hover then [plate 4 3 (ww - 4) (hh - 3) 10 HOVER] else []) @
       [Label 24 (hh / 2) icon ''center'' colour (13, ''normal'') None,
        Label 46 (hh / 2) label ''w'' colour (if sel then BODY_BOLD scale else BODY scale) None] @
       (if unread \<noteq> 0 then [circle (ww - 24) (hh / 2) 9 ORANGE,
          Label (ww - 24) (hh / 2) (nat_str unread) ''center'' WHITE (BADGE scale) None] else [])))"

text \<open>\<open>ConversationRow._draw\<close>\<close>

definition row_back :: "(rat \<Rightarrow> rat) \<Rightarrow> bool \<Rightarrow> bool \<Rightarrow> rat \<Rightarrow> rat \<Rightarrow> item list" where
  "row_back q sel hover w h =
     (if sel then [plate (q 5) (q 3) (w - q 5) (h - q 3) (q 12) SELECTED, plate (q 5) (q 12) (q 5 + q 4) (h - q 12) (q 2) ORANGE_DEEP]
      else if hover then [plate (q 5) (q 3) (w - q 5) (h - q 3) (q 12) HOVER] else [])"

definition row_badge :: "rat \<Rightarrow> (rat \<Rightarrow> rat) \<Rightarrow> nat \<Rightarrow> rat \<Rightarrow> item list" where
  "row_badge scale q unread w =
     (if unread = 0 then [] else
      let label = badge unread; half = q 9 + q 4 * (of_nat (length label) - 1); cx = w - q 26; cy = q 45 in
      [plate (cx - half) (cy - q 9) (cx + half) (cy + q 9) (q 9) ORANGE, Label cx cy label ''center'' WHITE (BADGE scale) None])"

definition row_labels :: "rat \<Rightarrow> (rat \<Rightarrow> rat) \<Rightarrow> row \<Rightarrow> nat \<Rightarrow> rat \<Rightarrow> item list" where
  "row_labels scale q r room w =
     [Label (q 60) (q 24) (row_key r) ''w'' BROWN (BODY_BOLD scale) None,
      Label (q 60) (q 44) (fit_preview room (row_preview r)) ''w'' MUTED (SMALL scale) None] @
     (if row_time r = [] then [] else [Label (w - q 16) (q 22) (row_time r) ''e'' MUTED (TINY scale) None])"

definition draw_row :: "toolkit \<Rightarrow> rat \<Rightarrow> row \<Rightarrow> bool \<Rightarrow> int \<Rightarrow> int \<Rightarrow> (item list, unit) py" where
  "draw_row p scale r hover w h = andthen clear (if w < 2 then ret () else
     let q = (\<lambda>v. of_int (px scale v)); ww = of_int w; hh = of_int h;
         room = preview_room (px scale 130) (px scale (64 / 10)) w;
         status = map_option (\<lambda>on. if on then ONLINE_COLOUR else OFFLINE_COLOUR) (row_status r) in
     andthen (put (row_back q (row_selected r) hover ww hh))
     (bnd (lift (draw_avatar p (q 32) (hh / 2) (row_key r) (q 19) status)) (\<lambda>items. andthen (put items)
     (put (row_labels scale q r room ww @ row_badge scale q (row_unread r) ww)))))"

text \<open>A row shows its name, as much of the preview as fits, its time and its count, whatever was on the
  canvas before.\<close>

lemma put_run [simp]: "put items c = (Inr (), c @ items)" "clear c = (Inr (), [])"
  by (simp_all add: put_def clear_def)

lemma row_run:
  fixes scale :: rat
  defines "q \<equiv> \<lambda>v. of_int (px scale v)"
  assumes "2 \<le> w"
    and "draw_avatar p (q 32) (of_int h / 2) (row_key r) (q 19) (map_option (\<lambda>on. if on then ONLINE_COLOUR else OFFLINE_COLOUR) (row_status r)) = Inr items"
  shows "draw_row p scale r hover w h c = (Inr (), row_back q (row_selected r) hover (of_int w) (of_int h) @ items @
    row_labels scale q r (preview_room (px scale 130) (px scale (64 / 10)) w) (of_int w) @ row_badge scale q (row_unread r) (of_int w))"
  using assms(2,3) unfolding q_def draw_row_def Let_def by (simp add: andthen_def bnd_def)

lemma row_texts:
  assumes "2 \<le> w" and "scalars (row_key r)"
  shows "\<exists>c'. draw_row p scale r hover w h c = (Inr (), c') \<and> texts c' =
    [initials p (row_key r), row_key r, fit_preview (preview_room (px scale 130) (px scale (64 / 10)) w) (row_preview r)] @
    (if row_time r = [] then [] else [row_time r]) @ (if row_unread r = 0 then [] else [badge (row_unread r)])"
proof -
  let ?st = "map_option (\<lambda>on. if on then ONLINE_COLOUR else OFFLINE_COLOUR) (row_status r)"
  obtain items where i: "draw_avatar p (of_int (px scale 32)) (of_int h / 2) (row_key r) (of_int (px scale 19)) ?st = Inr items"
    using avatar_drawn [OF assms(2)] by blast
  show ?thesis
    using row_run [OF assms(1) i, of hover c] avatar_texts [OF i] by (simp add: row_back_def row_labels_def row_badge_def Let_def)
qed

subsection \<open>The parts of the window that are drawn\<close>

text \<open>\<open>_draw_logo\<close>, \<open>_draw_me\<close>, \<open>_draw_strip\<close> and \<open>_draw_header\<close> of \<open>app.py\<close>; \<open>title\<close> is \<open>str.title\<close>.\<close>

definition draw_logo :: "rat \<Rightarrow> int \<Rightarrow> (item list, unit) py" where
  "draw_logo scale h = andthen clear (let hh = of_int h in
     put [plate 4 (hh / 2 - 17) 38 (hh / 2 + 17) 11 ORANGE, Label 21 (hh / 2 - 1) [128172] ''center'' WHITE (13, ''normal'') None,
       Label 50 (hh / 2) (u ''Semaphore'') ''w'' ORANGE_DEEP (font scale 20 ''bold'') None])"

definition shown_name :: "ustr option \<Rightarrow> ustr" where
  "shown_name name = (case name of None \<Rightarrow> [8230] | Some n \<Rightarrow> if n = [] then [8230] else n)"

definition draw_me :: "toolkit \<Rightarrow> (ustr \<Rightarrow> ustr) \<Rightarrow> rat \<Rightarrow> 'z chat_content_scheme \<Rightarrow> int \<Rightarrow> int \<Rightarrow> (item list, unit) py" where
  "draw_me p title scale m w h = andthen clear (if w < 2 then ret () else
     let hh = of_int h; name = shown_name (cm_username m) in
     bnd (lift (draw_avatar p 26 (hh / 2) name 17 (Some ONLINE_COLOUR))) (\<lambda>items. andthen (put items)
     (put [Label 50 (hh / 2 - 8) name ''w'' BROWN (BODY_BOLD scale) None,
       Label 50 (hh / 2 + 9) (title (connection_state m)) ''w'' MUTED (TINY scale) None])))"

definition draw_strip :: "rat \<Rightarrow> ustr \<Rightarrow> int \<Rightarrow> int \<Rightarrow> (item list, unit) py" where
  "draw_strip scale status w h = andthen clear (if w < 2 \<or> status = [] then ret () else
     put [Label (of_int w / 2) (of_int h / 2) status ''center'' WHITE (SMALL scale) None])"

definition subtitle_colour :: "ustr \<Rightarrow> 'z chat_content_scheme \<Rightarrow> string" where
  "subtitle_colour key m = (if typing_in key m \<noteq> [] then ORANGE_DEEP else if startswith key (u ''#'') then MUTED
     else if is_online key m then ONLINE_COLOUR else MUTED)"

definition header_canvas :: "toolkit \<Rightarrow> rat \<Rightarrow> 'z chat_content_scheme \<Rightarrow> int \<Rightarrow> int \<Rightarrow> (item list, unit) py" where
  "header_canvas p scale m w h = andthen clear (if w < 2 then ret () else
     let q = (\<lambda>v. of_int (px scale v)); ww = of_int w; hh = of_int h in
     andthen (put [Rule 0 (hh - 1) ww (hh - 1) HAIRLINE])
     (case active m of
        None \<Rightarrow> put [Label (q 24) (hh / 2) (u ''Select a conversation'') ''w'' MUTED (BODY scale) None]
      | Some key \<Rightarrow>
        let room = startswith key (u ''#'');
            status = (if room then None else Some (if is_online key m then ONLINE_COLOUR else OFFLINE_COLOUR)) in
        bnd (lift (draw_avatar p (q 36) (hh / 2) key (q 19) status)) (\<lambda>items. andthen (put items)
        (put ([Label (q 66) (hh / 2 - q 9) key ''w'' BROWN (H2 scale) None,
               Label (q 66) (hh / 2 + q 10) (subtitle key m) ''w'' (subtitle_colour key m) (TINY scale) None] @
          (if room then [Label (ww - q 24) (hh / 2) [128100, 43] ''center'' ORANGE_DEEP (font scale 12 ''normal'') None] else []))))))"

text \<open>The header on the canvas has the texts of the header of the screen, and a room the button to add people.\<close>

definition header_texts :: "toolkit \<Rightarrow> header \<Rightarrow> ustr list" where
  "header_texts p head = (case head of Nothing_Selected \<Rightarrow> [u ''Select a conversation'']
     | Header key st sub \<Rightarrow> [initials p key, key, sub] @ (if st = None then [[128100, 43]] else []))"

lemma header_reads:
  assumes "2 \<le> w" and "case active m of None \<Rightarrow> True | Some key \<Rightarrow> scalars key"
  shows "\<exists>c'. header_canvas p scale m w h c = (Inr (), c') \<and> texts c' = header_texts p (sc_header (draw_header m sc))"
proof (cases "active m")
  case None
  then show ?thesis using assms(1) by (simp add: header_canvas_def Let_def draw_header_def header_texts_def andthen_def bnd_def)
next
  case (Some key)
  let ?st = "if startswith key (u ''#'') then None else Some (if is_online key m then ONLINE_COLOUR else OFFLINE_COLOUR)"
  obtain items where i: "draw_avatar p (of_int (px scale 36)) (of_int h / 2) key (of_int (px scale 19)) ?st = Inr items"
    using avatar_drawn assms(2) Some by fastforce
  show ?thesis
    using assms(1) Some i avatar_texts [OF i] unfolding header_canvas_def Let_def
    by (simp add: draw_header_def header_texts_def andthen_def bnd_def)
qed

subsection \<open>A row paints inside itself\<close>

lemma px_near: "\<bar>of_int (px scale v) - v * scale\<bar> \<le> 1 / 2"
  using floor_correct [of "v * scale"] by (auto simp: px_def round_even_def Let_def)

fun points :: "item \<Rightarrow> (rat \<times> rat) list" where
  "points (Oval x1 y1 x2 y2 c) = [(x1, y1), (x2, y2)]"
| "points (Polygon ps c) = ps"
| "points (Label x y t a c f w) = [(x, y)]"
| "points (Rule x1 y1 x2 y2 c) = [(x1, y1), (x2, y2)]"
| "points (Picture sz) = []"

definition inside :: "rat \<Rightarrow> rat \<Rightarrow> item \<Rightarrow> bool" where
  "inside w h i \<longleftrightarrow> list_all (\<lambda>(x, y). 0 \<le> x \<and> x \<le> w \<and> 0 \<le> y \<and> y \<le> h) (points i)"

lemma inside_simps:
  "inside w h (Label x y t a c f wr) \<longleftrightarrow> 0 \<le> x \<and> x \<le> w \<and> 0 \<le> y \<and> y \<le> h"
  "inside w h (Oval x1 y1 x2 y2 c) \<longleftrightarrow> 0 \<le> x1 \<and> x1 \<le> w \<and> 0 \<le> y1 \<and> y1 \<le> h \<and> 0 \<le> x2 \<and> x2 \<le> w \<and> 0 \<le> y2 \<and> y2 \<le> h"
  by (auto simp: inside_def)

lemma inside_plate:
  assumes "0 \<le> x1" "x1 \<le> x2" "x2 \<le> w" "0 \<le> y1" "y1 \<le> y2" "y2 \<le> h" "0 \<le> radius"
  shows "inside w h (plate x1 y1 x2 y2 radius c)"
  using rounded_rect_inside [OF assms(2,5,7)] assms by (fastforce simp: inside_def plate_def list_all_iff)

lemma inside_avatar:
  assumes "draw_avatar p x y name r st = Inr items" and "0 \<le> r" and "r \<le> x" and "r \<le> y" and "x + 13 / 10 * r \<le> w" and "y + 13 / 10 * r \<le> h"
  shows "list_all (inside w h) items"
  using assms by (auto simp: draw_avatar_def Let_def circle_def inside_simps split: sum.splits option.splits)

text \<open>On every display, and however many messages are unread, a row that is as wide as the list makes
  it draws nothing outside itself: the badge in particular stays inside the right edge.\<close>

lemma row_paints_inside:
  assumes "1 \<le> scale" and "px scale 130 \<le> w" and "h = px scale 66" and "draw_row p scale r hover w h c = (Inr (), c')"
  shows "list_all (inside (of_int w) (of_int h)) c'"
proof -
  let ?q = "\<lambda>v. of_int (px scale v) :: rat"
  have q: "?q v \<le> v * scale + 1 / 2 \<and> v * scale - 1 / 2 \<le> ?q v" for v using px_near [of scale v] unfolding abs_le_iff by linarith
  have w: "?q 130 \<le> of_int w" "of_int h = ?q 66" using assms(2,3) by simp_all
  let ?st = "map_option (\<lambda>on. if on then ONLINE_COLOUR else OFFLINE_COLOUR) (row_status r)"
  have w2: "2 \<le> w"
  proof -
    have "(2::rat) \<le> of_int w" using w(1) q [of 130] assms(1) by linarith
    then show ?thesis by linarith
  qed
  obtain items where i: "draw_avatar p (?q 32) (of_int h / 2) (row_key r) (?q 19) ?st = Inr items"
    using assms(4) w2 by (cases "draw_avatar p (?q 32) (of_int h / 2) (row_key r) (?q 19) ?st")
      (simp_all add: draw_row_def Let_def andthen_def bnd_def)
  have av: "list_all (inside (of_int w) (of_int h)) items"
    by (rule inside_avatar [OF i]) (use w q [of 19] q [of 32] q [of 66] q [of 130] assms(1) in linarith)+
  have bk: "list_all (inside (of_int w) (of_int h)) (row_back ?q (row_selected r) hover (of_int w) (of_int h))"
    unfolding row_back_def using w q [of 2] q [of 3] q [of 4] q [of 5] q [of 12] q [of 66] q [of 130] assms(1)
    by (auto intro!: inside_plate)
  define half where "half = ?q 9 + ?q 4 * (of_nat (length (badge (row_unread r))) - 1)"
  have half: "0 \<le> half \<and> half \<le> ?q 9 + ?q 4 * 2" if "row_unread r \<noteq> 0"
  proof -
    let ?k = "of_nat (length (badge (row_unread r))) - 1 :: rat"
    have "1 \<le> length (badge (row_unread r))" "length (badge (row_unread r)) \<le> 3"
      using badge_short [of "row_unread r"] nat_str_nonempty [of "row_unread r"] by (auto simp: badge_def u_def Suc_le_eq)
    then have k: "0 \<le> ?k" "?k \<le> 2" by simp_all
    have "0 \<le> ?q 4" "0 \<le> ?q 9" using q [of 4] q [of 9] assms(1) by linarith+
    then show ?thesis using k unfolding half_def by (simp add: mult_left_mono)
  qed
  have bdg: "list_all (inside (of_int w) (of_int h)) (row_badge scale ?q (row_unread r) (of_int w))"
  proof (cases "row_unread r = 0")
    case False
    then show ?thesis
      using half w q [of 4] q [of 9] q [of 26] q [of 45] q [of 66] q [of 130] assms(1)
      unfolding row_badge_def Let_def half_def [symmetric] by (auto intro!: inside_plate simp: inside_simps)
  qed (simp add: row_badge_def)
  have "list_all (inside (of_int w) (of_int h)) (row_labels scale ?q r (preview_room (px scale 130) (px scale (64 / 10)) w) (of_int w))"
    using w q [of 16] q [of 22] q [of 24] q [of 44] q [of 60] q [of 66] q [of 130] assms(1) by (simp add: row_labels_def inside_simps)
  then show ?thesis using row_run [OF w2 i, of hover c] assms(4) av bk bdg by auto
qed

end
