(* ===== verification/Pane.thy ===== *)
theory Pane
  imports Canvas
begin

section \<open>The message pane\<close>

text \<open>
  \<open>Transcript\<close> of \<open>im/client/view/tk/widgets.py\<close>: the canvas with the bubbles, laid out from top to bottom, its
  background and the timer that repaints the background when the window is no longer resized.
  A computation that raises keeps what it has drawn. What Tk knows is the record \<open>display\<close>: the scale, the
  bounding box of a text, the local date of a time and how dates and exceptions are written.
\<close>

subsection \<open>State\<close>

record display =
  dp_scale :: rat
  dp_bbox :: "item \<Rightarrow> int \<times> int \<times> int \<times> int"
  dp_date :: "int \<Rightarrow> int"
  dp_today :: int
  dp_strfdate :: "int \<Rightarrow> ustr"
  dp_exn :: "exn \<Rightarrow> ustr"

text \<open>\<open>tr_size\<close> is what \<open>winfo_width\<close> and \<open>winfo_height\<close> answer, \<open>tr_cache\<close> the cache of \<open>backdrop.py\<close>. A
  background is identified with the size it was painted for.\<close>

record transcript =
  tr_messages :: "chat_message list"
  tr_empty :: ustr
  tr_notices :: "notice list"
  tr_backdrop :: "(int \<times> int) option"
  tr_timer :: bool
  tr_items :: "item list"
  tr_region :: "(int \<times> int) option"
  tr_size :: "int \<times> int"
  tr_cache :: "(int \<times> int, int \<times> int) dict"

definition new_transcript :: transcript where
  "new_transcript = \<lparr>tr_messages = [], tr_empty = [], tr_notices = [], tr_backdrop = None, tr_timer = False, tr_items = [],
     tr_region = None, tr_size = (1, 1), tr_cache = []\<rparr>"

definition dpx :: "display \<Rightarrow> rat \<Rightarrow> int" where
  "dpx dp v = px (dp_scale dp) v"

definition PAD_X :: "display \<Rightarrow> int" where "PAD_X dp = dpx dp 18"
definition GAP :: "display \<Rightarrow> int" where "GAP dp = dpx dp 10"
definition AVATAR :: "display \<Rightarrow> int" where "AVATAR dp = dpx dp 13"
definition TAIL :: "display \<Rightarrow> int" where "TAIL dp = dpx dp 7"

definition day_text :: "display \<Rightarrow> int \<Rightarrow> ustr" where
  "day_text dp ts =
     (if ts = 0 then []
      else let date = dp_date dp ts in
        if date = dp_today dp then u ''Today''
        else if dp_today dp - date = 1 then u ''Yesterday''
        else dp_strfdate dp date)"

definition notice_text :: "display \<Rightarrow> notice \<Rightarrow> ustr" where
  "notice_text dp n = (case n of Notice t \<Rightarrow> t | Notice_Exc e \<Rightarrow> dp_exn dp e)"

subsection \<open>Drawing\<close>

definition draw :: "item list \<Rightarrow> (transcript, unit) py" where
  "draw items = modify (\<lambda>s. s\<lparr>tr_items := tr_items s @ items\<rparr>)"

definition day_label :: "display \<Rightarrow> ustr \<Rightarrow> int \<Rightarrow> int \<Rightarrow> item" where
  "day_label dp d y width = Label (of_int width / 2) (of_int (y + dpx dp 12)) d ''c'' MUTED (TINY (dp_scale dp)) None"

definition draw_day :: "display \<Rightarrow> ustr \<Rightarrow> int \<Rightarrow> int \<Rightarrow> (transcript, int) py" where
  "draw_day dp d y width =
     (let centre = of_int (y + dpx dp 12); label = day_label dp d y width; rule = dpx dp 40; pad = dpx dp 14 in
      case dp_bbox dp label of (x1, _, x2, _) \<Rightarrow>
        andthen (draw [label, Rule (of_int (x1 - pad - rule)) centre (of_int (x1 - pad)) centre HAIRLINE,
            Rule (of_int (x2 + pad)) centre (of_int (x2 + pad + rule)) centre HAIRLINE])
          (ret (y + dpx dp 34)))"

text \<open>The text is measured off-screen first: the extent of an item at \<open>(-9999, -9999)\<close>.\<close>

definition extent :: "display \<Rightarrow> ustr \<Rightarrow> font \<Rightarrow> int option \<Rightarrow> int \<times> int" where
  "extent dp t f wrap = (case dp_bbox dp (Label (-9999) (-9999) t ''nw'' ''black'' f wrap) of (_, _, x2, y2) \<Rightarrow> (x2 + 9999, y2 + 9999))"

definition bubble_width :: "display \<Rightarrow> ustr \<Rightarrow> ustr \<Rightarrow> int \<Rightarrow> int" where
  "bubble_width dp body mt max_bubble =
     (let text_w = fst (extent dp body (BODY (dp_scale dp)) (Some (max_bubble - dpx dp 28)));
          meta_w = (if mt = [] then 0 else fst (extent dp mt (TINY (dp_scale dp)) None) + dpx dp 10)
      in max (text_w + dpx dp 28) (meta_w + dpx dp 24))"

definition bubble_height :: "display \<Rightarrow> ustr \<Rightarrow> ustr \<Rightarrow> int \<Rightarrow> int" where
  "bubble_height dp body mt max_bubble =
     snd (extent dp body (BODY (dp_scale dp)) (Some (max_bubble - dpx dp 28))) + dpx dp 20 + (if mt = [] then 0 else dpx dp 12)"

definition tail_points :: "display \<Rightarrow> int \<Rightarrow> int \<Rightarrow> int \<Rightarrow> bool \<Rightarrow> (rat \<times> rat) list" where
  "tail_points dp left right bottom mine =
     (let tail = TAIL dp in map (\<lambda>(x, y). (of_int x, of_int y))
       (if mine then [(right - tail * 2, bottom - tail), (right + tail, bottom), (right - tail, bottom)]
        else [(left + tail * 2, bottom - tail), (left - tail, bottom), (left + tail, bottom)]))"

definition body_label :: "display \<Rightarrow> chat_message \<Rightarrow> int \<Rightarrow> int \<Rightarrow> int \<Rightarrow> item" where
  "body_label dp msg left y max_bubble =
     Label (of_int (left + dpx dp 14)) (of_int (y + dpx dp 10)) (py_str (msg_body msg)) ''nw'' (if msg_mine msg then WHITE else BROWN)
       (BODY (dp_scale dp)) (Some (max_bubble - dpx dp 28))"

definition bubble_items :: "display \<Rightarrow> toolkit \<Rightarrow> chat_message \<Rightarrow> int \<Rightarrow> int \<Rightarrow> int \<Rightarrow> int \<Rightarrow> int \<Rightarrow> item list" where
  "bubble_items dp p msg left right y bottom max_bubble =
     (let mine = msg_mine msg; fill = (if mine then ORANGE else WHITE); mt = meta p msg in
      [plate (of_int left) (of_int y) (of_int right) (of_int bottom) (of_int (dpx dp 14)) fill,
       Polygon (tail_points dp left right bottom mine) fill,
       body_label dp msg left y max_bubble] @
      (if mt = [] then [] else [Label (of_int (right - dpx dp 12)) (of_int (bottom - dpx dp 7)) mt ''se'' (if mine then WHITE else MUTED)
         (TINY (dp_scale dp)) None]))"

definition bubble_left :: "display \<Rightarrow> chat_message \<Rightarrow> int \<Rightarrow> int \<Rightarrow> int" where
  "bubble_left dp msg width bubble_w = (if msg_mine msg then width - PAD_X dp - bubble_w else PAD_X dp + dpx dp 34)"

definition draw_bubble :: "display \<Rightarrow> toolkit \<Rightarrow> chat_message \<Rightarrow> int \<Rightarrow> int \<Rightarrow> int \<Rightarrow> (transcript, int) py" where
  "draw_bubble dp p msg y width max_bubble =
     (let body = py_str (msg_body msg); mt = meta p msg;
          bubble_w = bubble_width dp body mt max_bubble; bubble_h = bubble_height dp body mt max_bubble;
          left = bubble_left dp msg width bubble_w; right = left + bubble_w in
      andthen (if msg_mine msg then ret ()
          else bnd (lift (draw_avatar p (of_int (PAD_X dp + dpx dp 14)) (of_int (y + bubble_h - AVATAR dp)) (msg_sender msg) (of_int (AVATAR dp)) None)) draw)
      (andthen (draw (bubble_items dp p msg left right y (y + bubble_h) max_bubble))
        (ret (y + bubble_h + GAP dp + dpx dp 6))))"

fun draw_messages :: "display \<Rightarrow> toolkit \<Rightarrow> int \<Rightarrow> int \<Rightarrow> ustr \<Rightarrow> chat_message list \<Rightarrow> int \<Rightarrow> (transcript, int) py" where
  "draw_messages dp p width max_bubble last_day [] y = ret y"
| "draw_messages dp p width max_bubble last_day (msg # msgs) y =
     (let d = day_text dp (msg_ts msg); new = (d \<noteq> [] \<and> d \<noteq> last_day) in
      bnd (if new then draw_day dp d y width else ret y)
        (\<lambda>y1. bnd (draw_bubble dp p msg y1 width max_bubble)
          (\<lambda>y2. draw_messages dp p width max_bubble (if new then d else last_day) msgs y2)))"

fun draw_notices :: "display \<Rightarrow> int \<Rightarrow> notice list \<Rightarrow> int \<Rightarrow> (transcript, int) py" where
  "draw_notices dp width [] y = ret y"
| "draw_notices dp width (n # ns) y =
     andthen (draw [Label (of_int width / 2) (of_int (y + dpx dp 10)) (notice_text dp n) ''n'' MUTED (TINY (dp_scale dp)) None])
       (draw_notices dp width ns (y + dpx dp 28))"

definition empty_scene :: "display \<Rightarrow> int \<Rightarrow> int \<Rightarrow> ustr \<Rightarrow> item list" where
  "empty_scene dp width height empty_text =
     (let q = (\<lambda>v. of_int (dpx dp v)); cx = of_int width / 2; cy = of_int height / 2 - q 30 in
      [circle (cx + q 16) (cy + q 10) (q 52) CREAM, circle cx cy (q 46) PEACH,
       plate (cx - q 26) (cy - q 18) (cx + q 20) (cy + q 10) (q 10) WHITE,
       Polygon [(cx - q 18, cy + q 8), (cx - q 18, cy + q 21), (cx - q 6, cy + q 9)] WHITE,
       circle (cx - q 12) (cy - q 4) (q 3) ORANGE, circle cx (cy - q 4) (q 3) ORANGE, circle (cx + q 12) (cy - q 4) (q 3) ORANGE,
       Polygon [(cx + q 26, cy - q 28), (cx + q 56, cy - q 14), (cx + q 31, cy - q 7), (cx + q 33, cy - q 18)] ORANGE_DEEP,
       Label cx (cy + q 78) (if empty_text = [] then u ''No messages yet'' else empty_text) ''center'' BROWN (H2 (dp_scale dp)) None,
       Label cx (cy + q 104) (u ''Say something -- it is encrypted before it leaves this machine.'') ''center'' MUTED (SMALL (dp_scale dp)) None])"

definition draw_empty :: "display \<Rightarrow> int \<Rightarrow> (transcript, unit) py" where
  "draw_empty dp width = bnd (gets (\<lambda>s. (max (snd (tr_size s)) (dpx dp 200), tr_empty s))) (\<lambda>(height, empty_text).
     andthen (draw (empty_scene dp width height empty_text)) (modify (\<lambda>s. s\<lparr>tr_region := Some (width, height)\<rparr>)))"

definition take_backdrop :: "int \<Rightarrow> int \<Rightarrow> (transcript, unit) py" where
  "take_backdrop w h = modify (\<lambda>s. case backdrop id w h (tr_cache s) of (img, cache) \<Rightarrow> s\<lparr>tr_backdrop := img, tr_cache := cache\<rparr>)"

definition draw_backdrop :: "int \<Rightarrow> (transcript, unit) py" where
  "draw_backdrop width = andthen
     (bnd (gets (\<lambda>s. (tr_backdrop s, snd (tr_size s)))) (\<lambda>(img, height). if img = None then take_backdrop width height else ret ()))
     (bnd (gets tr_backdrop) (\<lambda>img. case img of None \<Rightarrow> ret () | Some i \<Rightarrow> draw [Picture i]))"

definition max_bubble :: "display \<Rightarrow> int \<Rightarrow> int" where
  "max_bubble dp width = max (dpx dp 160) (width * 62 div 100)"

definition tr_redraw :: "display \<Rightarrow> toolkit \<Rightarrow> (transcript, unit) py" where
  "tr_redraw dp p = andthen (modify (\<lambda>s. s\<lparr>tr_items := []\<rparr>))
     (bnd (gets (\<lambda>s. fst (tr_size s))) (\<lambda>width. if width < 40 then ret () else
        andthen (draw_backdrop width)
        (bnd (gets (\<lambda>s. (tr_messages s, tr_notices s))) (\<lambda>(msgs, notices).
           if msgs = [] \<and> notices = [] then draw_empty dp width
           else bnd (draw_messages dp p width (max_bubble dp width) [] msgs (dpx dp 16))
             (\<lambda>y. bnd (draw_notices dp width notices y)
               (\<lambda>y'. modify (\<lambda>s. s\<lparr>tr_region := Some (width, y' + dpx dp 16)\<rparr>)))))))"

subsection \<open>Operations\<close>

definition tr_show :: "display \<Rightarrow> toolkit \<Rightarrow> chat_message list \<Rightarrow> ustr \<Rightarrow> (transcript, unit) py" where
  "tr_show dp p messages empty_text =
     andthen (modify (\<lambda>s. s\<lparr>tr_messages := messages, tr_empty := empty_text, tr_notices := []\<rparr>)) (tr_redraw dp p)"

definition tr_notice :: "display \<Rightarrow> toolkit \<Rightarrow> notice \<Rightarrow> (transcript, unit) py" where
  "tr_notice dp p n = andthen (modify (\<lambda>s. s\<lparr>tr_notices := tr_notices s @ [n]\<rparr>)) (tr_redraw dp p)"

definition on_resize :: "display \<Rightarrow> toolkit \<Rightarrow> (transcript, unit) py" where
  "on_resize dp p = andthen (tr_redraw dp p) (modify (\<lambda>s. s\<lparr>tr_timer := True\<rparr>))"

definition refresh_backdrop :: "display \<Rightarrow> toolkit \<Rightarrow> (transcript, unit) py" where
  "refresh_backdrop dp p = andthen (modify (\<lambda>s. s\<lparr>tr_timer := False\<rparr>))
     (andthen (bnd (gets tr_size) (\<lambda>(w, h). take_backdrop w h)) (tr_redraw dp p))"

definition as_text :: "transcript \<Rightarrow> ustr" where
  "as_text s = join [10] (texts (tr_items s))"

subsection \<open>What the canvas reads\<close>

text \<open>The texts of one thing that is painted; initials stand before the text of a bubble.\<close>

definition painted_texts :: "display \<Rightarrow> painted \<Rightarrow> ustr list" where
  "painted_texts dp x = (case x of Divider d \<Rightarrow> [d]
     | Bubble who body mt \<Rightarrow> (case who of None \<Rightarrow> [] | Some i \<Rightarrow> [i]) @ [body] @ (if mt = [] then [] else [mt])
     | Small t \<Rightarrow> [t] | Small_Exc e \<Rightarrow> [dp_exn dp e])"

definition drawable :: "chat_message \<Rightarrow> bool" where
  "drawable msg \<longleftrightarrow> msg_mine msg \<or> scalars (msg_sender msg)"

definition added :: "item list \<Rightarrow> transcript \<Rightarrow> transcript" where
  "added items s = s\<lparr>tr_items := tr_items s @ items\<rparr>"

lemma draw_run [simp]: "draw items s = (Inr (), added items s)"
  by (simp add: draw_def added_def)

lemma added_added [simp]: "added is (added js s) = added (js @ is) s" "added [] s = s"
  by (simp_all add: added_def)

lemma added_fields [simp]:
  "tr_items (added is s) = tr_items s @ is" "tr_messages (added is s) = tr_messages s" "tr_empty (added is s) = tr_empty s"
  "tr_notices (added is s) = tr_notices s" "tr_size (added is s) = tr_size s" "tr_backdrop (added is s) = tr_backdrop s"
  "tr_timer (added is s) = tr_timer s" "tr_cache (added is s) = tr_cache s"
  by (simp_all add: added_def)

lemma day_run: "\<exists>items. draw_day dp d y width s = (Inr (y + dpx dp 34), added items s) \<and> texts items = [d]"
  by (auto simp: draw_day_def Let_def andthen_def bnd_def day_label_def split: prod.split)

text \<open>Where a bubble is: left, top, right and bottom.\<close>

type_synonym area = "int \<times> int \<times> int \<times> int"

definition bubble_area :: "display \<Rightarrow> toolkit \<Rightarrow> int \<Rightarrow> int \<Rightarrow> chat_message \<Rightarrow> int \<Rightarrow> area" where
  "bubble_area dp p width mb msg y =
     (let w = bubble_width dp (py_str (msg_body msg)) (meta p msg) mb; left = bubble_left dp msg width w in
      (left, y, left + w, y + bubble_height dp (py_str (msg_body msg)) (meta p msg) mb))"

lemma bubble_run:
  assumes "drawable msg"
  shows "\<exists>items l r b. bubble_area dp p width mb msg y = (l, y, r, b) \<and>
    draw_bubble dp p msg y width mb s = (Inr (b + GAP dp + dpx dp 6), added (items @ bubble_items dp p msg l r y b mb) s) \<and>
    texts (items @ bubble_items dp p msg l r y b mb) = painted_texts dp (Bubble (avatar p msg) (py_str (msg_body msg)) (meta p msg))"
proof -
  let ?w = "bubble_width dp (py_str (msg_body msg)) (meta p msg) mb" and ?h = "bubble_height dp (py_str (msg_body msg)) (meta p msg) mb"
  let ?av = "draw_avatar p (of_int (PAD_X dp + dpx dp 14)) (of_int (y + ?h - AVATAR dp)) (msg_sender msg) (of_int (AVATAR dp)) None"
  have tx: "texts (bubble_items dp p msg l r y b mb) = [py_str (msg_body msg)] @ (if meta p msg = [] then [] else [meta p msg])" for l r b
    by (simp add: bubble_items_def body_label_def Let_def)
  show ?thesis
  proof (cases "msg_mine msg")
    case True
    then show ?thesis
      using tx by (intro exI [of _ "[]"]) (simp add: draw_bubble_def bubble_area_def Let_def andthen_def bnd_def painted_texts_def avatar_def)
  next
    case False
    then obtain items where i: "?av = Inr items" using assms avatar_drawn unfolding drawable_def by blast
    show ?thesis
      using tx False avatar_texts [OF i] i
      by (intro exI [of _ items]) (simp add: draw_bubble_def bubble_area_def Let_def andthen_def bnd_def painted_texts_def avatar_def)
  qed
qed

text \<open>Where the bubbles of a conversation are, and where the next thing would be drawn.\<close>

fun areas :: "display \<Rightarrow> toolkit \<Rightarrow> int \<Rightarrow> int \<Rightarrow> ustr \<Rightarrow> chat_message list \<Rightarrow> int \<Rightarrow> area list \<times> int" where
  "areas dp p width mb last_day [] y = ([], y)"
| "areas dp p width mb last_day (msg # msgs) y =
     (let d = day_text dp (msg_ts msg); new = (d \<noteq> [] \<and> d \<noteq> last_day);
          a = bubble_area dp p width mb msg (if new then y + dpx dp 34 else y);
          rest = areas dp p width mb (if new then d else last_day) msgs (snd (snd (snd a)) + GAP dp + dpx dp 6)
      in (a # fst rest, snd rest))"

definition holds_bubble :: "display \<Rightarrow> toolkit \<Rightarrow> int \<Rightarrow> item list \<Rightarrow> chat_message \<Rightarrow> area \<Rightarrow> bool" where
  "holds_bubble dp p mb items msg a \<longleftrightarrow> (case a of (l, t, r, b) \<Rightarrow> set (bubble_items dp p msg l r t b mb) \<subseteq> set items)"

lemma holds_mono: "holds_bubble dp p mb items msg a \<Longrightarrow> set items \<subseteq> set items' \<Longrightarrow> holds_bubble dp p mb items' msg a"
  by (auto simp: holds_bubble_def)

lemma messages_run:
  assumes "list_all drawable msgs"
  shows "\<exists>items. draw_messages dp p width mb d msgs y s = (Inr (snd (areas dp p width mb d msgs y)), added items s) \<and>
    texts items = concat (map (painted_texts dp) (paint_messages (day_text dp) p d msgs)) \<and>
    list_all2 (holds_bubble dp p mb items) msgs (fst (areas dp p width mb d msgs y))"
  using assms
proof (induction msgs arbitrary: d y s)
  case (Cons msg msgs)
  define e where "e = day_text dp (msg_ts msg)"
  define new where "new \<longleftrightarrow> e \<noteq> [] \<and> e \<noteq> d"
  define y1 where "y1 = (if new then y + dpx dp 34 else y)"
  have dr: "drawable msg" and drs: "list_all drawable msgs" using Cons.prems by simp_all
  obtain i1 where i1: "(if new then draw_day dp e y width else ret y) s = (Inr y1, added i1 s)" "texts i1 = (if new then [e] else [])"
  proof (cases new)
    case True
    then show ?thesis using day_run [of dp e y width s] that by (auto simp: y1_def)
  next
    case False
    then show ?thesis using that [of "[]"] by (simp add: y1_def)
  qed
  obtain i2 l r b where i2: "bubble_area dp p width mb msg y1 = (l, y1, r, b)"
    "draw_bubble dp p msg y1 width mb (added i1 s) = (Inr (b + GAP dp + dpx dp 6), added (i2 @ bubble_items dp p msg l r y1 b mb) (added i1 s))"
    "texts (i2 @ bubble_items dp p msg l r y1 b mb) = painted_texts dp (Bubble (avatar p msg) (py_str (msg_body msg)) (meta p msg))"
    using bubble_run [OF dr] by metis
  let ?i2 = "i2 @ bubble_items dp p msg l r y1 b mb" and ?y2 = "b + GAP dp + dpx dp 6" and ?d = "if new then e else d"
  obtain i3 where i3: "draw_messages dp p width mb ?d msgs ?y2 (added (i1 @ ?i2) s) = (Inr (snd (areas dp p width mb ?d msgs ?y2)), added i3 (added (i1 @ ?i2) s))"
    "texts i3 = concat (map (painted_texts dp) (paint_messages (day_text dp) p ?d msgs))"
    "list_all2 (holds_bubble dp p mb i3) msgs (fst (areas dp p width mb ?d msgs ?y2))"
    using Cons.IH [OF drs] by blast
  have ar: "areas dp p width mb d (msg # msgs) y = ((l, y1, r, b) # fst (areas dp p width mb ?d msgs ?y2), snd (areas dp p width mb ?d msgs ?y2))"
    using i2(1) by (simp add: Let_def e_def [symmetric] new_def [symmetric] y1_def [symmetric])
  have "draw_messages dp p width mb d (msg # msgs) y s = (Inr (snd (areas dp p width mb ?d msgs ?y2)), added (i1 @ ?i2 @ i3) s)"
    using i1(1) i2(2) i3(1) by (simp add: Let_def e_def [symmetric] new_def [symmetric] bnd_def)
  moreover have "texts (i1 @ ?i2 @ i3) = concat (map (painted_texts dp) (paint_messages (day_text dp) p d (msg # msgs)))"
    using i1(2) i2(3) i3(2) by (simp add: Let_def e_def [symmetric] new_def [symmetric] painted_texts_def [of dp "Divider e"])
  moreover have "list_all2 (holds_bubble dp p mb (i1 @ ?i2 @ i3)) msgs (fst (areas dp p width mb ?d msgs ?y2))"
    by (rule list_all2_mono [OF i3(3)]) (rule holds_mono, auto)
  moreover have "holds_bubble dp p mb (i1 @ ?i2 @ i3) msg (l, y1, r, b)" by (auto simp: holds_bubble_def)
  ultimately show ?case unfolding ar by (intro exI [of _ "i1 @ ?i2 @ i3"]) simp
qed (auto intro: exI [of _ "[]"])

lemma notices_run:
  "\<exists>items. draw_notices dp width ns y s = (Inr (y + dpx dp 28 * int (length ns)), added items s) \<and> texts items = map (notice_text dp) ns"
proof (induction ns arbitrary: y s)
  case (Cons n ns)
  let ?l = "Label (of_int width / 2) (of_int (y + dpx dp 10)) (notice_text dp n) ''n'' MUTED (TINY (dp_scale dp)) None"
  obtain items where "draw_notices dp width ns (y + dpx dp 28) (added [?l] s) = (Inr (y + dpx dp 28 + dpx dp 28 * int (length ns)), added items (added [?l] s))"
    "texts items = map (notice_text dp) ns" using Cons.IH by blast
  then show ?case by (intro exI [of _ "?l # items"]) (simp add: andthen_def bnd_def algebra_simps)
qed (auto intro: exI [of _ "[]"])

definition displays :: "transcript \<Rightarrow> screen \<Rightarrow> bool" where
  "displays s sc \<longleftrightarrow> tr_messages s = sc_shown sc \<and> tr_empty s = sc_empty sc \<and> tr_notices s = sc_notices sc"

definition same_pane :: "transcript \<Rightarrow> transcript \<Rightarrow> bool" where
  "same_pane s t \<longleftrightarrow> tr_messages t = tr_messages s \<and> tr_empty t = tr_empty s \<and> tr_notices t = tr_notices s \<and> tr_size t = tr_size s \<and> tr_timer t = tr_timer s"

lemma displays_same: "same_pane s t \<Longrightarrow> displays t sc = displays s sc"
  by (simp add: displays_def same_pane_def)

lemma same_pane_added [simp]: "same_pane s (added is t) = same_pane s t" "same_pane (added is s) t = same_pane s t" "same_pane s s"
  by (simp_all add: same_pane_def)

lemma backdrop_run: "\<exists>t. draw_backdrop width s = (Inr (), t) \<and> same_pane s t \<and> texts (tr_items t) = texts (tr_items s)"
proof -
  obtain img cache where "backdrop id width (snd (tr_size s)) (tr_cache s) = (img, cache)" by (cases "backdrop id width (snd (tr_size s)) (tr_cache s)")
  then show ?thesis
    by (auto simp: draw_backdrop_def take_backdrop_def andthen_def bnd_def same_pane_def split: option.split)
qed

lemma empty_texts: "texts (empty_scene dp width height e) =
    [if e = [] then u ''No messages yet'' else e, u ''Say something -- it is encrypted before it leaves this machine.'']"
  by (simp add: empty_scene_def Let_def)

text \<open>Whatever was on the canvas, redrawing it leaves the texts of what is painted, and a bubble where
  the layout has one.\<close>

lemma redraw_run:
  fixes dp :: display and p :: toolkit
  assumes "40 \<le> fst (tr_size s)" and "list_all drawable (tr_messages s)" and "displays s sc"
  defines "ar \<equiv> areas dp p (fst (tr_size s)) (max_bubble dp (fst (tr_size s))) [] (tr_messages s) (dpx dp 16)"
  shows "\<exists>t. tr_redraw dp p s = (Inr (), t) \<and> same_pane s t \<and> texts (tr_items t) = concat (map (painted_texts dp) (paint (day_text dp) p sc)) \<and>
    (tr_messages s \<noteq> [] \<longrightarrow> list_all2 (holds_bubble dp p (max_bubble dp (fst (tr_size s))) (tr_items t)) (tr_messages s) (fst ar) \<and>
       tr_region t = Some (fst (tr_size s), snd ar + dpx dp 28 * int (length (tr_notices s)) + dpx dp 16))"
proof -
  let ?w = "fst (tr_size s)" and ?s0 = "s\<lparr>tr_items := []\<rparr>"
  obtain s1 where s1: "draw_backdrop ?w ?s0 = (Inr (), s1)" "same_pane ?s0 s1" "texts (tr_items s1) = []"
    using backdrop_run [of ?w ?s0] by auto
  have f: "tr_messages s1 = tr_messages s" "tr_notices s1 = tr_notices s" "tr_empty s1 = tr_empty s" "same_pane s s1"
    using s1(2) by (simp_all add: same_pane_def)
  have sc: "sc_shown sc = tr_messages s" "sc_notices sc = tr_notices s" "sc_empty sc = tr_empty s" using assms(3) by (simp_all add: displays_def)
  show ?thesis
  proof (cases "tr_messages s = [] \<and> tr_notices s = []")
    case True
    then have "tr_redraw dp p s = draw_empty dp ?w s1"
      using assms(1) s1(1) f by (simp add: tr_redraw_def andthen_def bnd_def)
    moreover have "draw_empty dp ?w s1 = (Inr (), (added (empty_scene dp ?w (max (snd (tr_size s1)) (dpx dp 200)) (tr_empty s1)) s1)
        \<lparr>tr_region := Some (?w, max (snd (tr_size s1)) (dpx dp 200))\<rparr>)"
      by (simp add: draw_empty_def andthen_def bnd_def)
    ultimately show ?thesis
      using True s1(3) f sc by (simp add: empty_texts paint_def painted_texts_def same_pane_def)
  next
    case False
    obtain i1 where i1: "draw_messages dp p ?w (max_bubble dp ?w) [] (tr_messages s) (dpx dp 16) s1 = (Inr (snd ar), added i1 s1)"
      "texts i1 = concat (map (painted_texts dp) (paint_messages (day_text dp) p [] (tr_messages s)))"
      "list_all2 (holds_bubble dp p (max_bubble dp ?w) i1) (tr_messages s) (fst ar)"
      using messages_run [OF assms(2)] unfolding ar_def by blast
    obtain i2 where i2: "draw_notices dp ?w (tr_notices s) (snd ar) (added i1 s1) =
        (Inr (snd ar + dpx dp 28 * int (length (tr_notices s))), added i2 (added i1 s1))" "texts i2 = map (notice_text dp) (tr_notices s)"
      using notices_run by blast
    have n: "concat (map (painted_texts dp) (map paint_notice ns)) = map (notice_text dp) ns" for ns
      by (induction ns) (auto simp: painted_texts_def paint_notice_def notice_text_def split: notice.split)
    let ?t = "(added (i1 @ i2) s1)\<lparr>tr_region := Some (?w, snd ar + dpx dp 28 * int (length (tr_notices s)) + dpx dp 16)\<rparr>"
    have "tr_redraw dp p s = (Inr (), ?t)"
      using False assms(1) s1(1) f i1(1) i2(1) by (auto simp: tr_redraw_def andthen_def bnd_def)
    moreover have "texts (tr_items ?t) = concat (map (painted_texts dp) (paint (day_text dp) p sc))"
      using False s1(3) i1(2) i2(2) sc n by (auto simp: paint_def)
    moreover have "list_all2 (holds_bubble dp p (max_bubble dp ?w) (tr_items ?t)) (tr_messages s) (fst ar)"
      by (rule list_all2_mono [OF i1(3)]) (rule holds_mono, auto)
    ultimately show ?thesis using f by (intro exI [of _ ?t]) (simp add: same_pane_def)
  qed
qed

subsection \<open>The layout\<close>

text \<open>What is assumed of Tk's \<open>bbox\<close>: the box of a text moves with the text, and it begins at most \<open>m\<close>
  pixels before it.\<close>

definition measured :: "display \<Rightarrow> int \<Rightarrow> bool" where
  "measured dp m \<longleftrightarrow> (\<forall>t c f wr x y. case dp_bbox dp (Label (-9999) (-9999) t ''nw'' ''black'' f wr) of (x1, y1, x2, y2) \<Rightarrow>
     - 9999 - m \<le> x1 \<and> x1 \<le> x2 \<and> - 9999 - m \<le> y1 \<and> y1 \<le> y2 \<and>
     dp_bbox dp (Label (of_int x) (of_int y) t ''nw'' c f wr) = (x1 + x + 9999, y1 + y + 9999, x2 + x + 9999, y2 + y + 9999))"

definition encloses :: "area \<Rightarrow> area \<Rightarrow> bool" where
  "encloses a b \<longleftrightarrow> (case a of (l, t, r, bt) \<Rightarrow> case b of (x1, y1, x2, y2) \<Rightarrow> l \<le> x1 \<and> t \<le> y1 \<and> x2 \<le> r \<and> y2 \<le> bt)"

definition above :: "area \<Rightarrow> area \<Rightarrow> bool" where
  "above a b \<longleftrightarrow> (case a of (_, _, _, bt) \<Rightarrow> case b of (_, t, _, _) \<Rightarrow> bt < t)"

lemma dpx_facts:
  assumes "1 \<le> dp_scale dp"
  shows "1 \<le> dpx dp 6" "0 \<le> dpx dp 12" "1 \<le> GAP dp" "dpx dp 10 \<le> dpx dp 14" "dpx dp 14 \<le> dpx dp 28" "dpx dp 10 \<le> dpx dp 20" "0 \<le> dpx dp 34"
    "0 \<le> dpx dp 28" "0 \<le> dpx dp 16"
proof -
  have q: "of_int (dpx dp v) \<le> v * dp_scale dp + 1 / 2 \<and> v * dp_scale dp - 1 / 2 \<le> of_int (dpx dp v)" for v
    using px_near [of "dp_scale dp" v] unfolding abs_le_iff dpx_def by linarith
  have "(1::rat) \<le> of_int (dpx dp 6)" "(0::rat) \<le> of_int (dpx dp 12)" "(1::rat) \<le> of_int (dpx dp 10)" "of_int (dpx dp 10) \<le> (of_int (dpx dp 14) :: rat)"
    "of_int (dpx dp 14) \<le> (of_int (dpx dp 28) :: rat)" "of_int (dpx dp 10) \<le> (of_int (dpx dp 20) :: rat)" "(0::rat) \<le> of_int (dpx dp 34)"
    "(0::rat) \<le> of_int (dpx dp 28)" "(0::rat) \<le> of_int (dpx dp 16)"
    using q [of 6] q [of 10] q [of 12] q [of 14] q [of 16] q [of 20] q [of 28] q [of 34] assms by linarith+
  then show "1 \<le> dpx dp 6" "0 \<le> dpx dp 12" "1 \<le> GAP dp" "dpx dp 10 \<le> dpx dp 14" "dpx dp 14 \<le> dpx dp 28" "dpx dp 10 \<le> dpx dp 20" "0 \<le> dpx dp 34"
    "0 \<le> dpx dp 28" "0 \<le> dpx dp 16"
    by (simp_all add: GAP_def)
qed

lemma area_fits:
  assumes "measured dp m" and "m \<le> dpx dp 10" and "1 \<le> dp_scale dp" and "bubble_area dp p width mb msg y = (l, t, r, b)"
  shows "t = y \<and> t \<le> b \<and> encloses (l, t, r, b) (dp_bbox dp (body_label dp msg l t mb))"
proof -
  let ?body = "py_str (msg_body msg)" and ?f = "BODY (dp_scale dp)" and ?wr = "Some (mb - dpx dp 28)"
  obtain x1 y1 x2 y2 where bb: "dp_bbox dp (Label (-9999) (-9999) ?body ''nw'' ''black'' ?f ?wr) = (x1, y1, x2, y2)"
    by (cases "dp_bbox dp (Label (-9999) (-9999) ?body ''nw'' ''black'' ?f ?wr)")
  have lo: "- 9999 - m \<le> x1" "- 9999 - m \<le> y1" "y1 \<le> y2"
    and mv: "\<And>x y c. dp_bbox dp (Label (of_int x) (of_int y) ?body ''nw'' c ?f ?wr) = (x1 + x + 9999, y1 + y + 9999, x2 + x + 9999, y2 + y + 9999)"
    using assms(1) bb unfolding measured_def by (fastforce split: prod.splits)+
  have e: "extent dp ?body ?f ?wr = (x2 + 9999, y2 + 9999)" by (simp add: extent_def bb)
  have a: "t = y" "r = l + bubble_width dp ?body (meta p msg) mb" "b = y + bubble_height dp ?body (meta p msg) mb"
    using assms(4) by (auto simp: bubble_area_def Let_def)
  have w: "x2 + 9999 + dpx dp 28 \<le> bubble_width dp ?body (meta p msg) mb" by (simp add: bubble_width_def Let_def e)
  have h: "y2 + 9999 + dpx dp 20 \<le> bubble_height dp ?body (meta p msg) mb" using dpx_facts(2) [OF assms(3)] by (simp add: bubble_height_def e)
  have lab: "dp_bbox dp (body_label dp msg l y mb) =
      (x1 + (l + dpx dp 14) + 9999, y1 + (y + dpx dp 10) + 9999, x2 + (l + dpx dp 14) + 9999, y2 + (y + dpx dp 10) + 9999)"
    unfolding body_label_def by (rule mv)
  show ?thesis
    using lo w h a dpx_facts [OF assms(3)] assms(2) by (simp add: encloses_def lab)
qed

lemma areas_stacked:
  assumes "measured dp m" and "m \<le> dpx dp 10" and "1 \<le> dp_scale dp"
  shows "sorted_wrt above (fst (areas dp p width mb d msgs y)) \<and> y \<le> snd (areas dp p width mb d msgs y) \<and>
    (\<forall>(l, t, r, b)\<in>set (fst (areas dp p width mb d msgs y)). y \<le> t \<and> b < snd (areas dp p width mb d msgs y))"
proof (induction msgs arbitrary: d y)
  case (Cons msg msgs)
  define e where "e = day_text dp (msg_ts msg)"
  define new where "new \<longleftrightarrow> e \<noteq> [] \<and> e \<noteq> d"
  define y1 where "y1 = (if new then y + dpx dp 34 else y)"
  obtain l t r b where a: "bubble_area dp p width mb msg y1 = (l, t, r, b)" by (cases "bubble_area dp p width mb msg y1")
  then have tb: "t = y1" "y1 \<le> b" using area_fits [OF assms a] by auto
  let ?y2 = "b + GAP dp + dpx dp 6" and ?d = "if new then e else d"
  have ar: "areas dp p width mb d (msg # msgs) y = ((l, t, r, b) # fst (areas dp p width mb ?d msgs ?y2), snd (areas dp p width mb ?d msgs ?y2))"
    using a by (simp add: Let_def e_def [symmetric] new_def [symmetric] y1_def [symmetric])
  have "y \<le> y1" using dpx_facts(7) [OF assms(3)] by (simp add: y1_def)
  then show ?case
    using Cons.IH [of ?d ?y2] tb dpx_facts [OF assms(3)] unfolding ar by (fastforce simp: above_def)
qed simp

definition bubble_ok :: "display \<Rightarrow> toolkit \<Rightarrow> int \<Rightarrow> item list \<Rightarrow> chat_message \<Rightarrow> area \<Rightarrow> bool" where
  "bubble_ok dp p width items msg a \<longleftrightarrow> (case a of (l, t, r, b) \<Rightarrow>
     plate (of_int l) (of_int t) (of_int r) (of_int b) (of_int (dpx dp 14)) (if msg_mine msg then ORANGE else WHITE) \<in> set items \<and>
     body_label dp msg l t (max_bubble dp width) \<in> set items \<and>
     encloses a (dp_bbox dp (body_label dp msg l t (max_bubble dp width))) \<and>
     (if msg_mine msg then r = width - PAD_X dp else l = PAD_X dp + dpx dp 34))"

lemma area_side: "bubble_area dp p width mb msg y = (l, t, r, b) \<Longrightarrow> if msg_mine msg then r = width - PAD_X dp else l = PAD_X dp + dpx dp 34"
  by (auto simp: bubble_area_def bubble_left_def Let_def)

lemma areas_bubbles:
  "list_all2 (\<lambda>msg a. \<exists>y. a = bubble_area dp p width mb msg y) msgs (fst (areas dp p width mb d msgs y))"
  by (induction msgs arbitrary: d y) (auto simp: Let_def)

text \<open>C36: bubbles do not overlap. On every display, in a pane of any width that is drawn at all, each message
  of the conversation has a bubble: one's own at the right edge, the others at the left. The text of
  the message lies inside its bubble, every bubble ends above the next, and the pane can be scrolled
  to all of them.\<close>

theorem bubbles_do_not_overlap:
  assumes "measured dp m" and "m \<le> dpx dp 10" and "1 \<le> dp_scale dp"
    and "40 \<le> fst (tr_size s)" and "list_all drawable (tr_messages s)" and "tr_messages s \<noteq> []"
  shows "\<exists>t areas height. tr_redraw dp p s = (Inr (), t) \<and> list_all2 (bubble_ok dp p (fst (tr_size s)) (tr_items t)) (tr_messages s) areas \<and>
    sorted_wrt above areas \<and> tr_region t = Some (fst (tr_size s), height) \<and> list_all (\<lambda>(l, tp, r, b). 0 \<le> tp \<and> b \<le> height) areas"
proof -
  let ?w = "fst (tr_size s)" and ?sc = "new_screen\<lparr>sc_shown := tr_messages s, sc_empty := tr_empty s, sc_notices := tr_notices s\<rparr>"
  let ?mb = "max_bubble dp ?w"
  define ar where "ar = areas dp p ?w ?mb [] (tr_messages s) (dpx dp 16)"
  define height where "height = snd ar + dpx dp 28 * int (length (tr_notices s)) + dpx dp 16"
  have "displays s ?sc" by (simp add: displays_def)
  from redraw_run [OF assms(4,5) this, of dp p] obtain t where t: "tr_redraw dp p s = (Inr (), t)" "tr_region t = Some (?w, height)"
    "list_all2 (holds_bubble dp p ?mb (tr_items t)) (tr_messages s) (fst ar)"
    using assms(6) unfolding ar_def height_def by blast
  have st: "sorted_wrt above (fst ar)" "\<forall>(l, tp, r, b)\<in>set (fst ar). dpx dp 16 \<le> tp \<and> b < snd ar"
    using areas_stacked [OF assms(1-3)] unfolding ar_def by blast+
  have "bubble_ok dp p ?w (tr_items t) msg a" if h: "holds_bubble dp p ?mb (tr_items t) msg a" and a: "a = bubble_area dp p ?w ?mb msg y" for msg a y
  proof -
    obtain l tp r b where q: "a = (l, tp, r, b)" by (cases a)
    show ?thesis
      using h area_fits [OF assms(1-3), of p ?w ?mb msg y l tp r b] area_side [of dp p ?w ?mb msg y l tp r b] a q
      by (auto simp: bubble_ok_def holds_bubble_def bubble_items_def Let_def)
  qed
  moreover have "list_all2 (\<lambda>msg a. holds_bubble dp p ?mb (tr_items t) msg a \<and> (\<exists>y. a = bubble_area dp p ?w ?mb msg y)) (tr_messages s) (fst ar)"
    using t(3) areas_bubbles [of dp p ?w ?mb "tr_messages s" "[]" "dpx dp 16"] unfolding ar_def [symmetric] by (auto simp: list_all2_conv_all_nth)
  ultimately have "list_all2 (bubble_ok dp p ?w (tr_items t)) (tr_messages s) (fst ar)" by (auto elim!: list_all2_mono)
  moreover have "snd ar \<le> height" "0 \<le> dpx dp 16" using dpx_facts(8,9) [OF assms(3)] by (simp_all add: height_def)
  then have "list_all (\<lambda>(l, tp, r, b). 0 \<le> tp \<and> b \<le> height) (fst ar)" using st(2) by (fastforce simp: list_all_iff)
  ultimately show ?thesis using t st(1) by blast
qed

subsection \<open>The canvas follows the screen\<close>

datatype pane_step = Show "chat_message list" ustr | Say notice | Resized int int | Settled

text \<open>A \<open>Configure\<close> event comes after the size has changed; the timer fires only when it was set.\<close>

definition pane_do :: "display \<Rightarrow> toolkit \<Rightarrow> transcript \<Rightarrow> pane_step \<Rightarrow> transcript" where
  "pane_do dp p s st = (case st of
       Show msgs e \<Rightarrow> after (tr_show dp p msgs e) s
     | Say n \<Rightarrow> after (tr_notice dp p n) s
     | Resized w h \<Rightarrow> after (on_resize dp p) (s\<lparr>tr_size := (w, h)\<rparr>)
     | Settled \<Rightarrow> if tr_timer s then after (refresh_backdrop dp p) s else s)"

definition screen_do :: "screen \<Rightarrow> pane_step \<Rightarrow> screen" where
  "screen_do sc st = (case st of Show msgs e \<Rightarrow> show_messages msgs e sc | Say n \<Rightarrow> notice n sc | _ \<Rightarrow> sc)"

definition step_ok :: "pane_step \<Rightarrow> bool" where
  "step_ok st \<longleftrightarrow> (case st of Show msgs e \<Rightarrow> list_all drawable msgs | Resized w h \<Rightarrow> 40 \<le> w | _ \<Rightarrow> True)"

definition reads :: "display \<Rightarrow> toolkit \<Rightarrow> transcript \<Rightarrow> screen \<Rightarrow> bool" where
  "reads dp p s sc \<longleftrightarrow> texts (tr_items s) = concat (map (painted_texts dp) (paint (day_text dp) p sc))"

definition pane_ok :: "transcript \<Rightarrow> screen \<Rightarrow> bool" where
  "pane_ok s sc \<longleftrightarrow> displays s sc \<and> 40 \<le> fst (tr_size s) \<and> list_all drawable (sc_shown sc)"

lemma redraw_reads: "pane_ok s sc \<Longrightarrow> outcome (tr_redraw dp p) s = Inr () \<and> pane_ok (after (tr_redraw dp p) s) sc \<and> reads dp p (after (tr_redraw dp p) s) sc"
  using redraw_run [of s sc dp p] by (auto simp: pane_ok_def reads_def same_pane_def displays_def)

lemma after_modify: "after (andthen (modify f) m) s = after m (f s)"
  by (simp add: andthen_def bnd_def)

lemma resize_after: "outcome (tr_redraw dp p) s = Inr () \<Longrightarrow> after (on_resize dp p) s = (after (tr_redraw dp p) s)\<lparr>tr_timer := True\<rparr>"
  by (cases "tr_redraw dp p s") (simp add: on_resize_def andthen_def bnd_def)

lemma settled_after: "\<exists>s1. after (refresh_backdrop dp p) s = after (tr_redraw dp p) s1 \<and> tr_messages s1 = tr_messages s \<and> tr_empty s1 = tr_empty s \<and>
    tr_notices s1 = tr_notices s \<and> tr_size s1 = tr_size s"
  by (auto simp: refresh_backdrop_def take_backdrop_def andthen_def bnd_def split: prod.split)

lemma pane_step_reads:
  assumes "pane_ok s sc" and "step_ok st" and "st \<noteq> Settled \<or> reads dp p s sc"
  shows "pane_ok (pane_do dp p s st) (screen_do sc st) \<and> reads dp p (pane_do dp p s st) (screen_do sc st)"
proof (cases st)
  case (Show msgs e)
  then have "pane_ok (s\<lparr>tr_messages := msgs, tr_empty := e, tr_notices := []\<rparr>) (show_messages msgs e sc)"
    using assms(1,2) by (simp add: pane_ok_def displays_def show_messages_def step_ok_def)
  then show ?thesis using redraw_reads Show by (simp add: pane_do_def screen_do_def tr_show_def after_modify)
next
  case (Say n)
  have "pane_ok (s\<lparr>tr_notices := tr_notices s @ [n]\<rparr>) (notice n sc)" using assms(1) by (simp add: pane_ok_def displays_def notice_def)
  then show ?thesis using redraw_reads Say by (simp add: pane_do_def screen_do_def tr_notice_def after_modify)
next
  case (Resized w h)
  have "pane_ok (s\<lparr>tr_size := (w, h)\<rparr>) sc" using assms(1,2) Resized by (simp add: pane_ok_def displays_def step_ok_def)
  from redraw_reads [OF this, of dp p] show ?thesis
    using Resized by (simp add: pane_do_def screen_do_def resize_after) (simp add: pane_ok_def displays_def reads_def)
next
  case Settled
  obtain s1 where "after (refresh_backdrop dp p) s = after (tr_redraw dp p) s1" "pane_ok s1 sc"
    using settled_after [of dp p s] assms(1) by (auto simp: pane_ok_def displays_def)
  then show ?thesis using redraw_reads [of s1 sc dp p] assms Settled by (simp add: pane_do_def screen_do_def)
qed

lemma pane_steps_read:
  assumes "pane_ok s sc" and "list_all step_ok steps" and "reads dp p s sc"
  shows "pane_ok (foldl (pane_do dp p) s steps) (foldl screen_do sc steps) \<and> reads dp p (foldl (pane_do dp p) s steps) (foldl screen_do sc steps)"
  using assms pane_step_reads by (induction steps arbitrary: s sc) auto

lemma pane_opens:
  assumes "40 \<le> w" and "list_all step_ok steps"
  shows "pane_ok (foldl (pane_do dp p) new_transcript (Resized w h # steps)) (foldl screen_do new_screen steps) \<and>
    reads dp p (foldl (pane_do dp p) new_transcript (Resized w h # steps)) (foldl screen_do new_screen steps)"
proof -
  have "pane_ok (new_transcript\<lparr>tr_size := (w, h)\<rparr>) new_screen"
    using assms(1) by (simp add: pane_ok_def displays_def new_transcript_def new_screen_def)
  from redraw_reads [OF this, of dp p]
  have "pane_ok (pane_do dp p new_transcript (Resized w h)) new_screen \<and> reads dp p (pane_do dp p new_transcript (Resized w h)) new_screen"
    by (simp add: pane_do_def resize_after) (simp add: pane_ok_def displays_def reads_def)
  then show ?thesis using pane_steps_read [OF _ assms(2), of _ new_screen dp p] by simp
qed

subsection \<open>The background\<close>

definition images_ok :: "(int \<times> int, int \<times> int) dict \<Rightarrow> bool" where
  "images_ok cache \<longleftrightarrow> cache_ok id cache"

lemma backdrop_images:
  assumes "images_ok cache"
  shows "images_ok (snd (backdrop id w h cache)) \<and> fst (backdrop id w h cache) = (if w < 40 \<or> h < 40 then None else Some (quantised w, quantised h))"
  using backdrop_ok [OF assms [unfolded images_ok_def], of w h] by (simp add: images_ok_def)

definition background_kept :: "transcript \<Rightarrow> transcript \<Rightarrow> bool" where
  "background_kept s t \<longleftrightarrow> tr_size t = tr_size s \<and> (tr_backdrop s \<noteq> None \<longrightarrow> tr_backdrop t = tr_backdrop s) \<and>
     (images_ok (tr_cache s) \<longrightarrow> images_ok (tr_cache t))"

interpretation bg: run_rel background_kept
  by unfold_locales (auto simp: background_kept_def)

lemma take_backdrop_run:
  assumes "images_ok (tr_cache s)"
  shows "\<exists>t. take_backdrop w h s = (Inr (), t) \<and> same_pane s t \<and> images_ok (tr_cache t) \<and>
    tr_backdrop t = (if w < 40 \<or> h < 40 then None else Some (quantised w, quantised h))"
  using backdrop_images [OF assms, of w h] by (auto simp: take_backdrop_def same_pane_def split: prod.split)

lemma draws_behind: "runs_in background_kept (draw items)" "runs_in background_kept (draw_day dp d y width)" "runs_in background_kept (draw_bubble dp p msg y width mb)"
  "runs_in background_kept (draw_messages dp p width mb d msgs y)" "runs_in background_kept (draw_notices dp width ns y)" "runs_in background_kept (draw_empty dp width)"
proof -
  show dr: "runs_in background_kept (draw items)" for items by (simp add: runs_in_def background_kept_def)
  show dd: "runs_in background_kept (draw_day dp d y width)" for d y
    unfolding draw_day_def Let_def by (auto intro!: bg.runs_rules dr split: prod.split)
  show db: "runs_in background_kept (draw_bubble dp p msg y width mb)" for msg y
    unfolding draw_bubble_def Let_def by (intro bg.runs_rules dr)
  show "runs_in background_kept (draw_messages dp p width mb d msgs y)"
    by (induction msgs arbitrary: d y) (auto simp: Let_def intro!: bg.runs_rules dd db)
  show "runs_in background_kept (draw_notices dp width ns y)"
    by (induction ns arbitrary: y) (auto intro!: bg.runs_rules dr)
  show "runs_in background_kept (draw_empty dp width)"
    unfolding draw_empty_def by (auto intro!: bg.runs_rules dr simp: runs_in_modify background_kept_def split: prod.split)
qed

lemma redraw_behind: "runs_in background_kept (tr_redraw dp p)"
proof -
  have bd: "runs_in background_kept (draw_backdrop width)" for width
  proof -
    have "background_kept s (snd ((if tr_backdrop s = None then take_backdrop width (snd (tr_size s)) else ret ()) s))" for s
      using backdrop_images [of "tr_cache s" width "snd (tr_size s)"]
      by (auto simp: background_kept_def take_backdrop_def split: prod.split)
    then have "runs_in background_kept (bnd (gets (\<lambda>s. (tr_backdrop s, snd (tr_size s)))) (\<lambda>(img, height). if img = None then take_backdrop width height else ret ()))"
      by (intro bg.runs_check) auto
    then show ?thesis unfolding draw_backdrop_def by (auto intro!: bg.runs_rules draws_behind)
  qed
  have "runs_in background_kept (modify (\<lambda>s. s\<lparr>tr_items := []\<rparr>))" "runs_in background_kept (modify (\<lambda>s. s\<lparr>tr_region := r\<rparr>))" for r
    by (simp_all add: runs_in_modify background_kept_def)
  then show ?thesis unfolding tr_redraw_def by (auto intro!: bg.runs_rules draws_behind bd)
qed

lemma steps_cache: "images_ok (tr_cache s) \<Longrightarrow> images_ok (tr_cache (foldl (pane_do dp p) s steps))"
proof (induction steps arbitrary: s)
  case (Cons st steps)
  have r: "images_ok (tr_cache t) \<Longrightarrow> images_ok (tr_cache (after (tr_redraw dp p) t))" for t
    using runs_at [OF redraw_behind, of t dp p] by (simp add: background_kept_def)
  have tm: "after (on_resize dp p) t = after (tr_redraw dp p) t \<or> after (on_resize dp p) t = (after (tr_redraw dp p) t)\<lparr>tr_timer := True\<rparr>" for t
    by (cases "tr_redraw dp p t") (simp add: on_resize_def andthen_def bnd_def split: sum.split)
  have "images_ok (tr_cache (pane_do dp p s st))"
  proof (cases st)
    case (Resized w h)
    then show ?thesis using r [of "s\<lparr>tr_size := (w, h)\<rparr>"] tm [of "s\<lparr>tr_size := (w, h)\<rparr>"] Cons.prems by (auto simp: pane_do_def)
  next
    case Settled
    obtain s1 where s1: "take_backdrop (fst (tr_size s)) (snd (tr_size s)) (s\<lparr>tr_timer := False\<rparr>) = (Inr (), s1)" "images_ok (tr_cache s1)"
      using take_backdrop_run [of "s\<lparr>tr_timer := False\<rparr>" "fst (tr_size s)" "snd (tr_size s)"] Cons.prems by force
    then have "pane_do dp p s st = (if tr_timer s then after (tr_redraw dp p) s1 else s)"
      using Settled by (simp add: pane_do_def refresh_backdrop_def andthen_def bnd_def case_prod_beta)
    then show ?thesis using r [OF s1(2)] Cons.prems by simp
  qed (use r Cons.prems in \<open>simp_all add: pane_do_def tr_show_def tr_notice_def after_modify\<close>)
  then show ?case using Cons.IH by simp
qed simp

text \<open>When the dragging stops the background covers the pane. Once the timer has fired after the last
  change of the size, the image behind the transcript is wider and higher than the pane, by at most
  forty pixels each way, and no more than seven images are kept, however often the window was resized.\<close>

theorem background_covers_the_pane:
  assumes "40 \<le> w0" and "list_all step_ok steps" and "40 \<le> w" and "40 \<le> h"
  shows "let t = foldl (pane_do dp p) new_transcript (Resized w0 h0 # steps @ [Resized w h, Settled]) in
    \<exists>W H. tr_backdrop t = Some (W, H) \<and> w < W \<and> W \<le> w + 40 \<and> h < H \<and> H \<le> h + 40 \<and> length (tr_cache t) \<le> 7 \<and> \<not> tr_timer t"
proof -
  let ?s = "foldl (pane_do dp p) new_transcript (Resized w0 h0 # steps)" and ?t = "foldl (pane_do dp p) new_transcript (Resized w0 h0 # steps @ [Resized w h, Settled])"
  let ?s1 = "?s\<lparr>tr_size := (w, h)\<rparr>" and ?s2 = "pane_do dp p ?s (Resized w h)"
  have ok: "pane_ok ?s1 (foldl screen_do new_screen steps)"
    using pane_opens [OF assms(1,2), of dp p h0] assms(3) by (simp add: pane_ok_def displays_def)
  have s2: "?s2 = (after (tr_redraw dp p) ?s1)\<lparr>tr_timer := True\<rparr>" using redraw_reads [OF ok, of dp p] by (simp add: pane_do_def resize_after)
  have z: "tr_size ?s2 = (w, h)" using runs_at [OF redraw_behind, of ?s1 dp p] unfolding s2 by (simp add: background_kept_def)
  have "images_ok (tr_cache new_transcript)" by (simp add: new_transcript_def images_ok_def cache_ok_def)
  then have c: "images_ok (tr_cache ?s2)" using steps_cache [of new_transcript dp p "Resized w0 h0 # steps @ [Resized w h]"] by simp
  obtain s3 where s3: "take_backdrop w h (?s2\<lparr>tr_timer := False\<rparr>) = (Inr (), s3)" "images_ok (tr_cache s3)"
    "tr_backdrop s3 = Some (quantised w, quantised h)" "same_pane (?s2\<lparr>tr_timer := False\<rparr>) s3"
    using take_backdrop_run [of "?s2\<lparr>tr_timer := False\<rparr>" w h] c assms(3,4) by auto
  have t: "?t = after (tr_redraw dp p) s3" using s3(1) z s2 by (simp add: pane_do_def [of dp p _ Settled] refresh_backdrop_def andthen_def bnd_def)
  have k: "background_kept s3 ?t" unfolding t by (rule runs_at [OF redraw_behind])
  have "pane_ok s3 (foldl screen_do new_screen steps)"
    using s3(4) z ok redraw_reads [OF ok, of dp p] unfolding s2 by (auto simp: pane_ok_def displays_def same_pane_def)
  then have "\<not> tr_timer ?t"
    using redraw_run [of s3 "foldl screen_do new_screen steps" dp p] s3(4) unfolding t by (auto simp: pane_ok_def displays_def same_pane_def)
  then show ?thesis
    using k s3(2,3) quantised_covers [of w] quantised_covers [of h] assms(3,4) by (simp add: background_kept_def images_ok_def cache_ok_def)
qed

subsection \<open>The events of the model on the canvas\<close>

text \<open>What \<open>TkView._render\<close> asks of the transcript for one event.\<close>

definition redraw_steps :: "'z chat_content_scheme \<Rightarrow> pane_step list" where
  "redraw_steps m = [case active m of None \<Rightarrow> Show [] (u ''No messages yet'')
     | Some key \<Rightarrow> Show (cv_messages (conv key m)) (u ''Say hi to '' @ key)]"

fun render_steps :: "event \<times> chat_content \<Rightarrow> pane_step list" where
  "render_steps (MessageAdded key msg, m) = (if Some key = active m then redraw_steps m else [])"
| "render_steps (ReceiptChanged key i st, m) = (if Some key = active m then redraw_steps m else [])"
| "render_steps (ConversationSelected key, m) = redraw_steps m"
| "render_steps (HistoryLoaded key n, m) = redraw_steps m"
| "render_steps (PresenceChanged user online, m) = [Say (Notice (user @ u '' is '' @ (if online then u ''online'' else u ''offline'')))]"
| "render_steps (ErrorRaised code msg, m) = [Say (Notice (code @ u '': '' @ msg))]"
| "render_steps (_, m) = []"

definition pane_part :: "screen \<Rightarrow> chat_message list \<times> ustr \<times> notice list" where
  "pane_part sc = (sc_shown sc, sc_empty sc, sc_notices sc)"

lemma pane_part_simps [simp]:
  "pane_part (refresh_list p m sc) = pane_part sc" "pane_part (draw_header m sc) = pane_part sc"
  "pane_part (set_composer b sc) = pane_part sc" "pane_part (show_state p st sc) = pane_part sc"
  "pane_part (notice n sc) = (sc_shown sc, sc_empty sc, sc_notices sc @ [n])"
  "pane_part (show_messages msgs e sc) = (msgs, e, [])"
  by (simp_all add: pane_part_def refresh_list_def draw_header_def set_composer_def show_state_def notice_def show_messages_def)

lemma screen_do_part: "pane_part sc = pane_part sc' \<Longrightarrow> pane_part (screen_do sc st) = pane_part (screen_do sc' st)"
  by (cases st) (simp_all add: screen_do_def, simp add: pane_part_def)

lemma screen_steps_part: "pane_part sc = pane_part sc' \<Longrightarrow> pane_part (foldl screen_do sc steps) = pane_part (foldl screen_do sc' steps)"
proof (induction steps arbitrary: sc sc')
  case (Cons st steps)
  show ?case unfolding foldl.simps by (rule Cons.IH [OF screen_do_part [OF Cons.prems]])
qed simp

lemma redraw_part: "pane_part (redraw m sc) = pane_part (foldl screen_do sc (redraw_steps m))"
  by (simp add: redraw_def redraw_steps_def screen_do_def Let_def split: option.split)

lemma notice_part: "pane_part (notice n sc) = pane_part (foldl screen_do sc' [Say n])" if "pane_part sc = pane_part sc'"
  using that by (simp add: screen_do_def) (simp add: pane_part_def)

lemma render_part: "pane_part (render p sc ev) = pane_part (foldl screen_do sc (render_steps ev))"
proof (cases "(p, sc, ev)" rule: render.cases)
  case (8 p sc user online m)
  then show ?thesis by (simp only: render.simps render_steps.simps prod.inject) (intro notice_part, simp)
next
  case (12 p sc code msg m)
  then show ?thesis by (simp only: render.simps render_steps.simps prod.inject) (intro notice_part, simp)
qed (simp_all add: redraw_part)

text \<open>Events are rendered; notices of failed callbacks, resizing and the timer come in between.\<close>

datatype shown_item = Rendered "event \<times> chat_content" | Other pane_step

fun item_steps :: "shown_item \<Rightarrow> pane_step list" where
  "item_steps (Rendered ev) = render_steps ev"
| "item_steps (Other st) = [st]"

fun item_screen :: "toolkit \<Rightarrow> screen \<Rightarrow> shown_item \<Rightarrow> screen" where
  "item_screen p sc (Rendered ev) = render p sc ev"
| "item_screen p sc (Other st) = screen_do sc st"

lemma items_part: "pane_part (foldl (item_screen p) sc items) = pane_part (foldl screen_do sc (concat (map item_steps items)))"
proof (induction items arbitrary: sc)
  case (Cons it items)
  have one: "pane_part (item_screen p sc it) = pane_part (foldl screen_do sc (item_steps it))"
    by (cases it) (simp_all add: render_part)
  have "pane_part (foldl (item_screen p) sc (it # items)) = pane_part (foldl screen_do (item_screen p sc it) (concat (map item_steps items)))"
    using Cons.IH by simp
  also have "\<dots> = pane_part (foldl screen_do (foldl screen_do sc (item_steps it)) (concat (map item_steps items)))"
    by (rule screen_steps_part [OF one])
  finally show ?case by simp
qed simp

lemma paint_part: "pane_part sc = pane_part sc' \<Longrightarrow> paint day p sc = paint day p sc'"
  by (simp add: pane_part_def paint_def)

text \<open>C35: the canvas reads what the window means to show. From the moment the pane has a size, through any
  events of the model, notices, changes of the size and repainted backgrounds, the texts on the canvas
  are, from top to bottom, those of the transcript: the days, and for each message the initials of
  whoever wrote it, its text and its time and ticks, then the notices, or the invitation to say
  something.\<close>

theorem canvas_reads_the_transcript:
  assumes "40 \<le> w" and "list_all step_ok (concat (map item_steps items))"
  shows "let t = foldl (pane_do dp p) new_transcript (Resized w h # concat (map item_steps items)); sc = foldl (item_screen p) new_screen items in
    as_text t = join [10] (concat (map (painted_texts dp) (paint (day_text dp) p sc)))"
  using pane_opens [OF assms, of dp p h] paint_part [OF items_part [of p new_screen items], of "day_text dp" p]
  by (simp add: reads_def as_text_def)

subsection \<open>Concrete panes\<close>

text \<open>A display without scaling and a font of seven by fifteen pixels, and a conversation of three messages.\<close>

definition plain_display :: display where
  "plain_display = \<lparr>dp_scale = 1, dp_bbox = (\<lambda>i. case i of Label x y t a c f w \<Rightarrow> (\<lfloor>x\<rfloor>, \<lfloor>y\<rfloor>, \<lfloor>x\<rfloor> + 7 * int (length t), \<lfloor>y\<rfloor> + 15) | _ \<Rightarrow> (0, 0, 0, 0)),
     dp_date = (\<lambda>ts. ts div 86400000), dp_today = 1, dp_strfdate = (\<lambda>_. u ''01 January 1970''), dp_exn = (\<lambda>_. u ''error'')\<rparr>"

definition spoken :: "string \<Rightarrow> bool \<Rightarrow> int \<Rightarrow> chat_message" where
  "spoken body mine ts = \<lparr>msg_id = PStr (u body), msg_sender = u ''bob'', msg_body = PStr (u body), msg_ts = ts, msg_mine = mine, msg_state = u ''SENT''\<rparr>"

definition three_messages :: "chat_message list" where
  "three_messages = [spoken ''hi'' False 1000, spoken ''hello'' True 86400001, spoken ''bye'' False 86400002]"

definition clock_kit :: toolkit where
  "clock_kit = \<lparr>tk_lower = id, tk_upper = id, strftime = (\<lambda>_. u ''12:00'')\<rparr>"

lemma three_drawable: "list_all drawable three_messages"
  by (simp add: three_messages_def drawable_def spoken_def)

lemma spoken_painted:
  "ts \<noteq> 0 \<Longrightarrow> meta clock_kit (spoken body mine ts) = u ''12:00'' @ (if mine then u ''  '' @ [10003] else [])"
  "avatar clock_kit (spoken body mine ts) = (if mine then None else Some (u ''bo''))"
  by (simp_all add: meta_def clock_def spoken_def clock_kit_def ticks_def strip_def rstrip_by_def u_def is_space_def
      avatar_def initials_def split_words_def)

theorem bubbles_do_not_overlap_witness:
  "\<exists>t areas. tr_redraw plain_display clock_kit (new_transcript\<lparr>tr_size := (600, 400), tr_messages := three_messages\<rparr>) = (Inr (), t) \<and>
    length areas = 3 \<and> sorted_wrt above areas"
proof -
  let ?s = "new_transcript\<lparr>tr_size := (600, 400), tr_messages := three_messages\<rparr>"
  have m: "measured plain_display 0" by (simp add: measured_def plain_display_def)
  have px: "dpx plain_display 10 = 10" "dp_scale plain_display = 1" by (simp_all add: dpx_def px_def round_even_def plain_display_def)
  have "tr_messages ?s \<noteq> []" "length (tr_messages ?s) = 3" by (simp_all add: three_messages_def)
  then show ?thesis
    using bubbles_do_not_overlap [OF m, of ?s clock_kit] three_drawable px by simp (metis list_all2_lengthD)
qed

theorem canvas_reads_the_transcript_witness:
  "as_text (foldl (pane_do plain_display clock_kit) new_transcript
     [Resized 600 400, Show three_messages [], Resized 500 300, Settled, Say (Notice (u ''bob is offline''))]) =
   join [10] [u ''Yesterday'', u ''bo'', u ''hi'', u ''12:00'', u ''Today'', u ''hello'', u ''12:00'' @ u ''  '' @ [10003], u ''bo'', u ''bye'', u ''12:00'',
     u ''bob is offline'']"
proof -
  let ?items = "[Other (Show three_messages []), Other (Resized 500 300), Other Settled, Other (Say (Notice (u ''bob is offline'')))]"
  have ok: "list_all step_ok (concat (map item_steps ?items))" using three_drawable by (simp add: step_ok_def)
  have sc: "paint (day_text plain_display) clock_kit (foldl (item_screen clock_kit) new_screen ?items) =
      paint_messages (day_text plain_display) clock_kit [] three_messages @ [Small (u ''bob is offline'')]"
    by (simp add: screen_do_def show_messages_def notice_def paint_def paint_notice_def)
  have d: "day_text plain_display 1000 = u ''Yesterday''" "day_text plain_display 86400001 = u ''Today''" "day_text plain_display 86400002 = u ''Today''"
    by (simp_all add: day_text_def plain_display_def)
  have f: "msg_ts (spoken b m ts) = ts" "msg_body (spoken b m ts) = PStr (u b)" for b m ts by (simp_all add: spoken_def)
  have "concat (map (painted_texts plain_display) (paint_messages (day_text plain_display) clock_kit [] three_messages @ [Small (u ''bob is offline'')])) =
      [u ''Yesterday'', u ''bo'', u ''hi'', u ''12:00'', u ''Today'', u ''hello'', u ''12:00'' @ u ''  '' @ [10003], u ''bo'', u ''bye'', u ''12:00'',
       u ''bob is offline'']"
    by (simp add: three_messages_def Let_def d f spoken_painted painted_texts_def)
  then show ?thesis
    using canvas_reads_the_transcript [OF _ ok, of 600 plain_display clock_kit 400] unfolding Let_def sc by simp
qed

theorem background_covers_the_pane_witness:
  "let t = foldl (pane_do plain_display clock_kit) new_transcript [Resized 600 400, Show three_messages [], Resized 655 410, Settled] in
    \<exists>W H. tr_backdrop t = Some (W, H) \<and> 655 < W \<and> W \<le> 695 \<and> 410 < H \<and> H \<le> 450"
  using background_covers_the_pane [of 600 "[Show three_messages []]" 655 410 plain_display clock_kit 400] three_drawable
  by (auto simp: step_ok_def Let_def)

end
