(* ===== verification/Bitmap.thy ===== *)
theory Bitmap
  imports Pane
begin

section \<open>The background, pixel by pixel\<close>

text \<open>
  \<open>_rgb\<close>, \<open>_blobs\<close> and \<open>_render\<close> of \<open>im/client/view/tk/backdrop.py\<close>: the bitmap behind the messages. A row is a
  \<open>bytearray\<close>, whose updates raise out of range, and floats are real numbers: rounding errors are left
  out. The renderer patches only the columns a blob reaches; it is shown to give every pixel the
  colour of a formula that looks at all blobs, and never to raise.
\<close>

subsection \<open>Colours and blobs\<close>

type_synonym rgb = "int \<times> int \<times> int"

definition PAGE :: string where
  "PAGE = ''#FFFCF5''"

definition STRENGTH :: real where
  "STRENGTH = 3 / 10"

definition DOT_SPACING :: int where
  "DOT_SPACING = 26"

definition DOT_STRENGTH :: real where
  "DOT_STRENGTH = 55 / 100"

text \<open>\<open>int(colour[a:b], 16)\<close>, for the colours of the theme, which consist of digits.\<close>

definition hex_int :: "string \<Rightarrow> int" where
  "hex_int s = foldl (\<lambda>n c. 16 * n + int (the (hex_val (of_char c)))) 0 s"

definition rgb_of :: "string \<Rightarrow> rgb" where
  "rgb_of colour = (hex_int (take 2 (drop 1 colour)), hex_int (take 2 (drop 3 colour)), hex_int (take 2 (drop 5 colour)))"

record blob =
  bl_x :: real
  bl_y :: real
  bl_radius :: real
  bl_colour :: rgb

definition blobs :: "int \<Rightarrow> int \<Rightarrow> blob list" where
  "blobs width height = (let w = of_int width; h = of_int height in
     [\<lparr>bl_x = w * (8 / 100), bl_y = h * (12 / 100), bl_radius = max w h * (55 / 100), bl_colour = rgb_of ORANGE\<rparr>,
      \<lparr>bl_x = w * (95 / 100), bl_y = h * (30 / 100), bl_radius = max w h * (45 / 100), bl_colour = rgb_of PEACH\<rparr>,
      \<lparr>bl_x = w * (55 / 100), bl_y = h * (102 / 100), bl_radius = max w h * (60 / 100), bl_colour = rgb_of ORANGE_DEEP\<rparr>])"

subsection \<open>A row\<close>

text \<open>\<open>int\<close> of a float cuts towards zero.\<close>

definition trunc :: "real \<Rightarrow> int" where
  "trunc x = (if x < 0 then \<lceil>x\<rceil> else \<lfloor>x\<rfloor>)"

definition is_byte :: "int \<Rightarrow> bool" where
  "is_byte v \<longleftrightarrow> 0 \<le> v \<and> v \<le> 255"

text \<open>\<open>row[i] = f(row[i])\<close>, for an index that is not negative, and the three channels of a pixel.\<close>

definition set_byte :: "nat \<Rightarrow> (int \<Rightarrow> int) \<Rightarrow> (int list, unit) py" where
  "set_byte i f = bnd (gets id) (\<lambda>row. if length row \<le> i then raise Index_Error
     else if is_byte (f (row ! i)) then modify (\<lambda>row. row[i := f (row ! i)]) else raise Value_Error)"

definition set_pixel :: "int \<Rightarrow> (int \<Rightarrow> int) \<Rightarrow> (int \<Rightarrow> int) \<Rightarrow> (int \<Rightarrow> int) \<Rightarrow> (int list, unit) py" where
  "set_pixel x fr fg fb = (let i = nat (x * 3) in andthen (set_byte i fr) (andthen (set_byte (i + 1) fg) (set_byte (i + 2) fb)))"

text \<open>\<open>range(a, b)\<close> and \<open>range(0, b, step)\<close>.\<close>

definition range_of :: "int \<Rightarrow> int \<Rightarrow> int list" where
  "range_of a b = [a..b - 1]"

definition steps_of :: "int \<Rightarrow> int \<Rightarrow> int list" where
  "steps_of b step = filter (\<lambda>x. x mod step = 0) (range_of 0 b)"

text \<open>What is computed once for a blob: the columns it can touch and their squared distances.\<close>

record prepared =
  pr_blob :: blob
  pr_left :: int
  pr_right :: int
  pr_dxs :: "real list"

definition prepare :: "int \<Rightarrow> blob \<Rightarrow> prepared option" where
  "prepare width b = (let left = max 0 (trunc (bl_x b - bl_radius b)); right = min width (trunc (bl_x b + bl_radius b) + 1) in
     if left < right then Some \<lparr>pr_blob = b, pr_left = left, pr_right = right,
       pr_dxs = map (\<lambda>x. (of_int x - bl_x b)\<^sup>2) (range_of left right)\<rparr> else None)"

definition blend :: "int \<Rightarrow> real \<Rightarrow> int \<Rightarrow> int" where
  "blend c a v = trunc (of_int v + of_int (c - v) * a)"

definition falloff :: "real \<Rightarrow> real \<Rightarrow> real" where
  "falloff d2 radius = (1 - sqrt d2 / radius)\<^sup>2 * STRENGTH"

definition paint_column :: "prepared \<Rightarrow> real \<Rightarrow> int \<Rightarrow> (int list, unit) py" where
  "paint_column pr dy2 x = (let b = pr_blob pr; i = nat (x - pr_left pr) in
     if length (pr_dxs pr) \<le> i then raise Index_Error
     else let d2 = pr_dxs pr ! i + dy2 in
       if bl_radius b * bl_radius b \<le> d2 then ret ()
       else let a = falloff d2 (bl_radius b) in case bl_colour b of (cr, cg, cb) \<Rightarrow> set_pixel x (blend cr a) (blend cg a) (blend cb a))"

definition paint_blob :: "int \<Rightarrow> prepared \<Rightarrow> (int list, unit) py" where
  "paint_blob y pr = (let b = pr_blob pr; dy2 = (of_int y - bl_y b)\<^sup>2 in
     if bl_radius b * bl_radius b < dy2 then ret ()
     else let reach = sqrt (bl_radius b * bl_radius b - dy2);
              x0 = max (pr_left pr) (trunc (bl_x b - reach)); x1 = min (pr_right pr) (trunc (bl_x b + reach) + 1) in
       for_each (range_of x0 x1) (paint_column pr dy2))"

definition base_colour :: "int \<Rightarrow> int \<Rightarrow> rgb" where
  "base_colour height y = (let f = of_int y / of_int (max 1 (height - 1)); mixed = (\<lambda>a b. trunc (of_int a + of_int (b - a) * f)) in
     case (rgb_of PAGE, rgb_of CREAM) of ((r1, g1, b1), (r2, g2, b2)) \<Rightarrow> (mixed r1 r2, mixed g1 g2, mixed b1 b2))"

definition darker :: "int \<Rightarrow> int \<Rightarrow> int" where
  "darker k v = trunc (of_int v - DOT_STRENGTH * of_int k)"

definition paint_dots :: "int \<Rightarrow> int \<Rightarrow> (int list, unit) py" where
  "paint_dots width y = (if y mod DOT_SPACING = 0
     then for_each (steps_of width DOT_SPACING) (\<lambda>x. set_pixel x (darker 8) (darker 10) (darker 14)) else ret ())"

text \<open>A row starts flat; \<open>bytes\<close> raises \<open>ValueError\<close> for a number that is none.\<close>

definition render_row :: "int \<Rightarrow> int \<Rightarrow> prepared list \<Rightarrow> int \<Rightarrow> exn + int list" where
  "render_row width height ready y = (case base_colour height y of (r, g, b) \<Rightarrow>
     if \<not> (is_byte r \<and> is_byte g \<and> is_byte b) then Inl Value_Error
     else case andthen (for_each ready (paint_blob y)) (paint_dots width y) (concat (replicate (nat width) [r, g, b])) of
         (Inl e, _) \<Rightarrow> Inl e
       | (Inr _, row) \<Rightarrow> Inr row)"

definition ppm_header :: "int \<Rightarrow> int \<Rightarrow> ustr" where
  "ppm_header width height = u ''P6'' @ [10] @ int_str width @ [32] @ int_str height @ [10] @ u ''255'' @ [10]"

fun render_rows :: "int \<Rightarrow> int \<Rightarrow> prepared list \<Rightarrow> int list \<Rightarrow> exn + int list list" where
  "render_rows width height ready [] = Inr []"
| "render_rows width height ready (y # ys) = (case render_row width height ready y of Inl e \<Rightarrow> Inl e
     | Inr row \<Rightarrow> (case render_rows width height ready ys of Inl e \<Rightarrow> Inl e | Inr rest \<Rightarrow> Inr (row # rest)))"

definition render_image :: "int \<Rightarrow> int \<Rightarrow> exn + int list" where
  "render_image width height = (case render_rows width height (List.map_filter (prepare width) (blobs width height)) (range_of 0 height) of
       Inl e \<Rightarrow> Inl e
     | Inr rs \<Rightarrow> Inr (map int (ppm_header width height) @ concat rs))"

subsection \<open>The formula\<close>

text \<open>A pixel on its own: the gradient, every blob that is near enough, in order, and the motif.\<close>

definition glow :: "int \<Rightarrow> int \<Rightarrow> rgb \<Rightarrow> blob \<Rightarrow> rgb" where
  "glow x y v b = (let d2 = (of_int x - bl_x b)\<^sup>2 + (of_int y - bl_y b)\<^sup>2 in
     if d2 < (bl_radius b)\<^sup>2
     then let a = falloff d2 (bl_radius b) in case (v, bl_colour b) of ((r, g, bl), (cr, cg, cb)) \<Rightarrow> (blend cr a r, blend cg a g, blend cb a bl)
     else v)"

definition dotted :: "int \<Rightarrow> int \<Rightarrow> rgb \<Rightarrow> rgb" where
  "dotted x y v = (case v of (r, g, b) \<Rightarrow>
     if x mod DOT_SPACING = 0 \<and> y mod DOT_SPACING = 0 then (darker 8 r, darker 10 g, darker 14 b) else v)"

definition pixel :: "int \<Rightarrow> int \<Rightarrow> int \<Rightarrow> int \<Rightarrow> rgb" where
  "pixel width height x y = dotted x y (foldl (glow x y) (base_colour height y) (blobs width height))"

definition row_of_pixels :: "int \<Rightarrow> (int \<Rightarrow> rgb) \<Rightarrow> int list" where
  "row_of_pixels width f = concat (map (\<lambda>x. case f x of (r, g, b) \<Rightarrow> [r, g, b]) (range_of 0 width))"

subsection \<open>Numbers\<close>

lemma trunc_bounds: "0 \<le> x \<Longrightarrow> real_of_int (trunc x) \<le> x \<and> x < of_int (trunc x) + 1"
  using floor_correct [of x] by (auto simp: trunc_def)

lemma trunc_left: "a < of_int x \<Longrightarrow> 0 \<le> x \<Longrightarrow> trunc a \<le> x"
  by (auto simp: trunc_def ceiling_le_iff floor_le_iff)

lemma trunc_right: "of_int x < b \<Longrightarrow> 0 \<le> x \<Longrightarrow> x < trunc b + 1"
  by (auto simp: trunc_def) linarith

lemma range_of_set [simp]: "set (range_of a b) = {a..<b}"
  by (auto simp: range_of_def)

lemma range_of_distinct [simp]: "distinct (range_of a b)"
  by (simp add: range_of_def)

lemma range_of_nth: "i < nat (b - a) \<Longrightarrow> range_of a b ! i = a + int i"
  by (simp add: range_of_def)

lemma range_of_length [simp]: "length (range_of a b) = nat (b - a)"
  by (simp add: range_of_def)

lemma theme_colours:
  "rgb_of ORANGE = (255, 131, 71)" "rgb_of PEACH = (255, 229, 180)" "rgb_of ORANGE_DEEP = (255, 138, 0)"
  "rgb_of PAGE = (255, 252, 245)" "rgb_of CREAM = (255, 247, 230)"
  by (simp_all add: rgb_of_def hex_int_def ORANGE_def PEACH_def ORANGE_DEEP_def PAGE_def CREAM_def hex_val_def of_char_def)

lemma falloff_bounds: "0 \<le> d2 \<Longrightarrow> d2 < r\<^sup>2 \<Longrightarrow> 0 < r \<Longrightarrow> 0 \<le> falloff d2 r \<and> falloff d2 r \<le> 3 / 10"
proof -
  assume a: "0 \<le> d2" "d2 < r\<^sup>2" "0 < r"
  then have "sqrt d2 \<le> r" using real_sqrt_less_mono [OF a(2)] by simp
  then have "0 \<le> 1 - sqrt d2 / r" "1 - sqrt d2 / r \<le> 1" using a by (simp_all add: field_simps)
  then have "(1 - sqrt d2 / r)\<^sup>2 \<le> 1" by (simp add: power_le_one)
  then show ?thesis by (simp add: falloff_def STRENGTH_def)
qed

lemma blend_bounds:
  assumes "0 \<le> a" "a \<le> 3 / 10" "0 \<le> c" "c \<le> 255" "0 \<le> v" "v \<le> 255"
  shows "is_byte (blend c a v)" "7 * v - 10 \<le> 10 * blend c a v"
proof -
  let ?v = "real_of_int v" and ?c = "real_of_int c"
  let ?m = "?v + of_int (c - v) * a"
  have m: "?m = ?v * (1 - a) + ?c * a" by (simp add: algebra_simps)
  have "?v * (1 - a) \<le> 255 * (1 - a)" "?c * a \<le> 255 * a" using assms by (auto intro: mult_right_mono simp del: right_diff_distrib_numeral)
  from add_mono [OF this] have up: "?m \<le> 255" unfolding m by (simp add: right_diff_distrib)
  have "?v * (7 / 10) \<le> ?v * (1 - a)" using assms by (intro mult_left_mono) simp_all
  moreover have "0 \<le> ?c * a" using assms by simp
  ultimately have lo: "?v * (7 / 10) \<le> ?m" unfolding m by linarith
  then have "0 \<le> ?m" using assms(5) by (meson mult_nonneg_nonneg of_int_0_le_iff order_trans zero_le_divide_iff zero_le_numeral)
  note t = trunc_bounds [OF this]
  then have "0 \<le> trunc ?m" using \<open>0 \<le> ?m\<close> by linarith
  moreover have "trunc ?m \<le> 255" using t up by linarith
  ultimately show "is_byte (blend c a v)" by (simp add: is_byte_def blend_def)
  show "7 * v - 10 \<le> 10 * blend c a v" using t lo unfolding blend_def by linarith
qed

subsection \<open>Rows as functions from columns to colours\<close>

lemma row_cong: "(\<And>x. 0 \<le> x \<Longrightarrow> x < w \<Longrightarrow> f x = g x) \<Longrightarrow> row_of_pixels w f = row_of_pixels w g"
  unfolding row_of_pixels_def by (intro arg_cong [where f = concat] map_cong) auto

lemma pixels_length: "length (concat (map (\<lambda>x. case f x of (r, g, b) \<Rightarrow> [r, g, b]) xs)) = length xs * 3"
  by (induction xs) (auto split: prod.split)

lemma row_length [simp]: "length (row_of_pixels w f) = nat w * 3"
  by (simp add: row_of_pixels_def pixels_length)

lemma range_split: "0 \<le> x \<Longrightarrow> x < w \<Longrightarrow> range_of 0 w = range_of 0 x @ x # range_of (x + 1) w"
  using upto_split3 [of 0 x "w - 1"] by (simp add: range_of_def)

lemma set_pixel_run:
  assumes "0 \<le> x" "x < w" "f x = (r, g, b)" "is_byte (fr r)" "is_byte (fg g)" "is_byte (fb b)"
  shows "set_pixel x fr fg fb (row_of_pixels w f) = (Inr (), row_of_pixels w (f(x := (fr r, fg g, fb b))))"
proof -
  let ?px = "\<lambda>h xs. concat (map (\<lambda>x. case h x of (r, g, b) \<Rightarrow> [r, g, b]) xs) :: int list"
  let ?A = "?px f (range_of 0 x)" and ?B = "?px f (range_of (x + 1) w)" and ?f = "f(x := (fr r, fg g, fb b))"
  have l: "length ?A = nat (x * 3)" using assms(1) by (simp add: pixels_length nat_mult_distrib)
  have row: "row_of_pixels w f = ?A @ [r, g, b] @ ?B" using assms(3) by (simp add: row_of_pixels_def range_split [OF assms(1,2)])
  have "?px ?f (range_of 0 x) = ?A" "?px ?f (range_of (x + 1) w) = ?B" by (rule arg_cong [where f = concat], rule map_cong; auto)+
  then have new: "row_of_pixels w ?f = ?A @ [fr r, fg g, fb b] @ ?B" by (simp add: row_of_pixels_def range_split [OF assms(1,2)])
  show ?thesis
    unfolding row new
    using assms(4-6) by (simp add: set_pixel_def set_byte_def Let_def andthen_def bnd_def l [symmetric] nth_append list_update_append)
qed

text \<open>A loop over columns that changes each one on its own.\<close>

lemma for_columns:
  assumes "\<And>x f. x \<in> set xs \<Longrightarrow> f x = v x \<Longrightarrow> m x (row_of_pixels w f) = (Inr (), row_of_pixels w (f(x := k x)))"
    and "distinct xs" and "\<And>x. x \<in> set xs \<Longrightarrow> f x = v x"
  shows "for_each xs m (row_of_pixels w f) = (Inr (), row_of_pixels w (\<lambda>x. if x \<in> set xs then k x else f x))"
  using assms
proof (induction xs arbitrary: f)
  case (Cons x xs)
  have "for_each xs m (row_of_pixels w (f(x := k x))) = (Inr (), row_of_pixels w (\<lambda>z. if z \<in> set xs then k z else (f(x := k x)) z))"
    using Cons.prems by (intro Cons.IH) auto
  moreover have "(\<lambda>z. if z \<in> set xs then k z else (f(x := k x)) z) = (\<lambda>z. if z \<in> set (x # xs) then k z else f z)" by auto
  ultimately show ?case using Cons.prems(1) [of x f] Cons.prems(3) [of x] by (simp add: andthen_def bnd_def del: fun_upd_apply)
qed simp

subsection \<open>What a blob does to a row\<close>

definition blob_ok :: "blob \<Rightarrow> bool" where
  "blob_ok b \<longleftrightarrow> 0 < bl_radius b \<and> (case bl_colour b of (r, g, bl) \<Rightarrow> is_byte r \<and> is_byte g \<and> is_byte bl)"

definition at_least :: "int \<Rightarrow> rgb \<Rightarrow> bool" where
  "at_least lo v \<longleftrightarrow> (case v of (r, g, b) \<Rightarrow> lo \<le> r \<and> r \<le> 255 \<and> lo \<le> g \<and> g \<le> 255 \<and> lo \<le> b \<and> b \<le> 255)"

lemma glow_bounds:
  assumes "blob_ok b" "at_least lo v" "0 \<le> lo" "10 * lo' \<le> 7 * lo - 10 \<or> lo' = 0"
  shows "at_least lo' (glow x y v b)"
proof -
  let ?d2 = "(of_int x - bl_x b)\<^sup>2 + (of_int y - bl_y b)\<^sup>2"
  obtain r g bl where v: "v = (r, g, bl)" by (cases v)
  obtain cr cg cb where c: "bl_colour b = (cr, cg, cb)" by (cases "bl_colour b")
  have "0 \<le> falloff ?d2 (bl_radius b) \<and> falloff ?d2 (bl_radius b) \<le> 3 / 10" if "?d2 < (bl_radius b)\<^sup>2"
    using that assms(1) by (intro falloff_bounds) (simp_all add: blob_ok_def)
  then show ?thesis
    using assms blend_bounds [of "falloff ?d2 (bl_radius b)" cr r] blend_bounds [of "falloff ?d2 (bl_radius b)" cg g]
      blend_bounds [of "falloff ?d2 (bl_radius b)" cb bl]
    by (auto simp: glow_def Let_def v c blob_ok_def at_least_def is_byte_def)
qed

lemma near_column:
  assumes "(of_int x - cx)\<^sup>2 + dy2 < r\<^sup>2" "0 \<le> dy2" "0 \<le> x" "0 < r"
  shows "trunc (cx - r) \<le> x" "x < trunc (cx + r) + 1"
    "trunc (cx - sqrt (r * r - dy2)) \<le> x" "x < trunc (cx + sqrt (r * r - dy2)) + 1" "dy2 < r * r"
proof -
  let ?q = "sqrt (r * r - dy2)"
  have s: "(of_int x - cx)\<^sup>2 < r * r - dy2" using assms(1) by (simp add: power2_eq_square)
  then show "dy2 < r * r" using zero_le_power2 [of "of_int x - cx"] by linarith
  have "\<bar>of_int x - cx\<bar> < ?q" using real_sqrt_less_mono [OF s] by simp
  moreover have "?q \<le> r" using assms(2,4) by (intro real_le_lsqrt) (auto simp: power2_eq_square)
  ultimately have "cx - ?q < of_int x" "of_int x < cx + ?q" "cx - r < of_int x" "of_int x < cx + r" by linarith+
  then show "trunc (cx - r) \<le> x" "x < trunc (cx + r) + 1" "trunc (cx - ?q) \<le> x" "x < trunc (cx + ?q) + 1"
    using trunc_left trunc_right assms(3) by blast+
qed

lemma paint_column_run:
  assumes "prepare w b = Some pr" "blob_ok b" "pr_left pr \<le> x" "x < pr_right pr" "at_least 0 (f x)"
  shows "paint_column pr ((of_int y - bl_y b)\<^sup>2) x (row_of_pixels w f) = (Inr (), row_of_pixels w (f(x := glow x y (f x) b)))"
proof -
  let ?d2 = "(of_int x - bl_x b)\<^sup>2 + (of_int y - bl_y b)\<^sup>2"
  obtain r g bl where v: "f x = (r, g, bl)" by (cases "f x")
  obtain cr cg cb where c: "bl_colour b = (cr, cg, cb)" by (cases "bl_colour b")
  have p: "pr_blob pr = b" "0 \<le> pr_left pr" "pr_right pr \<le> w" "pr_dxs pr = map (\<lambda>x. (of_int x - bl_x b)\<^sup>2) (range_of (pr_left pr) (pr_right pr))"
    using assms(1) by (auto simp: prepare_def Let_def split: if_splits)
  have i: "nat (x - pr_left pr) < length (pr_dxs pr)" "pr_dxs pr ! nat (x - pr_left pr) = (of_int x - bl_x b)\<^sup>2"
    using assms(3,4) by (simp_all add: p(4) range_of_nth)
  show ?thesis
  proof (cases "?d2 < (bl_radius b)\<^sup>2")
    case True
    have "at_least 0 (glow x y (f x) b)" by (rule glow_bounds [OF assms(2,5)]) simp_all
    then show ?thesis
      using True i p(1-3) assms(3,4) v c set_pixel_run [of x w f r g bl]
      by (simp add: paint_column_def Let_def glow_def at_least_def is_byte_def power2_eq_square)
  next
    case False
    then have "f(x := glow x y (f x) b) = f" by (auto simp: glow_def Let_def)
    then show ?thesis using False i p(1) by (simp add: paint_column_def Let_def power2_eq_square)
  qed
qed

lemma paint_blob_run:
  assumes "prepare w b = Some pr" "blob_ok b" "\<And>x. 0 \<le> x \<Longrightarrow> x < w \<Longrightarrow> at_least 0 (f x)"
  shows "paint_blob y pr (row_of_pixels w f) = (Inr (), row_of_pixels w (\<lambda>x. glow x y (f x) b))"
proof -
  let ?r = "bl_radius b" and ?dy2 = "(of_int y - bl_y b)\<^sup>2"
  let ?q = "sqrt (?r * ?r - ?dy2)"
  let ?xs = "range_of (max (pr_left pr) (trunc (bl_x b - ?q))) (min (pr_right pr) (trunc (bl_x b + ?q) + 1))"
  have r: "0 < ?r" using assms(2) by (simp add: blob_ok_def)
  have p: "pr_blob pr = b" "pr_left pr = max 0 (trunc (bl_x b - ?r))" "pr_right pr = min w (trunc (bl_x b + ?r) + 1)"
    using assms(1) by (auto simp: prepare_def Let_def split: if_splits)
  have far: "glow x y (f x) b = f x" if "0 \<le> x" "x < w" "x \<notin> set ?xs \<or> ?r * ?r < ?dy2" for x
    using near_column [of x "bl_x b" ?dy2 ?r] that r by (auto simp: glow_def Let_def p)
  show ?thesis
  proof (cases "?r * ?r < ?dy2")
    case True
    then have "row_of_pixels w (\<lambda>x. glow x y (f x) b) = row_of_pixels w f" using far by (intro row_cong) simp
    then show ?thesis using True by (simp add: paint_blob_def Let_def p(1))
  next
    case False
    have "for_each ?xs (paint_column pr ?dy2) (row_of_pixels w f) =
        (Inr (), row_of_pixels w (\<lambda>x. if x \<in> set ?xs then glow x y (f x) b else f x))"
    proof (rule for_columns [where v = f])
      fix x g assume x: "x \<in> set ?xs" "g x = f x"
      then have "0 \<le> x" "x < w" by (auto simp: p)
      with x assms(3) show "paint_column pr ?dy2 x (row_of_pixels w g) = (Inr (), row_of_pixels w (g(x := glow x y (f x) b)))"
        using paint_column_run [OF assms(1,2), of x g y] by simp
    qed simp_all
    moreover have "row_of_pixels w (\<lambda>x. if x \<in> set ?xs then glow x y (f x) b else f x) = row_of_pixels w (\<lambda>x. glow x y (f x) b)"
      using far by (intro row_cong) auto
    ultimately show ?thesis using False by (simp add: paint_blob_def Let_def p(1))
  qed
qed

lemma unprepared_blob:
  assumes "prepare w b = None" "blob_ok b"
  shows "row_of_pixels w (\<lambda>x. glow x y (f x) b) = row_of_pixels w f"
proof (rule row_cong)
  fix x assume x: "0 \<le> x" "x < w"
  have "\<not> max 0 (trunc (bl_x b - bl_radius b)) < min w (trunc (bl_x b + bl_radius b) + 1)"
    using assms(1) by (auto simp: prepare_def Let_def split: if_splits)
  with x have "\<not> (trunc (bl_x b - bl_radius b) \<le> x \<and> x < trunc (bl_x b + bl_radius b) + 1)" by auto
  then show "glow x y (f x) b = f x"
    using near_column(1,2) [of x "bl_x b" "(of_int y - bl_y b)\<^sup>2" "bl_radius b"] x assms(2) by (auto simp: glow_def Let_def blob_ok_def)
qed

lemma paint_blobs_run:
  assumes "\<And>b. b \<in> set bs \<Longrightarrow> blob_ok b" "\<And>x. 0 \<le> x \<Longrightarrow> x < w \<Longrightarrow> at_least 0 (f x)"
  shows "for_each (List.map_filter (prepare w) bs) (paint_blob y) (row_of_pixels w f) = (Inr (), row_of_pixels w (\<lambda>x. foldl (glow x y) (f x) bs))"
  using assms
proof (induction bs arbitrary: f)
  case (Cons b bs)
  have ok: "blob_ok b" using Cons.prems(1) by simp
  have keep: "at_least 0 (glow x y (f x) b)" if "0 \<le> x" "x < w" for x by (rule glow_bounds [OF ok Cons.prems(2) [OF that]]) simp_all
  note IH = Cons.IH [of "\<lambda>x. glow x y (f x) b"]
  show ?case
  proof (cases "prepare w b")
    case None
    then show ?thesis using unprepared_blob [OF None ok, of y f] IH Cons.prems(1) keep by (simp add: List.map_filter_simps)
  next
    case (Some pr)
    then show ?thesis
      using paint_blob_run [OF Some ok Cons.prems(2)] IH Cons.prems(1) keep by (simp add: List.map_filter_simps andthen_def bnd_def)
  qed
qed (simp add: List.map_filter_simps)

subsection \<open>The whole image\<close>

lemma blobs_ok: "0 < w \<Longrightarrow> 0 < h \<Longrightarrow> b \<in> set (blobs w h) \<Longrightarrow> blob_ok b"
  by (auto simp: blobs_def Let_def blob_ok_def theme_colours is_byte_def max_def)

lemma mixed_bounds:
  assumes "0 \<le> b" "b \<le> a" "0 \<le> (f::real)" "f \<le> 1"
  shows "b \<le> trunc (of_int a + of_int (b - a) * f) \<and> trunc (of_int a + of_int (b - a) * f) \<le> a"
proof -
  let ?m = "of_int a + of_int (b - a) * f"
  have "of_int (b - a) \<le> of_int (b - a) * f" "of_int (b - a) * f \<le> 0"
    using assms mult_left_mono_neg [of f 1 "of_int (b - a)"] by (simp_all add: mult_nonpos_nonneg)
  then have m: "of_int b \<le> ?m" "?m \<le> of_int a" by simp_all
  then have "0 \<le> ?m" using assms(1) by linarith
  note t = trunc_bounds [OF this]
  have "of_int b < of_int (trunc ?m) + (1::real)" "of_int (trunc ?m) \<le> (of_int a :: real)" using m t by linarith+
  then show ?thesis by linarith
qed

lemma base_bounds: "0 \<le> y \<Longrightarrow> y < h \<Longrightarrow> at_least 230 (base_colour h y)"
proof -
  assume y: "0 \<le> y" "y < h"
  let ?f = "of_int y / of_int (max 1 (h - 1)) :: real"
  have "0 \<le> ?f" "?f \<le> 1" using y by (auto simp: divide_le_eq_1 max_def)
  then show ?thesis
    using mixed_bounds [of 255 255 ?f] mixed_bounds [of 247 252 ?f] mixed_bounds [of 230 245 ?f]
    by (simp add: base_colour_def theme_colours Let_def at_least_def)
qed

lemma glowing_bounds:
  assumes "0 < w" "0 \<le> y" "y < h"
  shows "at_least 76 (foldl (glow x y) (base_colour h y) (blobs w h))"
proof -
  obtain b1 b2 b3 where b: "blobs w h = [b1, b2, b3]" by (simp add: blobs_def Let_def)
  have ok: "blob_ok b1" "blob_ok b2" "blob_ok b3" using blobs_ok [of w h] assms unfolding b by auto
  have "at_least 160 (glow x y (base_colour h y) b1)" by (rule glow_bounds [OF ok(1) base_bounds [OF assms(2,3)]]) simp_all
  from glow_bounds [OF ok(2) this] have "at_least 111 (glow x y (glow x y (base_colour h y) b1) b2)" by simp
  from glow_bounds [OF ok(3) this] show ?thesis by (simp add: b)
qed

lemma darker_byte: "14 \<le> v \<Longrightarrow> v \<le> 255 \<Longrightarrow> 0 \<le> k \<Longrightarrow> k \<le> 14 \<Longrightarrow> is_byte (darker k v)"
proof -
  assume a: "14 \<le> v" "v \<le> 255" "0 \<le> k" "k \<le> 14"
  let ?m = "of_int v - DOT_STRENGTH * of_int k"
  have m: "0 \<le> ?m" "?m \<le> 255" using a by (simp_all add: DOT_STRENGTH_def)
  from trunc_bounds [OF m(1)] m show ?thesis unfolding darker_def is_byte_def by linarith
qed

lemma paint_dots_run:
  assumes "\<And>x. 0 \<le> x \<Longrightarrow> x < w \<Longrightarrow> at_least 14 (f x)"
  shows "paint_dots w y (row_of_pixels w f) = (Inr (), row_of_pixels w (\<lambda>x. dotted x y (f x)))"
proof (cases "y mod DOT_SPACING = 0")
  case True
  let ?xs = "steps_of w DOT_SPACING"
  have xs: "distinct ?xs" "x \<in> set ?xs \<longleftrightarrow> 0 \<le> x \<and> x < w \<and> x mod DOT_SPACING = 0" for x by (auto simp: steps_of_def)
  have "for_each ?xs (\<lambda>x. set_pixel x (darker 8) (darker 10) (darker 14)) (row_of_pixels w f) =
      (Inr (), row_of_pixels w (\<lambda>x. if x \<in> set ?xs then dotted x y (f x) else f x))"
  proof (rule for_columns [where v = f])
    fix x g assume x: "x \<in> set ?xs" "g x = f x"
    obtain r gr b where v: "f x = (r, gr, b)" by (cases "f x")
    have "is_byte (darker 8 r)" "is_byte (darker 10 gr)" "is_byte (darker 14 b)"
      using assms [of x] x(1) by (auto simp: v at_least_def xs intro!: darker_byte)
    with x v True show "set_pixel x (darker 8) (darker 10) (darker 14) (row_of_pixels w g) = (Inr (), row_of_pixels w (g(x := dotted x y (f x))))"
      using set_pixel_run [of x w g r gr b] by (simp add: xs dotted_def)
  qed (simp_all add: xs)
  moreover have "row_of_pixels w (\<lambda>x. if x \<in> set ?xs then dotted x y (f x) else f x) = row_of_pixels w (\<lambda>x. dotted x y (f x))"
    by (intro row_cong) (auto simp: xs dotted_def)
  ultimately show ?thesis using True by (simp add: paint_dots_def)
next
  case False
  then show ?thesis by (auto simp: paint_dots_def dotted_def intro!: row_cong)
qed

lemma flat_row: "concat (replicate (nat w) [r, g, b]) = row_of_pixels w (\<lambda>_. (r, g, b))"
  by (simp add: row_of_pixels_def map_replicate_const)

lemma render_row_run:
  assumes "0 < w" "0 \<le> y" "y < h"
  shows "render_row w h (List.map_filter (prepare w) (blobs w h)) y = Inr (row_of_pixels w (\<lambda>x. pixel w h x y))"
proof -
  let ?g = "\<lambda>x. foldl (glow x y) (base_colour h y) (blobs w h)"
  obtain r g b where c: "base_colour h y = (r, g, b)" by (cases "base_colour h y")
  note base = base_bounds [OF assms(2,3)]
  have "at_least 0 (base_colour h y)" using base by (auto simp: at_least_def)
  then have "for_each (List.map_filter (prepare w) (blobs w h)) (paint_blob y) (row_of_pixels w (\<lambda>_. (r, g, b))) = (Inr (), row_of_pixels w ?g)"
    using paint_blobs_run [of "blobs w h" w "\<lambda>_. (r, g, b)" y] blobs_ok [of w h] assms by (simp add: c)
  moreover have "at_least 14 (?g x)" for x using glowing_bounds [OF assms, of x] by (auto simp: at_least_def)
  then have "paint_dots w y (row_of_pixels w ?g) = (Inr (), row_of_pixels w (\<lambda>x. pixel w h x y))"
    using paint_dots_run [of w ?g y] by (simp add: pixel_def)
  ultimately show ?thesis using base by (simp add: render_row_def c flat_row andthen_def bnd_def at_least_def is_byte_def)
qed

lemma render_rows_run:
  assumes "0 < w" "\<And>y. y \<in> set ys \<Longrightarrow> 0 \<le> y \<and> y < h"
  shows "render_rows w h (List.map_filter (prepare w) (blobs w h)) ys = Inr (map (\<lambda>y. row_of_pixels w (\<lambda>x. pixel w h x y)) ys)"
  using assms(2) by (induction ys) (simp_all add: render_row_run [OF assms(1)])

lemma pixel_bytes: "0 < w \<Longrightarrow> 0 \<le> y \<Longrightarrow> y < h \<Longrightarrow> pixel w h x y = (r, g, b) \<Longrightarrow> is_byte r \<and> is_byte g \<and> is_byte b"
  using glowing_bounds [of w y h x] unfolding pixel_def dotted_def
  by (auto simp: at_least_def split: prod.splits if_splits intro!: darker_byte) (auto simp: is_byte_def)

lemma row_bytes: "0 < w \<Longrightarrow> 0 \<le> y \<Longrightarrow> y < h \<Longrightarrow> list_all is_byte (row_of_pixels w (\<lambda>x. pixel w h x y))"
proof -
  assume a: "0 < w" "0 \<le> y" "y < h"
  have "list_all is_byte (case pixel w h x y of (r, g, b) \<Rightarrow> [r, g, b])" for x
    using pixel_bytes [OF a, of x] by (cases "pixel w h x y") simp
  then show ?thesis by (auto simp: row_of_pixels_def list_all_iff)
qed

text \<open>C32: the renderer of the background paints the picture it means to. For every pane it never raises, and
  the optimised loops, which patch only the columns a blob was computed to reach, give exactly the
  image in which each pixel is computed on its own from the gradient, every blob whose circle it is
  in, and the motif. The file announces its width and height and holds exactly that many pixels,
  all of them bytes.\<close>

theorem render_is_per_pixel:
  assumes "0 < w" and "0 < h"
  shows "\<exists>body. render_image w h = Inr (map int (ppm_header w h) @ body) \<and>
    body = concat (map (\<lambda>y. row_of_pixels w (\<lambda>x. pixel w h x y)) (range_of 0 h)) \<and>
    length body = nat (3 * w * h) \<and> list_all is_byte body"
proof -
  let ?body = "concat (map (\<lambda>y. row_of_pixels w (\<lambda>x. pixel w h x y)) (range_of 0 h))"
  have "length (concat (map (\<lambda>y. row_of_pixels w (\<lambda>x. pixel w h x y)) ys)) = length ys * (nat w * 3)" for ys by (induction ys) simp_all
  then have "length ?body = nat (3 * w * h)" using assms by (simp add: nat_mult_distrib)
  moreover have "list_all is_byte ?body"
    using row_bytes [OF assms(1), of _ h] by (auto simp: list_all_iff)
  ultimately show ?thesis using render_rows_run [OF assms(1), of "range_of 0 h" h] by (simp add: render_image_def)
qed

theorem render_is_per_pixel_witness: "\<exists>body. render_image 40 80 = Inr (map int (ppm_header 40 80) @ body) \<and> length body = 9600"
  using render_is_per_pixel [of 40 80] by auto

end
