(* ===== verification/Markdown.thy ===== *)
theory Markdown
  imports PyValue
begin

section \<open>Documents for Word\<close>

text \<open>
  \<open>tools/to_word.py\<close>: the subset of markdown the project's documents are written in, and the runs and blocks
  the converter makes of it. A document is the list of what is added to it; fonts, sizes and colours
  that are the same for every block of a kind are not repeated in it. \<open>digit\<close> is what \<open>\d\<close> matches.
  Documents that are printed from their structure are read back.
\<close>

subsection \<open>Inline markup\<close>

definition endswith :: "ustr \<Rightarrow> ustr \<Rightarrow> bool" where
  "endswith s t \<longleftrightarrow> length t \<le> length s \<and> drop (length s - length t) s = t"

text \<open>\<open>.+?\*\*\<close>, and \<open>[^d]+d\<close>: what is inside, and what follows.\<close>

fun bold_body :: "ustr \<Rightarrow> (ustr \<times> ustr) option" where
  "bold_body [] = None"
| "bold_body (c # cs) = (if c = 10 then None else if take 2 cs = [42, 42] then Some ([c], drop 2 cs)
     else map_option (\<lambda>(body, rest). (c # body, rest)) (bold_body cs))"

definition delimited :: "nat \<Rightarrow> ustr \<Rightarrow> (ustr \<times> ustr) option" where
  "delimited d cs = (let body = takeWhile (\<lambda>c. c \<noteq> d) cs; rest = dropWhile (\<lambda>c. c \<noteq> d) cs in
     if body = [] \<or> rest = [] then None else Some (body, tl rest))"

text \<open>A match of \<open>INLINE\<close> where the text begins.\<close>

definition match_here :: "ustr \<Rightarrow> (ustr \<times> ustr) option" where
  "match_here s = (case if take 2 s = [42, 42] then bold_body (drop 2 s) else None of
       Some (body, rest) \<Rightarrow> Some ([42, 42] @ body @ [42, 42], rest)
     | None \<Rightarrow> (case s of [] \<Rightarrow> None
         | c # cs \<Rightarrow> if c = 96 \<or> c = 42 then map_option (\<lambda>(body, rest). (c # body @ [c], rest)) (delimited c cs) else None))"

lemma two_stars: "take 2 s = [42, 42] \<Longrightarrow> s = 42 # 42 # drop 2 (s :: ustr)"
  by (metis append_Cons append_Nil append_take_drop_id)

lemma bold_body_Some: "bold_body s = Some (body, rest) \<Longrightarrow> s = body @ [42, 42] @ rest"
proof (induction s arbitrary: body)
  case (Cons c cs)
  then show ?case using two_stars [of cs] by (auto split: if_splits)
qed simp

lemma delimited_Some: "delimited d cs = Some (body, rest) \<Longrightarrow> cs = body @ d # rest"
proof -
  assume a: "delimited d cs = Some (body, rest)"
  then have "dropWhile (\<lambda>c. c \<noteq> d) cs = d # rest"
    using hd_dropWhile [of "\<lambda>c. c \<noteq> d" cs] by (cases "dropWhile (\<lambda>c. c \<noteq> d) cs") (auto simp: delimited_def Let_def split: if_splits)
  then show ?thesis using a takeWhile_dropWhile_id [of "\<lambda>c. c \<noteq> d" cs] by (auto simp: delimited_def Let_def split: if_splits)
qed

lemma match_here_Some: "match_here s = Some (piece, rest) \<Longrightarrow> s = piece @ rest \<and> piece \<noteq> []"
  using two_stars [of s]
  by (auto simp: match_here_def dest!: bold_body_Some delimited_Some split: option.splits if_splits list.splits)

text \<open>\<open>INLINE.split(text)\<close>; \<open>before\<close> is what was passed since the last match.\<close>

function split_inline :: "ustr \<Rightarrow> ustr \<Rightarrow> ustr list" where
  "split_inline before [] = [before]"
| "split_inline before (c # cs) = (case match_here (c # cs) of
       Some (piece, rest) \<Rightarrow> before # piece # split_inline [] rest
     | None \<Rightarrow> split_inline (before @ [c]) cs)"
  by pat_completeness auto
termination
proof (relation "measure (length \<circ> snd)")
  fix before :: ustr and c cs x and piece rest :: ustr
  assume "match_here (c # cs) = Some x" "(piece, rest) = x"
  then show "(([], rest), before, c # cs) \<in> measure (length \<circ> snd)"
    using match_here_Some [of "c # cs" piece rest] by (cases piece) auto
qed auto

record run =
  r_text :: ustr
  r_bold :: bool
  r_italic :: bool
  r_code :: bool

definition inside :: "nat \<Rightarrow> ustr \<Rightarrow> ustr" where
  "inside n piece = drop n (take (length piece - n) piece)"

definition run_of :: "bool \<Rightarrow> ustr \<Rightarrow> run" where
  "run_of base_bold piece =
     (if startswith piece [42, 42] \<and> endswith piece [42, 42] then \<lparr>r_text = inside 2 piece, r_bold = True, r_italic = False, r_code = False\<rparr>
      else if startswith piece [96] \<and> endswith piece [96] then \<lparr>r_text = inside 1 piece, r_bold = base_bold, r_italic = False, r_code = True\<rparr>
      else if startswith piece [42] \<and> endswith piece [42] \<and> 2 < length piece
        then \<lparr>r_text = inside 1 piece, r_bold = base_bold, r_italic = True, r_code = False\<rparr>
      else \<lparr>r_text = piece, r_bold = base_bold, r_italic = False, r_code = False\<rparr>)"

definition add_inline :: "bool \<Rightarrow> ustr \<Rightarrow> run list" where
  "add_inline base_bold text = map (run_of base_bold) (filter (\<lambda>piece. piece \<noteq> []) (split_inline [] text))"

text \<open>\<open>[label](target)\<close> becomes the label.\<close>

definition link_here :: "ustr \<Rightarrow> (ustr \<times> ustr) option" where
  "link_here s = (case s of [] \<Rightarrow> None | c # cs \<Rightarrow> if c \<noteq> 91 then None else
     (case delimited 93 cs of None \<Rightarrow> None | Some (label, rest) \<Rightarrow>
       if take 1 rest \<noteq> [40] then None else map_option (\<lambda>(target, rest'). (label, rest')) (delimited 41 (drop 1 rest))))"

lemma delimited_shorter: "delimited d cs = Some (body, rest) \<Longrightarrow> length rest < length cs"
  by (auto dest!: delimited_Some)

lemma link_here_shorter: "link_here s = Some (label, rest) \<Longrightarrow> length rest < length s"
  by (auto simp: link_here_def dest!: delimited_shorter split: list.splits option.splits if_splits)

function strip_links :: "ustr \<Rightarrow> ustr" where
  "strip_links [] = []"
| "strip_links (c # cs) = (case link_here (c # cs) of Some (label, rest) \<Rightarrow> label @ strip_links rest | None \<Rightarrow> c # strip_links cs)"
  by pat_completeness auto
termination
proof (relation "measure length")
  fix c cs x and label rest :: ustr
  assume "link_here (c # cs) = Some x" "(label, rest) = x"
  then show "(rest, c # cs) \<in> measure length" using link_here_shorter [of "c # cs" label rest] by auto
qed auto

subsection \<open>Blocks\<close>

datatype block =
    Md_Code ustr
  | Md_Table "run list list list"
  | Md_Empty
  | Md_Rule
  | Md_Heading nat "run list"
  | Md_Quote "run list"
  | Md_Bullet "run list"
  | Md_Number "run list"
  | Md_Body "run list"

definition strip_char :: "nat \<Rightarrow> ustr \<Rightarrow> ustr" where
  "strip_char d s = rstrip_by (\<lambda>c. c = d) (dropWhile (\<lambda>c. c = d) s)"

definition split_row :: "ustr \<Rightarrow> ustr list" where
  "split_row line = map strip (split_by (\<lambda>c. c = 124) (strip_char 124 (strip line)))"

definition is_divider :: "ustr \<Rightarrow> bool" where
  "is_divider line = (let s = strip line in 3 \<le> length s \<and> startswith s [124] \<and> endswith s [124] \<and>
     list_all (\<lambda>c. is_space c \<or> c \<in> {58, 124, 45}) (inside 1 s))"

definition table_cells :: "nat \<Rightarrow> bool \<Rightarrow> ustr list \<Rightarrow> run list list" where
  "table_cells width first row = map (\<lambda>c. add_inline first (strip_links (if c < length row then row ! c else []))) [0..<width]"

definition add_table :: "ustr list \<Rightarrow> block list" where
  "add_table lines = (let rows = map split_row (filter (\<lambda>l. \<not> is_divider l) lines) in
     case rows of [] \<Rightarrow> []
     | header # others \<Rightarrow> let width = foldl max (length header) (map length others) in
         [Md_Table (table_cells width True header # map (table_cells width False) others), Md_Empty])"

definition fenced :: "ustr \<Rightarrow> bool" where
  "fenced line = startswith (strip line) [96, 96, 96]"

definition piped :: "ustr \<Rightarrow> bool" where
  "piped line = startswith (strip line) [124]"

definition add_code :: "ustr list \<Rightarrow> block" where
  "add_code lines = Md_Code (join [10] lines)"

text \<open>\<open>^[-*] \<close> and \<open>^\d+\. \<close>, and the latter's removal with the spaces after it.\<close>

definition bulleted :: "ustr \<Rightarrow> bool" where
  "bulleted s \<longleftrightarrow> startswith s [45, 32] \<or> startswith s [42, 32]"

definition numbered :: "(nat \<Rightarrow> bool) \<Rightarrow> ustr \<Rightarrow> bool" where
  "numbered digit s \<longleftrightarrow> takeWhile digit s \<noteq> [] \<and> startswith (dropWhile digit s) [46, 32]"

definition unnumbered :: "(nat \<Rightarrow> bool) \<Rightarrow> ustr \<Rightarrow> ustr" where
  "unnumbered digit s = dropWhile is_space (drop 1 (dropWhile digit s))"

definition hashes :: "ustr \<Rightarrow> nat" where
  "hashes s = length s - length (dropWhile (\<lambda>c. c = 35) s)"

text \<open>A line that is neither a fence nor the start of a table.\<close>

definition add_line :: "(nat \<Rightarrow> bool) \<Rightarrow> ustr \<Rightarrow> block list" where
  "add_line digit s =
     (if s = [] then []
      else if s \<in> {[45, 45, 45], [42, 42, 42], [95, 95, 95]} then [Md_Rule]
      else if startswith s [35]
        then [Md_Heading (min (hashes s) 4) (add_inline False (strip_links (strip (drop (hashes s) s))))]
      else if startswith s [62]
        then [Md_Quote (map (\<lambda>r. r\<lparr>r_italic := True\<rparr>) (add_inline False (strip_links (strip (dropWhile (\<lambda>c. c = 62 \<or> c = 32) s)))))]
      else if bulleted s then [Md_Bullet (add_inline False (strip_links (drop 2 s)))]
      else if numbered digit s then [Md_Number (add_inline False (strip_links (unnumbered digit s)))]
      else [Md_Body (add_inline False (strip_links s))])"

function convert :: "(nat \<Rightarrow> bool) \<Rightarrow> ustr list \<Rightarrow> block list" where
  "convert digit [] = []"
| "convert digit (line # rest) =
     (if fenced line
      then add_code (takeWhile (\<lambda>l. \<not> fenced l) rest) # convert digit (drop 1 (dropWhile (\<lambda>l. \<not> fenced l) rest))
      else if piped line \<and> rest \<noteq> [] \<and> is_divider (hd rest)
      then add_table (takeWhile piped (line # rest)) @ convert digit (dropWhile piped (line # rest))
      else add_line digit (strip line) @ convert digit rest)"
  by pat_completeness auto
termination
proof (relation "measure (length \<circ> snd)")
  fix digit :: "nat \<Rightarrow> bool" and line :: ustr and rest :: "ustr list"
  have "length (dropWhile q rest) < Suc (length rest)" for q using length_dropWhile_le [of q rest] by simp
  then show "((digit, drop 1 (dropWhile (\<lambda>l. \<not> fenced l) rest)), digit, line # rest) \<in> measure (length \<circ> snd)"
    "\<lbrakk>\<not> fenced line; piped line \<and> rest \<noteq> [] \<and> is_divider (hd rest)\<rbrakk> \<Longrightarrow>
     ((digit, dropWhile piped (line # rest)), digit, line # rest) \<in> measure (length \<circ> snd)"
    by (auto simp: less_diff_conv intro: less_SucI le_less_trans [OF diff_le_self])
qed auto

subsection \<open>Inline markup is read back\<close>

datatype span = Plain ustr | Bold ustr | Italic ustr | Mono ustr

fun print_span :: "span \<Rightarrow> ustr" where
  "print_span (Plain t) = t"
| "print_span (Bold t) = [42, 42] @ t @ [42, 42]"
| "print_span (Italic t) = [42] @ t @ [42]"
| "print_span (Mono t) = [96] @ t @ [96]"

definition clean :: "ustr \<Rightarrow> bool" where
  "clean t \<longleftrightarrow> t \<noteq> [] \<and> set t \<inter> {42, 96, 10} = {}"

fun span_run :: "bool \<Rightarrow> span \<Rightarrow> run" where
  "span_run bb (Plain t) = \<lparr>r_text = t, r_bold = bb, r_italic = False, r_code = False\<rparr>"
| "span_run bb (Bold t) = \<lparr>r_text = t, r_bold = True, r_italic = False, r_code = False\<rparr>"
| "span_run bb (Italic t) = \<lparr>r_text = t, r_bold = bb, r_italic = True, r_code = False\<rparr>"
| "span_run bb (Mono t) = \<lparr>r_text = t, r_bold = bb, r_italic = False, r_code = True\<rparr>"

fun is_plain :: "span \<Rightarrow> bool" where
  "is_plain (Plain t) = True"
| "is_plain _ = False"

fun span_text :: "span \<Rightarrow> ustr" where
  "span_text (Plain t) = t"
| "span_text (Bold t) = t"
| "span_text (Italic t) = t"
| "span_text (Mono t) = t"

fun spans_ok :: "span list \<Rightarrow> bool" where
  "spans_ok [] = True"
| "spans_ok (a # bs) \<longleftrightarrow> clean (span_text a) \<and> (case bs of [] \<Rightarrow> True | b # _ \<Rightarrow> \<not> (is_plain a \<and> is_plain b)) \<and> spans_ok bs"

abbreviation print_spans :: "span list \<Rightarrow> ustr" where
  "print_spans sps \<equiv> concat (map print_span sps)"

lemma delimited_run: "t \<noteq> [] \<Longrightarrow> d \<notin> set t \<Longrightarrow> delimited d (t @ d # rest) = Some (t, rest)"
proof -
  assume t: "t \<noteq> []" "d \<notin> set t"
  then have "\<forall>c\<in>set t. c \<noteq> d" by blast
  from takeWhile_append_stop [OF this] dropWhile_append_stop [OF this] t show ?thesis by (simp add: delimited_def Let_def)
qed

lemma bold_body_run: "clean t \<Longrightarrow> bold_body (t @ 42 # 42 # rest) = Some (t, rest)"
proof (induction t)
  case (Cons c t)
  then show ?case by (cases t) (auto simp: clean_def)
qed (simp add: clean_def)

lemma match_span: "clean (span_text sp) \<Longrightarrow> \<not> is_plain sp \<Longrightarrow> match_here (print_span sp @ rest) = Some (print_span sp, rest)"
proof (cases sp)
  case (Italic t)
  assume "clean (span_text sp)"
  then obtain c t' where "t = c # t'" "c \<noteq> 42" "42 \<notin> set t" using Italic by (cases t) (auto simp: clean_def)
  then show ?thesis using Italic delimited_run [of t 42 rest] by (simp add: match_here_def)
qed (simp_all add: match_here_def bold_body_run delimited_run clean_def)

lemma split_plain: "set t \<inter> {42, 96} = {} \<Longrightarrow> split_inline before (t @ rest) = split_inline (before @ t) rest"
  by (induction t arbitrary: before) (simp_all add: match_here_def)

lemma split_match: "match_here s = Some (piece, rest) \<Longrightarrow> split_inline before s = before # piece # split_inline [] rest"
proof (cases s)
  case Nil
  assume "match_here s = Some (piece, rest)"
  then show ?thesis using Nil match_here_Some [of s piece rest] by auto
qed simp

lemma split_spans:
  assumes "spans_ok sps" and "before = [] \<or> sps = [] \<or> \<not> is_plain (hd sps)"
  shows "filter (\<lambda>p. p \<noteq> []) (split_inline before (print_spans sps)) = (if before = [] then [] else [before]) @ map print_span sps"
  using assms
proof (induction sps arbitrary: before)
  case (Cons sp sps)
  have ok: "clean (span_text sp)" "spans_ok sps" using Cons.prems(1) by simp_all
  show ?case
  proof (cases "is_plain sp")
    case True
    then obtain t where t: "sp = Plain t" by (cases sp) auto
    then have "sps = [] \<or> \<not> is_plain (hd sps)" using Cons.prems(1) by (cases sps) auto
    from Cons.IH [OF ok(2), of t] this have "filter (\<lambda>p. p \<noteq> []) (split_inline t (print_spans sps)) = t # map print_span sps"
      using ok(1) t by (auto simp: clean_def)
    moreover have "before = []" "set t \<inter> {42, 96} = {}" using Cons.prems(2) ok(1) t by (auto simp: clean_def)
    ultimately show ?thesis using split_plain [of t "[]"] t by simp
  next
    case False
    have "print_span sp \<noteq> []" using ok(1) by (cases sp) (auto simp: clean_def)
    then show ?thesis
      using split_match [OF match_span [OF ok(1) False], of before "print_spans sps"] Cons.IH [OF ok(2), of "[]"] by simp
  qed
qed simp

lemma run_span: "clean (span_text sp) \<Longrightarrow> run_of bb (print_span sp) = span_run bb sp"
proof (cases sp)
  case (Plain t)
  assume "clean (span_text sp)"
  then obtain c t' where "t = c # t'" "c \<noteq> 42" "c \<noteq> 96" using Plain by (cases t) (auto simp: clean_def)
  then show ?thesis using Plain by (simp add: run_of_def startswith_def)
next
  case (Italic t)
  assume "clean (span_text sp)"
  then obtain c t' where "t = c # t'" "c \<noteq> 42" using Italic by (cases t) (auto simp: clean_def)
  then show ?thesis using Italic by (simp add: run_of_def startswith_def endswith_def inside_def)
qed (simp_all add: run_of_def startswith_def endswith_def inside_def clean_def)

lemma add_inline_spans: "spans_ok sps \<Longrightarrow> add_inline bb (print_spans sps) = map (span_run bb) sps"
proof -
  assume ok: "spans_ok sps"
  then have "list_all (\<lambda>sp. clean (span_text sp)) sps" by (induction sps) simp_all
  then have "map (run_of bb) (map print_span sps) = map (span_run bb) sps" by (induction sps) (simp_all add: run_span)
  then show ?thesis using split_spans [OF ok, of "[]"] by (simp add: add_inline_def)
qed

subsection \<open>Documents are read back\<close>

datatype part =
    Title nat "span list"
  | Listing "ustr list"
  | Bulleted "span list"
  | Numbered ustr "span list"
  | Quoted "span list"
  | Ruler
  | Prose "span list"

fun print_part :: "part \<Rightarrow> ustr list" where
  "print_part (Title n sps) = [replicate n 35 @ 32 # print_spans sps]"
| "print_part (Listing ls) = [[96, 96, 96]] @ ls @ [[96, 96, 96]]"
| "print_part (Bulleted sps) = [45 # 32 # print_spans sps]"
| "print_part (Numbered ds sps) = [ds @ 46 # 32 # print_spans sps]"
| "print_part (Quoted sps) = [62 # 32 # print_spans sps]"
| "print_part Ruler = [[45, 45, 45]]"
| "print_part (Prose sps) = [print_spans sps]"

definition print_parts :: "part list \<Rightarrow> ustr list" where
  "print_parts ps = concat (map (\<lambda>p. print_part p @ [[]]) ps)"

text \<open>Text that is neither empty nor surrounded by spaces and holds no link.\<close>

definition text_ok :: "span list \<Rightarrow> bool" where
  "text_ok sps \<longleftrightarrow> spans_ok sps \<and> sps \<noteq> [] \<and> 91 \<notin> set (print_spans sps) \<and>
     \<not> is_space (hd (print_spans sps)) \<and> \<not> is_space (last (print_spans sps))"

definition ordinary :: "(nat \<Rightarrow> bool) \<Rightarrow> ustr \<Rightarrow> bool" where
  "ordinary digit t \<longleftrightarrow> \<not> startswith t [96, 96, 96] \<and> hd t \<notin> {35, 62, 124} \<and> \<not> bulleted t \<and> \<not> numbered digit t \<and> t \<notin> {[45, 45, 45], [42, 42, 42], [95, 95, 95]}"

fun part_ok :: "(nat \<Rightarrow> bool) \<Rightarrow> part \<Rightarrow> bool" where
  "part_ok digit (Title n sps) \<longleftrightarrow> 0 < n \<and> text_ok sps"
| "part_ok digit (Listing ls) \<longleftrightarrow> list_all (\<lambda>l. \<not> fenced l) ls"
| "part_ok digit (Bulleted sps) \<longleftrightarrow> text_ok sps"
| "part_ok digit (Numbered ds sps) \<longleftrightarrow> ds \<noteq> [] \<and> list_all digit ds \<and> text_ok sps"
| "part_ok digit (Quoted sps) \<longleftrightarrow> text_ok sps \<and> hd (print_spans sps) \<noteq> 62"
| "part_ok digit Ruler \<longleftrightarrow> True"
| "part_ok digit (Prose sps) \<longleftrightarrow> text_ok sps \<and> ordinary digit (print_spans sps)"

fun part_block :: "part \<Rightarrow> block" where
  "part_block (Title n sps) = Md_Heading (min n 4) (map (span_run False) sps)"
| "part_block (Listing ls) = Md_Code (join [10] ls)"
| "part_block (Bulleted sps) = Md_Bullet (map (span_run False) sps)"
| "part_block (Numbered ds sps) = Md_Number (map (span_run False) sps)"
| "part_block (Quoted sps) = Md_Quote (map (\<lambda>sp. span_run False sp\<lparr>r_italic := True\<rparr>) sps)"
| "part_block Ruler = Md_Rule"
| "part_block (Prose sps) = Md_Body (map (span_run False) sps)"

text \<open>A digit is none of the characters that have a meaning at the start of a line.\<close>

definition digit_ok :: "(nat \<Rightarrow> bool) \<Rightarrow> bool" where
  "digit_ok digit \<longleftrightarrow> (\<forall>c. digit c \<longrightarrow> \<not> is_space c \<and> c \<notin> {35, 42, 45, 46, 62, 95, 96, 124})"

lemma strip_links_id: "91 \<notin> set s \<Longrightarrow> strip_links s = s"
  by (induction s) (auto simp: link_here_def)

lemma strip_id: "s \<noteq> [] \<Longrightarrow> \<not> is_space (hd s) \<Longrightarrow> \<not> is_space (last s) \<Longrightarrow> strip s = s"
proof -
  assume s: "s \<noteq> []" "\<not> is_space (hd s)" "\<not> is_space (last s)"
  then have "dropWhile is_space s = s" by (cases s) auto
  moreover have "dropWhile is_space (rev s) = rev s" using s by (cases s rule: rev_cases) auto
  ultimately show ?thesis by (simp add: strip_def rstrip_by_def)
qed

lemma text_okD:
  assumes "text_ok sps"
  shows "print_spans sps \<noteq> []" "strip (print_spans sps) = print_spans sps" "add_inline False (strip_links (print_spans sps)) = map (span_run False) sps"
    "\<not> is_space (hd (print_spans sps))" "\<not> is_space (last (print_spans sps))"
proof -
  obtain sp rest where s: "sps = sp # rest" "clean (span_text sp)" using assms by (cases sps) (auto simp: text_ok_def)
  then show n: "print_spans sps \<noteq> []" by (cases sp) (auto simp: clean_def)
  show "\<not> is_space (hd (print_spans sps))" "\<not> is_space (last (print_spans sps))" using assms by (simp_all add: text_ok_def)
  with n show "strip (print_spans sps) = print_spans sps" by (intro strip_id)
  show "add_inline False (strip_links (print_spans sps)) = map (span_run False) sps"
    using assms by (simp add: text_ok_def strip_links_id add_inline_spans)
qed

declare convert.simps(2) [simp del]

lemma convert_blank [simp]: "convert digit ([] # rest) = convert digit rest"
  by (simp add: convert.simps(2) strip_def rstrip_by_def fenced_def piped_def startswith_def add_line_def)

lemma convert_line:
  assumes "strip line = line" "line \<noteq> []" "hd line \<noteq> 124" "\<not> startswith line [96, 96, 96]"
  shows "convert digit (line # [] # rest) = add_line digit line @ convert digit rest"
proof -
  have "\<not> fenced line" "\<not> piped line" using assms by (cases line; simp add: fenced_def piped_def startswith_def)+
  then show ?thesis using assms(1) by (simp add: convert.simps(2) [of digit line])
qed

text \<open>A line that begins with a marker is read as the block the marker announces.\<close>

lemma convert_marked:
  assumes "text_ok sps" "p \<noteq> []" "\<not> is_space (hd p)" "hd p \<noteq> 124" "hd p \<noteq> 96"
  shows "convert digit ((p @ print_spans sps) # [] # rest) = add_line digit (p @ print_spans sps) @ convert digit rest"
proof (rule convert_line)
  show "strip (p @ print_spans sps) = p @ print_spans sps" using text_okD [OF assms(1)] assms(2,3) by (intro strip_id) simp_all
qed (use assms in \<open>cases p; simp add: startswith_def\<close>)+

lemma title_line:
  assumes "text_ok sps" "0 < n"
  shows "add_line digit (replicate n 35 @ 32 # print_spans sps) = [part_block (Title n sps)]"
proof -
  let ?t = "print_spans sps"
  have d: "dropWhile (\<lambda>c. c = 35) (replicate n 35 @ 32 # ?t) = 32 # ?t" by (rule dropWhile_append_stop) simp_all
  then have h: "hashes (replicate n 35 @ 32 # ?t) = n" by (simp add: hashes_def)
  have "strip (32 # ?t) = ?t" using text_okD(2) [OF assms(1)] by (simp add: strip_def is_space_def)
  moreover obtain m where "n = Suc m" using assms(2) by (cases n) auto
  ultimately show ?thesis
    using h text_okD(3) [OF assms(1)] by (simp add: add_line_def startswith_def)
qed

lemma quoted_line:
  assumes "text_ok sps" "hd (print_spans sps) \<noteq> 62"
  shows "add_line digit (62 # 32 # print_spans sps) = [part_block (Quoted sps)]"
proof -
  obtain c t where t: "print_spans sps = c # t" "c \<noteq> 62" using text_okD(1) [OF assms(1)] assms(2) by (cases "print_spans sps") auto
  have "c \<noteq> 32" using text_okD(4) [OF assms(1)] t(1) by (auto simp: is_space_def)
  then have "dropWhile (\<lambda>c. c = 62 \<or> c = 32) (62 # 32 # print_spans sps) = print_spans sps" using t by simp
  then show ?thesis using text_okD(2,3) [OF assms(1)] by (simp add: add_line_def startswith_def)
qed

lemma numbered_line:
  assumes "text_ok sps" "ds \<noteq> []" "list_all digit ds" "digit_ok digit"
  shows "add_line digit (ds @ 46 # 32 # print_spans sps) = [part_block (Numbered ds sps)]"
proof -
  let ?t = "print_spans sps" and ?s = "ds @ 46 # 32 # print_spans sps"
  have "\<not> digit 46" using assms(4) by (auto simp: digit_ok_def)
  then have w: "takeWhile digit ?s = ds" "dropWhile digit ?s = 46 # 32 # ?t"
    using assms(3) by (auto simp: list_all_iff intro!: takeWhile_append_stop dropWhile_append_stop)
  have "dropWhile is_space ?t = ?t" using text_okD(1,4) [OF assms(1)] by (cases ?t) auto
  moreover have "is_space 32" by (simp add: is_space_def)
  ultimately have "unnumbered digit ?s = ?t" by (simp add: unnumbered_def w(2))
  moreover have "numbered digit ?s" using assms(2) by (simp add: numbered_def w startswith_def)
  moreover obtain c cs where c: "ds = c # cs" "c \<notin> {35, 42, 45, 46, 62, 95, 96, 124}" using assms(2-4) by (cases ds) (auto simp: digit_ok_def)
  ultimately show ?thesis using text_okD(3) [OF assms(1)] by (simp add: add_line_def bulleted_def startswith_def)
qed

lemma convert_part:
  assumes "digit_ok digit" "part_ok digit p"
  shows "convert digit (print_part p @ [] # rest) = part_block p # convert digit rest"
proof (cases p)
  case (Title n sps)
  then show ?thesis
    using assms(2) convert_marked [of sps "replicate n 35 @ [32]" digit rest] title_line [of sps n digit] by (cases n) (auto simp: is_space_def)
next
  case (Listing ls)
  have f: "fenced [96, 96, 96]" by (simp add: fenced_def strip_id is_space_def startswith_def)
  then have "takeWhile (\<lambda>l. \<not> fenced l) (ls @ [96, 96, 96] # [] # rest) = ls" "dropWhile (\<lambda>l. \<not> fenced l) (ls @ [96, 96, 96] # [] # rest) = [96, 96, 96] # [] # rest"
    using assms(2) Listing by (auto simp: list_all_iff intro!: takeWhile_append_stop dropWhile_append_stop)
  then show ?thesis using f Listing by (simp add: convert.simps(2) [of digit "[96, 96, 96]"] add_code_def)
next
  case (Bulleted sps)
  then show ?thesis
    using assms(2) convert_marked [of sps "[45, 32]" digit rest] text_okD(3) [of sps] by (simp add: is_space_def add_line_def startswith_def bulleted_def)
next
  case (Numbered ds sps)
  have "hd ds \<noteq> 124" "hd ds \<noteq> 96" "\<not> is_space (hd ds)" using assms Numbered by (cases ds; auto simp: digit_ok_def)+
  then show ?thesis using assms Numbered convert_marked [of sps "ds @ [46, 32]" digit rest] numbered_line [of sps ds digit] by simp
next
  case (Quoted sps)
  then show ?thesis using assms(2) convert_marked [of sps "[62, 32]" digit rest] quoted_line [of sps digit] by (simp add: is_space_def)
next
  case Ruler
  have "strip [45, 45, 45] = [45, 45, 45]" by (simp add: strip_id is_space_def)
  then show ?thesis using Ruler convert_line [of "[45, 45, 45]" digit rest] by (simp add: startswith_def add_line_def)
next
  case (Prose sps)
  note t = text_okD [of sps]
  have ok: "text_ok sps" "ordinary digit (print_spans sps)" using assms(2) Prose by simp_all
  have "add_line digit (print_spans sps) = [Md_Body (map (span_run False) sps)]"
    using ok t by (cases "print_spans sps") (auto simp: ordinary_def add_line_def startswith_def)
  then show ?thesis using Prose ok t convert_line [of "print_spans sps" digit rest] by (simp add: ordinary_def)
qed

text \<open>Documents arrive in Word as they were written. A document printed from its structure, titles,
  paragraphs, quotations, bullets, numbered items, rules and listings with bold, italic and monospaced
  spans, is converted to exactly that structure: nothing is lost, no marker is left over, and a listing
  is kept as it is whatever its lines look like.\<close>

theorem documents_are_read_back:
  assumes "digit_ok digit" and "list_all (part_ok digit) ps"
  shows "convert digit (print_parts ps) = map part_block ps"
  using assms(2) by (induction ps) (simp_all add: print_parts_def convert_part [OF assms(1)] del: print_part.simps part_block.simps)

text \<open>What falls between the patterns is lost: a backtick or two stars on their own are taken for an empty
  span.\<close>

theorem lone_marks_are_lost: "add_inline False [96] = [\<lparr>r_text = [], r_bold = False, r_italic = False, r_code = True\<rparr>] \<and>
  add_inline False [42, 42] = [\<lparr>r_text = [], r_bold = True, r_italic = False, r_code = False\<rparr>]"
  by (simp add: add_inline_def match_here_def delimited_def run_of_def startswith_def endswith_def inside_def)

definition sample_parts :: "part list" where
  "sample_parts = [Title 2 [Plain (u ''A ''), Bold (u ''b'')], Listing [u ''# no title'', u ''- no item''], Numbered (u ''1'') [Mono (u ''x''), Plain (u '' y'')],
     Quoted [Italic (u ''q'')], Ruler, Prose [Plain (u ''End.'')]]"

theorem documents_are_read_back_witness:
  "list_all (part_ok is_digit) sample_parts \<and> convert is_digit (print_parts sample_parts) = map part_block sample_parts"
proof -
  have "digit_ok is_digit" by (auto simp: digit_ok_def is_digit_def is_space_def)
  moreover have "list_all (part_ok is_digit) sample_parts"
    by (simp add: sample_parts_def text_ok_def clean_def ordinary_def fenced_def startswith_def bulleted_def numbered_def is_digit_def is_space_def strip_def rstrip_by_def u_def)
  ultimately show ?thesis using documents_are_read_back [of is_digit sample_parts] by simp
qed

end
