(* ===== verification/Spec2Isabelle.thy ===== *)
theory Spec2Isabelle
  imports EndToEnd Entry Bitmap Markdown
begin

section \<open>Semaphore: a verified model of the messenger\<close>

text \<open>
  \<^bold>\<open>The program.\<close> A client and a server exchange frames, one JSON object per line, over TCP
  (\<open>src/im/common\<close>). The server (\<open>src/im/server\<close>) runs two threads per connection, a router that
  handles one frame at a time under the registries' and the database's locks, and a sqlite
  database with accounts, contacts, rooms, messages and the queue of messages for people who are
  away. The client (\<open>src/im/client\<close>) has a connection with a state machine, a heartbeat and a
  supervisor that reconnects; a model of conversations that tells its listeners what changed; a
  controller that turns gestures into frames and frames into changes of the model; and views.
  Message bodies are sealed end to end (\<open>src/im/crypto\<close>): the server relays and stores ciphertext.

  \<^bold>\<open>How code becomes definitions.\<close> A method is a computation \<open>('s, 'a) py\<close>: a function from the
  state to an outcome, a value or an exception, and the state reached. An exception undoes nothing
  unless the code does. Objects are records that extend each other, from the \<open>world\<close> (clock,
  uuid4, random bytes: arbitrary functions of the number of draws) to \<open>database\<close>, \<open>server\<close> and
  \<open>chat_server\<close> on one side and to \<open>link\<close>, \<open>session\<close>, \<open>client\<close> and then \<open>console\<close> or \<open>tk_view\<close> on the other. A value
  that arrives in a frame is a \<open>pyval\<close>, with Python's truth, comparison, \<open>str\<close> and \<open>int\<close>; strings are
  lists of code points. Code that is not part of the program is a parameter: scrypt, X25519,
  HKDF and AES-GCM with the documented laws as hypotheses (\<open>crypto_ok\<close>, satisfied by
  \<open>toy_crypto\<close>), \<open>str.lower\<close>, \<open>str.upper\<close>, \<open>str.casefold\<close> and the formatting of a time (\<open>toolkit\<close>).

  \<^bold>\<open>The theories\<close>, in the order they build on each other:
  \<^item> \<open>Prelude\<close>: the effect, \<open>try\<close> and loops over lists, dictionaries in insertion order, and the
    calculus for facts about whole computations: a reflexive and transitive relation between the
    states before and after that the primitives respect is respected by every composition
    (locale \<open>run_rel\<close>; \<open>world_rel\<close> adds the draws).
  \<^item> \<open>PyValue\<close>, \<open>Utf8\<close>, \<open>Json\<close>: Python values, \<open>str.encode\<close> and \<open>bytes.decode\<close>, \<open>json.dumps\<close> and
    \<open>json.loads\<close> with the error messages the server repeats.
  \<^item> \<open>Frames\<close>, \<open>Codec\<close> (\<open>common/frames.py\<close>, \<open>codec.py\<close>): \<open>Frame\<close>, its dictionary form, encoding, decoding and
    the \<open>LineBuffer\<close>. Round trips for a frame and for any cutting of a stream; the buffer is bounded.
  \<^item> \<open>Store\<close> (\<open>server/store\<close>): the tables and every method of the four stores. Registration and
    verification, flush, receipts, history.
  \<^item> \<open>Registries\<close> (\<open>server/registries.py\<close>): sessions and rooms in memory. The router's interface to a
    room store is the locale \<open>room_store\<close>; both implementations interpret it and agree.
  \<^item> \<open>Router\<close> (\<open>server/router.py\<close>): every handler, whole. \<open>Routing\<close>: who is told what, who becomes whom,
    with the locales \<open>quiet_rel\<close>, \<open>handler_rel\<close>, \<open>filing_rel\<close> and \<open>full_rel\<close>, which give a fact about all handlers
    from its preservation by the few operations it depends on.
    \<open>Delivery\<close>: messages for people who are away. \<open>Membership\<close>: rooms and history.
    \<open>Shortfalls\<close>: where the router does not do what its comments say.
  \<^item> \<open>Connections\<close> (\<open>server/handler.py\<close>, \<open>server.py\<close>): reader and writer loops, accepting, ending and
    shutting down; the process as an inductive step relation and its invariant over all
    reachable states.
  \<^item> \<open>ConnState\<close> (\<open>client/net/state.py\<close>, \<open>backoff.py\<close>): the state machine and the delays.
  \<^item> \<open>ServerLink\<close> (\<open>client/net/connection.py\<close>): connecting, the handshake, sending, the three threads,
    and the locale \<open>link_rel\<close>, which carries a relation that the single moves respect through every call
    and every list of turns of the other threads; its interpretations are in the client's theories.
    \<open>Reconnect\<close> (\<open>client/net/session.py\<close>): the supervisor.
  \<^item> \<open>Envelope\<close> (\<open>crypto/identity.py\<close>, \<open>envelope.py\<close>) and \<open>Keyring\<close> (\<open>crypto/keyring.py\<close>): base64, the key
    file, deriving, sealing, opening, the cache of keys, rooms.
  \<^item> \<open>ChatModel\<close> (\<open>client/model\<close>): conversations, presence, rooms, receipts, search, and the events.
  \<^item> \<open>Controller\<close> (\<open>client/controller/chat.py\<close>): every gesture and every inbound frame, with the locales
    \<open>call_rel\<close> and \<open>client_rel\<close> that carry a fact about the primitives through all of them.
    \<open>ClientSafety\<close>: nothing leaves in the clear. \<open>ClientFlow\<close>: what happens to messages and keys.
  \<^item> \<open>View\<close>: what both views have in common, namely that the controller never touches them.
  \<^item> \<open>Console\<close> (\<open>client/view/console.py\<close>): the queue, the loop, the commands and what is printed.
    The terminal is a function that says which prompts and reports it refuses; the lines printed for
    an event are taken to be accepted.
  \<^item> \<open>Screen\<close> (the rendering half of \<open>client/view/tk/app.py\<close>): what the widgets show, and what every event
    redraws. \<open>RoomDialog\<close> (\<open>room_dialog.py\<close>): the form for rooms, against the server's rule.
    \<open>TkView\<close> (the other half of \<open>app.py\<close>): the queue and its polling, the composer, the menus and
    windows as the steps \<open>tk_step\<close>; the locale \<open>window_inv\<close> gives an invariant of the window over all of
    them from its preservation by the calls of the controller, and is interpreted twice, for the
    composer there and for what is drawn in \<open>Window\<close>. \<open>Composer\<close>: typing, its timers (the
    handles \<open>after\<close> gave out and the one that is kept), sending and concrete windows.
    \<open>Look\<close> (\<open>widgets.py\<close>, \<open>theme.py\<close>, \<open>backdrop.py\<close>): what is painted, as texts; \<open>Canvas\<close>: scaling, fonts,
    shapes, buttons, rows, the logo, the foot of the rail, the strip and the header as items with coordinates; \<open>Pane\<close>: the transcript on its canvas, which
    refines \<open>Look\<close>'s, its layout and its background. \<open>Bitmap\<close>: the pixels of that background, which the optimised
    loops compute as the formula for a single pixel does.
  \<^item> \<open>Startup\<close> (\<open>client/__main__.py\<close>): from the login to the window and its end. \<open>Entry\<close> (the
    rest of it, \<open>server/__main__.py\<close> and \<open>crypto/tls.py\<close>): who the client is, the console's \<open>main\<close>, the server's
    life over restarts, and the files and contexts of TLS. An identity survives a restart, the
    session is closed however \<open>main\<close> ends, a restarted server has lost nothing.
  \<^item> \<open>Markdown\<close> (\<open>tools/to_word.py\<close>): the converter of the project's documents; printed documents are
    read back.
  \<^item> \<open>EndToEnd\<close>: the parts put together, one client's controller, writer and bytes, the server's reader,
    router and writer, the other client's reader and controller.

  \<^bold>\<open>What is shown.\<close> The numbered statements are the properties; each has its concrete instance
  beside it. For the server: the sender of what is relayed is who logged in, direct and room
  messages reach the right people and nobody else with the contents meant for them, a login needs the
  password and hands over the queue (with the cases in which the code loses some of it), history shows
  nobody else's conversations, rooms keep to their rules, the process invariant, and what
  is left when a connection ends. For the wire: round trips. For the client: what is sent is
  sealed, what was sealed opens, held text goes out, first messages are read, the connection
  notices a dead link and the session tries again until it is back, the model tells its listeners everything, the
  console survives every input and reports every exception (while its terminal takes the prompt), the window shows what the model holds, the dialog for rooms answers what was asked and refuses what the server would refuse,
  the client comes up live and keeps its identity over a restart, and the transcript's canvas, its
  layout and its background are what they are meant to be. Across both: what one person types is what the other reads. Where the
  code falls short of what it says, a theorem says how.

  \<^bold>\<open>Interleaving and bounds.\<close> What one thread does between two blocking calls is one step. On the
  server the steps are those of \<open>server_step\<close>; handling one frame is one of them, so that the
  interleaving of two handlers between the locks they take is not covered. On the client a call that
  blocks takes what the other threads do meanwhile as a list: an argument, a list of \<open>io\<close>, for
  connecting and for waiting for a reply; and for \<open>send\<close>, waiting for a place in a full queue, and
  \<open>close\<close>, waiting for the writer, the lists of \<open>turn\<close>s in the fields \<open>lk_wait_turns\<close> and \<open>lk_flush_turns\<close>, which
  are arbitrary. In a turn another thread may read, write with or without success, send a heartbeat
  or close, and wait itself. A theorem that restricts such a list says so in its statement and in its
  text; the others hold for every one. Loops run over finite lists, over what \<open>recv\<close> returned or over
  the queued items; \<open>write_all\<close> is given the number of items to write. The only definitions with fuel
  are \<open>json_value\<close> of \<open>Json\<close> and the readers of objects and arrays it calls; \<open>loads\<close> gives them twice the length of the text
  plus two, which \<open>loads_fuel\<close> proves to be enough for every text.

  \<^bold>\<open>Not modelled.\<close> Sockets, the TLS handshake and the issuing of certificates (\<open>Entry\<close> takes them as
  parameters); sqlite's connection, locks and pragmas; of the Tk view the placing of widgets in
  their frames and the calls into \<open>tkinter\<close> that build them, the measuring of text (a parameter of
  \<open>Canvas\<close> and \<open>Pane\<close>), rounding errors of floats, and the exception a renderer raises for a time
  that \<open>datetime\<close> cannot represent; parsing arguments and prompting; demonstrations, \<open>tools/doctor.py\<close> and tests.
  Logging is left out throughout. A sender that is neither missing nor a string is answered by the
  client's model with \<open>AttributeError\<close>, see \<open>Controller\<close>.
\<close>

end
